(* ===== verification/Prelude.thy ===== *)
theory Prelude
  imports Main "HOL-Library.Word"
begin

text \<open>
  Shared vocabulary of the development: the C integer types as machine words, the result
  type of a kernel function that may stop instead of returning, little-endian encoding of
  32-bit words into bytes, and the list lemmas the components share.
\<close>

unbundle bit_operations_syntax

section \<open>Integer types of lib/stdint.h\<close>

type_synonym u8 = "8 word"
type_synonym u16 = "16 word"
type_synonym u32 = "32 word"

section \<open>How a kernel function ends\<close>

text \<open>
  A function of the kernel returns a value, or it does not return: \<open>Panic\<close> is a failed
  \<open>ASSERT\<close> or a \<open>PANIC\<close> (both call \<open>panic_spin\<close>, which disables interrupts and spins),
  \<open>Fault\<close> is an access the C language leaves undefined or the processor traps (a write past
  an array, a NULL or freed pointer, a division by zero, a page fault), \<open>Diverge\<close> is a loop
  that never ends, \<open>Blocked\<close> is a thread that would have to wait for a lock.
\<close>

datatype stop = Panic | Fault | Diverge | Blocked

type_synonym 'a res = "stop + 'a"

definition bnd :: "'a res \<Rightarrow> ('a \<Rightarrow> 'b res) \<Rightarrow> 'b res" where
  "bnd r f = (case r of Inl e \<Rightarrow> Inl e | Inr x \<Rightarrow> f x)"

definition ASSERT :: "bool \<Rightarrow> unit res" where
  "ASSERT b = (if b then Inr () else Inl Panic)"

definition defined :: "bool \<Rightarrow> unit res" where
  "defined b = (if b then Inr () else Inl Fault)"

definition of_opt :: "stop \<Rightarrow> 'a option \<Rightarrow> 'a res" where
  "of_opt e x = (case x of None \<Rightarrow> Inl e | Some y \<Rightarrow> Inr y)"

named_theorems res_simps \<open>what a sequence of kernel steps that returned has done\<close>

lemma bnd_Inr [simp]: "bnd (Inr x) f = f x"
  by (simp add: bnd_def)

lemma bnd_Inl [simp]: "bnd (Inl e) f = Inl e"
  by (simp add: bnd_def)

lemma bnd_eq_Inr [res_simps]: "bnd r f = Inr y \<longleftrightarrow> (\<exists>x. r = Inr x \<and> f x = Inr y)"
  by (cases r) auto

lemma bnd_eq_Inl: "bnd r f = Inl e \<longleftrightarrow> r = Inl e \<or> (\<exists>x. r = Inr x \<and> f x = Inl e)"
  by (cases r) auto

lemma bnd_split: "P (bnd r f) \<longleftrightarrow> (\<forall>e. r = Inl e \<longrightarrow> P (Inl e)) \<and> (\<forall>x. r = Inr x \<longrightarrow> P (f x))"
  by (cases r) auto

lemma bnd_assoc: "bnd (bnd r f) g = bnd r (\<lambda>x. bnd (f x) g)"
  by (cases r) auto

lemma ASSERT_eq_Inr [res_simps]: "ASSERT b = Inr u \<longleftrightarrow> b"
  by (simp add: ASSERT_def)

lemma ASSERT_True [simp]: "ASSERT True = Inr ()"
  by (simp add: ASSERT_def)

lemma ASSERT_False [simp]: "ASSERT False = Inl Panic"
  by (simp add: ASSERT_def)

lemma ASSERT_eq_Inl [simp]: "ASSERT b = Inl e \<longleftrightarrow> \<not> b \<and> e = Panic"
  by (auto simp: ASSERT_def)

lemma defined_eq_Inr [res_simps]: "defined b = Inr u \<longleftrightarrow> b"
  by (simp add: defined_def)

lemma defined_True [simp]: "defined True = Inr ()"
  by (simp add: defined_def)

lemma defined_False [simp]: "defined False = Inl Fault"
  by (simp add: defined_def)

lemma of_opt_Some [simp]: "of_opt e (Some x) = Inr x"
  by (simp add: of_opt_def)

lemma of_opt_None [simp]: "of_opt e None = Inl e"
  by (simp add: of_opt_def)

lemma of_opt_eq_Inr [res_simps]: "of_opt e x = Inr y \<longleftrightarrow> x = Some y"
  by (cases x) auto

section \<open>Bytes\<close>

text \<open>The processor stores a 32-bit word in four bytes, the least significant first.\<close>

definition le32 :: "u32 \<Rightarrow> u8 list" where
  "le32 w = [ucast w, ucast (drop_bit 8 w), ucast (drop_bit 16 w), ucast (drop_bit 24 w)]"

definition word_of_bytes :: "u8 \<Rightarrow> u8 \<Rightarrow> u8 \<Rightarrow> u8 \<Rightarrow> u32" where
  "word_of_bytes a b c d =
     ucast a OR push_bit 8 (ucast b) OR push_bit 16 (ucast c) OR push_bit 24 (ucast d)"

definition rd32 :: "u8 list \<Rightarrow> nat \<Rightarrow> u32" where
  "rd32 bs off = word_of_bytes (bs ! off) (bs ! (off + 1)) (bs ! (off + 2)) (bs ! (off + 3))"

lemma length_le32 [simp]: "length (le32 w) = 4"
  by (simp add: le32_def)

lemma word_of_bytes_le32 [simp]:
  "word_of_bytes (ucast w) (ucast (drop_bit 8 w)) (ucast (drop_bit 16 w)) (ucast (drop_bit 24 w))
    = (w :: u32)"
proof (rule bit_word_eqI)
  fix n :: nat assume "n < LENGTH(32)"
  then have n: "n < 32" by simp
  consider "n < 8" | "8 \<le> n" "n < 16" | "16 \<le> n" "n < 24" | "24 \<le> n" by linarith
  then show "bit (word_of_bytes (ucast w) (ucast (drop_bit 8 w)) (ucast (drop_bit 16 w))
      (ucast (drop_bit 24 w))) n = bit w n"
    by cases (use n in \<open>auto simp: word_of_bytes_def bit_simps\<close>)
qed

lemma rd32_append1: "off + 4 \<le> length xs \<Longrightarrow> rd32 (xs @ ys) off = rd32 xs off"
  by (simp add: rd32_def nth_append)

lemma rd32_append2: "length xs \<le> off \<Longrightarrow> rd32 (xs @ ys) off = rd32 ys (off - length xs)"
  by (simp add: rd32_def nth_append Suc_diff_le)

lemma rd32_le32 [simp]: "rd32 (le32 w @ ys) 0 = w"
  by (simp add: rd32_def le32_def)

lemma rd32_drop: "off + k + 4 \<le> length xs \<Longrightarrow> rd32 (drop k xs) off = rd32 xs (k + off)"
  by (simp add: rd32_def ac_simps)

lemma rd32_take: "off + 4 \<le> k \<Longrightarrow> rd32 (take k xs) off = rd32 xs off"
  by (simp add: rd32_def)

text \<open>\<open>memcpy(buf + off, ys, length ys)\<close> into a buffer that is long enough.\<close>

definition patch :: "'a list \<Rightarrow> nat \<Rightarrow> 'a list \<Rightarrow> 'a list" where
  "patch xs off ys = take off xs @ ys @ drop (off + length ys) xs"

lemma length_patch [simp]: "off + length ys \<le> length xs \<Longrightarrow> length (patch xs off ys) = length xs"
  by (simp add: patch_def)

lemma patch_same [simp]: "off + length ys \<le> length xs \<Longrightarrow> take (length ys) (drop off (patch xs off ys)) = ys"
  by (simp add: patch_def)

lemma nth_patch:
  "off + length ys \<le> length xs \<Longrightarrow> i < length xs \<Longrightarrow>
   patch xs off ys ! i = (if off \<le> i \<and> i < off + length ys then ys ! (i - off) else xs ! i)"
  by (auto simp: patch_def nth_append)

lemma take_drop_patch_other:
  assumes "off + length ys \<le> length xs" and "k + n \<le> off \<or> off + length ys \<le> k" and "k + n \<le> length xs"
  shows "take n (drop k (patch xs off ys)) = take n (drop k xs)"
  by (rule nth_equalityI) (use assms in \<open>auto simp: nth_patch\<close>)

text \<open>A loop that writes every index of an array.\<close>

lemma fold_list_update:
  "n \<le> length xs \<Longrightarrow> fold (\<lambda>i xs. xs[i := f i]) [0..<n] xs = map f [0..<n] @ drop n xs"
proof (induction n)
  case (Suc n)
  then obtain y where "drop n xs = y # drop (Suc n) xs"
    by (metis Cons_nth_drop_Suc Suc_le_lessD)
  with Suc show ?case by (simp add: list_update_append)
qed simp

section \<open>Words and natural numbers\<close>

lemma unat_less_2p32: "unat (w :: u32) < 4294967296"
  using unsigned_less [of w] by simp

lemma unat_add_u32: "unat a + unat b < 2 ^ 32 \<Longrightarrow> unat (a + b :: u32) = unat a + unat b"
  by (simp add: unat_word_ariths)

lemma unat_of_nat_u32 [simp]: "n < 4294967296 \<Longrightarrow> unat (of_nat n :: u32) = n"
  by (simp add: unat_of_nat)

lemma of_nat_eq_iff_u32: "a < 4294967296 \<Longrightarrow> b < 4294967296 \<Longrightarrow> (of_nat a :: u32) = of_nat b \<longleftrightarrow> a = b"
  by (metis unat_of_nat_u32)

lemma unat_succ_u32: "unat (a :: u32) < unat (b :: u32) \<Longrightarrow> unat (a + 1) = Suc (unat a)"
  using unat_less_2p32 [of b] unat_add_u32 [of a 1] by auto

lemma unat_mult_u32: "unat a * unat b < 2 ^ 32 \<Longrightarrow> unat (a * b :: u32) = unat a * unat b"
  by (simp add: unat_word_ariths)

end
