(* ===== verification/Cstring.thy ===== *)
theory Cstring
  imports Prelude
begin

text \<open>
  lib/string.c over a flat memory of bytes: a pointer is a 32-bit address, NULL is 0, and
  address arithmetic wraps. The routines that run until a NUL byte are partial functions
  (None: no NUL byte is ever met), so that not returning is visible in their type. The
  compiler's \<open>char\<close> is signed (gcc on x86), so a comparison of two \<open>char\<close>s is on \<open>sint\<close>,
  while a \<open>uint8_t\<close> operand is promoted without a sign.
\<close>

type_synonym mem = "u32 \<Rightarrow> u8"

section \<open>The routines of lib/string.c\<close>

fun memset_loop :: "nat \<Rightarrow> mem \<Rightarrow> u32 \<Rightarrow> u8 \<Rightarrow> mem" where
  "memset_loop 0 m dst v = m"
| "memset_loop (Suc n) m dst v = memset_loop n (m(dst := v)) (dst + 1) v"

definition memset :: "mem \<Rightarrow> u32 \<Rightarrow> u8 \<Rightarrow> u32 \<Rightarrow> mem res" where
  "memset m dst v sz = bnd (ASSERT (dst \<noteq> 0)) (\<lambda>_. Inr (memset_loop (unat sz) m dst v))"

fun memcpy_loop :: "nat \<Rightarrow> mem \<Rightarrow> u32 \<Rightarrow> u32 \<Rightarrow> mem" where
  "memcpy_loop 0 m dst src = m"
| "memcpy_loop (Suc n) m dst src = memcpy_loop n (m(dst := m src)) (dst + 1) (src + 1)"

definition memcpy :: "mem \<Rightarrow> u32 \<Rightarrow> u32 \<Rightarrow> u32 \<Rightarrow> mem res" where
  "memcpy m dst src sz =
     bnd (ASSERT (dst \<noteq> 0 \<and> src \<noteq> 0)) (\<lambda>_. Inr (memcpy_loop (unat sz) m dst src))"

fun memcmp_loop :: "nat \<Rightarrow> mem \<Rightarrow> u32 \<Rightarrow> u32 \<Rightarrow> int" where
  "memcmp_loop 0 m a b = 0"
| "memcmp_loop (Suc n) m a b =
     (if m a \<noteq> m b then (if sint (m a) > sint (m b) then 1 else - 1)
      else memcmp_loop n m (a + 1) (b + 1))"

definition memcmp :: "mem \<Rightarrow> u32 \<Rightarrow> u32 \<Rightarrow> u32 \<Rightarrow> int res" where
  "memcmp m a b sz = bnd (ASSERT (a \<noteq> 0 \<or> b \<noteq> 0)) (\<lambda>_. Inr (memcmp_loop (unat sz) m a b))"

partial_function (option) strcpy_loop :: "mem \<Rightarrow> u32 \<Rightarrow> u32 \<Rightarrow> mem option" where
  "strcpy_loop m dst src =
     (if m src \<noteq> 0 then strcpy_loop (m(dst := m src)) (dst + 1) (src + 1)
      else Some (m(dst := m src)))"

definition strcpy :: "mem \<Rightarrow> u32 \<Rightarrow> u32 \<Rightarrow> (mem \<times> u32) res" where
  "strcpy m dst src =
     bnd (ASSERT (dst \<noteq> 0 \<and> src \<noteq> 0)) (\<lambda>_.
     bnd (of_opt Diverge (strcpy_loop m dst src)) (\<lambda>m'. Inr (m', dst)))"

partial_function (option) strlen_loop :: "mem \<Rightarrow> u32 \<Rightarrow> u32 option" where
  "strlen_loop m p = (if m p \<noteq> 0 then strlen_loop m (p + 1) else Some (p + 1))"

definition strlen :: "mem \<Rightarrow> u32 \<Rightarrow> u32 res" where
  "strlen m str =
     bnd (ASSERT (str \<noteq> 0)) (\<lambda>_.
     bnd (of_opt Diverge (strlen_loop m str)) (\<lambda>p. Inr (p - str - 1)))"

partial_function (option) strcmp_loop :: "mem \<Rightarrow> u32 \<Rightarrow> u32 \<Rightarrow> int option" where
  "strcmp_loop m a b =
     (if m a \<noteq> 0 \<and> m a = m b then strcmp_loop m (a + 1) (b + 1)
      else Some (if sint (m a) < sint (m b) then - 1
                 else if sint (m a) > sint (m b) then 1 else 0))"

definition strcmp :: "mem \<Rightarrow> u32 \<Rightarrow> u32 \<Rightarrow> int res" where
  "strcmp m a b =
     bnd (ASSERT (a \<noteq> 0 \<and> b \<noteq> 0)) (\<lambda>_. of_opt Diverge (strcmp_loop m a b))"

partial_function (option) strchr_loop :: "mem \<Rightarrow> u32 \<Rightarrow> u8 \<Rightarrow> u32 option" where
  "strchr_loop m str ch =
     (if m str \<noteq> 0 then
        (if sint (m str) = uint ch then Some str else strchr_loop m (str + 1) ch)
      else Some 0)"

definition strchr :: "mem \<Rightarrow> u32 \<Rightarrow> u8 \<Rightarrow> u32 res" where
  "strchr m str ch = bnd (ASSERT (str \<noteq> 0)) (\<lambda>_. of_opt Diverge (strchr_loop m str ch))"

partial_function (option) strrchr_loop :: "mem \<Rightarrow> u32 \<Rightarrow> u8 \<Rightarrow> u32 \<Rightarrow> u32 option" where
  "strrchr_loop m str ch last_char =
     (if m str \<noteq> 0 then
        strrchr_loop m (str + 1) ch (if sint (m str) = uint ch then str else last_char)
      else Some last_char)"

definition strrchr :: "mem \<Rightarrow> u32 \<Rightarrow> u8 \<Rightarrow> u32 res" where
  "strrchr m str ch = bnd (ASSERT (str \<noteq> 0)) (\<lambda>_. of_opt Diverge (strrchr_loop m str ch 0))"

text \<open>\<open>while (*str++);\<close> is the loop of \<open>strlen\<close>; the second loop is that of \<open>strcpy\<close>.\<close>

definition strcat :: "mem \<Rightarrow> u32 \<Rightarrow> u32 \<Rightarrow> (mem \<times> u32) res" where
  "strcat m dst src =
     bnd (ASSERT (dst \<noteq> 0 \<and> src \<noteq> 0)) (\<lambda>_.
     bnd (of_opt Diverge (strlen_loop m dst)) (\<lambda>str.
     bnd (of_opt Diverge (strcpy_loop m (str - 1) src)) (\<lambda>m'. Inr (m', dst))))"

partial_function (option) strchrs_loop :: "mem \<Rightarrow> u32 \<Rightarrow> u8 \<Rightarrow> u32 \<Rightarrow> u32 option" where
  "strchrs_loop m p ch cnt =
     (if m p \<noteq> 0 then strchrs_loop m (p + 1) ch (if sint (m p) = uint ch then cnt + 1 else cnt)
      else Some cnt)"

definition strchrs :: "mem \<Rightarrow> u32 \<Rightarrow> u8 \<Rightarrow> u32 res" where
  "strchrs m str ch = bnd (ASSERT (str \<noteq> 0)) (\<lambda>_. of_opt Diverge (strchrs_loop m str ch 0))"

section \<open>C strings in memory\<close>

text \<open>\<open>cstr_at m p cs\<close>: the bytes \<open>cs\<close>, none of them NUL, and a NUL byte lie at address \<open>p\<close>.\<close>

fun cstr_at :: "mem \<Rightarrow> u32 \<Rightarrow> u8 list \<Rightarrow> bool" where
  "cstr_at m p [] = (m p = 0)"
| "cstr_at m p (c # cs) = (m p = c \<and> c \<noteq> 0 \<and> cstr_at m (p + 1) cs)"

text \<open>The \<open>n\<close> addresses from \<open>p\<close> on.\<close>

definition area :: "u32 \<Rightarrow> nat \<Rightarrow> u32 set" where
  "area p n = (\<lambda>i. p + of_nat i) ` {..<n}"

lemma area_0 [simp]: "area p 0 = {}"
  by (simp add: area_def)

lemma area_Suc: "area p (Suc n) = insert p (area (p + 1) n)"
proof -
  have "{..<Suc n} = insert 0 (Suc ` {..<n})"
    by (auto simp: image_iff) (metis lessThan_iff less_Suc_eq_0_disj)
  then show ?thesis by (simp add: area_def image_image ac_simps)
qed

lemma area_numeral: "area p (numeral k) = insert p (area (p + 1) (pred_numeral k))"
  by (simp add: numeral_eq_Suc area_Suc)

lemma not_in_area_succ: "n < 4294967296 \<Longrightarrow> p \<notin> area (p + 1) n"
proof
  assume n: "n < 4294967296" and "p \<in> area (p + 1) n"
  then obtain i where i: "i < n" and "p = p + 1 + of_nat i" by (auto simp: area_def)
  then have "(of_nat (Suc i) :: u32) = of_nat 0" by (simp add: algebra_simps)
  with i n show False using of_nat_eq_iff_u32 [of "Suc i" 0] by simp
qed

lemma cstr_at_upd: "x \<notin> area p (Suc (length cs)) \<Longrightarrow> cstr_at (m(x := v)) p cs = cstr_at m p cs"
  by (induction cs arbitrary: p) (auto simp: area_Suc)

lemma cstr_at_cong:
  "(\<And>x. x \<in> area p (Suc (length cs)) \<Longrightarrow> m' x = m x) \<Longrightarrow> cstr_at m' p cs = cstr_at m p cs"
proof (induction cs arbitrary: p)
  case (Cons c cs)
  have "cstr_at m' (p + 1) cs = cstr_at m (p + 1) cs"
    by (rule Cons.IH) (simp add: Cons.prems area_Suc [of p])
  moreover have "m' p = m p" by (rule Cons.prems) (simp add: area_Suc)
  ultimately show ?case by simp
qed (simp add: area_Suc)

lemma cstr_at_unique: "cstr_at m p cs \<Longrightarrow> cstr_at m p ds \<Longrightarrow> cs = ds"
proof (induction cs arbitrary: p ds)
  case Nil
  then show ?case by (cases ds) auto
next
  case (Cons c cs)
  then show ?case by (cases ds) auto
qed

section \<open>What the routines compute\<close>

lemma memset_loop_spec:
  "n \<le> 4294967296 \<Longrightarrow> memset_loop n m dst v x = (if x \<in> area dst n then v else m x)"
proof (induction n arbitrary: m dst)
  case (Suc n)
  then have "memset_loop n (m(dst := v)) (dst + 1) v x
      = (if x \<in> area (dst + 1) n then v else (m(dst := v)) x)" by simp
  then show ?case by (auto simp: area_Suc)
qed simp

lemma memcpy_loop_frame: "x \<notin> area dst n \<Longrightarrow> memcpy_loop n m dst src x = m x"
  by (induction n arbitrary: m dst src) (auto simp: area_Suc)

lemma memcpy_loop_spec:
  "n \<le> 4294967296 \<Longrightarrow> area dst n \<inter> area src n = {} \<Longrightarrow> i < n \<Longrightarrow>
   memcpy_loop n m dst src (dst + of_nat i) = m (src + of_nat i)"
proof (induction n arbitrary: m dst src i)
  case (Suc n)
  show ?case
  proof (cases i)
    case 0
    have "dst \<notin> area (dst + 1) n" using Suc.prems(1) by (intro not_in_area_succ) simp
    with 0 show ?thesis by (simp add: memcpy_loop_frame)
  next
    case (Suc j)
    have disj: "area (dst + 1) n \<inter> area (src + 1) n = {}" "dst \<notin> area (src + 1) n"
      using Suc.prems(2) by (auto simp: area_Suc)
    have mem: "src + 1 + of_nat j \<in> area (src + 1) n"
      using Suc Suc.prems(3) by (auto simp: area_def)
    have "memcpy_loop n (m(dst := m src)) (dst + 1) (src + 1) (dst + 1 + of_nat j)
        = (m(dst := m src)) (src + 1 + of_nat j)"
      by (rule Suc.IH) (use Suc Suc.prems disj in auto)
    moreover have "src + 1 + of_nat j \<noteq> dst" using mem disj(2) by metis
    ultimately show ?thesis using Suc by (simp add: ac_simps)
  qed
qed simp

lemma strlen_loop_cstr: "cstr_at m p cs \<Longrightarrow> strlen_loop m p = Some (p + of_nat (length cs) + 1)"
  by (induction cs arbitrary: p) (simp_all add: strlen_loop.simps ac_simps)

lemma strcpy_loop_cstr:
  "cstr_at m src cs \<Longrightarrow> length cs < 4294967295 \<Longrightarrow>
   area dst (Suc (length cs)) \<inter> area src (Suc (length cs)) = {} \<Longrightarrow>
   \<exists>m'. strcpy_loop m dst src = Some m' \<and> cstr_at m' dst cs \<and>
        (\<forall>x. x \<notin> area dst (Suc (length cs)) \<longrightarrow> m' x = m x)"
proof (induction cs arbitrary: m dst src)
  case Nil
  then show ?case by (auto simp: strcpy_loop.simps area_Suc)
next
  case (Cons c cs)
  let ?m = "m(dst := c)"
  have sub: "area dst (Suc (length (c # cs))) = insert dst (area (dst + 1) (Suc (length cs)))"
    "area src (Suc (length (c # cs))) = insert src (area (src + 1) (Suc (length cs)))"
    by (simp_all add: area_Suc)
  have cs: "cstr_at ?m (src + 1) cs"
    using Cons.prems sub by (subst cstr_at_upd) auto
  have disj: "area (dst + 1) (Suc (length cs)) \<inter> area (src + 1) (Suc (length cs)) = {}"
    using Cons.prems(3) sub by auto
  have "length cs < 4294967295" using Cons.prems(2) by simp
  then obtain m' where m': "strcpy_loop ?m (dst + 1) (src + 1) = Some m'"
      "cstr_at m' (dst + 1) cs" "\<forall>x. x \<notin> area (dst + 1) (Suc (length cs)) \<longrightarrow> m' x = ?m x"
    using Cons.IH [OF cs _ disj] by blast
  have "dst \<notin> area (dst + 1) (Suc (length cs))"
    using Cons.prems(2) by (intro not_in_area_succ) simp
  then have "m' dst = c" using m'(3) by simp
  moreover have "strcpy_loop m dst src = Some m'"
    using Cons.prems(1) m'(1) by (subst strcpy_loop.simps) auto
  ultimately show ?case using Cons.prems(1) m' sub by auto
qed

lemma strcmp_loop_cstr:
  "cstr_at m a cs \<Longrightarrow> cstr_at m b ds \<Longrightarrow> \<exists>r. strcmp_loop m a b = Some r \<and> (r = 0 \<longleftrightarrow> cs = ds)"
proof (induction cs arbitrary: a b ds)
  case Nil
  have "sint (m a) < sint (m b) \<or> sint (m b) < sint (m a)" if "m a \<noteq> m b"
    using that by (metis linorder_neqE_linordered_idom signed_word_eqI)
  then show ?case using Nil by (cases ds) (auto simp: strcmp_loop.simps [of m a b])
next
  case (Cons c cs)
  have ne: "sint (m a) < sint (m b) \<or> sint (m b) < sint (m a)" if "m a \<noteq> m b"
    using that by (metis linorder_neqE_linordered_idom signed_word_eqI)
  show ?case
  proof (cases "m a = m b")
    case True
    with Cons.prems obtain ds' where ds: "ds = c # ds'" "cstr_at m (b + 1) ds'"
      by (cases ds) auto
    with Cons.IH [of "a + 1" "b + 1" ds'] Cons.prems(1) obtain r where
      "strcmp_loop m (a + 1) (b + 1) = Some r" "r = 0 \<longleftrightarrow> cs = ds'" by auto
    with True ds Cons.prems(1) show ?thesis by (auto simp: strcmp_loop.simps [of m a b])
  next
    case False
    with Cons.prems ne show ?thesis by (cases ds) (auto simp: strcmp_loop.simps [of m a b])
  qed
qed

lemma sint_eq_uint_ascii: "uint (ch :: u8) < 128 \<Longrightarrow> sint (c :: u8) = uint ch \<longleftrightarrow> c = ch"
proof -
  assume "uint ch < 128"
  then have "signed_take_bit 7 (uint ch) = uint ch"
    by (intro signed_take_bit_int_eq_self order_trans [OF _ uint_ge_0]) simp_all
  then have "sint ch = uint ch" by (simp add: sint_uint)
  then show ?thesis by (metis signed_word_eqI)
qed

lemma sint_u8_less: "sint (c :: u8) < 128"
  using sint_lt [of c] by simp

lemma strchr_loop_cstr:
  "cstr_at m p cs \<Longrightarrow> uint ch < 128 \<Longrightarrow>
   strchr_loop m p ch = Some (if ch \<in> set cs then p + of_nat (length (takeWhile (\<lambda>c. c \<noteq> ch) cs)) else 0)"
  by (induction cs arbitrary: p)
    (auto simp: strchr_loop.simps sint_eq_uint_ascii ac_simps)

lemma strchr_loop_high:
  "cstr_at m p cs \<Longrightarrow> 128 \<le> uint ch \<Longrightarrow> strchr_loop m p ch = Some 0"
proof (induction cs arbitrary: p)
  case (Cons c cs)
  have "sint c \<noteq> uint ch" using sint_u8_less [of c] Cons.prems(2) by linarith
  with Cons show ?case by (subst strchr_loop.simps) auto
qed (simp add: strchr_loop.simps)

section \<open>Properties\<close>

text \<open>\<open>strlen\<close> returns, for every NUL-terminated string, the number of bytes before
  the NUL.\<close>

theorem strlen_correct:
  assumes "p \<noteq> 0" and "cstr_at m p cs"
  shows "strlen m p = Inr (of_nat (length cs))"
  using assms by (simp add: strlen_def strlen_loop_cstr)

text \<open>\<open>strcpy\<close> between two areas that do not overlap returns its destination, which then
  holds the source string, and changes no byte outside the destination.\<close>

theorem strcpy_correct:
  assumes "dst \<noteq> 0" and "src \<noteq> 0" and "cstr_at m src cs" and "length cs < 4294967295"
    and "area dst (Suc (length cs)) \<inter> area src (Suc (length cs)) = {}"
  shows "\<exists>m'. strcpy m dst src = Inr (m', dst) \<and> cstr_at m' dst cs \<and> cstr_at m' src cs \<and>
    (\<forall>x. x \<in> - area dst (Suc (length cs)) \<longrightarrow> m' x = m x)"
proof -
  from strcpy_loop_cstr [OF assms(3-5)] obtain m' where
    m': "strcpy_loop m dst src = Some m'" "cstr_at m' dst cs"
      "\<forall>x. x \<notin> area dst (Suc (length cs)) \<longrightarrow> m' x = m x" by blast
  then have "cstr_at m' src cs = cstr_at m src cs"
    using assms(5) by (intro cstr_at_cong) auto
  with m' assms show ?thesis by (simp add: strcpy_def)
qed

lemma cstr_at_append:
  "cstr_at m p (cs @ ds) \<longleftrightarrow> (\<forall>i < length cs. m (p + of_nat i) = cs ! i \<and> cs ! i \<noteq> 0) \<and>
     cstr_at m (p + of_nat (length cs)) ds"
proof (induction cs arbitrary: p)
  case (Cons c cs)
  have "(\<forall>i < length (c # cs). m (p + of_nat i) = (c # cs) ! i \<and> (c # cs) ! i \<noteq> 0) \<longleftrightarrow>
     m p = c \<and> c \<noteq> 0 \<and> (\<forall>i < length cs. m (p + 1 + of_nat i) = cs ! i \<and> cs ! i \<noteq> 0)"
    by (auto simp: less_Suc_eq_0_disj ac_simps)
  with Cons show ?case by (simp add: ac_simps)
qed simp

text \<open>\<open>strcat\<close> leaves the first string followed by the second one at its destination,
  when the bytes it writes lie outside the second string.\<close>

theorem strcat_correct:
  assumes "dst \<noteq> 0" and "src \<noteq> 0" and "cstr_at m dst as" and "cstr_at m src bs"
    and "length as + length bs < 4294967295"
    and "area (dst + of_nat (length as)) (Suc (length bs)) \<inter> area src (Suc (length bs)) = {}"
  shows "\<exists>m'. strcat m dst src = Inr (m', dst) \<and> cstr_at m' dst (as @ bs)"
proof -
  let ?e = "dst + of_nat (length as)"
  obtain m' where m': "strcpy_loop m ?e src = Some m'" "cstr_at m' ?e bs"
      "\<forall>x. x \<notin> area ?e (Suc (length bs)) \<longrightarrow> m' x = m x"
    using strcpy_loop_cstr [OF assms(4) _ assms(6)] assms(5) by auto
  have old: "\<forall>i < length as. m (dst + of_nat i) = as ! i \<and> as ! i \<noteq> 0"
    using cstr_at_append [of m dst as "[]"] assms(3) by simp
  have "dst + of_nat i \<notin> area ?e (Suc (length bs))" if i: "i < length as" for i
  proof
    assume "dst + of_nat i \<in> area ?e (Suc (length bs))"
    then obtain k where k: "k \<le> length bs" "(of_nat i :: u32) = of_nat (length as + k)"
      by (auto simp: area_def algebra_simps less_Suc_eq_le)
    with of_nat_eq_iff_u32 [of i "length as + k"] i assms(5) show False by simp
  qed
  with m'(3) old have "\<forall>i < length as. m' (dst + of_nat i) = as ! i \<and> as ! i \<noteq> 0" by simp
  with m'(2) have "cstr_at m' dst (as @ bs)" by (simp add: cstr_at_append)
  with m'(1) assms show ?thesis by (simp add: strcat_def strlen_loop_cstr [OF assms(3)])
qed

text \<open>\<open>strcmp\<close> returns 0 exactly for equal strings.\<close>

theorem strcmp_zero_iff_equal:
  assumes "a \<noteq> 0" and "b \<noteq> 0" and "cstr_at m a cs" and "cstr_at m b ds"
  shows "\<exists>r. strcmp m a b = Inr r \<and> (r = 0 \<longleftrightarrow> cs = ds)"
  using strcmp_loop_cstr [OF assms(3,4)] assms(1,2) by (auto simp: strcmp_def)

text \<open>\<open>strchr\<close> finds the first occurrence of an ASCII byte, and NULL when there is none;
  a byte of 128 or more is never found, even where the string contains it, since the
  string's \<open>char\<close> is promoted with its sign and the argument's \<open>uint8_t\<close> without.\<close>

theorem strchr_first_occurrence:
  assumes "p \<noteq> 0" and "cstr_at m p cs"
  shows "strchr m p ch = Inr (if ch \<in> set cs \<and> uint ch < 128
     then p + of_nat (length (takeWhile (\<lambda>c. c \<noteq> ch) cs)) else 0)"
  using assms strchr_loop_cstr [OF assms(2)] strchr_loop_high [OF assms(2)]
  by (cases "uint ch < 128") (simp_all add: strchr_def)

section \<open>Concrete instances\<close>

definition demo_mem :: mem where
  "demo_mem = (\<lambda>_. 0)(16 := 97, 17 := 47, 18 := 98, 48 := 99)"

lemma demo_mem_src: "cstr_at demo_mem 16 [97, 47, 98]"
  by (simp add: demo_mem_def)

theorem strlen_correct_witness: "strlen demo_mem 16 = Inr 3"
  using strlen_correct [OF _ demo_mem_src] by simp

theorem strcpy_correct_witness:
  "\<exists>m'. strcpy demo_mem 32 16 = Inr (m', 32) \<and> cstr_at m' 32 [97, 47, 98]"
proof -
  have "area 32 (Suc (length [97, 47, 98 :: u8])) \<inter> area 16 (Suc (length [97, 47, 98 :: u8])) = {}"
    by (simp add: area_Suc)
  then show ?thesis using strcpy_correct [OF _ _ demo_mem_src, of 32] by auto
qed

theorem strcat_correct_witness:
  "\<exists>m'. strcat demo_mem 48 16 = Inr (m', 48) \<and> cstr_at m' 48 [99, 97, 47, 98]"
proof -
  have "cstr_at demo_mem 48 [99]" by (simp add: demo_mem_def)
  moreover have "area (48 + of_nat (length [99 :: u8])) (Suc (length [97, 47, 98 :: u8])) \<inter>
      area 16 (Suc (length [97, 47, 98 :: u8])) = {}"
    by (simp add: area_Suc)
  ultimately show ?thesis using strcat_correct [OF _ _ _ demo_mem_src, of 48 "[99]"] by simp
qed

theorem strcmp_zero_iff_equal_witness: "\<exists>r. strcmp demo_mem 16 48 = Inr r \<and> r \<noteq> 0"
proof -
  have "cstr_at demo_mem 48 [99]" by (simp add: demo_mem_def)
  then show ?thesis using strcmp_zero_iff_equal [OF _ _ demo_mem_src, of 48 "[99]"] by auto
qed

theorem strchr_first_occurrence_witness:
  "strchr demo_mem 16 47 = Inr 17 \<and> strchr ((\<lambda>_. 0)(16 := 200)) 16 200 = Inr 0"
proof
  show "strchr demo_mem 16 47 = Inr 17"
    using strchr_first_occurrence [OF _ demo_mem_src, of 47] by simp
  have "cstr_at ((\<lambda>_. 0)(16 := 200)) 16 [200]" by simp
  then show "strchr ((\<lambda>_. 0)(16 := 200)) 16 200 = Inr 0"
    using strchr_first_occurrence [of 16 "(\<lambda>_. 0)(16 := 200)" "[200]" 200] by simp
qed

end
