(* ===== verification/Stdio.thy ===== *)
theory Stdio
  imports Cstring
begin

text \<open>
  lib/stdio.c over the flat memory of \<open>Cstring\<close>: number to text, and the formatting loop that
  reads its format, its variable arguments and its strings from memory and writes its output
  there, byte by byte.
\<close>

section \<open>The code\<close>

text \<open>\<open>va_arg\<close> moves the argument pointer up by four bytes and reads what is there.\<close>

definition load32 :: "mem \<Rightarrow> u32 \<Rightarrow> u32" where
  "load32 m a = word_of_bytes (m a) (m (a + 1)) (m (a + 2)) (m (a + 3))"

definition digit_char :: "u32 \<Rightarrow> u8" where
  "digit_char r = (if r < 10 then ucast (r + 48) else ucast (r - 10 + 65))"

partial_function (option) itoa :: "mem \<Rightarrow> u32 \<Rightarrow> u32 \<Rightarrow> u8 \<Rightarrow> (mem \<times> u32) res option" where
  "itoa m v buf_ptr base =
     (if base = 0 then Some (Inl Fault)
      else let r = v mod ucast base; i = v div ucast base in
        Option.bind (if i \<noteq> 0 then itoa m i buf_ptr base else Some (Inr (m, buf_ptr)))
          (\<lambda>x. case x of
             Inl e \<Rightarrow> Some (Inl e)
           | Inr (m, p) \<Rightarrow> Some (Inr (m(p := digit_char r), p + 1))))"

partial_function (option) vsprintf_loop ::
    "mem \<Rightarrow> u32 \<Rightarrow> u8 \<Rightarrow> u32 \<Rightarrow> u32 \<Rightarrow> (mem \<times> u32) res option" where
  "vsprintf_loop m index_ptr index_char buf_ptr ap =
     (if index_char = 0 then Some (Inr (m, buf_ptr))
      else if index_char \<noteq> 37 then
        (let m = m(buf_ptr := index_char); index_ptr = index_ptr + 1
         in vsprintf_loop m index_ptr (m index_ptr) (buf_ptr + 1) ap)
      else
        (let index_ptr = index_ptr + 1; index_char = m index_ptr in
         if index_char = 115 then
           (let ap = ap + 4; arg_str = load32 m ap in
            case strcpy m buf_ptr arg_str of
              Inl e \<Rightarrow> Some (Inl e)
            | Inr (m, _) \<Rightarrow>
               (case strlen m arg_str of
                  Inl e \<Rightarrow> Some (Inl e)
                | Inr n \<Rightarrow>
                   vsprintf_loop m (index_ptr + 1) (m (index_ptr + 1)) (buf_ptr + n) ap))
         else if index_char = 99 then
           (let ap = ap + 4; m = m(buf_ptr := m ap)
            in vsprintf_loop m (index_ptr + 1) (m (index_ptr + 1)) (buf_ptr + 1) ap)
         else if index_char = 100 then
           (let ap = ap + 4; arg_int = load32 m ap in
            let (arg_int, m, buf_ptr) =
              (if sint arg_int < 0 then (0 - arg_int, m(buf_ptr := 45), buf_ptr + 1)
               else (arg_int, m, buf_ptr)) in
            Option.bind (itoa m arg_int buf_ptr 10) (\<lambda>x. case x of
              Inl e \<Rightarrow> Some (Inl e)
            | Inr (m, buf_ptr) \<Rightarrow>
               vsprintf_loop m (index_ptr + 1) (m (index_ptr + 1)) buf_ptr ap))
         else if index_char = 120 then
           (let ap = ap + 4; arg_int = load32 m ap in
            Option.bind (itoa m arg_int buf_ptr 16) (\<lambda>x. case x of
              Inl e \<Rightarrow> Some (Inl e)
            | Inr (m, buf_ptr) \<Rightarrow>
               vsprintf_loop m (index_ptr + 1) (m (index_ptr + 1)) buf_ptr ap))
         else vsprintf_loop m index_ptr index_char buf_ptr ap))"

definition vsprintf :: "mem \<Rightarrow> u32 \<Rightarrow> u32 \<Rightarrow> u32 \<Rightarrow> (mem \<times> u32) res" where
  "vsprintf m str fmt ap =
     bnd (of_opt Diverge (vsprintf_loop m fmt (m fmt) str ap)) (\<lambda>r.
     bnd r (\<lambda>(m, buf_ptr).
     bnd (strlen m str) (\<lambda>n. Inr (m, n))))"

text \<open>The arguments of \<open>sprintf\<close> and \<open>printf\<close> are on the stack; \<open>frame\<close> is the address of the
  parameter \<open>format\<close>, from which \<open>va_start\<close> begins. The buffer of \<open>printf\<close>, 1024 bytes on the
  stack, is at \<open>buf\<close>; what it hands to \<open>write\<close> are the address and the length.\<close>

definition sprintf :: "mem \<Rightarrow> u32 \<Rightarrow> u32 \<Rightarrow> (mem \<times> u32) res" where
  "sprintf m buf frame = vsprintf m buf (load32 m frame) frame"

definition printf :: "mem \<Rightarrow> u32 \<Rightarrow> u32 \<Rightarrow> (mem \<times> u32) res" where
  "printf m buf frame =
     (let fmt = load32 m frame; m = memset_loop 1024 m buf 0 in
      bnd (vsprintf m buf fmt frame) (\<lambda>(m, _).
      bnd (strlen m buf) (\<lambda>n. Inr (m, n))))"

section \<open>Bytes written\<close>

definition bytes_at :: "mem \<Rightarrow> u32 \<Rightarrow> u8 list \<Rightarrow> bool" where
  "bytes_at m p xs \<longleftrightarrow> (\<forall>i < length xs. m (p + of_nat i) = xs ! i)"

text \<open>From memory \<open>m\<close> to \<open>m'\<close>, the bytes \<open>xs\<close> were written at \<open>p\<close>, at most a NUL behind them, and
  nothing else.\<close>

definition wrote :: "mem \<Rightarrow> mem \<Rightarrow> u32 \<Rightarrow> u8 list \<Rightarrow> bool" where
  "wrote m m' p xs \<longleftrightarrow> bytes_at m' p xs \<and> (\<forall>x. x \<notin> area p (Suc (length xs)) \<longrightarrow> m' x = m x) \<and>
     (m' (p + of_nat (length xs)) = m (p + of_nat (length xs)) \<or> m' (p + of_nat (length xs)) = 0)"

lemma area_mono: "k \<le> n \<Longrightarrow> area p k \<subseteq> area p n"
  by (auto simp: area_def)

lemma area_shift: "area (p + of_nat a) n \<subseteq> area p (a + n)"
proof
  fix x assume "x \<in> area (p + of_nat a) n"
  then obtain i where "i < n" "x = p + of_nat (a + i)" by (auto simp: area_def algebra_simps)
  then show "x \<in> area p (a + n)" unfolding area_def by (intro image_eqI [of _ _ "a + i"]) auto
qed

lemma in_area: "i < n \<Longrightarrow> p + of_nat i \<in> area p n"
  by (auto simp: area_def)

lemma not_in_area_shift:
  assumes "i < a \<or> a + n \<le> i" "i < 4294967296" "a + n \<le> 4294967296"
  shows "p + of_nat i \<notin> area (p + of_nat a) n"
proof
  assume "p + of_nat i \<in> area (p + of_nat a) n"
  then obtain j where j: "j < n" "(of_nat i :: u32) = of_nat (a + j)" by (auto simp: area_def)
  then have "i = a + j" using assms of_nat_eq_iff_u32 [of i "a + j"] by simp
  then show False using j assms by auto
qed

lemma wrote_nil: "wrote m m p []"
  by (simp add: wrote_def bytes_at_def)

lemma wrote_byte: "wrote m (m(p := c)) p [c]"
  using not_in_area_succ [of 1 p] by (auto simp: wrote_def bytes_at_def area_Suc)

lemma wrote_append:
  assumes ab: "wrote m m1 p as" "wrote m1 m2 (p + of_nat (length as)) bs"
    and len: "length as + length bs < 4294967296"
  shows "wrote m m2 p (as @ bs)"
proof -
  let ?q = "p + of_nat (length as)"
  have out: "m2 (p + of_nat i) = m1 (p + of_nat i)" if "i < length as" for i
    using ab(2) not_in_area_shift [of i "length as" "Suc (length bs)" p] that len
    by (auto simp: wrote_def)
  have bytes: "bytes_at m2 p (as @ bs)"
    unfolding bytes_at_def
  proof (intro allI impI)
    fix i assume i: "i < length (as @ bs)"
    show "m2 (p + of_nat i) = (as @ bs) ! i"
    proof (cases "i < length as")
      case True
      then show ?thesis using out ab(1) by (simp add: wrote_def bytes_at_def nth_append)
    next
      case False
      define j where "j = i - length as"
      have j: "i = length as + j" "j < length bs" using False i by (auto simp: j_def)
      have "m2 (?q + of_nat j) = bs ! j" using ab(2) j by (simp add: wrote_def bytes_at_def)
      then show ?thesis using j by (simp add: nth_append ac_simps)
    qed
  qed
  have frame: "m2 x = m x" if "x \<notin> area p (Suc (length (as @ bs)))" for x
  proof -
    have "x \<notin> area p (Suc (length as))" "x \<notin> area ?q (Suc (length bs))"
      using that area_mono [of "Suc (length as)" "Suc (length (as @ bs))" p]
        area_shift [of p "length as" "Suc (length bs)"] by auto
    then show ?thesis using ab by (simp add: wrote_def)
  qed
  have q: "p + of_nat (length (as @ bs)) = ?q + of_nat (length bs)" by simp
  have "m1 (?q + of_nat (length bs)) = m (?q + of_nat (length bs)) \<or> m1 (?q + of_nat (length bs)) = 0"
  proof (cases "bs = []")
    case True
    then show ?thesis using ab(1) by (simp add: wrote_def)
  next
    case False
    then have "p + of_nat (length as + length bs) \<notin> area (p + of_nat 0) (Suc (length as))"
      using len by (intro not_in_area_shift) (auto simp: Suc_le_eq)
    then show ?thesis using ab(1) by (simp add: wrote_def ac_simps)
  qed
  then have "m2 (p + of_nat (length (as @ bs))) = m (p + of_nat (length (as @ bs))) \<or>
      m2 (p + of_nat (length (as @ bs))) = 0"
    using ab(2) unfolding wrote_def q by metis
  with bytes frame show ?thesis unfolding wrote_def by blast
qed

lemma cstr_at_bytes: "cstr_at m p cs \<longleftrightarrow> bytes_at m p cs \<and> 0 \<notin> set cs \<and> m (p + of_nat (length cs)) = 0"
proof (induction cs arbitrary: p)
  case (Cons c cs)
  have "bytes_at m p (c # cs) \<longleftrightarrow> m p = c \<and> bytes_at m (p + 1) cs"
    by (auto simp: bytes_at_def less_Suc_eq_0_disj ac_simps)
  with Cons show ?case by (auto simp: ac_simps)
qed (simp add: bytes_at_def)

section \<open>Numbers\<close>

text \<open>The digits of a number in a base, most significant first, and their value.\<close>

function digits :: "nat \<Rightarrow> nat \<Rightarrow> nat list" where
  "digits b n = (if n < b \<or> b < 2 then [n] else digits b (n div b) @ [n mod b])"
  by auto
termination
  by (relation "measure snd") (auto intro!: div_less_dividend)

declare digits.simps [simp del]

definition from_digits :: "nat \<Rightarrow> nat list \<Rightarrow> nat" where
  "from_digits b ds = foldl (\<lambda>a d. a * b + d) 0 ds"

definition ascii_digit :: "nat \<Rightarrow> u8" where
  "ascii_digit d = (if d < 10 then of_nat (48 + d) else of_nat (55 + d))"

definition ascii_val :: "u8 \<Rightarrow> nat" where
  "ascii_val c = (if unat c < 65 then unat c - 48 else unat c - 55)"

lemma from_digits_snoc: "from_digits b (ds @ [d]) = from_digits b ds * b + d"
  by (simp add: from_digits_def)

lemma from_digits_digits: "from_digits b (digits b n) = n"
proof (induction b n rule: digits.induct)
  case (1 b n)
  show ?case
  proof (cases "n < b \<or> b < 2")
    case True
    then show ?thesis by (simp add: digits.simps [of b n] from_digits_def)
  next
    case False
    then show ?thesis using 1 by (simp add: digits.simps [of b n] from_digits_snoc)
  qed
qed

lemma digits_less: "2 \<le> b \<Longrightarrow> d \<in> set (digits b n) \<Longrightarrow> d < b"
proof (induction b n rule: digits.induct)
  case (1 b n)
  then show ?case by (subst (asm) digits.simps [of b n]) (auto split: if_splits)
qed

lemma length_digits: "2 \<le> b \<Longrightarrow> n < 2 ^ k \<Longrightarrow> 0 < k \<Longrightarrow> length (digits b n) \<le> k"
proof (induction b n arbitrary: k rule: digits.induct)
  case (1 b n)
  show ?case
  proof (cases "n < b")
    case True
    then show ?thesis using 1(4) by (simp add: digits.simps [of b n])
  next
    case False
    have "n div b \<le> n div 2" using 1(2) by (simp add: div_le_mono2)
    moreover have "n div 2 < 2 ^ (k - 1)"
      using 1(3,4) by (cases k) (auto simp: less_mult_imp_div_less mult.commute)
    ultimately have small: "n div b < 2 ^ (k - 1)" by linarith
    have "0 < k - 1"
    proof (rule ccontr)
      assume "\<not> 0 < k - 1"
      then have "n < 2" using 1(3,4) by (cases k) auto
      then show False using False 1(2) by simp
    qed
    then show ?thesis using 1(1) [OF _ 1(2) small] False 1(2,4) by (simp add: digits.simps [of b n])
  qed
qed

lemma ascii_val_digit: "d < 16 \<Longrightarrow> ascii_val (ascii_digit d) = d"
proof -
  have "list_all (\<lambda>d. ascii_val (ascii_digit d) = d) [0..<16]" by code_simp
  then show "d < 16 \<Longrightarrow> ascii_val (ascii_digit d) = d" by (simp add: list_all_iff)
qed

lemma digit_char_ascii: "unat r < 16 \<Longrightarrow> digit_char r = ascii_digit (unat r)"
proof -
  have "list_all (\<lambda>d. digit_char (of_nat d) = ascii_digit d) [0..<16]" by code_simp
  then have "unat r < 16 \<Longrightarrow> digit_char (of_nat (unat r)) = ascii_digit (unat r)"
    unfolding list_all_iff by (metis atLeastLessThan_iff set_upt zero_le)
  then show "unat r < 16 \<Longrightarrow> digit_char r = ascii_digit (unat r)" by simp
qed

definition number :: "nat \<Rightarrow> nat \<Rightarrow> u8 list" where
  "number b n = map ascii_digit (digits b n)"

lemma number_nonzero: "2 \<le> b \<Longrightarrow> b \<le> 16 \<Longrightarrow> 0 \<notin> set (number b n)"
proof
  assume "2 \<le> b" "b \<le> 16" "0 \<in> set (number b n)"
  then obtain d where "d \<in> set (digits b n)" and z: "ascii_digit d = 0" by (auto simp: number_def)
  then have "d < 16" using digits_less [of b d n] \<open>2 \<le> b\<close> \<open>b \<le> 16\<close> by simp
  moreover have "list_all (\<lambda>d. ascii_digit d \<noteq> 0) [0..<16]" by code_simp
  ultimately show False using z by (simp add: list_all_iff)
qed

lemma number_value: "2 \<le> b \<Longrightarrow> b \<le> 16 \<Longrightarrow> from_digits b (map ascii_val (number b n)) = n"
proof -
  assume "2 \<le> b" "b \<le> 16"
  then have "map ascii_val (number b n) = digits b n"
    unfolding number_def map_map
    by (intro map_idI) (auto intro!: ascii_val_digit intro: less_le_trans digits_less)
  then show ?thesis by (simp add: from_digits_digits)
qed

lemma short_plus_one: "length xs \<le> 32 \<Longrightarrow> length xs + length [x] < (4294967296::nat)"
  by simp

text \<open>\<open>itoa\<close> writes the digits, and nothing behind them.\<close>

lemma itoa_number:
  assumes "2 \<le> unat base" and "unat base \<le> 16"
  shows "\<exists>m'. itoa m v p base = Some (Inr (m', p + of_nat (length (number (unat base) (unat v))))) \<and>
    wrote m m' p (number (unat base) (unat v))"
proof (induction "unat v" arbitrary: v rule: less_induct)
  case less
  let ?b = "unat base"
  let ?u = "ucast base :: u32"
  have "?b < 2 ^ 32" using assms by simp
  then have ub: "unat ?u = ?b" by (simp add: unsigned_ucast_eq take_bit_nat_eq_self)
  have b0: "base \<noteq> 0" using assms by auto
  have r: "unat (v mod ?u) = unat v mod ?b" and i: "unat (v div ?u) = unat v div ?b"
    by (simp_all add: unat_mod unat_div ub)
  have "unat v mod ?b < 16" using assms by (intro less_le_trans [OF mod_less_divisor]) auto
  then have dc: "digit_char (v mod ?u) = ascii_digit (unat v mod ?b)"
    using digit_char_ascii [of "v mod ?u"] by (simp add: r)
  have zero: "v div ?u = 0 \<longleftrightarrow> unat v < ?b"
    using assms by (simp add: i [symmetric] unat_eq_0 [symmetric] del: unat_eq_0) (simp add: i div_eq_0_iff)
  show ?case
  proof (cases "unat v < ?b")
    case True
    then have n: "number ?b (unat v) = [ascii_digit (unat v)]" by (simp add: number_def digits.simps [of ?b "unat v"])
    have "itoa m v p base = Some (Inr (m(p := ascii_digit (unat v)), p + 1))"
      using True zero dc b0 by (subst itoa.simps) (simp add: Let_def)
    then show ?thesis using n wrote_byte by auto
  next
    case False
    let ?n = "number ?b (unat v div ?b)"
    have n: "number ?b (unat v) = ?n @ [ascii_digit (unat v mod ?b)]"
      using False assms by (simp add: number_def digits.simps [of ?b "unat v"])
    have "unat v div ?b < unat v" using False assms by (intro div_less_dividend) auto
    then obtain m' where m': "itoa m (v div ?u) p base = Some (Inr (m', p + of_nat (length ?n)))"
        "wrote m m' p ?n"
      using less [of "v div ?u"] by (auto simp: i)
    let ?m = "m'(p + of_nat (length ?n) := ascii_digit (unat v mod ?b))"
    have "itoa m v p base = Some (Inr (?m, p + of_nat (length ?n) + 1))"
      using False zero dc b0 m'(1) by (subst itoa.simps) (simp add: Let_def)
    moreover have "p + of_nat (length ?n) + 1 = p + of_nat (length (?n @ [ascii_digit (unat v mod ?b)]))"
      by (simp only: length_append list.size of_nat_add of_nat_Suc semiring_1_class.of_nat_0 add_0_right add_0_left add.assoc)
    ultimately have it: "itoa m v p base = Some (Inr (?m, p + of_nat (length (?n @ [ascii_digit (unat v mod ?b)]))))"
      by (simp only:)
    have "unat v div ?b < 2 ^ 32" using le_less_trans [OF div_le_dividend unat_less_2p32 [of v]] by simp
    then have "length (digits ?b (unat v div ?b)) \<le> 32" by (rule length_digits [OF assms(1)]) simp
    then have "length ?n \<le> 32" unfolding number_def length_map .
    then have "length ?n + length [ascii_digit (unat v mod ?b)] < 4294967296" by (rule short_plus_one)
    then have "wrote m ?m p (?n @ [ascii_digit (unat v mod ?b)])"
      by (rule wrote_append [OF m'(2) wrote_byte])
    with it show ?thesis unfolding n by blast
  qed
qed

section \<open>What a format stands for\<close>

text \<open>
  \<open>renders m W fmt ap out\<close>: in memory \<open>m\<close>, the format \<open>fmt\<close> with the arguments above \<open>ap\<close>
  stands for the bytes \<open>out\<close>, and no argument and no argument string lies in the set \<open>W\<close> of
  addresses that may be written. 37 is the percent sign, 115, 99, 100 and 120 are the letters
  s, c, d and x. A percent sign before any other character, itself included, is dropped.
\<close>

inductive renders :: "mem \<Rightarrow> u32 set \<Rightarrow> u8 list \<Rightarrow> u32 \<Rightarrow> u8 list \<Rightarrow> bool" for m W where
  done_: "renders m W [] ap []"
| plain: "c \<noteq> 37 \<Longrightarrow> renders m W cs ap out \<Longrightarrow> renders m W (c # cs) ap (c # out)"
| percent_end: "renders m W [37] ap []"
| percent_s: "area (ap + 4) 4 \<inter> W = {} \<Longrightarrow> load32 m (ap + 4) \<noteq> 0 \<Longrightarrow> cstr_at m (load32 m (ap + 4)) xs \<Longrightarrow>
    area (load32 m (ap + 4)) (Suc (length xs)) \<inter> W = {} \<Longrightarrow>
    renders m W cs (ap + 4) out \<Longrightarrow> renders m W (37 # 115 # cs) ap (xs @ out)"
| percent_c: "ap + 4 \<notin> W \<Longrightarrow> renders m W cs (ap + 4) out \<Longrightarrow>
    renders m W (37 # 99 # cs) ap (m (ap + 4) # out)"
| percent_d: "area (ap + 4) 4 \<inter> W = {} \<Longrightarrow> renders m W cs (ap + 4) out \<Longrightarrow>
    renders m W (37 # 100 # cs) ap
      ((if sint (load32 m (ap + 4)) < 0 then [45] else []) @
       number 10 (nat \<bar>sint (load32 m (ap + 4))\<bar>) @ out)"
| percent_x: "area (ap + 4) 4 \<inter> W = {} \<Longrightarrow> renders m W cs (ap + 4) out \<Longrightarrow>
    renders m W (37 # 120 # cs) ap (number 16 (unat (load32 m (ap + 4))) @ out)"
| percent_other: "c \<notin> {115, 99, 100, 120} \<Longrightarrow> renders m W (c # cs) ap out \<Longrightarrow>
    renders m W (37 # c # cs) ap out"

lemma load32_cong: "(\<And>x. x \<in> area a 4 \<Longrightarrow> m' x = m x) \<Longrightarrow> load32 m' a = load32 m a"
proof -
  assume h: "\<And>x. x \<in> area a 4 \<Longrightarrow> m' x = m x"
  have "a \<in> area a 4" "a + 1 \<in> area a 4" "a + 2 \<in> area a 4" "a + 3 \<in> area a 4"
    using in_area [of 0 4 a] in_area [of 1 4 a] in_area [of 2 4 a] in_area [of 3 4 a] by simp_all
  then show ?thesis by (simp add: load32_def h)
qed

lemma wrote_frame: "wrote m m' p xs \<Longrightarrow> x \<notin> W \<Longrightarrow> area p (Suc (length xs)) \<subseteq> W \<Longrightarrow> m' x = m x"
  by (auto simp: wrote_def)

lemma strcpy_wrote:
  assumes "cstr_at m src cs" "length cs < 4294967295" "dst \<noteq> 0" "src \<noteq> 0"
    and "area dst (Suc (length cs)) \<inter> area src (Suc (length cs)) = {}"
  shows "\<exists>m'. strcpy m dst src = Inr (m', dst) \<and> wrote m m' dst cs"
proof -
  obtain m' where m': "strcpy_loop m dst src = Some m'" "cstr_at m' dst cs"
    "\<forall>x. x \<notin> area dst (Suc (length cs)) \<longrightarrow> m' x = m x"
    using strcpy_loop_cstr [OF assms(1,2,5)] by blast
  then have "wrote m m' dst cs" by (auto simp: wrote_def cstr_at_bytes)
  then show ?thesis using m' assms(3,4) by (simp add: strcpy_def)
qed

lemma strlen_cstr: "cstr_at m p cs \<Longrightarrow> p \<noteq> 0 \<Longrightarrow> strlen m p = Inr (of_nat (length cs))"
  by (simp add: strlen_def strlen_loop_cstr)

text \<open>One step of the loop in the middle of the format: \<open>k\<close> bytes of format read, \<open>xs\<close> written.\<close>

lemma area_split: "area p (Suc (length xs + n)) \<subseteq> W \<Longrightarrow>
  area p (Suc (length xs)) \<subseteq> W \<and> area (p + of_nat (length xs)) (Suc n) \<subseteq> W"
  using area_mono [of "Suc (length xs)" "Suc (length xs + n)" p] area_shift [of p "length xs" "Suc n"] by auto

lemma uint_of_int_u32: "0 \<le> k \<Longrightarrow> k < 4294967296 \<Longrightarrow> uint (of_int k :: u32) = k"
  by (simp add: uint_word_of_int)

lemma abs_sint_neg: "sint (v :: u32) < 0 \<Longrightarrow> unat (0 - v) = nat \<bar>sint v\<bar>"
proof -
  assume n: "sint v < 0"
  have "v = of_int (sint v)" by simp
  then have "0 - v = of_int (- sint v)" by (metis diff_0 of_int_minus)
  moreover have "- sint v \<le> 2147483648" using sint_ge [of v] by simp
  ultimately have "uint (0 - v) = - sint v" using n uint_of_int_u32 [of "- sint v"] by simp
  then show ?thesis using n unat_eq_nat_uint [of "0 - v"] by (simp only: abs_of_neg)
qed

lemma abs_sint_nonneg: "\<not> sint (v :: u32) < 0 \<Longrightarrow> unat v = nat \<bar>sint v\<bar>"
proof -
  assume n: "\<not> sint v < 0"
  have v: "of_int (sint v) = v" by simp
  have "sint v < 2147483648" using sint_lt [of v] by simp
  then have "uint (of_int (sint v) :: u32) = sint v" using n by (intro uint_of_int_u32) simp_all
  then show ?thesis using n v unat_eq_nat_uint [of v] by simp
qed

text \<open>The claim of the loop, for one format from one address on: \<open>ok m W f fmt p ap out\<close>.\<close>

definition formats :: "mem \<Rightarrow> u32 \<Rightarrow> u8 \<Rightarrow> u32 \<Rightarrow> u32 \<Rightarrow> u8 list \<Rightarrow> bool" where
  "formats m f c p ap out \<longleftrightarrow>
     (\<exists>m'. vsprintf_loop m f c p ap = Some (Inr (m', p + of_nat (length out))) \<and> wrote m m' p out)"

lemma formats_step:
  assumes "wrote m m1 p xs" and "length xs + length out < 4294967296"
    and "vsprintf_loop m f c p ap = vsprintf_loop m1 f' c' (p + of_nat (length xs)) ap'"
    and "formats m1 f' c' (p + of_nat (length xs)) ap' out"
  shows "formats m f c p ap (xs @ out)"
  using assms wrote_append [OF assms(1)] by (fastforce simp: formats_def ac_simps)

lemma vsprintf_loop_s:
  assumes "m (f + 1) = 115" "strcpy m p (load32 m (ap + 4)) = Inr (m', x)" "strlen m' (load32 m (ap + 4)) = Inr n"
  shows "vsprintf_loop m f 37 p ap = vsprintf_loop m' (2 + f) (m' (2 + f)) (p + n) (ap + 4)"
  by (subst vsprintf_loop.simps) (simp add: assms Let_def)

lemma vsprintf_loop_d:
  assumes "m (f + 1) = 100" "sint (load32 m (ap + 4)) < 0"
    "itoa (m(p := 45)) (0 - load32 m (ap + 4)) (p + 1) 10 = Some (Inr (m', q))"
  shows "vsprintf_loop m f 37 p ap = vsprintf_loop m' (2 + f) (m' (2 + f)) q (ap + 4)"
  using assms by (subst vsprintf_loop.simps) (simp add: Let_def)

lemma vsprintf_loop_d_pos:
  assumes "m (f + 1) = 100" "\<not> sint (load32 m (ap + 4)) < 0"
    "itoa m (load32 m (ap + 4)) p 10 = Some (Inr (m', q))"
  shows "vsprintf_loop m f 37 p ap = vsprintf_loop m' (2 + f) (m' (2 + f)) q (ap + 4)"
  using assms by (subst vsprintf_loop.simps) (simp add: Let_def)

lemma vsprintf_loop_x:
  assumes "m (f + 1) = 120" "itoa m (load32 m (ap + 4)) p 16 = Some (Inr (m', q))"
  shows "vsprintf_loop m f 37 p ap = vsprintf_loop m' (2 + f) (m' (2 + f)) q (ap + 4)"
  using assms by (subst vsprintf_loop.simps) (simp add: Let_def)

lemma vsprintf_loop_other:
  "m (f + 1) \<notin> {115, 99, 100, 120} \<Longrightarrow> vsprintf_loop m f 37 p ap = vsprintf_loop m (f + 1) (m (f + 1)) p ap"
  by (subst vsprintf_loop.simps) (simp add: Let_def)

text \<open>What is outside the writable set stays as it was, so the rest of the format still stands for
  the rest of the output.\<close>

lemma agree_after:
  assumes "\<forall>x. x \<notin> W \<longrightarrow> m1 x = m x" and "wrote m1 m2 p xs" and "area p (Suc (length xs)) \<subseteq> W"
  shows "\<forall>x. x \<notin> W \<longrightarrow> m2 x = m x"
  using assms by (auto simp: wrote_def)

lemma itoa_formats:
  assumes "2 \<le> unat b" "unat b \<le> 16" "ns = number (unat b) (unat v)"
  obtains m' where "itoa m v p b = Some (Inr (m', p + of_nat (length ns)))" "wrote m m' p ns"
  using itoa_number [OF assms(1,2), of m v p] assms(3) by blast

lemma conv_step:
  assumes agree: "\<forall>x. x \<notin> W \<longrightarrow> m1 x = m x"
    and fmt: "cstr_at m f (37 # k # cs)" "area f (Suc (length (37 # k # cs))) \<inter> W = {}"
    and buf: "area p (Suc (length (xs @ out))) \<subseteq> W" "length (xs @ out) < 4294967295"
    and rest: "\<And>m1 f p. \<forall>x. x \<notin> W \<longrightarrow> m1 x = m x \<Longrightarrow> cstr_at m f cs \<Longrightarrow>
      area f (Suc (length cs)) \<inter> W = {} \<Longrightarrow> area p (Suc (length out)) \<subseteq> W \<Longrightarrow>
      length out < 4294967295 \<Longrightarrow> formats m1 f (m1 f) p (ap + 4) out"
    and w: "wrote m1 m2 p xs"
    and step: "vsprintf_loop m1 f 37 p ap =
      vsprintf_loop m2 (2 + f) (m2 (2 + f)) (p + of_nat (length xs)) (ap + 4)"
  shows "formats m1 f (m1 f) p ap (xs @ out)"
proof -
  have "m1 f = 37" using fmt agree by (auto simp: area_Suc)
  have a: "area p (Suc (length xs)) \<subseteq> W" "area (p + of_nat (length xs)) (Suc (length out)) \<subseteq> W"
    using area_split [of p xs "length out" W] buf by simp_all
  have "formats m2 (2 + f) (m2 (2 + f)) (p + of_nat (length xs)) (ap + 4) out"
  proof (rule rest)
    show "\<forall>x. x \<notin> W \<longrightarrow> m2 x = m x" using agree w a(1) by (rule agree_after)
    show "cstr_at m (2 + f) cs" "area (2 + f) (Suc (length cs)) \<inter> W = {}"
      using fmt by (auto simp: area_Suc ac_simps)
  qed (use a buf in auto)
  then show ?thesis using w step buf \<open>m1 f = 37\<close> by (intro formats_step [of m1 m2 p xs out]) auto
qed

lemma conv_char:
  assumes "\<forall>x. x \<notin> W \<longrightarrow> m1 x = m x" "cstr_at m f (37 # k # cs)" "area f (Suc (length (37 # k # cs))) \<inter> W = {}"
  shows "m1 (f + 1) = k"
  using assms by (auto simp: area_Suc)

lemma load32_agree: "\<forall>x. x \<notin> W \<longrightarrow> m1 x = m x \<Longrightarrow> area a 4 \<inter> W = {} \<Longrightarrow> load32 m1 a = load32 m a"
  by (rule load32_cong) auto

lemma renders_formats:
  assumes "renders m W fmt ap out" and "0 \<notin> W"
  shows "\<forall>x. x \<notin> W \<longrightarrow> m1 x = m x \<Longrightarrow> cstr_at m f fmt \<Longrightarrow> area f (Suc (length fmt)) \<inter> W = {} \<Longrightarrow>
    area p (Suc (length out)) \<subseteq> W \<Longrightarrow> length out < 4294967295 \<Longrightarrow> formats m1 f (m1 f) p ap out"
  using assms(1)
proof (induction arbitrary: m1 f p rule: renders.induct)
  case (done_ ap)
  then show ?case by (auto simp: formats_def wrote_nil vsprintf_loop.simps area_Suc)
next
  case (plain c cs ap out)
  have "m1 f = c" "c \<noteq> 0" using plain.prems by (auto simp: area_Suc)
  let ?m = "m1(p := c)"
  have w: "wrote m1 ?m p [c]" by (rule wrote_byte)
  have a: "area p (Suc (length [c])) \<subseteq> W" "area (p + of_nat (length [c])) (Suc (length out)) \<subseteq> W"
    using area_split [of p "[c]" "length out" W] plain.prems by simp_all
  have "formats ?m (f + 1) (?m (f + 1)) (p + 1) ap out"
    using plain.prems a agree_after [OF plain.prems(1) w a(1)] by (intro plain.IH) (auto simp: area_Suc)
  moreover have "vsprintf_loop m1 f (m1 f) p ap = vsprintf_loop ?m (f + 1) (?m (f + 1)) (p + 1) ap"
    using \<open>m1 f = c\<close> \<open>c \<noteq> 0\<close> plain.hyps by (subst vsprintf_loop.simps) (simp add: Let_def)
  ultimately show ?case using formats_step [OF w, of out f "m1 f" ap "f + 1" "?m (f + 1)" ap] plain.prems by simp
next
  case (percent_end ap)
  then have "m1 f = 37" "m1 (f + 1) = 0" by (auto simp: area_Suc)
  then have "vsprintf_loop m1 f (m1 f) p ap = Some (Inr (m1, p))"
    by (simp add: vsprintf_loop_other vsprintf_loop.simps [of m1 "f + 1"])
  then show ?case by (simp add: formats_def wrote_nil)
next
  case (percent_s ap xs cs out)
  let ?arg = "load32 m (ap + 4)"
  have arg: "load32 m1 (ap + 4) = ?arg" using percent_s.prems percent_s.hyps by (intro load32_agree)
  have a: "area p (Suc (length xs)) \<subseteq> W"
    using area_split [of p xs "length out" W] percent_s.prems by simp
  have str: "cstr_at m1 ?arg xs"
    using percent_s.hyps percent_s.prems(1) by (subst cstr_at_cong [of _ _ m1 m]) auto
  have p0: "p \<noteq> 0" using a assms(2) by (auto simp: area_Suc)
  have disj: "area p (Suc (length xs)) \<inter> area ?arg (Suc (length xs)) = {}" using a percent_s.hyps by blast
  obtain m2 where m2: "strcpy m1 p ?arg = Inr (m2, p)" "wrote m1 m2 p xs"
    using strcpy_wrote [OF str _ p0 _ disj] percent_s.hyps percent_s.prems by auto
  have "cstr_at m2 ?arg xs"
    using str m2(2) disj by (subst cstr_at_cong [of _ _ m2 m1]) (auto simp: wrote_def)
  then have len: "strlen m2 ?arg = Inr (of_nat (length xs))" using percent_s.hyps by (intro strlen_cstr)
  have "m1 (f + 1) = 115" using percent_s.prems(1-3) by (rule conv_char)
  then show ?case using m2 len arg percent_s.prems percent_s.IH
    by (intro conv_step [OF percent_s.prems percent_s.IH m2(2)] vsprintf_loop_s) auto
next
  case (percent_c ap cs out)
  have w: "wrote m1 (m1(p := m (ap + 4))) p [m (ap + 4)]" by (rule wrote_byte)
  have "m1 (f + 1) = 99" using percent_c.prems(1-3) by (rule conv_char)
  moreover have "m1 (ap + 4) = m (ap + 4)" using percent_c.prems(1) percent_c.hyps by blast
  ultimately have "vsprintf_loop m1 f 37 p ap = vsprintf_loop (m1(p := m (ap + 4))) (2 + f)
      ((m1(p := m (ap + 4))) (2 + f)) (p + of_nat (length [m (ap + 4)])) (ap + 4)"
    by (subst vsprintf_loop.simps) (simp add: Let_def)
  note step = conv_step [OF percent_c.prems(1-3) _ _ percent_c.IH w this]
  have "formats m1 f (m1 f) p ap ([m (ap + 4)] @ out)"
    by (rule step) (use percent_c.prems(4,5) in \<open>simp_all only: append.simps\<close>)
  then show ?case by (simp only: append.simps)
next
  case (percent_d ap cs out)
  let ?v = "load32 m (ap + 4)"
  let ?n = "number 10 (nat \<bar>sint ?v\<bar>)"
  have arg: "load32 m1 (ap + 4) = ?v" using percent_d.prems percent_d.hyps by (intro load32_agree)
  have k: "m1 (f + 1) = 100" using percent_d.prems(1-3) by (rule conv_char)
  show ?case
  proof (cases "sint ?v < 0")
    case True
    have n: "?n = number (unat (10 :: u8)) (unat (0 - ?v))" unfolding abs_sint_neg [OF True] by simp
    obtain m2 where m2: "itoa (m1(p := 45)) (0 - ?v) (p + 1) 10 = Some (Inr (m2, p + 1 + of_nat (length ?n)))"
        "wrote (m1(p := 45)) m2 (p + 1) ?n"
      by (rule itoa_formats [OF _ _ n, of "m1(p := 45)" "p + 1"]) auto
    have w: "wrote m1 m2 p ([45] @ ?n)"
      using percent_d.prems True m2(2) by (intro wrote_append [OF wrote_byte]) auto
    have q: "p + 1 + of_nat (length ?n) = p + of_nat (length ([45] @ ?n))" by simp
    have "vsprintf_loop m1 f 37 p ap =
        vsprintf_loop m2 (2 + f) (m2 (2 + f)) (p + of_nat (length ([45] @ ?n))) (ap + 4)"
      using k m2(1) True by (intro vsprintf_loop_d) (simp_all only: arg q)
    note step = conv_step [OF percent_d.prems(1-3) _ _ percent_d.IH w this]
    have "formats m1 f (m1 f) p ap (([45] @ ?n) @ out)"
      by (rule step) (use percent_d.prems(4,5) True in simp_all)
    then show ?thesis using True by (simp only: if_True append_assoc)
  next
    case False
    have n: "?n = number (unat (10 :: u8)) (unat ?v)" unfolding abs_sint_nonneg [OF False] by simp
    obtain m2 where m2: "itoa m1 ?v p 10 = Some (Inr (m2, p + of_nat (length ?n)))" "wrote m1 m2 p ?n"
      by (rule itoa_formats [OF _ _ n, of m1 p]) auto
    have "vsprintf_loop m1 f 37 p ap =
        vsprintf_loop m2 (2 + f) (m2 (2 + f)) (p + of_nat (length ?n)) (ap + 4)"
      using k m2(1) False by (intro vsprintf_loop_d_pos) (simp_all only: arg not_False_eq_True)
    note step = conv_step [OF percent_d.prems(1-3) _ _ percent_d.IH m2(2) this]
    have "formats m1 f (m1 f) p ap (?n @ out)"
      by (rule step) (use percent_d.prems(4,5) False in simp_all)
    then show ?thesis using False by (simp only: if_False append.simps)
  qed
next
  case (percent_x ap cs out)
  let ?v = "load32 m (ap + 4)"
  let ?n = "number 16 (unat ?v)"
  have arg: "load32 m1 (ap + 4) = ?v" using percent_x.prems percent_x.hyps by (intro load32_agree)
  have k: "m1 (f + 1) = 120" using percent_x.prems(1-3) by (rule conv_char)
  obtain m2 where m2: "itoa m1 ?v p 16 = Some (Inr (m2, p + of_nat (length ?n)))" "wrote m1 m2 p ?n"
    by (rule itoa_formats [of "16" ?n ?v m1 p]) auto
  have "vsprintf_loop m1 f 37 p ap =
      vsprintf_loop m2 (2 + f) (m2 (2 + f)) (p + of_nat (length ?n)) (ap + 4)"
    using k m2(1) by (intro vsprintf_loop_x) (simp_all only: arg)
  note step = conv_step [OF percent_x.prems(1-3) _ _ percent_x.IH m2(2) this]
  show ?case by (rule step) (use percent_x.prems(4,5) in simp_all)
next
  case (percent_other c cs ap out)
  have "m1 f = 37" "m1 (f + 1) = c" using percent_other.prems by (auto simp: area_Suc)
  moreover have "formats m1 (f + 1) (m1 (f + 1)) p ap out"
    using percent_other.prems by (intro percent_other.IH) (auto simp: area_Suc)
  ultimately show ?case using percent_other.hyps vsprintf_loop_other [of m1 f p ap] by (simp add: formats_def)
qed

section \<open>Properties\<close>

text \<open>\<open>itoa\<close> in a base from 2 to 16 returns behind the text it wrote, and that text, read as
  digits of the base, is the number.\<close>

theorem itoa_roundtrip:
  assumes "2 \<le> unat base" and "unat base \<le> 16"
  shows "\<exists>m' ns. itoa m v p base = Some (Inr (m', p + of_nat (length ns))) \<and> bytes_at m' p ns \<and>
    from_digits (unat base) (map ascii_val ns) = unat v \<and>
    (\<forall>x. x \<in> - area p (Suc (length ns)) \<longrightarrow> m' x = m x)"
  using itoa_number [OF assms, of m v p] number_value [OF assms] unfolding wrote_def by blast

text \<open>\<open>vsprintf\<close> into a buffer whose byte behind the output is NUL returns the length of the text
  that the format and its arguments stand for, leaves that text as a C string in the buffer,
  and writes nothing else. (It does not write the NUL itself unless the format ends in a
  string.)\<close>

theorem vsprintf_correct:
  assumes "renders m (area str (Suc (length out))) fmt ap out" and "cstr_at m f fmt"
    and "area f (Suc (length fmt)) \<inter> area str (Suc (length out)) = {}"
    and "0 \<notin> area str (Suc (length out))" and "length out < 4294967295"
    and "m (str + of_nat (length out)) = 0" and "0 \<notin> set out"
  shows "\<exists>m'. vsprintf m str f ap = Inr (m', of_nat (length out)) \<and> cstr_at m' str out \<and>
    (\<forall>x. x \<in> - area str (Suc (length out)) \<longrightarrow> m' x = m x)"
proof -
  have "formats m f (m f) str ap out"
    by (rule renders_formats [OF assms(1,4) _ assms(2,3) order_refl assms(5)]) simp
  then obtain m' where m': "vsprintf_loop m f (m f) str ap = Some (Inr (m', str + of_nat (length out)))"
      "wrote m m' str out"
    by (auto simp: formats_def)
  then have c: "cstr_at m' str out" using assms(6,7) by (auto simp: cstr_at_bytes wrote_def)
  moreover have "str \<noteq> 0" using assms(4) by (auto simp: area_Suc)
  ultimately have "strlen m' str = Inr (of_nat (length out))" by (rule strlen_cstr)
  then have "vsprintf m str f ap = Inr (m', of_nat (length out))" using m'(1) by (simp add: vsprintf_def)
  with c m'(2) show ?thesis by (auto simp: wrote_def)
qed

section \<open>Concrete instances\<close>

text \<open>The format \<open>n=%d %s\<close> at 16, the argument list at 64 (its first argument at 68 is -42, its
  second at 72 points to the string at 96), a zeroed buffer at 128.\<close>

definition demo_fmt :: "u8 list" where
  "demo_fmt = [110, 61, 37, 100, 32, 37, 115]"

definition demo_stdio :: mem where
  "demo_stdio = (\<lambda>_. 0)(16 := 110, 17 := 61, 18 := 37, 19 := 100, 20 := 32, 21 := 37, 22 := 115,
     68 := 0xd6, 69 := 0xff, 70 := 0xff, 71 := 0xff, 72 := 96, 96 := 111, 97 := 107)"

definition demo_out :: "u8 list" where
  "demo_out = [110, 61, 45, 52, 50, 32, 111, 107]"

lemma demo_args: "load32 demo_stdio 68 = - 42" "load32 demo_stdio 72 = 96"
  by (simp_all add: load32_def demo_stdio_def word_of_bytes_def push_bit_eq_mult)

theorem itoa_roundtrip_witness:
  "\<exists>m' ns. itoa (\<lambda>_. 0) 0xbeef 32 16 = Some (Inr (m', 32 + of_nat (length ns))) \<and>
     bytes_at m' 32 ns \<and> from_digits 16 (map ascii_val ns) = 48879"
  using itoa_roundtrip [of 16 "\<lambda>_. 0" "0xbeef" 32] by fastforce

lemma demo_ok: "demo_stdio 96 = 111" "demo_stdio 97 = 107" "demo_stdio 98 = 0"
  by (simp_all add: demo_stdio_def)

lemma demo_number: "number 10 42 = [52, 50]"
  by (simp add: number_def digits.simps ascii_digit_def)

lemma demo_renders: "renders demo_stdio (area 128 9) demo_fmt 64 demo_out"
proof -
  let ?W = "area 128 9"
  have W: "?W = {128, 129, 130, 131, 132, 133, 134, 135, 136}" by (simp add: area_numeral area_Suc)
  have a: "area 68 4 = {68, 69, 70, 71}" "area 72 4 = {72, 73, 74, 75}" "area 96 3 = {96, 97, 98}"
    by (simp_all add: area_numeral area_Suc)
  have s: "sint (- 42 :: u32) = - 42" by simp
  have "renders demo_stdio ?W [37, 115] 68 ([111, 107] @ [])"
    using percent_s [where m = demo_stdio and W = ?W and ap = 68 and xs = "[111, 107]" and cs = "[]" and out = "[]"]
    by (simp add: demo_args a W demo_ok renders.done_ numeral_3_eq_3 [symmetric])
  then have "renders demo_stdio ?W [32, 37, 115] 68 [32, 111, 107]" by (auto intro: plain)
  then have "renders demo_stdio ?W [37, 100, 32, 37, 115] 64
      ((if sint (load32 demo_stdio (64 + 4)) < 0 then [45] else []) @
       number 10 (nat \<bar>sint (load32 demo_stdio (64 + 4))\<bar>) @ [32, 111, 107])"
    by (intro percent_d) (simp_all add: a W)
  then have "renders demo_stdio ?W [37, 100, 32, 37, 115] 64 [45, 52, 50, 32, 111, 107]"
    by (simp add: demo_args s demo_number)
  then show ?thesis by (auto simp: demo_fmt_def demo_out_def intro!: plain)
qed

theorem vsprintf_correct_witness:
  "\<exists>m'. vsprintf demo_stdio 128 16 64 = Inr (m', 8) \<and> cstr_at m' 128 demo_out"
proof -
  have len: "length demo_out = 8" "length demo_fmt = 7" by (simp_all add: demo_out_def demo_fmt_def)
  have "cstr_at demo_stdio 16 demo_fmt" by (simp add: demo_stdio_def demo_fmt_def)
  moreover have "area 16 8 \<inter> area 128 9 = {}" by (simp add: area_numeral area_Suc)
  moreover have "0 \<notin> area 128 9" by (simp add: area_numeral area_Suc)
  moreover have "demo_stdio 136 = 0" "0 \<notin> set demo_out" by (simp_all add: demo_stdio_def demo_out_def)
  ultimately show ?thesis
    using vsprintf_correct [of demo_stdio 128 demo_out demo_fmt 64 16] demo_renders len by auto
qed

end
