(* ===== verification/Bitmap.thy ===== *)
theory Bitmap
  imports Prelude
begin

text \<open>
  lib/kernel/bitmap.c and bitmap.h. The array behind \<open>bits\<close> is memory: the model reads and
  writes it by byte index, so an index past \<open>btmp_bytes_len\<close> reaches the memory behind the
  array, as the code does. C's \<open>int\<close> results are 32-bit words, -1 is the word of all ones.
\<close>

record bitmap =
  btmp_bytes_len :: u32
  bits :: "u32 \<Rightarrow> u8"

definition BITMAP_MASK :: u32 where
  "BITMAP_MASK = 1"

definition bitmap_init :: "bitmap \<Rightarrow> bitmap" where
  "bitmap_init b = b\<lparr>bits := (\<lambda>i. if i < btmp_bytes_len b then 0 else bits b i)\<rparr>"

definition bitmap_scan_test :: "bitmap \<Rightarrow> u32 \<Rightarrow> bool" where
  "bitmap_scan_test b bit_idx =
     (let byte_idx = bit_idx div 8; bit_odd = bit_idx mod 8
      in (ucast (bits b byte_idx) AND push_bit (unat bit_odd) BITMAP_MASK) \<noteq> 0)"

text \<open>The byte loop of \<open>bitmap_scan\<close>: the array is read before the index is checked.\<close>

function scan_byte :: "bitmap \<Rightarrow> u32 \<Rightarrow> u32" where
  "scan_byte b idx_byte =
     (if bits b idx_byte = 0xff \<and> idx_byte < btmp_bytes_len b then scan_byte b (idx_byte + 1)
      else idx_byte)"
  by pat_completeness auto
termination
  by (relation "measure (\<lambda>(b, i). unat (btmp_bytes_len b) - unat i)")
    (auto simp: word_less_nat_alt unat_succ_u32 intro!: diff_less_mono2)

declare scan_byte.simps [simp del]

text \<open>The bit loop: the mask is cut to a byte, so it is 0 from bit 8 on.\<close>

function scan_bit :: "u8 \<Rightarrow> nat \<Rightarrow> nat" where
  "scan_bit byte idx_bit =
     (if (ucast (push_bit idx_bit BITMAP_MASK) :: u8) AND byte \<noteq> 0 then scan_bit byte (Suc idx_bit)
      else idx_bit)"
  by pat_completeness auto
termination
proof (relation "measure (\<lambda>(b, i). 8 - i)")
  fix byte :: u8 and i
  assume nz: "(ucast (push_bit i BITMAP_MASK) :: u8) AND byte \<noteq> 0"
  have "i < 8"
  proof (rule ccontr)
    assume "\<not> i < 8"
    then have "(ucast (push_bit i BITMAP_MASK) :: u8) = 0"
      by (intro bit_word_eqI) (auto simp: BITMAP_MASK_def bit_simps)
    with nz show False by simp
  qed
  then show "((byte, Suc i), (byte, i)) \<in> measure (\<lambda>(b, i). 8 - i)" by simp
qed simp

declare scan_bit.simps [simp del]

text \<open>The run loop: \<open>bit_left\<close> steps, counting the free bits met in a row.\<close>

fun scan_run :: "bitmap \<Rightarrow> u32 \<Rightarrow> nat \<Rightarrow> u32 \<Rightarrow> u32 \<Rightarrow> u32" where
  "scan_run b cnt 0 next_bit count = - 1"
| "scan_run b cnt (Suc bit_left) next_bit count =
     (let count = (if \<not> bitmap_scan_test b next_bit then count + 1 else 0)
      in if count = cnt then next_bit - cnt + 1
         else scan_run b cnt bit_left (next_bit + 1) count)"

definition bitmap_scan :: "bitmap \<Rightarrow> u32 \<Rightarrow> u32 res" where
  "bitmap_scan b cnt =
     (let idx_byte = scan_byte b 0 in
      bnd (ASSERT (idx_byte < btmp_bytes_len b)) (\<lambda>_.
      if idx_byte = btmp_bytes_len b then Inr (- 1)
      else
        let idx_bit = scan_bit (bits b idx_byte) 0;
            bit_idx_start = idx_byte * 8 + of_nat idx_bit
        in if cnt = 1 then Inr bit_idx_start
           else
             let bit_left = btmp_bytes_len b * 8 - bit_idx_start
             in Inr (scan_run b cnt (unat bit_left) (bit_idx_start + 1) 1)))"

definition bitmap_set :: "bitmap \<Rightarrow> u32 \<Rightarrow> u8 \<Rightarrow> bitmap res" where
  "bitmap_set b bit_idx v =
     bnd (ASSERT (v = 0 \<or> v = 1)) (\<lambda>_.
     let byte_idx = bit_idx div 8;
         mask = ucast (push_bit (unat (bit_idx mod 8)) BITMAP_MASK) :: u8;
         byte = (if v \<noteq> 0 then bits b byte_idx OR mask else bits b byte_idx AND NOT mask)
     in Inr (b\<lparr>bits := (bits b)(byte_idx := byte)\<rparr>))"

section \<open>Abstraction: the bits that are set\<close>

definition is_set :: "bitmap \<Rightarrow> nat \<Rightarrow> bool" where
  "is_set b i = bit (bits b (of_nat (i div 8))) (i mod 8)"

text \<open>Number of bits of a bitmap; \<open>small\<close>: the bit indices fit a signed \<open>int\<close>.\<close>

definition n_bits :: "bitmap \<Rightarrow> nat" where
  "n_bits b = 8 * unat (btmp_bytes_len b)"

definition small :: "bitmap \<Rightarrow> bool" where
  "small b \<longleftrightarrow> n_bits b < 2147483648"

lemma unat_div_8: "unat (i div 8 :: u32) = unat i div 8"
  by (simp add: unat_div)

lemma unat_mod_8: "unat (i mod 8 :: u32) = unat i mod 8"
  by (simp add: unat_mod)

lemma of_nat_unat_div8: "(of_nat (unat i div 8) :: u32) = i div 8"
  by (simp flip: unat_div_8)

lemma bitmap_scan_test_is_set: "bitmap_scan_test b i = is_set b (unat i)"
proof -
  have "unat i mod 8 < 8" by simp
  then have "((ucast (bits b (i div 8)) :: u32) AND push_bit (unat i mod 8) 1 \<noteq> 0)
      = bit (bits b (i div 8)) (unat i mod 8)"
    by (auto simp: and_exp_eq_0_iff_not_bit bit_simps)
  then show ?thesis
    by (simp add: bitmap_scan_test_def is_set_def BITMAP_MASK_def unat_mod_8 of_nat_unat_div8 Let_def)
qed

lemma mask_byte: "((ucast (push_bit i BITMAP_MASK) :: u8) AND byte \<noteq> 0) = bit byte i"
proof -
  have "(ucast (2 ^ i :: u32) :: u8) AND byte = (if bit byte i then 2 ^ i else 0)"
    by (rule bit_word_eqI) (auto simp: bit_simps dest: bit_imp_le_length)
  then show ?thesis by (auto simp: BITMAP_MASK_def dest: bit_imp_le_length)
qed

lemma all_ones_byte: "(byte :: u8) = 0xff \<longleftrightarrow> (\<forall>i<8. bit byte i)"
proof -
  have "(0xff :: u8) = - 1" by (simp add: word_eq_iff_unsigned unsigned_minus_1_eq_mask mask_eq_exp_minus_1)
  then have "byte = 0xff \<longleftrightarrow> byte = - 1" by metis
  also have "\<dots> \<longleftrightarrow> (\<forall>i<8. bit byte i)" by (auto simp: bit_eq_iff)
  finally show ?thesis .
qed

section \<open>The byte loop and the bit loop\<close>

lemma scan_byte_spec:
  "unat (i :: u32) \<le> unat (scan_byte b i) \<and>
   (\<forall>k. unat i \<le> k \<longrightarrow> k < unat (scan_byte b i) \<longrightarrow> bits b (of_nat k) = 0xff) \<and>
   (scan_byte b i < btmp_bytes_len b \<longrightarrow> bits b (scan_byte b i) \<noteq> 0xff) \<and>
   (i \<le> btmp_bytes_len b \<longrightarrow> scan_byte b i \<le> btmp_bytes_len b)"
proof (induction b i rule: scan_byte.induct)
  case (1 b i)
  show ?case
  proof (cases "bits b i = 0xff \<and> i < btmp_bytes_len b")
    case True
    then have suc: "unat (i + 1) = Suc (unat i)"
      by (intro unat_succ_u32 [of _ "btmp_bytes_len b"]) (simp add: word_less_nat_alt)
    have eq: "scan_byte b i = scan_byte b (i + 1)"
      using True by (simp add: scan_byte.simps [of b i])
    have le: "i + 1 \<le> btmp_bytes_len b"
      using True suc by (simp add: word_less_nat_alt word_le_nat_alt)
    have "bits b (of_nat k) = 0xff" if "unat i \<le> k" "k < unat (scan_byte b (i + 1))" for k
      using that True 1 [OF True] suc by (cases "k = unat i") auto
    with 1 [OF True] le suc show ?thesis by (auto simp: eq)
  next
    case False
    then have "scan_byte b i = i" by (subst scan_byte.simps) auto
    with False show ?thesis by auto
  qed
qed

lemma scan_bit_spec:
  "i \<le> scan_bit byte i \<and> (\<forall>k. i \<le> k \<longrightarrow> k < scan_bit byte i \<longrightarrow> bit byte k) \<and>
   \<not> bit byte (scan_bit byte i)"
proof (induction byte i rule: scan_bit.induct)
  case (1 byte i)
  show ?case
  proof (cases "bit byte i")
    case True
    then have eq: "scan_bit byte i = scan_bit byte (Suc i)"
      by (simp only: scan_bit.simps [of byte i] mask_byte if_True)
    have IH: "Suc i \<le> scan_bit byte (Suc i) \<and>
        (\<forall>k. Suc i \<le> k \<longrightarrow> k < scan_bit byte (Suc i) \<longrightarrow> bit byte k) \<and>
        \<not> bit byte (scan_bit byte (Suc i))"
      using 1 True mask_byte by blast
    have "bit byte k" if "i \<le> k" "k < scan_bit byte (Suc i)" for k
      using that True IH by (cases "k = i") auto
    with IH show ?thesis by (auto simp: eq)
  next
    case False
    then have "scan_bit byte i = i"
      by (simp only: scan_bit.simps [of byte i] mask_byte if_False)
    with False show ?thesis by auto
  qed
qed

text \<open>Together: the first clear bit, or all bytes are 0xff.\<close>

lemma scan_first:
  assumes "small b" and lt: "scan_byte b 0 < btmp_bytes_len b"
  defines "start \<equiv> scan_byte b 0 * 8 + of_nat (scan_bit (bits b (scan_byte b 0)) 0)"
  shows "unat start < n_bits b" and "\<not> is_set b (unat start)" and "\<forall>k < unat start. is_set b k"
proof -
  let ?j = "scan_byte b 0" and ?i = "scan_bit (bits b (scan_byte b 0)) 0"
  have byte: "\<forall>k < unat ?j. bits b (of_nat k) = 0xff" "bits b ?j \<noteq> 0xff"
    using scan_byte_spec [of 0 b] lt by auto
  have bitp: "\<forall>k < ?i. bit (bits b ?j) k" "\<not> bit (bits b ?j) ?i"
    using scan_bit_spec [of 0 "bits b ?j"] by auto
  have i: "?i < 8"
    using byte(2) bitp(1) all_ones_byte by (metis not_le_imp_less order_less_le_trans)
  have j: "unat ?j < unat (btmp_bytes_len b)" using lt by (simp add: word_less_nat_alt)
  have "8 * unat (btmp_bytes_len b) < 2147483648" using assms(1) by (simp add: small_def n_bits_def)
  with i j have st: "unat start = 8 * unat ?j + ?i"
    unfolding start_def by (subst unat_add_u32) (auto simp: unat_mult_u32)
  with i j show "unat start < n_bits b" by (simp add: n_bits_def)
  have "unat start div 8 = unat ?j" "unat start mod 8 = ?i" using st i by auto
  then show "\<not> is_set b (unat start)" using bitp(2) by (simp add: is_set_def)
  show "\<forall>k < unat start. is_set b k"
  proof (intro allI impI)
    fix k assume k: "k < unat start"
    show "is_set b k"
    proof (cases "k div 8 = unat ?j")
      case True
      with k st have "k mod 8 < ?i" by presburger
      with bitp(1) True show ?thesis by (simp add: is_set_def)
    next
      case False
      with k st i have "k div 8 < unat ?j" by linarith
      with byte(1) have "bits b (of_nat (k div 8)) = 0xff" by blast
      then show ?thesis using all_ones_byte [of "bits b (of_nat (k div 8))"] by (simp add: is_set_def)
    qed
  qed
qed

lemma scan_full:
  assumes "\<not> scan_byte b 0 < btmp_bytes_len b"
  shows "\<forall>k < n_bits b. is_set b k"
proof (intro allI impI)
  fix k assume "k < n_bits b"
  then have "k div 8 < unat (scan_byte b 0)"
    using assms by (auto simp: n_bits_def word_less_nat_alt not_less)
  then have "bits b (of_nat (k div 8)) = 0xff" using scan_byte_spec [of 0 b] by auto
  then show "is_set b k" using all_ones_byte [of "bits b (of_nat (k div 8))"] by (simp add: is_set_def)
qed

section \<open>The run loop\<close>

lemma scan_run_spec:
  assumes "unat count < unat cnt" and "unat count \<le> unat nb" and "unat nb + n \<le> 2147483648"
    and "\<forall>k. unat nb - unat count \<le> k \<and> k < unat nb \<longrightarrow> \<not> is_set b k"
  shows "(scan_run b cnt n nb count = - 1 \<and>
      (\<forall>s. unat nb - unat count \<le> s \<and> s + unat cnt \<le> unat nb + n \<longrightarrow> (\<exists>k < unat cnt. is_set b (s + k)))) \<or>
    (\<exists>s. scan_run b cnt n nb count = of_nat s \<and> s + unat cnt \<le> unat nb + n \<and>
      (\<forall>k < unat cnt. \<not> is_set b (s + k)))"
  using assms
proof (induction b cnt n nb count rule: scan_run.induct)
  case (1 b cnt nb count)
  then show ?case by auto
next
  case (2 b cnt n nb count)
  let ?c = "if \<not> bitmap_scan_test b nb then count + 1 else 0"
  have nb1: "unat (nb + 1) = Suc (unat nb)"
    using "2.prems"(3) unat_add_u32 [of nb 1] by auto
  have c1: "unat (count + 1) = Suc (unat count)"
    using "2.prems"(1) by (rule unat_succ_u32)
  have run: "\<forall>k. Suc (unat nb) - unat ?c \<le> k \<and> k < Suc (unat nb) \<longrightarrow> \<not> is_set b k"
    using "2.prems"(4) c1 by (auto simp: bitmap_scan_test_is_set less_Suc_eq)
  show ?case
  proof (cases "?c = cnt")
    case True
    define s where "s = Suc (unat nb) - unat cnt"
    have "unat cnt \<le> Suc (unat nb)"
      using True c1 "2.prems"(1,2) by (auto split: if_splits)
    then have s: "s + unat cnt = Suc (unat nb)" by (simp add: s_def)
    then have "(of_nat (s + unat cnt) :: u32) = of_nat (Suc (unat nb))" by (simp only:)
    then have "(of_nat s :: u32) + cnt = nb + 1" by simp
    then have "scan_run b cnt (Suc n) nb count = of_nat s"
      using True by (simp add: Let_def algebra_simps)
    moreover have "\<forall>k < unat cnt. \<not> is_set b (s + k)"
      using run True s by auto
    ultimately show ?thesis using s by auto
  next
    case False
    let ?r = "scan_run b cnt n (nb + 1) ?c"
    have eq: "scan_run b cnt (Suc n) nb count = ?r" using False by (simp add: Let_def)
    have "unat ?c < unat cnt"
      using "2.prems"(1) c1 False by (auto simp: le_neq_implies_less Suc_leI order_less_le word_unat_eq_iff)
    moreover have "unat ?c \<le> unat (nb + 1)" using c1 nb1 "2.prems"(2) by auto
    ultimately have IH: "(?r = - 1 \<and>
        (\<forall>s. unat (nb + 1) - unat ?c \<le> s \<and> s + unat cnt \<le> unat (nb + 1) + n \<longrightarrow>
             (\<exists>k < unat cnt. is_set b (s + k)))) \<or>
      (\<exists>s. ?r = of_nat s \<and> s + unat cnt \<le> unat (nb + 1) + n \<and> (\<forall>k < unat cnt. \<not> is_set b (s + k)))"
      using "2.IH" [OF refl False] "2.prems"(3) run nb1 by simp
    have skip: "\<exists>k < unat cnt. is_set b (s + k)"
      if "unat nb - unat count \<le> s" "s < unat (nb + 1) - unat ?c" for s
    proof -
      have set: "bitmap_scan_test b nb" using that c1 nb1 by (auto split: if_splits)
      with that nb1 have "unat nb - unat count \<le> s" "s \<le> unat nb" by auto
      with "2.prems"(1,2) have "unat nb - s < unat cnt" by linarith
      moreover have "is_set b (s + (unat nb - s))"
        using set \<open>s \<le> unat nb\<close> by (simp add: bitmap_scan_test_is_set)
      ultimately show ?thesis by blast
    qed
    from IH show ?thesis
    proof
      assume h: "?r = - 1 \<and> (\<forall>s. unat (nb + 1) - unat ?c \<le> s \<and> s + unat cnt \<le> unat (nb + 1) + n \<longrightarrow>
             (\<exists>k < unat cnt. is_set b (s + k)))"
      have "\<exists>k < unat cnt. is_set b (s + k)"
        if "unat nb - unat count \<le> s" "s + unat cnt \<le> unat nb + Suc n" for s
        using that h skip nb1 by (cases "s < unat (nb + 1) - unat ?c") auto
      with h eq show ?thesis by auto
    next
      assume "\<exists>s. ?r = of_nat s \<and> s + unat cnt \<le> unat (nb + 1) + n \<and> (\<forall>k < unat cnt. \<not> is_set b (s + k))"
      then obtain s where "?r = of_nat s" "s + unat cnt \<le> unat (nb + 1) + n" "\<forall>k < unat cnt. \<not> is_set b (s + k)"
        by blast
      then show ?thesis unfolding eq nb1 by (intro disjI2 exI [of _ s]) simp
    qed
  qed
qed

section \<open>Writing a bit\<close>

lemma is_set_bitmap_set:
  assumes "bitmap_set b i v = Inr b'" and "k < 4294967296"
  shows "is_set b' k = (if k = unat i then v = 1 else is_set b k)"
proof -
  let ?m = "ucast (2 ^ (unat i mod 8) :: u32) :: u8"
  have v: "v = 0 \<or> v = 1" using assms(1) by (auto simp: bitmap_set_def res_simps)
  have b': "bits b' = (bits b)(i div 8 :=
      (if v = 1 then bits b (i div 8) OR ?m else bits b (i div 8) AND NOT ?m))"
    using assms(1) v by (auto simp: bitmap_set_def res_simps Let_def unat_mod_8 BITMAP_MASK_def)
  have bit_m: "bit ?m n \<longleftrightarrow> n = unat i mod 8" for n
    by (auto simp: bit_simps dest: bit_imp_le_length)
  have same: "(of_nat (k div 8) :: u32) = i div 8 \<longleftrightarrow> k div 8 = unat i div 8"
    using of_nat_eq_iff_u32 [of "k div 8" "unat i div 8"] assms(2) unat_less_2p32 [of i]
    by (simp add: of_nat_unat_div8)
  have "k = unat i \<longleftrightarrow> k div 8 = unat i div 8 \<and> k mod 8 = unat i mod 8"
    by (metis div_mult_mod_eq)
  moreover have "k mod 8 < 8" by simp
  ultimately show ?thesis using v
    by (auto simp: is_set_def b' same bit_m bit_simps of_nat_unat_div8)
qed

lemma btmp_bytes_len_bitmap_set [simp]:
  "bitmap_set b i v = Inr b' \<Longrightarrow> btmp_bytes_len b' = btmp_bytes_len b"
  by (auto simp: bitmap_set_def res_simps Let_def)

lemma n_bits_bitmap_set [simp]: "bitmap_set b i v = Inr b' \<Longrightarrow> n_bits b' = n_bits b"
  by (simp add: n_bits_def)

lemma bitmap_set_ok: "v = 0 \<or> v = 1 \<Longrightarrow> \<exists>b'. bitmap_set b i v = Inr b'"
  by (auto simp: bitmap_set_def Let_def)

section \<open>Allocating and releasing bits\<close>

text \<open>
  The kernel allocates a page frame, a virtual page, an inode and a disk block by the same
  two calls: \<open>bitmap_scan(map, 1)\<close>, then \<open>bitmap_set(map, idx, 1)\<close>; it releases one by
  \<open>bitmap_set(map, idx, 0)\<close>. The interface: which of \<open>cap\<close> units are used, an allocation
  that gives an unused one, a release, and nothing else changes.
\<close>

locale bit_allocator =
  fixes used :: "'s \<Rightarrow> nat \<Rightarrow> bool"
    and cap :: "'s \<Rightarrow> nat"
    and alloc :: "'s \<Rightarrow> (u32 \<times> 's) res"
    and release :: "'s \<Rightarrow> u32 \<Rightarrow> 's res"
    and wf :: "'s \<Rightarrow> bool"
  assumes alloc_ok: "wf s \<Longrightarrow> alloc s = Inr (i, s') \<Longrightarrow>
      wf s' \<and> cap s' = cap s \<and> unat i < cap s \<and> \<not> used s (unat i) \<and>
      (\<forall>k < cap s. used s' k \<longleftrightarrow> k = unat i \<or> used s k)"
    and alloc_full: "wf s \<Longrightarrow> alloc s = Inl e \<Longrightarrow> e = Panic \<and> (\<forall>k < cap s. used s k)"
    and release_ok: "wf s \<Longrightarrow> unat i < cap s \<Longrightarrow> \<exists>s'. release s i = Inr s' \<and> wf s' \<and> cap s' = cap s \<and>
      (\<forall>k < cap s. used s' k \<longleftrightarrow> k \<noteq> unat i \<and> used s k)"
begin

definition free_units :: "'s \<Rightarrow> nat set" where
  "free_units s = {k. k < cap s \<and> \<not> used s k}"

lemma finite_free_units [simp]: "finite (free_units s)"
  by (simp add: free_units_def)

lemma alloc_free_units:
  assumes "wf s" and "alloc s = Inr (i, s')"
  shows "unat i \<in> free_units s" and "free_units s' = free_units s - {unat i}"
  using alloc_ok [OF assms] by (auto simp: free_units_def)

lemma alloc_card: "wf s \<Longrightarrow> alloc s = Inr (i, s') \<Longrightarrow> card (free_units s) = Suc (card (free_units s'))"
  using alloc_free_units [of s i s'] card.remove [of "free_units s" "unat i"] by simp

text \<open>An allocation succeeds exactly when a unit is free.\<close>

lemma alloc_iff_free: "wf s \<Longrightarrow> (\<exists>i s'. alloc s = Inr (i, s')) \<longleftrightarrow> free_units s \<noteq> {}"
proof
  assume "wf s" "\<exists>i s'. alloc s = Inr (i, s')"
  then show "free_units s \<noteq> {}" using alloc_free_units(1) by blast
next
  assume wf: "wf s" and ne: "free_units s \<noteq> {}"
  show "\<exists>i s'. alloc s = Inr (i, s')"
  proof (cases "alloc s")
    case (Inl e)
    with alloc_full [OF wf] ne show ?thesis by (auto simp: free_units_def)
  next
    case (Inr x)
    then show ?thesis by (cases x) auto
  qed
qed

lemma alloc_panics_iff_full: "wf s \<Longrightarrow> alloc s = Inl Panic \<longleftrightarrow> free_units s = {}"
  using alloc_iff_free [of s] alloc_full [of s] by (cases "alloc s") auto

lemma release_after_alloc:
  assumes "wf s" and "alloc s = Inr (i, s')"
  shows "\<exists>s''. release s' i = Inr s'' \<and> wf s'' \<and> free_units s'' = free_units s"
proof -
  note a = alloc_ok [OF assms]
  have "unat i < cap s'" using a by simp
  with a release_ok [of s' i] obtain s'' where s'': "release s' i = Inr s''" "wf s''" "cap s'' = cap s'"
    "\<forall>k < cap s'. used s'' k \<longleftrightarrow> k \<noteq> unat i \<and> used s' k" by blast
  with a have "free_units s'' = free_units s" by (auto simp: free_units_def)
  with s'' show ?thesis by blast
qed

text \<open>\<open>n\<close> allocations in a row give \<open>n\<close> different units, all free before.\<close>

fun alloc_many :: "nat \<Rightarrow> 's \<Rightarrow> (u32 list \<times> 's) res" where
  "alloc_many 0 s = Inr ([], s)"
| "alloc_many (Suc n) s =
     bnd (alloc s) (\<lambda>(i, s). bnd (alloc_many n s) (\<lambda>(is, s). Inr (i # is, s)))"

lemma alloc_many_distinct:
  "wf s \<Longrightarrow> alloc_many n s = Inr (is, s') \<Longrightarrow>
   wf s' \<and> length is = n \<and> distinct is \<and> unat ` set is \<subseteq> free_units s \<and>
   free_units s' = free_units s - unat ` set is"
proof (induction n arbitrary: s \<open>is\<close> s')
  case (Suc n)
  then obtain i s1 js where 1: "alloc s = Inr (i, s1)" "alloc_many n s1 = Inr (js, s')" "is = i # js"
    by (auto simp: res_simps)
  note f = alloc_free_units [OF Suc.prems(1) 1(1)]
  have "wf s1" using alloc_ok [OF Suc.prems(1) 1(1)] by blast
  from Suc.IH [OF this 1(2)] f 1(3) show ?case by auto
qed auto

end

section \<open>Properties\<close>

definition start_bit :: "bitmap \<Rightarrow> u32" where
  "start_bit b = scan_byte b 0 * 8 + of_nat (scan_bit (bits b (scan_byte b 0)) 0)"

lemma bitmap_scan_eq:
  assumes "scan_byte b 0 < btmp_bytes_len b"
  shows "bitmap_scan b cnt = Inr (if cnt = 1 then start_bit b
    else scan_run b cnt (unat (btmp_bytes_len b * 8 - start_bit b)) (start_bit b + 1) 1)"
  using assms less_imp_neq [OF assms] by (simp add: bitmap_scan_def start_bit_def Let_def)

lemma bitmap_scan_full: "\<not> scan_byte b 0 < btmp_bytes_len b \<Longrightarrow> bitmap_scan b cnt = Inl Panic"
  by (simp add: bitmap_scan_def Let_def)

lemma unat_bits_left:
  assumes "small b" and "unat st \<le> n_bits b"
  shows "unat (btmp_bytes_len b * 8 - st) = n_bits b - unat st"
proof -
  have "unat (btmp_bytes_len b * 8) = n_bits b"
    using assms(1) by (subst unat_mult_u32) (auto simp: n_bits_def small_def)
  with assms(2) show ?thesis by (simp add: unat_sub word_le_nat_alt)
qed

lemmas start_bit_first = scan_first [folded start_bit_def]

lemma bitmap_scan_one:
  assumes "small b"
  shows "bitmap_scan b 1 = Inr r \<longleftrightarrow>
    (\<exists>i < n_bits b. r = of_nat i \<and> \<not> is_set b i \<and> (\<forall>k < i. is_set b k))"
proof (cases "scan_byte b 0 < btmp_bytes_len b")
  case True
  note f = start_bit_first [OF assms True]
  have i: "i = unat (start_bit b)" if "\<not> is_set b i" "\<forall>k < i. is_set b k" for i
    using that f(2,3) by (metis nat_neq_iff)
  show ?thesis
  proof
    assume "bitmap_scan b 1 = Inr r"
    then have "r = start_bit b" by (simp add: bitmap_scan_eq [OF True])
    with f show "\<exists>i < n_bits b. r = of_nat i \<and> \<not> is_set b i \<and> (\<forall>k < i. is_set b k)"
      by (intro exI [of _ "unat (start_bit b)"]) simp
  next
    assume "\<exists>i < n_bits b. r = of_nat i \<and> \<not> is_set b i \<and> (\<forall>k < i. is_set b k)"
    then obtain j where "r = of_nat j" "\<not> is_set b j" "\<forall>k < j. is_set b k" by blast
    with i [of j] have "r = start_bit b" by simp
    then show "bitmap_scan b 1 = Inr r" by (simp add: bitmap_scan_eq [OF True])
  qed
next
  case False
  then show ?thesis using scan_full [OF False] by (auto simp: bitmap_scan_full)
qed

lemma bitmap_scan_one_Inl:
  assumes "small b" and "bitmap_scan b 1 = Inl e"
  shows "e = Panic \<and> (\<forall>k < n_bits b. is_set b k)"
proof (cases "scan_byte b 0 < btmp_bytes_len b")
  case False
  then show ?thesis using scan_full [OF False] assms(2) by (auto simp: bitmap_scan_full)
qed (use assms in \<open>auto simp: bitmap_scan_eq\<close>)

lemma bitmap_scan_one_lt: "small b \<Longrightarrow> bitmap_scan b 1 = Inr r \<Longrightarrow> unat r < n_bits b \<and> \<not> is_set b (unat r)"
  by (auto simp: bitmap_scan_one small_def)

text \<open>C37: scanning a bitmap for one bit is first fit: the result is the index of the first
  clear bit of the map.\<close>

theorem bitmap_scan_first_fit:
  assumes "small b"
  shows "bitmap_scan b 1 = Inr r \<longleftrightarrow>
    (\<exists>i < n_bits b. r = of_nat i \<and> \<not> is_set b i \<and> (\<forall>k < i. is_set b k))"
  using assms by (rule bitmap_scan_one)

text \<open>On a bitmap with no clear bit, \<open>bitmap_scan\<close> panics for every count: its \<open>ASSERT\<close>
  stands before the test that returns -1, so the -1 for which the callers test, to report
  that memory, blocks or inodes are exhausted, never comes from a full map.\<close>

theorem bitmap_scan_full_panics:
  assumes "small b" and "\<forall>k < n_bits b. is_set b k"
  shows "bitmap_scan b cnt = Inl Panic"
proof -
  have "\<not> scan_byte b 0 < btmp_bytes_len b"
    using start_bit_first(1,2) [OF assms(1)] assms(2) by blast
  then show ?thesis by (rule bitmap_scan_full)
qed

lemma bitmap_scan_runs:
  assumes "small b" and "2 \<le> unat cnt" and "bitmap_scan b cnt = Inr r"
  shows "(r = - 1 \<and> (\<forall>s. s + unat cnt \<le> n_bits b \<longrightarrow> (\<exists>k < unat cnt. is_set b (s + k)))) \<or>
    (\<exists>s. r = of_nat s \<and> s + unat cnt \<le> n_bits b + 1 \<and> (\<forall>k < unat cnt. \<not> is_set b (s + k)))"
proof -
  have lt: "scan_byte b 0 < btmp_bytes_len b"
    using assms(3) bitmap_scan_full [of b cnt] by auto
  let ?s = "start_bit b"
  note f = start_bit_first [OF assms(1) lt]
  have nb: "n_bits b < 2147483648" using assms(1) by (simp add: small_def)
  have "cnt \<noteq> 1" using assms(2) by auto
  then have r: "r = scan_run b cnt (unat (btmp_bytes_len b * 8 - ?s)) (?s + 1) 1"
    using assms(3) lt by (simp add: bitmap_scan_eq)
  have n: "unat (btmp_bytes_len b * 8 - ?s) = n_bits b - unat ?s"
    using unat_bits_left [OF assms(1)] f(1) by simp
  have s1: "unat (?s + 1) = Suc (unat ?s)"
    using unat_add_u32 [of ?s 1] f(1) nb by simp
  have pre: "\<forall>k. unat (?s + 1) - unat (1 :: u32) \<le> k \<and> k < unat (?s + 1) \<longrightarrow> \<not> is_set b k"
    using f(2) s1 by (auto simp: le_less_Suc_eq)
  have "(r = - 1 \<and> (\<forall>s. unat ?s \<le> s \<and> s + unat cnt \<le> n_bits b + 1 \<longrightarrow> (\<exists>k < unat cnt. is_set b (s + k)))) \<or>
    (\<exists>s. r = of_nat s \<and> s + unat cnt \<le> n_bits b + 1 \<and> (\<forall>k < unat cnt. \<not> is_set b (s + k)))"
    using scan_run_spec [OF _ _ _ pre, of cnt "n_bits b - unat ?s"] s1 f(1) nb assms(2)
    unfolding r n by simp
  moreover have before: "\<exists>k < unat cnt. is_set b (s + k)" if "s < unat ?s" for s
    using that f(3) assms(2) by (intro exI [of _ 0]) auto
  have "\<exists>k < unat cnt. is_set b (s + k)"
    if "\<forall>s. unat ?s \<le> s \<and> s + unat cnt \<le> n_bits b + 1 \<longrightarrow> (\<exists>k < unat cnt. is_set b (s + k))"
      and "s + unat cnt \<le> n_bits b" for s
    using that before [of s] by (cases "s < unat ?s") (blast, simp)
  ultimately show ?thesis by blast
qed

text \<open>Scanning for a run of two or more bits gives -1 only where the map has no such run,
  and otherwise the start of a run of clear bits. The run ends at most one bit past the end
  of the map (see the next property).\<close>

theorem bitmap_scan_run:
  assumes "small b" and "2 \<le> unat cnt" and "bitmap_scan b cnt = Inr r"
  shows "(r = - 1 \<and> (\<forall>s. s + unat cnt \<le> n_bits b \<longrightarrow> (\<exists>k < unat cnt. is_set b (s + k)))) \<or>
    (\<exists>s. r = of_nat s \<and> s + unat cnt \<le> n_bits b + 1 \<and> (\<forall>k < unat cnt. \<not> is_set b (s + k)))"
  using assms by (rule bitmap_scan_runs)

lemma bitmap_scan_last:
  assumes "small b" and "0 < n_bits b" and "\<forall>k < n_bits b - 1. is_set b k"
    and "\<not> is_set b (n_bits b - 1)" and "\<not> is_set b (n_bits b)"
  shows "bitmap_scan b 2 = Inr (of_nat (n_bits b - 1))"
proof -
  have "bitmap_scan b 1 = Inr (of_nat (n_bits b - 1))"
    unfolding bitmap_scan_one [OF assms(1)] using assms(2-4) by (intro exI [of _ "n_bits b - 1"]) simp
  moreover have lt: "scan_byte b 0 < btmp_bytes_len b"
    using calculation bitmap_scan_full [of b 1] by auto
  ultimately have s: "start_bit b = of_nat (n_bits b - 1)" by (simp add: bitmap_scan_eq)
  have nb: "n_bits b < 2147483648" using assms(1) by (simp add: small_def)
  have u: "unat (start_bit b) = n_bits b - 1" using nb by (simp add: s)
  have left: "unat (btmp_bytes_len b * 8 - start_bit b) = Suc 0"
    using unat_bits_left [OF assms(1), of "start_bit b"] u assms(2) by simp
  have "unat (start_bit b + 1) = n_bits b"
    using unat_add_u32 [of "start_bit b" 1] u nb assms(2) by simp
  then have "\<not> bitmap_scan_test b (start_bit b + 1)"
    using assms(5) by (simp add: bitmap_scan_test_is_set)
  then have "scan_run b 2 (Suc 0) (start_bit b + 1) 1 = start_bit b" by (simp add: Let_def)
  then show ?thesis unfolding bitmap_scan_eq [OF lt] left by (simp add: s)
qed

text \<open>The run loop looks one bit too far: where only the last bit of the map is clear and
  the bit in memory behind the map happens to be clear, a scan for two bits returns a run
  that leaves the map.\<close>

theorem bitmap_scan_leaves_map:
  assumes "small b" and "0 < n_bits b" and "\<forall>k < n_bits b - 1. is_set b k"
    and "\<not> is_set b (n_bits b - 1)" and "\<not> is_set b (n_bits b)"
  shows "bitmap_scan b 2 = Inr (of_nat (n_bits b - 1))"
  using assms by (rule bitmap_scan_last)

text \<open>\<open>bitmap_set\<close> followed by \<open>bitmap_scan_test\<close> reads back the value written, and every
  other bit keeps its value.\<close>

theorem bitmap_set_get:
  assumes "bitmap_set b i v = Inr b'"
  shows "bitmap_scan_test b' j = (if j = i then v = 1 else bitmap_scan_test b j)"
  using is_set_bitmap_set [OF assms, of "unat j"] unat_less_2p32 [of j]
  by (auto simp: bitmap_scan_test_is_set dest: unsigned_word_eqI)

section \<open>Concrete instances\<close>

definition demo_map :: bitmap where
  "demo_map = \<lparr>btmp_bytes_len = 1, bits = (\<lambda>_. 0)(0 := 0x7f)\<rparr>"

definition full_map :: bitmap where
  "full_map = \<lparr>btmp_bytes_len = 1, bits = (\<lambda>_. 0)(0 := 0xff)\<rparr>"

lemma demo_map_facts:
  "small demo_map" "n_bits demo_map = 8" "\<forall>k < 7. is_set demo_map k" "\<not> is_set demo_map 7"
  "\<not> is_set demo_map 8"
proof -
  show "small demo_map" "n_bits demo_map = 8"
    by (simp_all add: small_def n_bits_def demo_map_def)
  have "bit (0x7f :: u8) k" if "k < 7" for k
  proof -
    have "(0x7f :: u8) = mask 7" by (simp add: mask_eq_exp_minus_1)
    moreover have "bit (mask 7 :: u8) k" using that by (simp add: bit_mask_iff)
    ultimately show ?thesis by simp
  qed
  then show "\<forall>k < 7. is_set demo_map k" by (simp add: is_set_def demo_map_def)
  show "\<not> is_set demo_map 7" "\<not> is_set demo_map 8"
    by (simp_all add: is_set_def demo_map_def)
qed

theorem bitmap_scan_first_fit_witness: "bitmap_scan demo_map 1 = Inr 7"
  using demo_map_facts
  by (intro iffD2 [OF bitmap_scan_first_fit [OF demo_map_facts(1)]] exI [of _ 7]) simp

lemma full_map_facts: "small full_map" "\<forall>k < n_bits full_map. is_set full_map k"
proof -
  show "small full_map" by (simp add: small_def n_bits_def full_map_def)
  have "\<forall>k < 8. bit (0xff :: u8) k" by (rule iffD1 [OF all_ones_byte]) simp
  then show "\<forall>k < n_bits full_map. is_set full_map k"
    by (simp add: n_bits_def is_set_def full_map_def)
qed

theorem bitmap_scan_full_panics_witness: "bitmap_scan full_map 3 = Inl Panic"
  by (rule bitmap_scan_full_panics [OF full_map_facts])

theorem bitmap_scan_leaves_map_witness: "bitmap_scan demo_map 2 = Inr 7 \<and> n_bits demo_map = 8"
  using bitmap_scan_leaves_map [of demo_map] demo_map_facts by simp

theorem bitmap_scan_run_witness:
  "\<exists>s. (7 :: u32) = of_nat s \<and> s + 2 \<le> n_bits demo_map + 1"
proof -
  have "bitmap_scan demo_map 2 = Inr 7"
    using bitmap_scan_last [of demo_map] demo_map_facts by simp
  from bitmap_scan_run [OF demo_map_facts(1) _ this] show ?thesis by auto
qed

theorem bitmap_set_get_witness:
  "\<exists>b'. bitmap_set demo_map 9 1 = Inr b' \<and> bitmap_scan_test b' 9 \<and> \<not> bitmap_scan_test b' 8"
proof -
  obtain b' where b': "bitmap_set demo_map 9 1 = Inr b'"
    using bitmap_set_ok by blast
  then show ?thesis
    using bitmap_set_get [OF b', of 9] bitmap_set_get [OF b', of 8] demo_map_facts(5)
    by (simp add: bitmap_scan_test_is_set)
qed

end
