(* ===== verification/Fifo.thy ===== *)
theory Fifo
  imports Prelude
begin

text \<open>
  The interface of a first-in first-out queue, which the kernel's intrusive list gives to the
  scheduler and the semaphores, and its ring buffer to the keyboard driver. A state represents
  a list of elements; the laws are what one \<open>enq\<close> and one \<open>deq\<close> do to it, and the lemmas are
  about whole sequences of operations.
\<close>

datatype 'e qop = Enq 'e | Deq

fun inputs :: "'e qop list \<Rightarrow> 'e list" where
  "inputs [] = []"
| "inputs (Enq e # ops) = e # inputs ops"
| "inputs (Deq # ops) = inputs ops"

locale fifo =
  fixes rep :: "'s \<Rightarrow> 'e list \<Rightarrow> bool"
    and room :: "'e list \<Rightarrow> 'e \<Rightarrow> bool"
    and enq :: "'e \<Rightarrow> 's \<Rightarrow> 's res"
    and deq :: "'s \<Rightarrow> ('e \<times> 's) res"
  assumes enq_law: "rep s xs \<Longrightarrow> room xs e \<Longrightarrow> \<exists>s'. enq e s = Inr s' \<and> rep s' (xs @ [e])"
    and deq_law: "rep s (x # xs) \<Longrightarrow> \<exists>s'. deq s = Inr (x, s') \<and> rep s' xs"
    and deq_empty: "rep s [] \<Longrightarrow> \<exists>stop. deq s = Inl stop"
begin

fun run :: "'e qop list \<Rightarrow> 's \<Rightarrow> ('e list \<times> 's) res" where
  "run [] s = Inr ([], s)"
| "run (Enq e # ops) s = bnd (enq e s) (run ops)"
| "run (Deq # ops) s = bnd (deq s) (\<lambda>(x, s). bnd (run ops s) (\<lambda>(out, s). Inr (x # out, s)))"

fun fits :: "'e list \<Rightarrow> 'e qop list \<Rightarrow> bool" where
  "fits xs [] = True"
| "fits xs (Enq e # ops) = (room xs e \<and> fits (xs @ [e]) ops)"
| "fits xs (Deq # ops) = (xs \<noteq> [] \<and> fits (tl xs) ops)"

text \<open>A sequence of operations that never overfills or underflows the queue runs to its end,
  and what came out followed by what is left is what was there followed by what went in.\<close>

lemma fifo_run:
  assumes "rep s xs" and "fits xs ops"
  shows "\<exists>out ys s'. run ops s = Inr (out, s') \<and> rep s' ys \<and> out @ ys = xs @ inputs ops"
  using assms
proof (induction ops arbitrary: s xs)
  case (Cons op ops)
  show ?case
  proof (cases op)
    case (Enq e)
    with Cons.prems obtain s' where "enq e s = Inr s'" "rep s' (xs @ [e])"
      using enq_law by fastforce
    with Cons.IH [of s' "xs @ [e]"] Cons.prems Enq show ?thesis by auto
  next
    case Deq
    with Cons.prems obtain x xs' where xs: "xs = x # xs'" by (cases xs) auto
    with Cons.prems obtain s' where "deq s = Inr (x, s')" "rep s' xs'" using deq_law by blast
    with Cons.IH [of s' xs'] Cons.prems Deq xs show ?thesis by fastforce
  qed
qed auto

lemma fits_enqs_deqs:
  "(\<And>k e. k < length es \<Longrightarrow> e = es ! k \<Longrightarrow> room (xs @ take k es) e) \<Longrightarrow>
   fits xs (map Enq es @ replicate (length xs + length es) Deq)"
proof (induction es arbitrary: xs)
  case Nil
  show ?case by (induction xs) auto
next
  case (Cons e es)
  have "room xs e" using Cons.prems [of 0 e] by simp
  moreover have "room ((xs @ [e]) @ take k es) e'" if "k < length es" "e' = es ! k" for k e'
    using Cons.prems [of "Suc k" e'] that by simp
  ultimately show ?case using Cons.IH [of "xs @ [e]"] by simp
qed

lemma inputs_enqs_deqs: "inputs (map Enq es @ replicate n Deq) = es"
proof (induction es)
  case Nil
  show ?case by (induction n) auto
qed auto

text \<open>In particular, what is put into the queue comes out in the same order.\<close>

lemma fifo_order:
  assumes "rep s xs" and "\<And>k e. k < length es \<Longrightarrow> e = es ! k \<Longrightarrow> room (xs @ take k es) e"
  shows "\<exists>s'. run (map Enq es @ replicate (length xs + length es) Deq) s = Inr (xs @ es, s') \<and> rep s' []"
proof -
  let ?ops = "map Enq es @ replicate (length xs + length es) Deq"
  obtain out ys s' where run: "run ?ops s = Inr (out, s')" "rep s' ys" "out @ ys = xs @ es"
    using fifo_run [OF assms(1) fits_enqs_deqs, of es] assms(2) by (auto simp: inputs_enqs_deqs)
  have len: "run ops s = Inr (out, s') \<Longrightarrow> length out = length (filter (\<lambda>op. op = Deq) ops)"
    for ops s out s'
  proof (induction ops arbitrary: s out)
    case (Cons op ops)
    then show ?case by (cases op) (auto simp: bnd_eq_Inr)
  qed auto
  have "filter (\<lambda>op. op = Deq) (map Enq es) = []" by (induction es) auto
  then have "length out = length xs + length es" using len [OF run(1)] by simp
  with run(3) have "length ys = 0" by (metis length_append add_diff_cancel_left' diff_self_eq_0)
  with run show ?thesis by simp
qed

end

end
