(* ===== verification/Intr.thy ===== *)
theory Intr
  imports Prelude
begin

text \<open>
  The processor's interrupt flag and the descriptor tables (kernel/interrupt.c, kernel/debug.c,
  userprog/tss.c and the descriptor macros of kernel/global.h): switching interrupts on and
  off, building the interrupt descriptor table, the programming of the 8259A controllers as
  the sequence of port writes, the exception handler, and the segment descriptors that
  \<open>tss_init\<close> appends to the global descriptor table.
\<close>

section \<open>Interrupt flag\<close>

datatype intr_status = INTR_OFF | INTR_ON

record cpu =
  eflags :: u32

definition EFLAGS_IF :: u32 where
  "EFLAGS_IF = 0x00000200"

definition intr_get_status :: "'a cpu_scheme \<Rightarrow> intr_status" where
  "intr_get_status c = (if EFLAGS_IF AND eflags c \<noteq> 0 then INTR_ON else INTR_OFF)"

text \<open>The instructions \<open>sti\<close> and \<open>cli\<close> set and clear the interrupt flag.\<close>

definition sti :: "'a cpu_scheme \<Rightarrow> 'a cpu_scheme" where
  "sti c = c\<lparr>eflags := eflags c OR EFLAGS_IF\<rparr>"

definition cli :: "'a cpu_scheme \<Rightarrow> 'a cpu_scheme" where
  "cli c = c\<lparr>eflags := eflags c AND NOT EFLAGS_IF\<rparr>"

definition intr_enable :: "'a cpu_scheme \<Rightarrow> intr_status \<times> 'a cpu_scheme" where
  "intr_enable c = (if intr_get_status c = INTR_ON then (INTR_ON, c) else (INTR_OFF, sti c))"

definition intr_disable :: "'a cpu_scheme \<Rightarrow> intr_status \<times> 'a cpu_scheme" where
  "intr_disable c = (if intr_get_status c = INTR_ON then (INTR_ON, cli c) else (INTR_OFF, c))"

definition intr_set_status :: "'a cpu_scheme \<Rightarrow> intr_status \<Rightarrow> intr_status \<times> 'a cpu_scheme" where
  "intr_set_status c status = (if status = INTR_ON then intr_enable c else intr_disable c)"

lemma bit_EFLAGS_IF: "bit EFLAGS_IF n \<longleftrightarrow> n = 9"
proof -
  have "EFLAGS_IF = 2 ^ 9" by (simp add: EFLAGS_IF_def)
  then show ?thesis using bit_exp_iff [where 'a = "32 word", of 9 n] by auto
qed

lemma EFLAGS_IF_bit: "(EFLAGS_IF AND w \<noteq> 0) = bit w 9"
proof
  assume "EFLAGS_IF AND w \<noteq> 0"
  then obtain n where "bit (EFLAGS_IF AND w) n" by (auto simp: bit_eq_iff)
  then show "bit w 9" by (auto simp: bit_simps bit_EFLAGS_IF)
next
  assume "bit w 9"
  then have "bit (EFLAGS_IF AND w) 9" by (simp add: bit_simps bit_EFLAGS_IF)
  then show "EFLAGS_IF AND w \<noteq> 0" by auto
qed

lemma intr_get_status_bit: "intr_get_status c = (if bit (eflags c) 9 then INTR_ON else INTR_OFF)"
  by (simp add: intr_get_status_def EFLAGS_IF_bit)

lemma intr_disable_off [simp]: "intr_get_status (snd (intr_disable c)) = INTR_OFF"
  by (simp add: intr_disable_def intr_get_status_bit cli_def bit_simps bit_EFLAGS_IF)

lemma intr_enable_on [simp]: "intr_get_status (snd (intr_enable c)) = INTR_ON"
  by (simp add: intr_enable_def intr_get_status_bit sti_def bit_simps bit_EFLAGS_IF)

lemma fst_intr_disable [simp]: "fst (intr_disable c) = intr_get_status c"
  by (cases "intr_get_status c") (simp_all add: intr_disable_def)

lemma sti_cli: "intr_get_status c = INTR_ON \<Longrightarrow> sti (cli c) = c"
proof -
  assume "intr_get_status c = INTR_ON"
  then have "bit (eflags c) 9" by (simp add: intr_get_status_bit split: if_splits)
  then have "(eflags c AND NOT EFLAGS_IF) OR EFLAGS_IF = eflags c"
    by (auto intro!: bit_word_eqI simp: bit_simps bit_EFLAGS_IF)
  then show ?thesis by (simp add: sti_def cli_def)
qed

lemma restore_after_disable:
  "snd (intr_set_status (snd (intr_disable c)) (fst (intr_disable c))) = c"
proof (cases "intr_get_status c")
  case INTR_OFF
  then show ?thesis by (simp add: intr_set_status_def intr_disable_def)
next
  case INTR_ON
  have "intr_get_status (cli c) = INTR_OFF"
    using intr_disable_off [of c] INTR_ON by (simp add: intr_disable_def)
  with INTR_ON show ?thesis
    by (simp add: intr_set_status_def intr_disable_def intr_enable_def sti_cli)
qed

text \<open>An update that neither reads nor writes the flags comes out of the bracket as it is.\<close>

lemma bracket_commute:
  assumes comm: "\<And>e. g (c\<lparr>eflags := e\<rparr>) = (g c)\<lparr>eflags := e\<rparr>" and same: "eflags (g c) = eflags c"
  shows "snd (intr_set_status (g (snd (intr_disable c))) (fst (intr_disable c))) = g c"
proof (cases "intr_get_status c")
  case INTR_OFF
  then have "intr_get_status (g c) = INTR_OFF" by (simp add: intr_get_status_def same)
  with INTR_OFF show ?thesis by (simp add: intr_set_status_def intr_disable_def)
next
  case INTR_ON
  then have on: "intr_get_status (g c) = INTR_ON" by (simp add: intr_get_status_def same)
  have "g (cli c) = cli (g c)" unfolding cli_def by (simp add: comm same)
  moreover have "intr_get_status (cli (g c)) = INTR_OFF"
    using intr_disable_off [of "g c"] on by (simp add: intr_disable_def)
  ultimately show ?thesis using INTR_ON on sti_cli [of "g c"]
    by (simp add: intr_set_status_def intr_disable_def intr_enable_def)
qed

text \<open>What runs between \<open>intr_disable\<close> and \<open>intr_set_status\<close> leaves the flag alone: the bracket
  is then neutral on the flags.\<close>

definition with_intr_off :: "('a cpu_scheme \<Rightarrow> 'a cpu_scheme) \<Rightarrow> 'a cpu_scheme \<Rightarrow> 'a cpu_scheme" where
  "with_intr_off f c = (let (old, c1) = intr_disable c in snd (intr_set_status (f c1) old))"

lemma eflags_with_intr_off:
  assumes "\<And>c. eflags (f c) = eflags c"
  shows "eflags (with_intr_off f c) = eflags c"
proof -
  have 1: "eflags (snd (intr_set_status d s)) = eflags (snd (intr_set_status e s))"
    if "eflags d = eflags e" for d e :: "'a cpu_scheme" and s
    using that by (simp add: intr_set_status_def intr_enable_def intr_disable_def
        intr_get_status_bit sti_def cli_def)
  show ?thesis
    using 1 [of "f (snd (intr_disable c))" "snd (intr_disable c)" "fst (intr_disable c)"]
      restore_after_disable [of c] assms
    by (simp add: with_intr_off_def case_prod_beta)
qed

section \<open>Interrupt descriptor table\<close>

record gate_desc =
  func_offset_low_word :: u16
  selector :: u16
  dcount :: u8
  attribute :: u8
  func_offset_high_word :: u16

definition IDT_DESC_CNT :: nat where
  "IDT_DESC_CNT = 0x81"

definition SELECTOR_K_CODE :: u16 where
  "SELECTOR_K_CODE = push_bit 3 1 + push_bit 2 0 + 0"

definition IDT_DESC_ATTR_DPL0 :: u8 where
  "IDT_DESC_ATTR_DPL0 = push_bit 7 1 + push_bit 5 0 + 0xE"

definition IDT_DESC_ATTR_DPL3 :: u8 where
  "IDT_DESC_ATTR_DPL3 = push_bit 7 1 + push_bit 5 3 + 0xE"

definition make_idt_desc :: "u8 \<Rightarrow> u32 \<Rightarrow> gate_desc" where
  "make_idt_desc attr function =
     \<lparr>func_offset_low_word = ucast (function AND 0x0000FFFF), selector = SELECTOR_K_CODE,
      dcount = 0, attribute = attr,
      func_offset_high_word = ucast (drop_bit 16 (function AND 0xFFFF0000))\<rparr>"

text \<open>
  The state of interrupt.c: the table of gates, the C handlers \<open>idt_table\<close> that the assembly
  entries call, their names, and the output: the ports written and what is put on the screen
  (\<open>put_str\<close> and friends of lib/kernel/print.S are events). A handler is the general one or
  the address that a driver registered.
\<close>

datatype handler = General_intr_handler | Handler u32

datatype screen_event = Set_cursor u16 | Put_char char | Put_str string | Put_int u32

record intr_state = cpu +
  idt :: "gate_desc list"
  idt_table :: "handler list"
  intr_name :: "string list"
  ports :: "(u16 \<times> u8) list"
  screen :: "screen_event list"
  idtr :: "64 word"

definition outb :: "u16 \<Rightarrow> u8 \<Rightarrow> intr_state \<Rightarrow> intr_state" where
  "outb port data s = s\<lparr>ports := ports s @ [(port, data)]\<rparr>"

definition put_str :: "string \<Rightarrow> intr_state \<Rightarrow> intr_state" where
  "put_str x s = s\<lparr>screen := screen s @ [Put_str x]\<rparr>"

definition PIC_M_CTRL :: u16 where "PIC_M_CTRL = 0x20"
definition PIC_M_DATA :: u16 where "PIC_M_DATA = 0x21"
definition PIC_S_CTRL :: u16 where "PIC_S_CTRL = 0xa0"
definition PIC_S_DATA :: u16 where "PIC_S_DATA = 0xa1"

definition pic_init :: "intr_state \<Rightarrow> intr_state" where
  "pic_init s =
    (let s = outb PIC_M_CTRL 0x11 s;
         s = outb PIC_M_DATA 0x20 s;
         s = outb PIC_M_DATA 0x04 s;
         s = outb PIC_M_DATA 0x01 s;
         s = outb PIC_S_CTRL 0x11 s;
         s = outb PIC_S_DATA 0x28 s;
         s = outb PIC_S_DATA 0x02 s;
         s = outb PIC_S_DATA 0x01 s;
         s = outb PIC_M_DATA 0xf8 s;
         s = outb PIC_S_DATA 0xbf s
     in put_str ''   pic_init done\<newline>'' s)"

text \<open>\<open>entry i\<close> is the word at index \<open>i\<close> from \<open>intr_entry_table\<close> of kernel.S, and \<open>sysc\<close> the
  address of \<open>syscall_handler\<close>. The assembly file has 0x30 entries; the words behind them are
  whatever the linker put there.\<close>

definition idt_desc_init :: "(nat \<Rightarrow> u32) \<Rightarrow> u32 \<Rightarrow> intr_state \<Rightarrow> intr_state" where
  "idt_desc_init entry sysc s =
    (let lastindex = IDT_DESC_CNT - 1;
         s = fold (\<lambda>i s. s\<lparr>idt := (idt s)[i := make_idt_desc IDT_DESC_ATTR_DPL0 (entry i)]\<rparr>)
               [0..<IDT_DESC_CNT] s;
         s = s\<lparr>idt := (idt s)[lastindex := make_idt_desc IDT_DESC_ATTR_DPL3 sysc]\<rparr>
     in put_str ''   idt_desc_init done\<newline>'' s)"

definition exception_names :: "(nat \<times> string) list" where
  "exception_names =
    [(0, ''#DE Divide Error''), (1, ''#DB Debug Exception''), (2, ''NMI Interrupt''),
     (3, ''#BP Breakpoint Exception''), (4, ''#OF Overflow Exception''),
     (5, ''#BR BOUND Range Exceeded Exception''), (6, ''#UD Invalid Opcode Exception''),
     (7, ''#NM Device Not Available Exception''), (8, ''#DF Double Fault Exception''),
     (9, ''Coprocessor Segment Overrun''), (10, ''#TS Invalid TSS Exception''),
     (11, ''#NP Segment Not Present''), (12, ''#SS Stack Fault Exception''),
     (13, ''#GP General Protection Exception''), (14, ''#PF Page-Fault Exception''),
     (16, ''#MF x87 FPU Floating-Point Error''), (17, ''#AC Alignment Check Exception''),
     (18, ''#MC Machine-Check Exception''), (19, ''#XF SIMD Floating-Point Exception'')]"

definition exception_init :: "intr_state \<Rightarrow> intr_state" where
  "exception_init s =
    (let s = fold (\<lambda>i s. s\<lparr>idt_table := (idt_table s)[i := General_intr_handler],
                           intr_name := (intr_name s)[i := ''unknown'']\<rparr>) [0..<IDT_DESC_CNT] s
     in fold (\<lambda>(i, n) s. s\<lparr>intr_name := (intr_name s)[i := n]\<rparr>) exception_names s)"

text \<open>\<open>general_intr_handler\<close> returns at once for the two spurious vectors; otherwise it prints
  and spins with interrupts off. The second component says whether it returns.\<close>

definition general_intr_handler :: "u32 \<Rightarrow> u8 \<Rightarrow> intr_state \<Rightarrow> intr_state \<times> bool" where
  "general_intr_handler cr2 vec_nr s =
    (if vec_nr = 0x27 \<or> vec_nr = 0x2f then (s, True)
     else
       (s\<lparr>screen := screen s @ [Set_cursor 0] @ replicate 320 (Put_char (CHR '' '')) @
          [Set_cursor 0, Put_str ''!!!!!!!      excetion message begin  !!!!!!!!\<newline>'',
           Set_cursor 88, Put_str (intr_name s ! unat vec_nr)] @
          (if vec_nr = 14 then [Put_str ''\<newline>page fault addr is '', Put_int cr2] else []) @
          [Put_str ''\<newline>!!!!!!!      excetion message end    !!!!!!!!\<newline>'']\<rparr>, False))"

definition register_handler :: "u8 \<Rightarrow> u32 \<Rightarrow> intr_state \<Rightarrow> intr_state res" where
  "register_handler vector_no function s =
    bnd (defined (unat vector_no < IDT_DESC_CNT))
      (\<lambda>_. Inr (s\<lparr>idt_table := (idt_table s)[unat vector_no := Handler function]\<rparr>))"

definition idt_init :: "(nat \<Rightarrow> u32) \<Rightarrow> u32 \<Rightarrow> u32 \<Rightarrow> intr_state \<Rightarrow> intr_state" where
  "idt_init entry sysc idt_addr s =
    (let s = put_str ''idt_init start\<newline>'' s;
         s = idt_desc_init entry sysc s;
         s = exception_init s;
         s = pic_init s;
         idt_operand = (of_nat (8 * IDT_DESC_CNT - 1) OR push_bit 16 (ucast idt_addr));
         s = s\<lparr>idtr := idt_operand\<rparr>
     in put_str ''idt_init done\<newline>'' s)"

text \<open>\<open>panic_spin\<close> of kernel/debug.c: interrupts off, a message, and no return.\<close>

definition panic_spin :: "string \<Rightarrow> u32 \<Rightarrow> string \<Rightarrow> string \<Rightarrow> intr_state \<Rightarrow> intr_state" where
  "panic_spin filename line func condition s =
    (let s = snd (intr_disable s)
     in s\<lparr>screen := screen s @
          [Put_str ''\<newline>\<newline>\<newline>!!!!! error !!!!!\<newline>'', Put_str ''filename:'', Put_str filename,
           Put_str ''\<newline>'', Put_str ''line:0x'', Put_int line, Put_str ''\<newline>'',
           Put_str ''function:'', Put_str func, Put_str ''\<newline>'', Put_str ''condition:'',
           Put_str condition, Put_str ''\<newline>'']\<rparr>)"

section \<open>Segment descriptors and the task state segment\<close>

definition SELECTOR_K_STACK :: u32 where
  "SELECTOR_K_STACK = push_bit 3 2 + push_bit 2 0 + 0"

definition SELECTOR_TSS :: u16 where
  "SELECTOR_TSS = push_bit 3 4 + push_bit 2 0 + 0"

definition GDT_ATTR_HIGH :: u8 where
  "GDT_ATTR_HIGH = push_bit 7 1 + push_bit 6 1 + push_bit 5 0 + push_bit 4 0"

definition GDT_CODE_ATTR_LOW_DPL3 :: u8 where
  "GDT_CODE_ATTR_LOW_DPL3 = push_bit 7 1 + push_bit 5 3 + push_bit 4 1 + 8"

definition GDT_DATA_ATTR_LOW_DPL3 :: u8 where
  "GDT_DATA_ATTR_LOW_DPL3 = push_bit 7 1 + push_bit 5 3 + push_bit 4 1 + 2"

definition TSS_ATTR_HIGH :: u8 where
  "TSS_ATTR_HIGH = push_bit 7 1 + push_bit 6 0 + push_bit 5 0 + push_bit 4 0 + 0"

definition TSS_ATTR_LOW :: u8 where
  "TSS_ATTR_LOW = push_bit 7 1 + push_bit 5 0 + push_bit 4 0 + 9"

record gdt_desc =
  limit_low_word :: u16
  base_low_word :: u16
  base_mid_byte :: u8
  attr_low_byte :: u8
  limit_high_attr_high :: u8
  base_high_byte :: u8

record tss =
  t_backlink :: u32
  t_esp0 :: u32
  t_ss0 :: u32
  t_esp1 :: u32
  t_ss1 :: u32
  t_esp2 :: u32
  t_ss2 :: u32
  t_cr3 :: u32
  t_eip :: u32
  t_eflags :: u32
  t_eax :: u32
  t_ecx :: u32
  t_edx :: u32
  t_ebx :: u32
  t_esp :: u32
  t_ebp :: u32
  t_esi :: u32
  t_edi :: u32
  t_es :: u32
  t_cs :: u32
  t_ss :: u32
  t_ds :: u32
  t_fs :: u32
  t_gs :: u32
  t_ldt :: u32
  t_trace :: u32
  t_io_base :: u32

definition zero_tss :: tss where
  "zero_tss = \<lparr>t_backlink = 0, t_esp0 = 0, t_ss0 = 0, t_esp1 = 0, t_ss1 = 0, t_esp2 = 0, t_ss2 = 0,
     t_cr3 = 0, t_eip = 0, t_eflags = 0, t_eax = 0, t_ecx = 0, t_edx = 0, t_ebx = 0, t_esp = 0,
     t_ebp = 0, t_esi = 0, t_edi = 0, t_es = 0, t_cs = 0, t_ss = 0, t_ds = 0, t_fs = 0, t_gs = 0,
     t_ldt = 0, t_trace = 0, t_io_base = 0\<rparr>"

definition make_gdt_desc :: "u32 \<Rightarrow> u32 \<Rightarrow> u8 \<Rightarrow> u8 \<Rightarrow> gdt_desc" where
  "make_gdt_desc desc_base limit attr_low attr_high =
     \<lparr>limit_low_word = ucast (limit AND 0x0000ffff),
      base_low_word = ucast (desc_base AND 0x0000ffff),
      base_mid_byte = ucast (drop_bit 16 (desc_base AND 0x00ff0000)),
      attr_low_byte = attr_low,
      limit_high_attr_high = ucast (drop_bit 16 (limit AND 0x000f0000)) + attr_high,
      base_high_byte = ucast (drop_bit 24 desc_base)\<rparr>"

text \<open>The task state segment, the table of descriptors at its addresses, and the two registers
  that \<open>lgdt\<close> and \<open>ltr\<close> load.\<close>

record seg_state = intr_state +
  tss_of :: tss
  gdt_at :: "u32 \<Rightarrow> gdt_desc"
  gdtr :: "64 word"
  task_reg :: u16

definition update_tss_esp :: "u32 \<Rightarrow> seg_state \<Rightarrow> seg_state" where
  "update_tss_esp pthread s = s\<lparr>tss_of := (tss_of s)\<lparr>t_esp0 := pthread + 4096\<rparr>\<rparr>"

text \<open>\<open>tss_addr\<close> is the address of the static structure \<open>tss\<close>; its size is 27 words.\<close>

definition tss_init :: "u32 \<Rightarrow> seg_state \<Rightarrow> seg_state" where
  "tss_init tss_addr s =
    (let s = s\<lparr>screen := screen s @ [Put_str ''tss_init start\<newline>'']\<rparr>;
         tss_size = 27 * 4;
         s = s\<lparr>tss_of := zero_tss\<rparr>;
         s = s\<lparr>tss_of := (tss_of s)\<lparr>t_ss0 := SELECTOR_K_STACK\<rparr>\<rparr>;
         s = s\<lparr>tss_of := (tss_of s)\<lparr>t_io_base := tss_size\<rparr>\<rparr>;
         s = s\<lparr>gdt_at := (gdt_at s)(0xc0000920 :=
               make_gdt_desc tss_addr (tss_size - 1) TSS_ATTR_LOW TSS_ATTR_HIGH)\<rparr>;
         s = s\<lparr>gdt_at := (gdt_at s)(0xc0000928 :=
               make_gdt_desc 0 0xfffff GDT_CODE_ATTR_LOW_DPL3 GDT_ATTR_HIGH)\<rparr>;
         s = s\<lparr>gdt_at := (gdt_at s)(0xc0000930 :=
               make_gdt_desc 0 0xfffff GDT_DATA_ATTR_LOW_DPL3 GDT_ATTR_HIGH)\<rparr>;
         gdt_operand = (8 * 7 - 1) OR push_bit 16 (ucast (0xc0000900 :: u32));
         s = s\<lparr>gdtr := gdt_operand, task_reg := SELECTOR_TSS\<rparr>
     in s\<lparr>screen := screen s @ [Put_str ''tss_init and ltr done\<newline>'']\<rparr>)"

section \<open>What the processor reads from the descriptors\<close>

definition gate_offset :: "gate_desc \<Rightarrow> u32" where
  "gate_offset g = ucast (func_offset_low_word g) OR push_bit 16 (ucast (func_offset_high_word g))"

definition gate_dpl :: "gate_desc \<Rightarrow> u8" where
  "gate_dpl g = drop_bit 5 (attribute g) AND 3"

definition gate_present :: "gate_desc \<Rightarrow> bool" where
  "gate_present g = bit (attribute g) 7"

definition desc_base :: "gdt_desc \<Rightarrow> u32" where
  "desc_base d = ucast (base_low_word d) OR push_bit 16 (ucast (base_mid_byte d))
     OR push_bit 24 (ucast (base_high_byte d))"

definition desc_limit :: "gdt_desc \<Rightarrow> u32" where
  "desc_limit d = ucast (limit_low_word d) OR push_bit 16 (ucast (limit_high_attr_high d AND 0xf))"

definition desc_flags :: "gdt_desc \<Rightarrow> u8" where
  "desc_flags d = limit_high_attr_high d AND 0xf0"

lemma gate_offset_make [simp]: "gate_offset (make_idt_desc attr f) = f"
proof (rule bit_word_eqI)
  fix n :: nat assume n: "n < LENGTH(32)"
  have m: "(0xFFFF :: u32) = mask 16" "(0xFFFF0000 :: u32) = push_bit 16 (mask 16)"
    by (simp_all add: mask_eq_exp_minus_1 push_bit_eq_mult)
  show "bit (gate_offset (make_idt_desc attr f)) n = bit f n"
    unfolding gate_offset_def make_idt_desc_def m using n by (auto simp: bit_simps)
qed

lemma desc_base_make [simp]: "desc_base (make_gdt_desc b l lo hi) = b"
proof (rule bit_word_eqI)
  fix n :: nat assume n: "n < LENGTH(32)"
  have m: "(0xffff :: u32) = mask 16" "(0xff0000 :: u32) = push_bit 16 (mask 8)"
    by (simp_all add: mask_eq_exp_minus_1 push_bit_eq_mult)
  consider "n < 16" | "16 \<le> n" "n < 24" | "24 \<le> n" "n < 32" using n by force
  then show "bit (desc_base (make_gdt_desc b l lo hi)) n = bit b n"
    unfolding desc_base_def make_gdt_desc_def m by cases (auto simp: bit_simps)
qed

lemma desc_limit_flags:
  assumes "unat l < 2 ^ 20" and "hi AND 0xf = 0"
  shows "desc_limit (make_gdt_desc b l lo hi) = l" "desc_flags (make_gdt_desc b l lo hi) = hi"
proof -
  have m: "(0xffff :: u32) = mask 16" "(0xf0000 :: u32) = push_bit 16 (mask 4)"
    "(0xf :: u8) = mask 4" "(0xf0 :: u8) = push_bit 4 (mask 4)"
    by (simp_all add: mask_eq_exp_minus_1 push_bit_eq_mult)
  let ?x = "ucast (drop_bit 16 (l AND 0xf0000)) :: u8"
  have hi: "\<not> bit hi n" if "n < 4" for n
  proof -
    have "\<not> bit (hi AND mask 4) n" using assms(2) by (simp add: m)
    then show ?thesis using that by (auto simp: bit_simps)
  qed
  have x: "\<not> bit ?x n" if "4 \<le> n" for n
    using that unfolding m by (auto simp: bit_simps)
  have "?x AND hi = 0"
  proof (rule bit_word_eqI)
    fix n show "bit (?x AND hi) n = bit 0 n"
      using hi [of n] x [of n] by (cases "n < 4") (auto simp: bit_and_iff)
  qed
  then have or: "?x + hi = ?x OR hi" by (simp add: disjunctive_add_eq_or)
  have top: "\<not> bit l n" if "20 \<le> n" for n
  proof -
    have "l = take_bit 20 l" using assms(1)
      by (metis take_bit_nat_eq_self_iff unsigned_take_bit_eq word_unat_eq_iff)
    then have "bit l n = bit (take_bit 20 l) n" by (rule arg_cong)
    then show ?thesis using that by (auto simp: bit_simps)
  qed
  show "desc_limit (make_gdt_desc b l lo hi) = l"
  proof (rule bit_word_eqI)
    fix n :: nat assume n: "n < LENGTH(32)"
    consider "n < 16" | "16 \<le> n" "n < 20" | "20 \<le> n" "n < 32" using n by force
    then show "bit (desc_limit (make_gdt_desc b l lo hi)) n = bit l n"
      unfolding desc_limit_def make_gdt_desc_def gdt_desc.simps or
      unfolding m using hi [of "n - 16"] top [of n] by cases (auto simp: bit_simps)
  qed
  show "desc_flags (make_gdt_desc b l lo hi) = hi"
  proof (rule bit_word_eqI)
    fix n :: nat assume n: "n < LENGTH(8)"
    show "bit (desc_flags (make_gdt_desc b l lo hi)) n = bit hi n"
      unfolding desc_flags_def make_gdt_desc_def gdt_desc.simps or
      unfolding m using hi [of n] n by (cases "n < 4") (auto simp: bit_simps)
  qed
qed

lemma idt_fold: "idt (fold (\<lambda>i s. s\<lparr>idt := (idt s)[i := f i]\<rparr>) is s) = fold (\<lambda>i xs. xs[i := f i]) is (idt s)"
  by (induction "is" arbitrary: s) auto

lemma idt_exception_init [simp]: "idt (exception_init s) = idt s"
proof -
  have 1: "idt (fold (\<lambda>i s. s\<lparr>idt_table := (idt_table s)[i := General_intr_handler],
      intr_name := (intr_name s)[i := ''unknown'']\<rparr>) is s) = idt s" for "is" and s :: "'a intr_state_scheme"
    by (induction "is" arbitrary: s) auto
  have 2: "idt (fold (\<lambda>(i, n) s. s\<lparr>intr_name := (intr_name s)[i := n]\<rparr>) ns s) = idt s"
    for ns and s :: "'a intr_state_scheme"
    by (induction ns arbitrary: s) (auto split: prod.splits)
  show ?thesis by (simp add: exception_init_def 1 2)
qed

lemma idt_pic_init [simp]: "idt (pic_init s) = idt s"
  by (simp add: pic_init_def Let_def outb_def put_str_def)

lemma idt_idt_init:
  assumes "length (idt s) = IDT_DESC_CNT" and "v < IDT_DESC_CNT"
  shows "idt (idt_init entry sysc a s) ! v =
    (if v = 0x80 then make_idt_desc IDT_DESC_ATTR_DPL3 sysc
     else make_idt_desc IDT_DESC_ATTR_DPL0 (entry v))"
  using assms
  by (simp add: idt_init_def idt_desc_init_def Let_def put_str_def idt_fold fold_list_update
      nth_list_update IDT_DESC_CNT_def nth_append del: upt_rec_numeral)

text \<open>C40: after \<open>idt_init\<close> every vector has a present gate in the kernel code segment. Vector 0x80
  is the only one that user code may call with \<open>int\<close>, and it enters \<open>syscall_handler\<close>; every
  other vector enters the address at its index of \<open>intr_entry_table\<close>.\<close>

theorem idt_init_gates:
  assumes "length (idt s) = IDT_DESC_CNT" and "v < IDT_DESC_CNT"
  shows "gate_present (idt (idt_init entry sysc a s) ! v) \<and>
    selector (idt (idt_init entry sysc a s) ! v) = SELECTOR_K_CODE \<and>
    (gate_dpl (idt (idt_init entry sysc a s) ! v) = (if v = 0x80 then 3 else 0)) \<and>
    gate_offset (idt (idt_init entry sysc a s) ! v) = (if v = 0x80 then sysc else entry v)"
  unfolding idt_idt_init [OF assms]
  using gate_offset_make [of IDT_DESC_ATTR_DPL3 sysc] gate_offset_make [of IDT_DESC_ATTR_DPL0 "entry v"]
  by (cases "v = 0x80") (simp_all add: gate_present_def gate_dpl_def make_idt_desc_def
      IDT_DESC_ATTR_DPL0_def IDT_DESC_ATTR_DPL3_def)

lemma tss_attr_high: "TSS_ATTR_HIGH AND 0xf = 0" "GDT_ATTR_HIGH AND 0xf = 0"
  by (simp_all add: TSS_ATTR_HIGH_def GDT_ATTR_HIGH_def)

text \<open>After \<open>tss_init\<close> the processor finds in slot 4 of the table a task state segment at the
  address of \<open>tss\<close> with the size of the structure, and in slots 5 and 6 flat segments of
  privilege level 3: code that is not readable, data that is writable, both with 4 KB
  granularity and a limit of 4 GB.\<close>

theorem tss_init_descriptors:
  "let s' = tss_init tss_addr s in
    desc_base (gdt_at s' 0xc0000920) = tss_addr \<and> desc_limit (gdt_at s' 0xc0000920) = 107 \<and>
    attr_low_byte (gdt_at s' 0xc0000920) = 0x89 \<and>
    (desc_base (gdt_at s' 0xc0000928) = 0 \<and> desc_limit (gdt_at s' 0xc0000928) = 0xfffff \<and>
     attr_low_byte (gdt_at s' 0xc0000928) = 0xf8 \<and> desc_flags (gdt_at s' 0xc0000928) = 0xc0) \<and>
    (desc_base (gdt_at s' 0xc0000930) = 0 \<and> desc_limit (gdt_at s' 0xc0000930) = 0xfffff \<and>
     attr_low_byte (gdt_at s' 0xc0000930) = 0xf2 \<and> desc_flags (gdt_at s' 0xc0000930) = 0xc0) \<and>
    t_ss0 (tss_of s') = 0x10 \<and> t_io_base (tss_of s') = 108 \<and> task_reg s' = 0x20"
proof -
  have "unat (107 :: u32) < 2 ^ 20" "unat (0xfffff :: u32) < 2 ^ 20" by simp_all
  note lim = desc_limit_flags [OF this(1) tss_attr_high(1)] desc_limit_flags [OF this(2) tss_attr_high(2)]
  have "GDT_ATTR_HIGH = 0xc0" by (simp add: GDT_ATTR_HIGH_def)
  note lim = lim [unfolded this]
  have attr: "attr_low_byte (make_gdt_desc b l lo hi) = lo" for b l lo hi
    by (simp add: make_gdt_desc_def)
  show ?thesis
    by (simp add: tss_init_def Let_def lim attr TSS_ATTR_LOW_def GDT_CODE_ATTR_LOW_DPL3_def
        GDT_DATA_ATTR_LOW_DPL3_def GDT_ATTR_HIGH_def SELECTOR_K_STACK_def SELECTOR_TSS_def)
qed

text \<open>A section bracketed by \<open>intr_disable\<close> and \<open>intr_set_status\<close> runs with interrupts off and
  gives the flags back as they were, so that the brackets nest.\<close>

theorem intr_bracket:
  "intr_get_status (snd (intr_disable c)) = INTR_OFF \<and>
   snd (intr_set_status (snd (intr_disable c)) (fst (intr_disable c))) = c"
  using restore_after_disable [of c] by simp

section \<open>Concrete instances\<close>

definition demo_intr :: intr_state where
  "demo_intr = \<lparr>eflags = 0x202,
     idt = replicate IDT_DESC_CNT (make_idt_desc 0 0), idt_table = replicate IDT_DESC_CNT General_intr_handler,
     intr_name = replicate IDT_DESC_CNT [], ports = [], screen = [], idtr = 0\<rparr>"

theorem idt_init_gates_witness:
  "gate_dpl (idt (idt_init (\<lambda>i. of_nat i) 0xc0001500 0 demo_intr) ! 0x80) = 3"
  using idt_init_gates [of demo_intr "0x80" "\<lambda>i. of_nat i" "0xc0001500" 0]
  by (simp add: demo_intr_def IDT_DESC_CNT_def)

end
