(* ===== verification/Klist.thy ===== *)
theory Klist
  imports Fifo Intr
begin

text \<open>
  The doubly linked intrusive list of lib/kernel/list.c. A list element is a pair of pointers
  inside a larger structure; the heap maps the address of an element to its two fields. A
  \<open>struct list\<close> at address \<open>l\<close> has its \<open>head\<close> element at \<open>l\<close> and its \<open>tail\<close> element at \<open>l + 8\<close>.
\<close>

section \<open>The code\<close>

record list_heap = cpu +
  prev_of :: "u32 \<Rightarrow> u32"
  next_of :: "u32 \<Rightarrow> u32"

definition NULL :: u32 where
  "NULL = 0"

definition head_of :: "u32 \<Rightarrow> u32" where
  "head_of l = l"

definition tail_of :: "u32 \<Rightarrow> u32" where
  "tail_of l = l + 8"

text \<open>\<open>p->prev\<close> and \<open>p->next\<close>, read and written.\<close>

definition get_prev :: "list_heap \<Rightarrow> u32 \<Rightarrow> u32 res" where
  "get_prev h p = bnd (defined (p \<noteq> NULL)) (\<lambda>_. Inr (prev_of h p))"

definition get_next :: "list_heap \<Rightarrow> u32 \<Rightarrow> u32 res" where
  "get_next h p = bnd (defined (p \<noteq> NULL)) (\<lambda>_. Inr (next_of h p))"

definition set_prev :: "u32 \<Rightarrow> u32 \<Rightarrow> list_heap \<Rightarrow> list_heap res" where
  "set_prev p v h = bnd (defined (p \<noteq> NULL)) (\<lambda>_. Inr (h\<lparr>prev_of := (prev_of h)(p := v)\<rparr>))"

definition set_next :: "u32 \<Rightarrow> u32 \<Rightarrow> list_heap \<Rightarrow> list_heap res" where
  "set_next p v h = bnd (defined (p \<noteq> NULL)) (\<lambda>_. Inr (h\<lparr>next_of := (next_of h)(p := v)\<rparr>))"

definition list_init :: "u32 \<Rightarrow> list_heap \<Rightarrow> list_heap res" where
  "list_init l h =
    bnd (set_prev (head_of l) NULL h) (\<lambda>h.
    bnd (set_next (head_of l) (tail_of l) h) (\<lambda>h.
    bnd (set_prev (tail_of l) (head_of l) h) (\<lambda>h.
    set_next (tail_of l) NULL h)))"

definition list_insert_before :: "u32 \<Rightarrow> u32 \<Rightarrow> list_heap \<Rightarrow> list_heap res" where
  "list_insert_before before elem h =
    (let (old_status, h) = intr_disable h in
     bnd (get_prev h before) (\<lambda>p.
     bnd (set_next p elem h) (\<lambda>h.
     bnd (get_prev h before) (\<lambda>p.
     bnd (set_prev elem p h) (\<lambda>h.
     bnd (set_next elem before h) (\<lambda>h.
     bnd (set_prev before elem h) (\<lambda>h.
     Inr (snd (intr_set_status h old_status)))))))))"

definition list_push :: "u32 \<Rightarrow> u32 \<Rightarrow> list_heap \<Rightarrow> list_heap res" where
  "list_push plist elem h =
    bnd (get_next h (head_of plist)) (\<lambda>first. list_insert_before first elem h)"

definition list_append :: "u32 \<Rightarrow> u32 \<Rightarrow> list_heap \<Rightarrow> list_heap res" where
  "list_append plist elem h = list_insert_before (tail_of plist) elem h"

definition list_remove :: "u32 \<Rightarrow> list_heap \<Rightarrow> list_heap res" where
  "list_remove pelem h =
    (let (old_status, h) = intr_disable h in
     bnd (get_prev h pelem) (\<lambda>p.
     bnd (get_next h pelem) (\<lambda>n.
     bnd (set_next p n h) (\<lambda>h.
     bnd (get_next h pelem) (\<lambda>n.
     bnd (get_prev h pelem) (\<lambda>p.
     bnd (set_prev n p h) (\<lambda>h.
     Inr (snd (intr_set_status h old_status)))))))))"

definition list_pop :: "u32 \<Rightarrow> list_heap \<Rightarrow> (u32 \<times> list_heap) res" where
  "list_pop plist h =
    bnd (get_next h (head_of plist)) (\<lambda>elem.
    bnd (list_remove elem h) (\<lambda>h. Inr (elem, h)))"

definition list_empty :: "u32 \<Rightarrow> list_heap \<Rightarrow> bool res" where
  "list_empty plist h = bnd (get_next h (head_of plist)) (\<lambda>n. Inr (n = tail_of plist))"

text \<open>The loops run from element to element until they meet the tail; on a list that is not
  well formed they may never end (\<open>None\<close>) or follow a NULL pointer.\<close>

partial_function (option) elem_find_loop :: "list_heap \<Rightarrow> u32 \<Rightarrow> u32 \<Rightarrow> u32 \<Rightarrow> bool res option" where
  "elem_find_loop h tail obj_elem elem =
    (if elem = tail then Some (Inr False)
     else if elem = obj_elem then Some (Inr True)
     else case get_next h elem of
       Inl e \<Rightarrow> Some (Inl e)
     | Inr n \<Rightarrow> elem_find_loop h tail obj_elem n)"

definition elem_find :: "u32 \<Rightarrow> u32 \<Rightarrow> list_heap \<Rightarrow> bool res" where
  "elem_find plist obj_elem h =
    bnd (get_next h (head_of plist)) (\<lambda>elem.
    bnd (of_opt Diverge (elem_find_loop h (tail_of plist) obj_elem elem)) (\<lambda>r. r))"

partial_function (option) list_traversal_loop ::
    "list_heap \<Rightarrow> u32 \<Rightarrow> (u32 \<Rightarrow> u32 \<Rightarrow> bool) \<Rightarrow> u32 \<Rightarrow> u32 \<Rightarrow> u32 res option" where
  "list_traversal_loop h tail func arg elem =
    (if elem = tail then Some (Inr NULL)
     else if func elem arg then Some (Inr elem)
     else case get_next h elem of
       Inl e \<Rightarrow> Some (Inl e)
     | Inr n \<Rightarrow> list_traversal_loop h tail func arg n)"

definition list_traversal :: "u32 \<Rightarrow> (u32 \<Rightarrow> u32 \<Rightarrow> bool) \<Rightarrow> u32 \<Rightarrow> list_heap \<Rightarrow> u32 res" where
  "list_traversal plist func arg h =
    bnd (get_next h (head_of plist)) (\<lambda>elem.
    bnd (list_empty plist h) (\<lambda>empty.
    if empty then Inr NULL
    else bnd (of_opt Diverge (list_traversal_loop h (tail_of plist) func arg elem)) (\<lambda>r. r)))"

partial_function (option) list_len_loop :: "list_heap \<Rightarrow> u32 \<Rightarrow> u32 \<Rightarrow> u32 \<Rightarrow> u32 res option" where
  "list_len_loop h tail elem len =
    (if elem = tail then Some (Inr len)
     else case get_next h elem of
       Inl e \<Rightarrow> Some (Inl e)
     | Inr n \<Rightarrow> list_len_loop h tail n (len + 1))"

definition list_len :: "u32 \<Rightarrow> list_heap \<Rightarrow> u32 res" where
  "list_len plist h =
    bnd (get_next h (head_of plist)) (\<lambda>elem.
    bnd (of_opt Diverge (list_len_loop h (tail_of plist) elem 0)) (\<lambda>r. r))"

section \<open>The list a heap represents\<close>

fun chain :: "list_heap \<Rightarrow> u32 \<Rightarrow> u32 list \<Rightarrow> u32 \<Rightarrow> bool" where
  "chain h a [] b = (next_of h a = b \<and> prev_of h b = a)"
| "chain h a (x # xs) b = (next_of h a = x \<and> prev_of h x = a \<and> chain h x xs b)"

definition nodes :: "u32 \<Rightarrow> u32 list \<Rightarrow> u32 list" where
  "nodes l xs = head_of l # xs @ [tail_of l]"

definition dlist :: "u32 \<Rightarrow> list_heap \<Rightarrow> u32 list \<Rightarrow> bool" where
  "dlist l h xs \<longleftrightarrow> chain h (head_of l) xs (tail_of l) \<and> distinct (nodes l xs) \<and>
     NULL \<notin> set (nodes l xs) \<and> prev_of h (head_of l) = NULL \<and> next_of h (tail_of l) = NULL"

lemma chain_append:
  "chain h a (xs @ y # ys) b \<longleftrightarrow> chain h a xs y \<and> chain h y ys b"
  by (induction xs arbitrary: a) auto

lemma chain_cong:
  "(\<And>p. p \<in> set (a # xs) \<Longrightarrow> next_of h' p = next_of h p) \<Longrightarrow>
   (\<And>p. p \<in> set (xs @ [b]) \<Longrightarrow> prev_of h' p = prev_of h p) \<Longrightarrow>
   chain h' a xs b = chain h a xs b"
  by (induction xs arbitrary: a) auto

lemma chain_first: "chain h a xs b \<Longrightarrow> next_of h a = hd (xs @ [b])"
  by (cases xs) auto

lemma chain_last: "chain h a xs b \<Longrightarrow> prev_of h b = last (a # xs)"
  by (induction xs arbitrary: a) auto

section \<open>What each operation does\<close>

lemma prev_of_intr_disable [simp]: "prev_of (snd (intr_disable h)) = prev_of h"
  by (simp add: intr_disable_def cli_def)

lemma next_of_intr_disable [simp]: "next_of (snd (intr_disable h)) = next_of h"
  by (simp add: intr_disable_def cli_def)

lemma bracket_heap:
  "snd (intr_set_status ((snd (intr_disable h))\<lparr>next_of := n, prev_of := p\<rparr>) (fst (intr_disable h))) =
   h\<lparr>next_of := n, prev_of := p\<rparr>"
proof (cases "intr_get_status h")
  case INTR_OFF
  then show ?thesis by (simp add: intr_set_status_def intr_disable_def intr_get_status_def)
next
  case INTR_ON
  have off: "intr_get_status (cli h) = INTR_OFF"
    using intr_disable_off [of h] INTR_ON by (simp add: intr_disable_def)
  have "sti ((cli h)\<lparr>next_of := n, prev_of := p\<rparr>) = (sti (cli h))\<lparr>next_of := n, prev_of := p\<rparr>"
    by (simp add: sti_def cli_def)
  also have "\<dots> = h\<lparr>next_of := n, prev_of := p\<rparr>" by (simp add: sti_cli INTR_ON)
  finally show ?thesis
    using INTR_ON off by (simp add: intr_set_status_def intr_disable_def intr_enable_def intr_get_status_def)
qed

lemma list_insert_before_eq:
  assumes "before \<noteq> NULL" "elem \<noteq> NULL" "prev_of h before = p" "p \<noteq> NULL"
  shows "list_insert_before before elem h =
    Inr (h\<lparr>next_of := (next_of h)(p := elem, elem := before),
          prev_of := (prev_of h)(elem := p, before := elem)\<rparr>)"
proof -
  have "list_insert_before before elem h = Inr (snd (intr_set_status
      ((snd (intr_disable h))\<lparr>next_of := (next_of h)(p := elem, elem := before),
        prev_of := (prev_of h)(elem := p, before := elem)\<rparr>) (fst (intr_disable h))))"
    using assms by (simp add: list_insert_before_def get_prev_def set_next_def set_prev_def case_prod_beta)
  then show ?thesis by (simp only: bracket_heap)
qed

lemma list_remove_eq:
  assumes "e \<noteq> NULL" "prev_of h e = p" "p \<noteq> NULL" "next_of h e = n" "n \<noteq> NULL" "p \<noteq> e"
  shows "list_remove e h =
    Inr (h\<lparr>next_of := (next_of h)(p := n), prev_of := (prev_of h)(n := p)\<rparr>)"
proof -
  have "list_remove e h = Inr (snd (intr_set_status
      ((snd (intr_disable h))\<lparr>next_of := (next_of h)(p := n), prev_of := (prev_of h)(n := p)\<rparr>)
      (fst (intr_disable h))))"
    using assms by (simp add: list_remove_def get_prev_def get_next_def set_next_def set_prev_def case_prod_beta)
  then show ?thesis by (simp only: bracket_heap)
qed

lemma list_init_dlist:
  assumes "l \<noteq> NULL" "tail_of l \<noteq> NULL"
  shows "\<exists>h'. list_init l h = Inr h' \<and> dlist l h' []"
proof -
  have "tail_of l \<noteq> l" by (simp add: tail_of_def)
  then show ?thesis
    using assms by (auto simp: list_init_def set_prev_def set_next_def head_of_def dlist_def nodes_def)
qed

text \<open>The fields outside the nodes of a list do not matter to it.\<close>

lemma dlist_cong:
  assumes "\<And>p. p \<in> set (nodes l xs) \<Longrightarrow> next_of h' p = next_of h p \<and> prev_of h' p = prev_of h p"
  shows "dlist l h' xs = dlist l h xs"
  using assms chain_cong [of "head_of l" xs h' h "tail_of l"]
  by (auto simp: dlist_def nodes_def)

lemma dlist_insert:
  assumes d: "dlist l h (xs @ ys)" and e: "elem \<notin> set (nodes l (xs @ ys))" "elem \<noteq> NULL"
    and b: "before = hd (ys @ [tail_of l])" and p: "p = last (head_of l # xs)"
  shows "dlist l (h\<lparr>next_of := (next_of h)(p := elem, elem := before),
          prev_of := (prev_of h)(elem := p, before := elem)\<rparr>) (xs @ elem # ys)"
    and "prev_of h before = p" and "before \<noteq> NULL" and "p \<noteq> NULL"
proof -
  let ?h = "h\<lparr>next_of := (next_of h)(p := elem, elem := before),
          prev_of := (prev_of h)(elem := p, before := elem)\<rparr>"
  have dist: "distinct (nodes l (xs @ ys))" using d by (simp add: dlist_def)
  have bin: "before \<in> set ys \<union> {tail_of l}" using b by (cases ys) auto
  have pin: "p \<in> insert (head_of l) (set xs)" using p by (metis last_in_set list.simps(3) list.simps(15))
  have pb: "p \<noteq> before" "p \<notin> set ys" "p \<noteq> tail_of l" "before \<notin> set xs" "before \<noteq> head_of l"
    using bin pin dist by (auto simp: nodes_def)
  have eb: "elem \<noteq> before" using bin e by (auto simp: nodes_def)
  show "before \<noteq> NULL" "p \<noteq> NULL"
    using d bin pin by (auto simp: dlist_def nodes_def)
  have whole: "chain h (head_of l) (xs @ ys) (tail_of l)" using d by (simp add: dlist_def)
  have split: "chain h (head_of l) xs before \<and> (ys \<noteq> [] \<longrightarrow> chain h before (tl ys) (tail_of l))"
    using whole b by (cases ys) (auto simp: chain_append)
  show "prev_of h before = p" using split p chain_last by blast
  have left: "chain ?h (head_of l) xs elem"
  proof (cases xs rule: rev_cases)
    case Nil
    then show ?thesis using p e pb eb by (auto simp: nodes_def)
  next
    case (snoc xs' x)
    then have px: "p = x" using p by simp
    have c: "chain h (head_of l) xs' x" using split snoc by (simp add: chain_append)
    have "chain ?h (head_of l) xs' x = chain h (head_of l) xs' x"
      using e dist pb px snoc by (intro chain_cong) (auto simp: nodes_def)
    then show ?thesis using c snoc px e pb eb by (auto simp: chain_append nodes_def)
  qed
  have right: "chain ?h elem ys (tail_of l)"
  proof (cases ys)
    case Nil
    then show ?thesis using b e by (auto simp: nodes_def)
  next
    case (Cons y ys')
    then have by': "before = y" using b by simp
    have "chain ?h y ys' (tail_of l) = chain h y ys' (tail_of l)"
      using e dist pb by' Cons by (intro chain_cong) (auto simp: nodes_def)
    then show ?thesis using split Cons by' e by (auto simp: nodes_def)
  qed
  show "dlist l ?h (xs @ elem # ys)"
    using left right d e pb by (auto simp: dlist_def chain_append nodes_def)
qed

lemma dlist_remove:
  assumes d: "dlist l h (xs @ e # ys)" and n: "n = hd (ys @ [tail_of l])" and p: "p = last (head_of l # xs)"
  shows "dlist l (h\<lparr>next_of := (next_of h)(p := n), prev_of := (prev_of h)(n := p)\<rparr>) (xs @ ys)"
    and "prev_of h e = p" and "next_of h e = n" and "e \<noteq> NULL" and "p \<noteq> NULL" and "n \<noteq> NULL" and "p \<noteq> e"
proof -
  let ?h = "h\<lparr>next_of := (next_of h)(p := n), prev_of := (prev_of h)(n := p)\<rparr>"
  have dist: "distinct (nodes l (xs @ e # ys))" using d by (simp add: dlist_def)
  have nin: "n \<in> set ys \<union> {tail_of l}" using n by (cases ys) auto
  have pin: "p \<in> insert (head_of l) (set xs)" using p by (metis last_in_set list.simps(3) list.simps(15))
  show "e \<noteq> NULL" "p \<noteq> NULL" "n \<noteq> NULL" using d nin pin by (auto simp: dlist_def nodes_def)
  show pe: "p \<noteq> e" using pin dist by (auto simp: nodes_def)
  have pn: "p \<noteq> n" "p \<notin> set ys" "p \<noteq> tail_of l" "n \<notin> set xs" "n \<noteq> head_of l"
    using nin pin dist by (auto simp: nodes_def)
  have whole: "chain h (head_of l) xs e" "chain h e ys (tail_of l)"
    using d by (auto simp: dlist_def chain_append)
  show "prev_of h e = p" using chain_last [OF whole(1)] p by simp
  show "next_of h e = n" using chain_first [OF whole(2)] n by simp
  have left: "chain ?h (head_of l) xs n"
  proof (cases xs rule: rev_cases)
    case Nil
    then show ?thesis using p by auto
  next
    case (snoc xs' x)
    then have px: "p = x" using p by simp
    have c: "chain h (head_of l) xs' x" using whole(1) snoc by (simp add: chain_append)
    have "chain ?h (head_of l) xs' x = chain h (head_of l) xs' x"
      using dist pn px snoc by (intro chain_cong) (auto simp: nodes_def)
    then show ?thesis using c snoc px by (auto simp: chain_append)
  qed
  have all: "chain ?h (head_of l) (xs @ ys) (tail_of l)"
  proof (cases ys)
    case Nil
    then show ?thesis using left n by simp
  next
    case (Cons y ys')
    then have ny: "n = y" using n by simp
    have "chain ?h y ys' (tail_of l) = chain h y ys' (tail_of l)"
      using dist pn ny Cons by (intro chain_cong) (auto simp: nodes_def)
    then show ?thesis using left whole(2) Cons ny by (auto simp: chain_append)
  qed
  show "dlist l ?h (xs @ ys)"
    using all d pn by (auto simp: dlist_def nodes_def)
qed

text \<open>Separate lists do not disturb each other.\<close>

definition apart :: "u32 \<Rightarrow> u32 list \<Rightarrow> u32 \<Rightarrow> u32 list \<Rightarrow> bool" where
  "apart l xs m zs \<longleftrightarrow> set (nodes l xs) \<inter> set (nodes m zs) = {}"

lemma last_in_nodes: "last (head_of l # xs) \<in> set (nodes l (xs @ ys))"
  by (cases xs rule: rev_cases) (auto simp: nodes_def)

lemma hd_in_nodes: "hd (ys @ [tail_of l]) \<in> set (nodes l (xs @ ys))"
  by (cases ys) (auto simp: nodes_def)

lemma list_insert_before_dlist:
  assumes "dlist l h (xs @ ys)" and "elem \<notin> set (nodes l (xs @ ys))" "elem \<noteq> NULL"
    and "before = hd (ys @ [tail_of l])"
  shows "\<exists>h'. list_insert_before before elem h = Inr h' \<and> dlist l h' (xs @ elem # ys) \<and>
    eflags h' = eflags h \<and>
    (\<forall>m zs. apart l (elem # xs @ ys) m zs \<longrightarrow> dlist m h' zs = dlist m h zs)"
proof -
  define p where "p = last (head_of l # xs)"
  note i = dlist_insert [OF assms p_def]
  have eq: "list_insert_before before elem h = Inr (h\<lparr>next_of := (next_of h)(p := elem, elem := before),
          prev_of := (prev_of h)(elem := p, before := elem)\<rparr>)"
    using i assms(3) by (intro list_insert_before_eq) auto
  have frame: "dlist m (h\<lparr>next_of := (next_of h)(p := elem, elem := before),
          prev_of := (prev_of h)(elem := p, before := elem)\<rparr>) zs = dlist m h zs"
    if "apart l (elem # xs @ ys) m zs" for m zs
  proof (rule dlist_cong)
    fix q assume q: "q \<in> set (nodes m zs)"
    have n: "set (nodes l (xs @ ys)) \<union> {elem} = set (nodes l (elem # xs @ ys))" by (auto simp: nodes_def)
    have "p \<in> set (nodes l (xs @ ys))" unfolding p_def by (rule last_in_nodes)
    moreover have "before \<in> set (nodes l (xs @ ys))" unfolding assms(4) by (rule hd_in_nodes)
    ultimately have "q \<noteq> p \<and> q \<noteq> before \<and> q \<noteq> elem" using q that n unfolding apart_def by blast
    then show "next_of (h\<lparr>next_of := (next_of h)(p := elem, elem := before),
          prev_of := (prev_of h)(elem := p, before := elem)\<rparr>) q = next_of h q \<and>
        prev_of (h\<lparr>next_of := (next_of h)(p := elem, elem := before),
          prev_of := (prev_of h)(elem := p, before := elem)\<rparr>) q = prev_of h q" by simp
  qed
  show ?thesis using eq i(1) frame by simp
qed

lemma list_remove_dlist:
  assumes "dlist l h (xs @ e # ys)"
  shows "\<exists>h'. list_remove e h = Inr h' \<and> dlist l h' (xs @ ys) \<and> eflags h' = eflags h \<and>
    (\<forall>m zs. apart l (xs @ ys) m zs \<longrightarrow> dlist m h' zs = dlist m h zs)"
proof -
  define n where "n = hd (ys @ [tail_of l])"
  define p where "p = last (head_of l # xs)"
  note r = dlist_remove [OF assms n_def p_def]
  have eq: "list_remove e h = Inr (h\<lparr>next_of := (next_of h)(p := n), prev_of := (prev_of h)(n := p)\<rparr>)"
    using r by (intro list_remove_eq) auto
  have frame: "dlist m (h\<lparr>next_of := (next_of h)(p := n), prev_of := (prev_of h)(n := p)\<rparr>) zs = dlist m h zs"
    if "apart l (xs @ ys) m zs" for m zs
  proof (rule dlist_cong)
    fix q assume q: "q \<in> set (nodes m zs)"
    have "p \<in> set (nodes l (xs @ ys))" unfolding p_def by (rule last_in_nodes)
    moreover have "n \<in> set (nodes l (xs @ ys))" unfolding n_def by (rule hd_in_nodes)
    ultimately have "q \<noteq> p \<and> q \<noteq> n" using q that unfolding apart_def by blast
    then show "next_of (h\<lparr>next_of := (next_of h)(p := n), prev_of := (prev_of h)(n := p)\<rparr>) q = next_of h q \<and>
        prev_of (h\<lparr>next_of := (next_of h)(p := n), prev_of := (prev_of h)(n := p)\<rparr>) q = prev_of h q" by simp
  qed
  show ?thesis using eq r(1) frame by simp
qed

lemma dlist_next_head: "dlist l h xs \<Longrightarrow> get_next h (head_of l) = Inr (hd (xs @ [tail_of l]))"
  using chain_first [of h "head_of l" xs "tail_of l"] by (auto simp: dlist_def nodes_def get_next_def)

lemma list_push_dlist:
  assumes "dlist l h xs" and "elem \<notin> set (nodes l xs)" "elem \<noteq> NULL"
  shows "\<exists>h'. list_push l elem h = Inr h' \<and> dlist l h' (elem # xs) \<and> eflags h' = eflags h \<and>
    (\<forall>m zs. apart l (elem # xs) m zs \<longrightarrow> dlist m h' zs = dlist m h zs)"
  using list_insert_before_dlist [of l h "[]" xs elem, OF _ _ _ refl] assms
  by (simp add: list_push_def dlist_next_head)

lemma list_append_dlist:
  assumes "dlist l h xs" and "elem \<notin> set (nodes l xs)" "elem \<noteq> NULL"
  shows "\<exists>h'. list_append l elem h = Inr h' \<and> dlist l h' (xs @ [elem]) \<and> eflags h' = eflags h \<and>
    (\<forall>m zs. apart l (elem # xs) m zs \<longrightarrow> dlist m h' zs = dlist m h zs)"
  using list_insert_before_dlist [of l h xs "[]" elem, OF _ _ _ refl] assms
  by (simp add: list_append_def)

lemma list_pop_dlist:
  assumes "dlist l h (x # xs)"
  shows "\<exists>h'. list_pop l h = Inr (x, h') \<and> dlist l h' xs \<and> eflags h' = eflags h \<and>
    (\<forall>m zs. apart l xs m zs \<longrightarrow> dlist m h' zs = dlist m h zs)"
  using list_remove_dlist [of l h "[]" x xs] assms
  by (auto simp: list_pop_def dlist_next_head)

lemma list_pop_empty:
  assumes "dlist l h []"
  shows "list_pop l h = Inl Fault"
  using assms by (auto simp: list_pop_def dlist_next_head list_remove_def case_prod_beta get_prev_def
      get_next_def set_next_def set_prev_def dlist_def nodes_def)

lemma list_empty_dlist: "dlist l h xs \<Longrightarrow> list_empty l h = Inr (xs = [])"
proof -
  assume d: "dlist l h xs"
  then have "hd (xs @ [tail_of l]) = tail_of l \<longleftrightarrow> xs = []"
    by (cases xs) (auto simp: dlist_def nodes_def)
  then show ?thesis using dlist_next_head [OF d] by (simp add: list_empty_def)
qed

section \<open>The loops\<close>

lemma chain_get_next: "chain h e xs b \<Longrightarrow> e \<noteq> NULL \<Longrightarrow> get_next h e = Inr (hd (xs @ [b]))"
  by (simp add: get_next_def chain_first)

lemma elem_find_loop_chain:
  "chain h a xs b \<Longrightarrow> distinct (a # xs @ [b]) \<Longrightarrow> NULL \<notin> set (a # xs) \<Longrightarrow>
   elem_find_loop h b obj_elem (hd (xs @ [b])) = Some (Inr (obj_elem \<in> set xs))"
proof (induction xs arbitrary: a)
  case Nil
  show ?case by (simp add: elem_find_loop.simps)
next
  case (Cons x xs)
  then have "chain h x xs b" "x \<noteq> b" by auto
  then show ?case
    using Cons.IH [of x] Cons.prems chain_get_next [of h x xs b]
    by (auto simp: elem_find_loop.simps [of h b obj_elem x])
qed

lemma list_traversal_loop_chain:
  "chain h a xs b \<Longrightarrow> distinct (a # xs @ [b]) \<Longrightarrow> NULL \<notin> set (a # xs) \<Longrightarrow>
   list_traversal_loop h b func arg (hd (xs @ [b])) =
     Some (Inr (case find (\<lambda>e. func e arg) xs of None \<Rightarrow> NULL | Some e \<Rightarrow> e))"
proof (induction xs arbitrary: a)
  case Nil
  show ?case by (simp add: list_traversal_loop.simps)
next
  case (Cons x xs)
  then have "chain h x xs b" "x \<noteq> b" by auto
  then show ?case
    using Cons.IH [of x] Cons.prems chain_get_next [of h x xs b]
    by (auto simp: list_traversal_loop.simps [of h b func arg x])
qed

lemma list_len_loop_chain:
  "chain h a xs b \<Longrightarrow> distinct (a # xs @ [b]) \<Longrightarrow> NULL \<notin> set (a # xs) \<Longrightarrow>
   list_len_loop h b (hd (xs @ [b])) n = Some (Inr (n + of_nat (length xs)))"
proof (induction xs arbitrary: a n)
  case Nil
  show ?case by (simp add: list_len_loop.simps)
next
  case (Cons x xs)
  then have "chain h x xs b" "x \<noteq> b" by auto
  then show ?case
    using Cons.IH [of x "n + 1"] Cons.prems chain_get_next [of h x xs b]
    by (auto simp: list_len_loop.simps [of h b x])
qed

interpretation klist: fifo "dlist l" "\<lambda>xs e. e \<notin> set (nodes l xs) \<and> e \<noteq> NULL" "list_append l" "list_pop l" for l
proof unfold_locales
  fix h xs e
  assume "dlist l h xs" "e \<notin> set (nodes l xs) \<and> e \<noteq> NULL"
  then show "\<exists>h'. list_append l e h = Inr h' \<and> dlist l h' (xs @ [e])"
    using list_append_dlist [of l h xs e] by auto
next
  fix h x xs
  assume "dlist l h (x # xs)"
  then show "\<exists>h'. list_pop l h = Inr (x, h') \<and> dlist l h' xs" using list_pop_dlist by blast
next
  fix h
  assume "dlist l h []"
  then show "\<exists>stop. list_pop l h = Inl stop" using list_pop_empty by blast
qed

section \<open>Properties\<close>

text \<open>C38: on a heap that represents the list \<open>xs\<close>, \<open>list_push\<close> and \<open>list_append\<close> of a new element
  return, represent \<open>elem # xs\<close> and \<open>xs @ [elem]\<close>, keep the processor flags, and change no other
  list that shares no node with it.\<close>

theorem list_insert_refines:
  assumes "dlist l h xs" and "elem \<notin> set (nodes l xs)" and "elem \<noteq> NULL"
  shows "(\<exists>h'. list_push l elem h = Inr h' \<and> dlist l h' (elem # xs) \<and> eflags h' = eflags h \<and>
      (\<forall>m zs. apart l (elem # xs) m zs \<longrightarrow> dlist m h' zs = dlist m h zs)) \<and>
    (\<exists>h'. list_append l elem h = Inr h' \<and> dlist l h' (xs @ [elem]) \<and> eflags h' = eflags h \<and>
      (\<forall>m zs. apart l (elem # xs) m zs \<longrightarrow> dlist m h' zs = dlist m h zs))"
  using list_push_dlist [OF assms] list_append_dlist [OF assms] by blast

text \<open>C39: \<open>list_remove\<close> takes one element out of the middle of the list it is in and keeps the
  order of the others; \<open>list_pop\<close> takes the first. On an empty list \<open>list_pop\<close> follows the NULL
  pointer behind the tail.\<close>

theorem list_remove_refines:
  "(dlist l h (xs @ e # ys) \<longrightarrow>
      (\<exists>h'. list_remove e h = Inr h' \<and> dlist l h' (xs @ ys) \<and> eflags h' = eflags h \<and>
        (\<forall>m zs. apart l (xs @ ys) m zs \<longrightarrow> dlist m h' zs = dlist m h zs))) \<and>
   (dlist l h (e # ys) \<longrightarrow> (\<exists>h'. list_pop l h = Inr (e, h') \<and> dlist l h' ys)) \<and>
   (dlist l h [] \<longrightarrow> list_pop l h = Inl Fault)"
  using list_remove_dlist list_pop_dlist list_pop_empty by blast

text \<open>Used as a queue (\<open>list_append\<close>, \<open>list_pop\<close>), the list is first in, first out: distinct
  new elements appended to a list come out after its old elements and in their order.\<close>

theorem klist_fifo_order:
  assumes "dlist l h xs" and "distinct es" and "set es \<inter> set (nodes l xs) = {}" and "NULL \<notin> set es"
  shows "\<exists>h'. klist.run l (map Enq es @ replicate (length xs + length es) Deq) h = Inr (xs @ es, h') \<and>
    dlist l h' []"
proof (rule klist.fifo_order [OF assms(1)])
  fix k e assume k: "k < length es" and e: "e = es ! k"
  have "distinct (take (Suc k) es)" using assms(2) by (rule distinct_take)
  then have "es ! k \<notin> set (take k es)" using k by (simp add: take_Suc_conv_app_nth)
  moreover have "es ! k \<in> set es" using k by simp
  ultimately show "e \<notin> set (nodes l (xs @ take k es)) \<and> e \<noteq> NULL"
    using e assms(3,4) by (auto simp: nodes_def)
qed

text \<open>On a well-formed list the searching and counting loops end: \<open>elem_find\<close> decides
  membership, \<open>list_traversal\<close> gives the first element that the callback accepts or NULL, and
  \<open>list_len\<close> the length modulo 2^32.\<close>

theorem list_loops_return:
  assumes "dlist l h xs"
  shows "elem_find l obj_elem h = Inr (obj_elem \<in> set xs) \<and>
    list_traversal l func arg h =
      Inr (case find (\<lambda>e. func e arg) xs of None \<Rightarrow> NULL | Some e \<Rightarrow> e) \<and>
    list_len l h = Inr (of_nat (length xs)) \<and> list_empty l h = Inr (xs = [])"
proof -
  have c: "chain h (head_of l) xs (tail_of l)" "distinct (head_of l # xs @ [tail_of l])"
    "NULL \<notin> set (head_of l # xs)"
    using assms by (auto simp: dlist_def nodes_def)
  show ?thesis
    using assms elem_find_loop_chain [OF c, of obj_elem] list_traversal_loop_chain [OF c, of func arg]
      list_len_loop_chain [OF c, of 0]
    by (auto simp: elem_find_def list_traversal_def list_len_def dlist_next_head list_empty_dlist)
qed

section \<open>Concrete instances\<close>

definition demo_heap :: list_heap where
  "demo_heap = \<lparr>eflags = 0x202, prev_of = (\<lambda>_. 0)(0x100 := 0x200, 0x208 := 0x100),
     next_of = (\<lambda>_. 0)(0x200 := 0x100, 0x100 := 0x208)\<rparr>"

lemma demo_heap_dlist: "dlist 0x200 demo_heap [0x100]"
  by (simp add: dlist_def demo_heap_def nodes_def head_of_def tail_of_def NULL_def)

lemma demo_nodes: "set (nodes 0x200 [0x100]) = {0x200, 0x100, 0x208}"
  by (simp add: nodes_def head_of_def tail_of_def)

theorem list_insert_refines_witness: "\<exists>h'. list_append 0x200 0x300 demo_heap = Inr h' \<and> dlist 0x200 h' [0x100, 0x300]"
  using list_insert_refines [OF demo_heap_dlist, of "0x300"] by (auto simp: demo_nodes NULL_def)

theorem list_remove_refines_witness:
  "(\<exists>h'. list_remove 0x100 demo_heap = Inr h' \<and> dlist 0x200 h' [] \<and> list_pop 0x200 h' = Inl Fault) \<and>
   (\<exists>h'. list_pop 0x200 demo_heap = Inr (0x100, h'))"
proof -
  have d: "dlist 0x200 demo_heap ([] @ 0x100 # [])" by (simp add: demo_heap_dlist)
  then obtain h' where "list_remove 0x100 demo_heap = Inr h'" "dlist 0x200 h' []"
    using list_remove_refines [of "0x200" demo_heap "[]" "0x100" "[]"] by auto
  then show ?thesis
    using list_remove_refines [of "0x200" h' "[]" "0x100" "[]"]
      list_remove_refines [of "0x200" demo_heap "[]" "0x100" "[]"] d
    by auto
qed

theorem klist_fifo_order_witness:
  "\<exists>h'. klist.run 0x200 [Enq 0x300, Enq 0x400, Deq, Deq, Deq] demo_heap = Inr ([0x100, 0x300, 0x400], h')"
  using klist_fifo_order [OF demo_heap_dlist, of "[0x300, 0x400]"]
  by (auto simp: demo_nodes NULL_def numeral_3_eq_3)

theorem list_loops_return_witness:
  "elem_find 0x200 0x100 demo_heap = Inr True \<and> list_len 0x200 demo_heap = Inr 1"
  using list_loops_return [OF demo_heap_dlist, of "0x100"] by simp

end
