(* ===== verification/Sched.thy ===== *)
theory Sched
  imports Intr
begin

text \<open>
  Threads (thread/thread.c), semaphores and locks (thread/sync.c) and the timer
  (device/timer.c). A thread is the address of its control block. The two queues of the
  scheduler and the waiters of a semaphore are lists of threads: \<open>Klist\<close> shows that the linked
  lists of the code implement these list operations. A thread that has been switched away
  resumes behind the call of \<open>switch_to\<close>; what it still has to do there is the list of frames
  on its kernel stack.
\<close>

section \<open>State\<close>

datatype task_status =
  TASK_RUNNING | TASK_READY | TASK_BLOCKED | TASK_WAITING | TASK_HANGING | TASK_DIED

definition MAX_FILES_OPEN_PER_PROC :: nat where
  "MAX_FILES_OPEN_PER_PROC = 8"

record task_struct =
  self_kstack :: u32
  pid :: "16 word"
  status :: task_status
  task_name :: "u8 list"
  priority :: u8
  ticks :: u8
  elapsed_ticks :: u32
  fd_table :: "u32 list"
  pgdir :: u32
  cwd_inode_nr :: u32
  parent_pid :: "16 word"
  stack_magic :: u32

record semaphore =
  svalue :: u8
  waiters :: "u32 list"

text \<open>The semaphore of the lock at address \<open>l\<close> is at \<open>l + 4\<close>, behind the pointer \<open>holder\<close>.\<close>

record lock =
  holder :: u32
  holder_repeat_nr :: u32

definition sema_of :: "u32 \<Rightarrow> u32" where
  "sema_of l = l + 4"

text \<open>What a thread still has to do, one entry for each call it is inside.\<close>

datatype frame =
    Start_thread
  | Set_status intr_status
  | Iret
  | Down_loop u32 intr_status
  | Sema_down u32
  | Sema_up u32
  | Lock_acquire u32
  | Lock_holder u32
  | Lock_release u32
  | Thread_block task_status
  | Thread_yield

record thread_stack =
  ts_ebp :: u32
  ts_ebx :: u32
  ts_edi :: u32
  ts_esi :: u32
  ts_eip :: u32
  ts_function :: u32
  ts_func_arg :: u32

record kern = cpu +
  tasks :: "u32 \<Rightarrow> task_struct"
  running_thread :: u32
  thread_ready_list :: "u32 list"
  thread_all_list :: "u32 list"
  semas :: "u32 \<Rightarrow> semaphore"
  locks :: "u32 \<Rightarrow> lock"
  kstk :: "u32 \<Rightarrow> frame list"
  tstacks :: "u32 \<Rightarrow> thread_stack"
  idle_thread :: u32
  main_thread :: u32
  pid_lock :: u32
  next_pid :: "16 word"
  tick_count :: u32
  page_map :: "u32 \<Rightarrow> u32"
  cr3 :: u32
  tss_esp0 :: u32

text \<open>\<open>tick_count\<close> is the global \<open>ticks\<close> of timer.c, \<open>page_map\<close> what \<open>addr_v2p\<close> reads from the page
  tables for a kernel address, \<open>tss_esp0\<close> the field \<open>esp0\<close> of the task state segment.\<close>

definition upd_task :: "u32 \<Rightarrow> (task_struct \<Rightarrow> task_struct) \<Rightarrow> 'a kern_scheme \<Rightarrow> 'a kern_scheme" where
  "upd_task t f s = s\<lparr>tasks := (tasks s)(t := f (tasks s t))\<rparr>"

definition status_of :: "'a kern_scheme \<Rightarrow> u32 \<Rightarrow> task_status" where
  "status_of s t = status (tasks s t)"

definition set_task_status :: "u32 \<Rightarrow> task_status \<Rightarrow> 'a kern_scheme \<Rightarrow> 'a kern_scheme" where
  "set_task_status t st = upd_task t (\<lambda>p. p\<lparr>status := st\<rparr>)"

definition push_frame :: "frame \<Rightarrow> 'a kern_scheme \<Rightarrow> 'a kern_scheme" where
  "push_frame f s = s\<lparr>kstk := (kstk s)(running_thread s := f # kstk s (running_thread s))\<rparr>"

definition blocked_status :: "task_status \<Rightarrow> bool" where
  "blocked_status st \<longleftrightarrow> st = TASK_BLOCKED \<or> st = TASK_WAITING \<or> st = TASK_HANGING"

section \<open>thread.c and process_activate\<close>

definition page_dir_activate :: "u32 \<Rightarrow> 'a kern_scheme \<Rightarrow> 'a kern_scheme" where
  "page_dir_activate t s =
     (let pagedir_phy_addr = 0x100000;
          pagedir_phy_addr = (if pgdir (tasks s t) \<noteq> 0 then page_map s (pgdir (tasks s t)) else pagedir_phy_addr)
      in s\<lparr>cr3 := pagedir_phy_addr\<rparr>)"

definition process_activate :: "u32 \<Rightarrow> 'a kern_scheme \<Rightarrow> 'a kern_scheme res" where
  "process_activate t s =
     bnd (ASSERT (t \<noteq> 0)) (\<lambda>_.
     let s = page_dir_activate t s
     in Inr (if pgdir (tasks s t) \<noteq> 0 then s\<lparr>tss_esp0 := t + 4096\<rparr> else s))"

definition thread_unblock :: "u32 \<Rightarrow> 'a kern_scheme \<Rightarrow> 'a kern_scheme res" where
  "thread_unblock pthread s =
     (let (old_status, s) = intr_disable s in
      bnd (ASSERT (blocked_status (status_of s pthread))) (\<lambda>_.
      bnd (if status_of s pthread \<noteq> TASK_READY then
             bnd (ASSERT (pthread \<notin> set (thread_ready_list s))) (\<lambda>_.
             if pthread \<in> set (thread_ready_list s) then Inl Panic
             else
               let s = s\<lparr>thread_ready_list := pthread # thread_ready_list s\<rparr>
               in Inr (set_task_status pthread TASK_READY s))
           else Inr s) (\<lambda>s.
      Inr (snd (intr_set_status s old_status)))))"

definition schedule :: "'a kern_scheme \<Rightarrow> 'a kern_scheme res" where
  "schedule s =
     bnd (ASSERT (intr_get_status s = INTR_OFF)) (\<lambda>_.
     let cur = running_thread s in
     bnd (if status_of s cur = TASK_RUNNING then
            bnd (ASSERT (cur \<notin> set (thread_ready_list s))) (\<lambda>_.
            let s = s\<lparr>thread_ready_list := thread_ready_list s @ [cur]\<rparr>;
                s = upd_task cur (\<lambda>p. p\<lparr>ticks := priority p\<rparr>) s
            in Inr (set_task_status cur TASK_READY s))
          else Inr s) (\<lambda>s.
     bnd (if thread_ready_list s = [] then thread_unblock (idle_thread s) s else Inr s) (\<lambda>s.
     bnd (ASSERT (thread_ready_list s \<noteq> [])) (\<lambda>_.
     let nxt = hd (thread_ready_list s);
         s = s\<lparr>thread_ready_list := tl (thread_ready_list s)\<rparr>;
         s = set_task_status nxt TASK_RUNNING s in
     bnd (process_activate nxt s) (\<lambda>s.
     Inr (s\<lparr>running_thread := nxt\<rparr>))))))"

text \<open>\<open>thread_block\<close> and \<open>thread_yield\<close> end, for the thread that calls them, with the old
  interrupt status set again when it next runs.\<close>

definition thread_block :: "task_status \<Rightarrow> 'a kern_scheme \<Rightarrow> 'a kern_scheme res" where
  "thread_block stat s =
     bnd (ASSERT (blocked_status stat)) (\<lambda>_.
     let (old_status, s) = intr_disable s;
         cur_thread = running_thread s;
         s = set_task_status cur_thread stat s
     in schedule (push_frame (Set_status old_status) s))"

definition thread_yield :: "'a kern_scheme \<Rightarrow> 'a kern_scheme res" where
  "thread_yield s =
     (let cur = running_thread s; (old_status, s) = intr_disable s in
      bnd (ASSERT (cur \<notin> set (thread_ready_list s))) (\<lambda>_.
      let s = s\<lparr>thread_ready_list := thread_ready_list s @ [cur]\<rparr>;
          s = set_task_status cur TASK_READY s
      in schedule (push_frame (Set_status old_status) s)))"

section \<open>sync.c\<close>

definition sema_init :: "u32 \<Rightarrow> u8 \<Rightarrow> 'a kern_scheme \<Rightarrow> 'a kern_scheme" where
  "sema_init psema v s = s\<lparr>semas := (semas s)(psema := \<lparr>svalue = v, waiters = []\<rparr>)\<rparr>"

definition lock_init :: "u32 \<Rightarrow> 'a kern_scheme \<Rightarrow> 'a kern_scheme" where
  "lock_init plock s =
     sema_init (sema_of plock) 1 (s\<lparr>locks := (locks s)(plock := \<lparr>holder = 0, holder_repeat_nr = 0\<rparr>)\<rparr>)"

definition upd_sema :: "u32 \<Rightarrow> (semaphore \<Rightarrow> semaphore) \<Rightarrow> 'a kern_scheme \<Rightarrow> 'a kern_scheme" where
  "upd_sema a f s = s\<lparr>semas := (semas s)(a := f (semas s a))\<rparr>"

definition upd_lock :: "u32 \<Rightarrow> (lock \<Rightarrow> lock) \<Rightarrow> 'a kern_scheme \<Rightarrow> 'a kern_scheme" where
  "upd_lock l f s = s\<lparr>locks := (locks s)(l := f (locks s l))\<rparr>"

text \<open>One round of the loop of \<open>sema_down\<close>, from its head: either the value is 0 and the thread
  waits, to come back to the head of the loop, or the value goes down and the call is over.\<close>

definition down_loop :: "u32 \<Rightarrow> intr_status \<Rightarrow> 'a kern_scheme \<Rightarrow> 'a kern_scheme res" where
  "down_loop psema old_status s =
     (if svalue (semas s psema) = 0 then
        bnd (ASSERT (running_thread s \<notin> set (waiters (semas s psema)))) (\<lambda>_.
        if running_thread s \<in> set (waiters (semas s psema)) then Inl Panic
        else
          let s = upd_sema psema (\<lambda>x. x\<lparr>waiters := waiters x @ [running_thread s]\<rparr>) s
          in thread_block TASK_BLOCKED (push_frame (Down_loop psema old_status) s))
      else
        let s = upd_sema psema (\<lambda>x. x\<lparr>svalue := svalue x - 1\<rparr>) s in
        bnd (ASSERT (svalue (semas s psema) = 0)) (\<lambda>_.
        Inr (snd (intr_set_status s old_status))))"

definition sema_down :: "u32 \<Rightarrow> 'a kern_scheme \<Rightarrow> 'a kern_scheme res" where
  "sema_down psema s = (let (old_status, s) = intr_disable s in down_loop psema old_status s)"

definition sema_up :: "u32 \<Rightarrow> 'a kern_scheme \<Rightarrow> 'a kern_scheme res" where
  "sema_up psema s =
     (let (old_status, s) = intr_disable s in
      bnd (ASSERT (svalue (semas s psema) = 0)) (\<lambda>_.
      bnd (if waiters (semas s psema) \<noteq> [] then
             let thread_blocked = hd (waiters (semas s psema));
                 s = upd_sema psema (\<lambda>x. x\<lparr>waiters := tl (waiters x)\<rparr>) s
             in thread_unblock thread_blocked s
           else Inr s) (\<lambda>s.
      let s = upd_sema psema (\<lambda>x. x\<lparr>svalue := svalue x + 1\<rparr>) s in
      bnd (ASSERT (svalue (semas s psema) = 1)) (\<lambda>_.
      Inr (snd (intr_set_status s old_status))))))"

text \<open>\<open>lock_acquire\<close> up to its call of \<open>sema_down\<close>, and from the return of that call on.\<close>

definition lock_acquire :: "u32 \<Rightarrow> 'a kern_scheme \<Rightarrow> 'a kern_scheme res" where
  "lock_acquire plock s =
     (if holder (locks s plock) \<noteq> running_thread s then
        Inr (push_frame (Sema_down (sema_of plock)) (push_frame (Lock_holder plock) s))
      else Inr (upd_lock plock (\<lambda>l. l\<lparr>holder_repeat_nr := holder_repeat_nr l + 1\<rparr>) s))"

definition lock_acquire_holder :: "u32 \<Rightarrow> 'a kern_scheme \<Rightarrow> 'a kern_scheme res" where
  "lock_acquire_holder plock s =
     (let s = upd_lock plock (\<lambda>l. l\<lparr>holder := running_thread s\<rparr>) s in
      bnd (ASSERT (holder_repeat_nr (locks s plock) = 0)) (\<lambda>_.
      Inr (upd_lock plock (\<lambda>l. l\<lparr>holder_repeat_nr := 1\<rparr>) s)))"

text \<open>\<open>lock_release\<close> up to its call of \<open>sema_up\<close>, which is its last action.\<close>

definition lock_release :: "u32 \<Rightarrow> 'a kern_scheme \<Rightarrow> 'a kern_scheme res" where
  "lock_release plock s =
     bnd (ASSERT (holder (locks s plock) = running_thread s)) (\<lambda>_.
     if holder_repeat_nr (locks s plock) > 1 then
       Inr (upd_lock plock (\<lambda>l. l\<lparr>holder_repeat_nr := holder_repeat_nr l - 1\<rparr>) s)
     else
       bnd (ASSERT (holder_repeat_nr (locks s plock) = 1)) (\<lambda>_.
       let s = upd_lock plock (\<lambda>l. l\<lparr>holder := 0\<rparr>) s;
           s = upd_lock plock (\<lambda>l. l\<lparr>holder_repeat_nr := 0\<rparr>) s
       in Inr (push_frame (Sema_up (sema_of plock)) s)))"

text \<open>Both calls from beginning to end, for code that runs them where the lock is free: \<open>Blocked\<close>
  stands for the case that the thread would have to wait.\<close>

definition lock_acquire_now :: "u32 \<Rightarrow> 'a kern_scheme \<Rightarrow> 'a kern_scheme res" where
  "lock_acquire_now plock s =
     (if holder (locks s plock) \<noteq> running_thread s then
        if svalue (semas s (sema_of plock)) = 0 then Inl Blocked
        else bnd (sema_down (sema_of plock) s) (lock_acquire_holder plock)
      else lock_acquire plock s)"

definition pop_frame :: "'a kern_scheme \<Rightarrow> 'a kern_scheme" where
  "pop_frame s = s\<lparr>kstk := (kstk s)(running_thread s := tl (kstk s (running_thread s)))\<rparr>"

definition lock_release_now :: "u32 \<Rightarrow> 'a kern_scheme \<Rightarrow> 'a kern_scheme res" where
  "lock_release_now plock s =
     bnd (lock_release plock s) (\<lambda>s'.
     if holder_repeat_nr (locks s plock) > 1 then Inr s'
     else sema_up (sema_of plock) (pop_frame s'))"

section \<open>Creating threads\<close>

definition PG_SIZE :: u32 where
  "PG_SIZE = 4096"

definition allocate_pid :: "'a kern_scheme \<Rightarrow> (16 word \<times> 'a kern_scheme) res" where
  "allocate_pid s =
     bnd (lock_acquire_now (pid_lock s) s) (\<lambda>s.
     let s = s\<lparr>next_pid := next_pid s + 1\<rparr> in
     bnd (lock_release_now (pid_lock s) s) (\<lambda>s.
     Inr (next_pid s, s)))"

definition fork_pid :: "'a kern_scheme \<Rightarrow> (16 word \<times> 'a kern_scheme) res" where
  "fork_pid s = allocate_pid s"

definition zero_task :: task_struct where
  "zero_task = \<lparr>self_kstack = 0, pid = 0, status = TASK_RUNNING, task_name = replicate 16 0, priority = 0,
     ticks = 0, elapsed_ticks = 0, fd_table = replicate 8 0, pgdir = 0, cwd_inode_nr = 0, parent_pid = 0,
     stack_magic = 0\<rparr>"

text \<open>The array \<open>name\<close> has 16 bytes; \<open>strcpy\<close> of a longer name would leave it.\<close>

definition init_thread :: "u32 \<Rightarrow> u8 list \<Rightarrow> u32 \<Rightarrow> 'a kern_scheme \<Rightarrow> 'a kern_scheme res" where
  "init_thread pthread name prio s =
     bnd (ASSERT (pthread \<noteq> 0)) (\<lambda>_.
     let s = upd_task pthread (\<lambda>_. zero_task) s in
     bnd (allocate_pid s) (\<lambda>(newpid, s).
     let s = upd_task pthread (\<lambda>p. p\<lparr>pid := newpid\<rparr>) s in
     bnd (defined (length name < 16)) (\<lambda>_.
     let s = upd_task pthread (\<lambda>p. p\<lparr>task_name := patch (task_name p) 0 (name @ [0])\<rparr>) s;
         s = set_task_status pthread (if pthread = main_thread s then TASK_RUNNING else TASK_READY) s;
         s = upd_task pthread (\<lambda>p. p\<lparr>self_kstack := pthread + PG_SIZE\<rparr>) s;
         s = upd_task pthread (\<lambda>p. p\<lparr>priority := ucast prio, ticks := ucast prio,
               elapsed_ticks := 0, pgdir := 0\<rparr>) s;
         s = upd_task pthread (\<lambda>p. p\<lparr>fd_table := [0, 1, 2] @ replicate (MAX_FILES_OPEN_PER_PROC - 3) (- 1)\<rparr>) s
     in Inr (upd_task pthread (\<lambda>p. p\<lparr>cwd_inode_nr := 0, parent_pid := - 1, stack_magic := 0x19870916\<rparr>) s))))"

text \<open>Pointer arithmetic on \<open>uint32_t *\<close> moves the stack pointer by four times the size of the two
  structures (19 and 8 words). \<open>kernel_thread\<close> is the address of that function.\<close>

definition thread_create :: "u32 \<Rightarrow> u32 \<Rightarrow> u32 \<Rightarrow> u32 \<Rightarrow> 'a kern_scheme \<Rightarrow> 'a kern_scheme" where
  "thread_create kernel_thread pthread function func_arg s =
     (let s = upd_task pthread (\<lambda>p. p\<lparr>self_kstack := self_kstack p - 4 * 76\<rparr>) s;
          s = upd_task pthread (\<lambda>p. p\<lparr>self_kstack := self_kstack p - 4 * 32\<rparr>) s;
          kthread_stack = self_kstack (tasks s pthread);
          s = s\<lparr>tstacks := (tstacks s)(kthread_stack :=
                \<lparr>ts_ebp = 0, ts_ebx = 0, ts_edi = 0, ts_esi = 0, ts_eip = kernel_thread,
                 ts_function = function, ts_func_arg = func_arg\<rparr>)\<rparr>
      in s\<lparr>kstk := (kstk s)(pthread := [Start_thread])\<rparr>)"

text \<open>\<open>page\<close> is what \<open>get_kernel_pages(1)\<close> returned. The ends of \<open>thread_start\<close>, of
  \<open>process_execute\<close> and of \<open>sys_fork\<close> put the new thread into both queues.\<close>

definition enqueue_thread :: "u32 \<Rightarrow> 'a kern_scheme \<Rightarrow> 'a kern_scheme res" where
  "enqueue_thread t s =
     bnd (ASSERT (t \<notin> set (thread_ready_list s))) (\<lambda>_.
     let s = s\<lparr>thread_ready_list := thread_ready_list s @ [t]\<rparr> in
     bnd (ASSERT (t \<notin> set (thread_all_list s))) (\<lambda>_.
     Inr (s\<lparr>thread_all_list := thread_all_list s @ [t]\<rparr>)))"

definition thread_start :: "u32 \<Rightarrow> u32 \<Rightarrow> u8 list \<Rightarrow> u32 \<Rightarrow> u32 \<Rightarrow> u32 \<Rightarrow> 'a kern_scheme \<Rightarrow> (u32 \<times> 'a kern_scheme) res" where
  "thread_start kernel_thread page name prio function func_arg s =
     bnd (init_thread page name prio s) (\<lambda>s.
     let s = thread_create kernel_thread page function func_arg s in
     bnd (enqueue_thread page s) (\<lambda>s.
     Inr (page, s)))"

definition make_main_thread :: "'a kern_scheme \<Rightarrow> 'a kern_scheme res" where
  "make_main_thread s =
     (let s = s\<lparr>main_thread := running_thread s\<rparr> in
      bnd (init_thread (main_thread s) [109, 97, 105, 110] 31 s) (\<lambda>s.
      bnd (ASSERT (main_thread s \<notin> set (thread_all_list s))) (\<lambda>_.
      Inr (s\<lparr>thread_all_list := thread_all_list s @ [main_thread s]\<rparr>))))"

definition thread_init :: "u32 \<Rightarrow> u32 \<Rightarrow> u32 \<Rightarrow> 'a kern_scheme \<Rightarrow> 'a kern_scheme res" where
  "thread_init kernel_thread idle page s =
     (let s = s\<lparr>thread_ready_list := []\<rparr>;
          s = s\<lparr>thread_all_list := []\<rparr>;
          s = lock_init (pid_lock s) s in
      bnd (make_main_thread s) (\<lambda>s.
      bnd (thread_start kernel_thread page [105, 100, 108, 101] 10 idle 0 s) (\<lambda>(t, s).
      Inr (s\<lparr>idle_thread := t\<rparr>))))"

section \<open>timer.c\<close>

definition intr_timer_handler :: "'a kern_scheme \<Rightarrow> 'a kern_scheme res" where
  "intr_timer_handler s =
     (let cur_thread = running_thread s in
      bnd (ASSERT (stack_magic (tasks s cur_thread) = 0x19870916)) (\<lambda>_.
      let s = upd_task cur_thread (\<lambda>p. p\<lparr>elapsed_ticks := elapsed_ticks p + 1\<rparr>) s;
          s = s\<lparr>tick_count := tick_count s + 1\<rparr>
      in if ticks (tasks s cur_thread) = 0 then schedule s
         else Inr (upd_task cur_thread (\<lambda>p. p\<lparr>ticks := ticks p - 1\<rparr>) s)))"

text \<open>The interrupt as the processor delivers it: the flag is cleared, and set again by \<open>iretd\<close> when
  the interrupted thread gets back there.\<close>

definition timer_interrupt :: "'a kern_scheme \<Rightarrow> 'a kern_scheme res" where
  "timer_interrupt s = intr_timer_handler (cli (push_frame Iret s))"

text \<open>The bytes that \<open>frequency_set\<close> writes, with the ports. The cast in its last line binds
  tighter than the shift.\<close>

definition frequency_set :: "u8 \<Rightarrow> u8 \<Rightarrow> u8 \<Rightarrow> u8 \<Rightarrow> u16 \<Rightarrow> (u16 \<times> u8) list" where
  "frequency_set counter_port counter_no rwl counter_mode counter_value =
     [(0x43, ucast (push_bit 6 (ucast counter_no :: u32) OR push_bit 4 (ucast rwl) OR push_bit 1 (ucast counter_mode))),
      (ucast counter_port, ucast counter_value),
      (ucast counter_port, drop_bit 8 (ucast counter_value))]"

definition COUNTER0_VALUE :: u16 where
  "COUNTER0_VALUE = of_int (1193180 div 100)"

definition timer_init :: "u32 \<Rightarrow> intr_state \<Rightarrow> intr_state res" where
  "timer_init handler s =
     (let s = put_str ''timer_init start\<newline>'' s;
          s = fold (\<lambda>(p, d). outb p d) (frequency_set 0x40 0 3 2 COUNTER0_VALUE) s in
      bnd (register_handler 0x20 handler s) (\<lambda>s.
      Inr (put_str ''timer_init done\<newline>'' s)))"

text \<open>\<open>mtime_sleep\<close> up to its loop: the number of ticks to wait for. One round of the loop either
  is over or gives up the processor.\<close>

definition sleep_ticks_of :: "u32 \<Rightarrow> u32 res" where
  "sleep_ticks_of m_seconds =
     (let sleep_ticks = (m_seconds + 10 - 1) div 10 in
      bnd (ASSERT (sleep_ticks > 0)) (\<lambda>_. Inr sleep_ticks))"

definition ticks_to_sleep_round :: "u32 \<Rightarrow> u32 \<Rightarrow> 'a kern_scheme \<Rightarrow> 'a kern_scheme res option" where
  "ticks_to_sleep_round start_tick sleep_ticks s =
     (if tick_count s - start_tick < sleep_ticks then Some (thread_yield s) else None)"

text \<open>\<open>frequency_set\<close> writes 0 as the high byte of the counter, whatever the value, because the
  cast to a byte comes before the shift. \<open>timer_init\<close>, which means to program the divisor 11931
  for 100 interrupts per second, programs 155.\<close>

theorem timer_divisor_truncated:
  "snd (last (frequency_set port no rwl mode v)) = 0 \<and>
   unat COUNTER0_VALUE = 11931 \<and>
   frequency_set 0x40 0 3 2 COUNTER0_VALUE = [(0x43, 0x34), (0x40, 155), (0x40, 0)]"
proof -
  have "drop_bit 8 (b :: u8) = 0" for b by (rule bit_word_eqI) (auto simp: bit_simps dest: bit_imp_le_length)
  then show ?thesis by (simp add: frequency_set_def COUNTER0_VALUE_def)
qed

text \<open>\<open>mtime_sleep\<close> of a positive time that does not overflow waits for the smallest number of
  10 ms ticks that covers it.\<close>

theorem sleep_ticks_cover:
  assumes "0 < unat ms" and "unat ms < 2 ^ 32 - 9"
  shows "\<exists>t. sleep_ticks_of ms = Inr t \<and> unat ms \<le> 10 * unat t \<and> 10 * unat t < unat ms + 10"
proof -
  have "ms + 10 - 1 = ms + 9" by simp
  moreover have "unat (ms + 9) = unat ms + 9" using assms(2) by (subst unat_add_u32) simp_all
  ultimately have e: "unat (ms + 10 - 1) = unat ms + 9" by (simp only:)
  have t: "unat ((ms + 10 - 1) div 10) = (unat ms + 9) div 10" unfolding unat_div e by simp
  have "(ms + 10 - 1) div 10 > 0" unfolding word_less_nat_alt t using assms(1) by simp
  then have "sleep_ticks_of ms = Inr ((ms + 10 - 1) div 10)" by (simp add: sleep_ticks_of_def)
  moreover have "unat ms \<le> 10 * ((unat ms + 9) div 10)" "10 * ((unat ms + 9) div 10) < unat ms + 10" by linarith+
  ultimately show ?thesis using t by metis
qed

theorem sleep_ticks_cover_witness: "\<exists>t. sleep_ticks_of 25 = Inr t \<and> 25 \<le> 10 * unat t"
  using sleep_ticks_cover [of 25] by auto

end
