(* ===== verification/Threads.thy ===== *)
theory Threads
  imports Sched
begin

text \<open>
  The invariant of the scheduler: which threads are in which queue, and that every operation of
  thread.c and sync.c keeps it, from any state that satisfies it and without failing one of its
  assertions.
\<close>

section \<open>The invariant\<close>

definition in_waiters :: "'a kern_scheme \<Rightarrow> u32 \<Rightarrow> bool" where
  "in_waiters s t \<longleftrightarrow> (\<exists>a. t \<in> set (waiters (semas s a)))"

text \<open>\<open>queues_ok\<close> holds throughout, also while the running thread has already given up its state;
  \<open>sched_ok\<close> holds between operations.\<close>

definition threads_ok :: "'a kern_scheme \<Rightarrow> bool" where
  "threads_ok s \<longleftrightarrow> distinct (thread_all_list s) \<and> 0 \<notin> set (thread_all_list s) \<and>
     running_thread s \<in> set (thread_all_list s) \<and> idle_thread s \<in> set (thread_all_list s) \<and>
     set (thread_ready_list s) \<subseteq> set (thread_all_list s) \<and> distinct (thread_ready_list s)"

definition waiting_ok :: "'a kern_scheme \<Rightarrow> bool" where
  "waiting_ok s \<longleftrightarrow> (\<forall>a. distinct (waiters (semas s a)) \<and>
      (\<forall>t \<in> set (waiters (semas s a)). t \<in> set (thread_all_list s) \<and> status_of s t = TASK_BLOCKED)) \<and>
     (\<forall>a b. a \<noteq> b \<longrightarrow> set (waiters (semas s a)) \<inter> set (waiters (semas s b)) = {})"

definition status_ok :: "'a kern_scheme \<Rightarrow> bool" where
  "status_ok s \<longleftrightarrow> (\<forall>t \<in> set (thread_all_list s).
      (status_of s t = TASK_READY \<longleftrightarrow> t \<in> set (thread_ready_list s)) \<and>
      (status_of s t = TASK_RUNNING \<longrightarrow> t = running_thread s))"

definition idle_ok :: "'a kern_scheme \<Rightarrow> bool" where
  "idle_ok s \<longleftrightarrow> \<not> in_waiters s (idle_thread s) \<and>
     (blocked_status (status_of s (idle_thread s)) \<or>
      status_of s (idle_thread s) \<in> {TASK_READY, TASK_RUNNING})"

definition queues_ok :: "'a kern_scheme \<Rightarrow> bool" where
  "queues_ok s \<longleftrightarrow> threads_ok s \<and> waiting_ok s \<and> status_ok s \<and> idle_ok s"

definition sched_ok :: "'a kern_scheme \<Rightarrow> bool" where
  "sched_ok s \<longleftrightarrow> queues_ok s \<and> status_of s (running_thread s) = TASK_RUNNING"

lemmas queue_defs = queues_ok_def threads_ok_def waiting_ok_def status_ok_def idle_ok_def

text \<open>Two states with the same queues and statuses.\<close>

definition same_queues :: "'a kern_scheme \<Rightarrow> 'a kern_scheme \<Rightarrow> bool" where
  "same_queues s s' \<longleftrightarrow> thread_all_list s' = thread_all_list s \<and> thread_ready_list s' = thread_ready_list s \<and>
     running_thread s' = running_thread s \<and> idle_thread s' = idle_thread s \<and>
     (\<forall>a. waiters (semas s' a) = waiters (semas s a)) \<and> (\<forall>t. status_of s' t = status_of s t)"

lemma queues_ok_same: "same_queues s s' \<Longrightarrow> queues_ok s' = queues_ok s"
  by (simp add: same_queues_def queue_defs in_waiters_def)

lemma sched_ok_same: "same_queues s s' \<Longrightarrow> sched_ok s' = sched_ok s"
  using queues_ok_same [of s s'] by (simp add: sched_ok_def same_queues_def)

section \<open>Simplification of the state updates\<close>

lemma upd_task_simps [simp]:
  "thread_ready_list (upd_task t f s) = thread_ready_list s" "thread_all_list (upd_task t f s) = thread_all_list s"
  "running_thread (upd_task t f s) = running_thread s" "idle_thread (upd_task t f s) = idle_thread s"
  "semas (upd_task t f s) = semas s" "locks (upd_task t f s) = locks s" "kstk (upd_task t f s) = kstk s"
  "eflags (upd_task t f s) = eflags s" "tasks (upd_task t f s) = (tasks s)(t := f (tasks s t))"
  "tick_count (upd_task t f s) = tick_count s" "page_map (upd_task t f s) = page_map s"
  by (simp_all add: upd_task_def)

lemma set_task_status_simps [simp]:
  "thread_ready_list (set_task_status t st s) = thread_ready_list s"
  "thread_all_list (set_task_status t st s) = thread_all_list s"
  "running_thread (set_task_status t st s) = running_thread s"
  "idle_thread (set_task_status t st s) = idle_thread s"
  "semas (set_task_status t st s) = semas s" "locks (set_task_status t st s) = locks s"
  "kstk (set_task_status t st s) = kstk s" "eflags (set_task_status t st s) = eflags s"
  "status_of (set_task_status t st s) u = (if u = t then st else status_of s u)"
  "stack_magic (tasks (set_task_status t st s) u) = stack_magic (tasks s u)"
  by (simp_all add: set_task_status_def status_of_def)

lemma push_frame_simps [simp]:
  "thread_ready_list (push_frame f s) = thread_ready_list s" "thread_all_list (push_frame f s) = thread_all_list s"
  "running_thread (push_frame f s) = running_thread s" "idle_thread (push_frame f s) = idle_thread s"
  "semas (push_frame f s) = semas s" "locks (push_frame f s) = locks s" "tasks (push_frame f s) = tasks s"
  "eflags (push_frame f s) = eflags s" "status_of (push_frame f s) u = status_of s u"
  "kstk (push_frame f s) = (kstk s)(running_thread s := f # kstk s (running_thread s))"
  "tick_count (push_frame f s) = tick_count s"
  by (simp_all add: push_frame_def status_of_def)

lemma upd_sema_simps [simp]:
  "thread_ready_list (upd_sema a f s) = thread_ready_list s" "thread_all_list (upd_sema a f s) = thread_all_list s"
  "running_thread (upd_sema a f s) = running_thread s" "idle_thread (upd_sema a f s) = idle_thread s"
  "semas (upd_sema a f s) = (semas s)(a := f (semas s a))" "locks (upd_sema a f s) = locks s"
  "tasks (upd_sema a f s) = tasks s" "kstk (upd_sema a f s) = kstk s"
  "eflags (upd_sema a f s) = eflags s" "status_of (upd_sema a f s) u = status_of s u"
  by (simp_all add: upd_sema_def status_of_def)

lemma upd_lock_simps [simp]:
  "thread_ready_list (upd_lock a g s) = thread_ready_list s" "thread_all_list (upd_lock a g s) = thread_all_list s"
  "running_thread (upd_lock a g s) = running_thread s" "idle_thread (upd_lock a g s) = idle_thread s"
  "locks (upd_lock a g s) = (locks s)(a := g (locks s a))" "semas (upd_lock a g s) = semas s"
  "tasks (upd_lock a g s) = tasks s" "kstk (upd_lock a g s) = kstk s"
  "eflags (upd_lock a g s) = eflags s" "status_of (upd_lock a g s) u = status_of s u"
  by (simp_all add: upd_lock_def status_of_def)

text \<open>The flag operations change the flags alone.\<close>

definition only_flags :: "'a kern_scheme \<Rightarrow> 'a kern_scheme \<Rightarrow> bool" where
  "only_flags s s' \<longleftrightarrow> (\<exists>e. s' = s\<lparr>eflags := e\<rparr>)"

lemma only_flags_refl [simp]: "only_flags s s"
proof -
  have "s = s\<lparr>eflags := eflags s\<rparr>" by simp
  then show ?thesis unfolding only_flags_def by blast
qed

lemma only_flags_ops [simp]:
  "only_flags s (sti s)" "only_flags s (cli s)" "only_flags s (snd (intr_disable s))"
  "only_flags s (snd (intr_enable s))" "only_flags s (snd (intr_set_status s st))"
proof -
  show 1: "only_flags s (sti s)" "only_flags s (cli s)" by (auto simp: only_flags_def sti_def cli_def)
  show 2: "only_flags s (snd (intr_disable s))" "only_flags s (snd (intr_enable s))"
    using 1 by (simp_all add: intr_disable_def intr_enable_def)
  show "only_flags s (snd (intr_set_status s st))" using 2 by (simp add: intr_set_status_def)
qed

lemma only_flags_fields:
  assumes "only_flags s s'"
  shows "tasks s' = tasks s" "running_thread s' = running_thread s" "thread_ready_list s' = thread_ready_list s"
    "thread_all_list s' = thread_all_list s" "semas s' = semas s" "locks s' = locks s" "kstk s' = kstk s"
    "idle_thread s' = idle_thread s" "status_of s' t = status_of s t" "tick_count s' = tick_count s"
  using assms by (auto simp: only_flags_def status_of_def)

lemmas flag_simps [simp] =
  only_flags_fields [OF only_flags_ops(1)] only_flags_fields [OF only_flags_ops(2)]
  only_flags_fields [OF only_flags_ops(3)] only_flags_fields [OF only_flags_ops(4)]
  only_flags_fields [OF only_flags_ops(5)]

lemma only_flags_same_queues: "only_flags s s' \<Longrightarrow> same_queues s s'"
  by (simp add: same_queues_def only_flags_fields)

section \<open>Waking up\<close>

lemma thread_unblock_eq:
  assumes "blocked_status (status_of s p)" and "p \<notin> set (thread_ready_list s)"
  shows "thread_unblock p s =
    Inr (set_task_status p TASK_READY (s\<lparr>thread_ready_list := p # thread_ready_list s\<rparr>))"
proof -
  let ?g = "\<lambda>s. set_task_status p TASK_READY (s\<lparr>thread_ready_list := p # thread_ready_list s\<rparr>)"
  have "status_of s p \<noteq> TASK_READY" using assms(1) by (auto simp: blocked_status_def)
  then have "thread_unblock p s =
      Inr (snd (intr_set_status (?g (snd (intr_disable s))) (fst (intr_disable s))))"
    using assms by (simp add: thread_unblock_def case_prod_beta)
  also have "snd (intr_set_status (?g (snd (intr_disable s))) (fst (intr_disable s))) = ?g s"
    by (rule bracket_commute) (simp_all add: set_task_status_def upd_task_def)
  finally show ?thesis .
qed

lemma unblock_queues_ok:
  assumes "queues_ok s" "blocked_status (status_of s p)" "\<not> in_waiters s p" "p \<in> set (thread_all_list s)"
  shows "p \<notin> set (thread_ready_list s)"
    and "queues_ok (set_task_status p TASK_READY (s\<lparr>thread_ready_list := p # thread_ready_list s\<rparr>))"
proof -
  show np: "p \<notin> set (thread_ready_list s)"
    using assms by (auto simp: queue_defs blocked_status_def)
  have "status_of (s\<lparr>thread_ready_list := x\<rparr>) t = status_of s t" for x t by (simp add: status_of_def)
  then show "queues_ok (set_task_status p TASK_READY (s\<lparr>thread_ready_list := p # thread_ready_list s\<rparr>))"
    using assms np by (auto simp: queue_defs in_waiters_def blocked_status_def)
qed

section \<open>Scheduling\<close>

text \<open>The ready queue once \<open>schedule\<close> has put the running thread back and made sure it is not empty.\<close>

definition candidates :: "'a kern_scheme \<Rightarrow> u32 list" where
  "candidates s =
     (let q = thread_ready_list s @ (if status_of s (running_thread s) = TASK_RUNNING then [running_thread s] else [])
      in if q = [] then [idle_thread s] else q)"

text \<open>What a switch leaves alone.\<close>

definition switch_frame :: "'a kern_scheme \<Rightarrow> 'a kern_scheme \<Rightarrow> bool" where
  "switch_frame s s' \<longleftrightarrow> thread_all_list s' = thread_all_list s \<and> semas s' = semas s \<and> locks s' = locks s \<and>
     kstk s' = kstk s \<and> idle_thread s' = idle_thread s \<and> eflags s' = eflags s \<and>
     (\<forall>t. pid (tasks s' t) = pid (tasks s t) \<and> priority (tasks s' t) = priority (tasks s t) \<and>
          stack_magic (tasks s' t) = stack_magic (tasks s t))"

definition put_back :: "'a kern_scheme \<Rightarrow> 'a kern_scheme" where
  "put_back s =
     (let cur = running_thread s in
      if status_of s cur = TASK_RUNNING then
        set_task_status cur TASK_READY (upd_task cur (\<lambda>p. p\<lparr>ticks := priority p\<rparr>)
          (s\<lparr>thread_ready_list := thread_ready_list s @ [cur]\<rparr>))
      else s)"

definition wake_idle :: "'a kern_scheme \<Rightarrow> 'a kern_scheme" where
  "wake_idle s =
     (if thread_ready_list s = [] then
        set_task_status (idle_thread s) TASK_READY (s\<lparr>thread_ready_list := [idle_thread s]\<rparr>)
      else s)"

definition dispatch :: "'a kern_scheme \<Rightarrow> 'a kern_scheme" where
  "dispatch s =
     (let nxt = hd (thread_ready_list s);
          s = set_task_status nxt TASK_RUNNING (s\<lparr>thread_ready_list := tl (thread_ready_list s)\<rparr>);
          s = page_dir_activate nxt s;
          s = (if pgdir (tasks s nxt) \<noteq> 0 then s\<lparr>tss_esp0 := nxt + 4096\<rparr> else s)
      in s\<lparr>running_thread := nxt\<rparr>)"

lemma status_of_ready_upd [simp]: "status_of (s\<lparr>thread_ready_list := x\<rparr>) t = status_of s t"
  by (simp add: status_of_def)

lemma put_back_ok:
  assumes "queues_ok s"
  shows "status_of s (running_thread s) = TASK_RUNNING \<Longrightarrow> running_thread s \<notin> set (thread_ready_list s)"
    and "queues_ok (put_back s)"
    and "status_of (put_back s) (running_thread s) \<noteq> TASK_RUNNING"
    and "thread_ready_list (put_back s) =
      thread_ready_list s @ (if status_of s (running_thread s) = TASK_RUNNING then [running_thread s] else [])"
    and "switch_frame s (put_back s)" and "running_thread (put_back s) = running_thread s"
proof -
  have st: "status_of (upd_task t (\<lambda>p. p\<lparr>ticks := priority p\<rparr>) u) v = status_of u v" for t v and u :: "'a kern_scheme"
    by (simp add: status_of_def)
  show a: "running_thread s \<notin> set (thread_ready_list s)" if "status_of s (running_thread s) = TASK_RUNNING"
    using assms that by (auto simp: queue_defs)
  show "queues_ok (put_back s)"
  proof (cases "status_of s (running_thread s) = TASK_RUNNING")
    case True
    let ?s = "put_back s" and ?cur = "running_thread s"
    have f: "thread_ready_list ?s = thread_ready_list s @ [?cur]" "thread_all_list ?s = thread_all_list s"
      "semas ?s = semas s" "running_thread ?s = ?cur" "idle_thread ?s = idle_thread s"
      "\<And>t. status_of ?s t = (if t = ?cur then TASK_READY else status_of s t)"
      using True by (simp_all add: put_back_def Let_def st)
    have "threads_ok ?s" using assms a [OF True] by (auto simp: queues_ok_def threads_ok_def f)
    moreover have "waiting_ok ?s" using assms True by (auto simp: queues_ok_def waiting_ok_def f)
    moreover have "status_ok ?s" using assms by (auto simp: queues_ok_def status_ok_def f)
    moreover have "idle_ok ?s" using assms by (simp add: queues_ok_def idle_ok_def f in_waiters_def)
    ultimately show ?thesis by (simp add: queues_ok_def)
  qed (use assms in \<open>simp add: put_back_def\<close>)
  show "status_of (put_back s) (running_thread s) \<noteq> TASK_RUNNING"
    by (simp add: put_back_def Let_def)
  show "thread_ready_list (put_back s) =
      thread_ready_list s @ (if status_of s (running_thread s) = TASK_RUNNING then [running_thread s] else [])"
    by (simp add: put_back_def Let_def)
  show "switch_frame s (put_back s)" "running_thread (put_back s) = running_thread s"
    by (simp_all add: put_back_def Let_def switch_frame_def set_task_status_def)
qed

lemma wake_idle_ok:
  assumes "queues_ok s" and "status_of s (running_thread s) \<noteq> TASK_RUNNING"
  shows "thread_ready_list s = [] \<Longrightarrow> thread_unblock (idle_thread s) s = Inr (wake_idle s)"
    and "queues_ok (wake_idle s)" and "thread_ready_list (wake_idle s) \<noteq> []"
    and "thread_ready_list (wake_idle s) = (if thread_ready_list s = [] then [idle_thread s] else thread_ready_list s)"
    and "switch_frame s (wake_idle s)" and "running_thread (wake_idle s) = running_thread s"
    and "status_of (wake_idle s) (running_thread s) \<noteq> TASK_RUNNING"
proof -
  have idle: "blocked_status (status_of s (idle_thread s))" "\<not> in_waiters s (idle_thread s)"
    "idle_thread s \<in> set (thread_all_list s)" if "thread_ready_list s = []"
    using assms that by (auto simp: queue_defs)
  show "thread_unblock (idle_thread s) s = Inr (wake_idle s)" if "thread_ready_list s = []"
    using thread_unblock_eq [OF idle(1)] that by (simp add: wake_idle_def)
  show "queues_ok (wake_idle s)"
    using unblock_queues_ok(2) [OF assms(1) idle] assms(1) by (cases "thread_ready_list s") (simp_all add: wake_idle_def)
  show "thread_ready_list (wake_idle s) \<noteq> []"
    "thread_ready_list (wake_idle s) = (if thread_ready_list s = [] then [idle_thread s] else thread_ready_list s)"
    by (simp_all add: wake_idle_def)
  show "switch_frame s (wake_idle s)" "running_thread (wake_idle s) = running_thread s"
    by (simp_all add: wake_idle_def switch_frame_def set_task_status_def)
  show "status_of (wake_idle s) (running_thread s) \<noteq> TASK_RUNNING"
    using assms(2) by (simp add: wake_idle_def)
qed

lemma dispatch_fields:
  "thread_ready_list (dispatch s) = tl (thread_ready_list s)" "thread_all_list (dispatch s) = thread_all_list s"
  "running_thread (dispatch s) = hd (thread_ready_list s)" "idle_thread (dispatch s) = idle_thread s"
  "semas (dispatch s) = semas s" "locks (dispatch s) = locks s" "kstk (dispatch s) = kstk s"
  "eflags (dispatch s) = eflags s"
  "tasks (dispatch s) = (tasks s)(hd (thread_ready_list s) := (tasks s (hd (thread_ready_list s)))\<lparr>status := TASK_RUNNING\<rparr>)"
  by (simp_all add: dispatch_def Let_def page_dir_activate_def set_task_status_def upd_task_def)

lemma dispatch_status:
  "status_of (dispatch s) t = (if t = hd (thread_ready_list s) then TASK_RUNNING else status_of s t)"
  by (simp add: status_of_def dispatch_fields)

lemma dispatch_ok:
  assumes "queues_ok s" and "thread_ready_list s \<noteq> []" and "status_of s (running_thread s) \<noteq> TASK_RUNNING"
  shows "sched_ok (dispatch s)" and "hd (thread_ready_list s) \<noteq> 0"
proof -
  obtain t q where q: "thread_ready_list s = t # q" using assms(2) by (cases "thread_ready_list s") auto
  have t: "t \<in> set (thread_all_list s)" "status_of s t = TASK_READY" "t \<notin> set q"
    using assms(1) q by (auto simp: queue_defs)
  show "hd (thread_ready_list s) \<noteq> 0" using t q assms(1) by (auto simp: queue_defs)
  have w: "\<not> in_waiters s t" using assms(1) t(2) by (auto simp: queue_defs in_waiters_def)
  have "threads_ok (dispatch s)" using assms(1) q by (auto simp: queue_defs dispatch_fields)
  moreover have "waiting_ok (dispatch s)"
    using assms(1) w q by (auto simp: queue_defs dispatch_fields dispatch_status in_waiters_def)
  moreover have "status_ok (dispatch s)"
    using assms(1,3) q t by (auto simp: queue_defs dispatch_fields dispatch_status)
  moreover have "idle_ok (dispatch s)"
    using assms(1) by (auto simp: queue_defs dispatch_fields dispatch_status in_waiters_def)
  ultimately show "sched_ok (dispatch s)"
    by (simp add: sched_ok_def queues_ok_def dispatch_fields dispatch_status)
qed

lemma schedule_eq:
  assumes "queues_ok s" and "intr_get_status s = INTR_OFF"
  shows "schedule s = Inr (dispatch (wake_idle (put_back s)))"
proof -
  note p = put_back_ok [OF assms(1)]
  note w = wake_idle_ok [OF p(2), unfolded p(6), OF p(3)]
  have "(if status_of s (running_thread s) = TASK_RUNNING then
            bnd (ASSERT (running_thread s \<notin> set (thread_ready_list s))) (\<lambda>_.
            let s' = s\<lparr>thread_ready_list := thread_ready_list s @ [running_thread s]\<rparr>;
                s' = upd_task (running_thread s) (\<lambda>p. p\<lparr>ticks := priority p\<rparr>) s'
            in Inr (set_task_status (running_thread s) TASK_READY s'))
          else Inr s) = Inr (put_back s)"
    using p(1) by (simp add: put_back_def Let_def)
  moreover have "(if thread_ready_list (put_back s) = [] then thread_unblock (idle_thread (put_back s)) (put_back s)
      else Inr (put_back s)) = Inr (wake_idle (put_back s))"
    using w(1) by (auto simp: wake_idle_def)
  moreover have "hd (thread_ready_list (wake_idle (put_back s))) \<noteq> 0"
    by (rule dispatch_ok(2) [OF w(2,3)]) (use w(6,7) p(6) in simp)
  ultimately show ?thesis
    using w(3) assms(2) by (simp add: schedule_def Let_def process_activate_def dispatch_def)
qed

lemma schedule_ok:
  assumes "queues_ok s" and "intr_get_status s = INTR_OFF"
  shows "\<exists>s'. schedule s = Inr s' \<and> sched_ok s' \<and> switch_frame s s' \<and>
    running_thread s' = hd (candidates s) \<and> thread_ready_list s' = tl (candidates s)"
proof -
  note p = put_back_ok [OF assms(1)]
  note w = wake_idle_ok [OF p(2), unfolded p(6), OF p(3)]
  let ?s' = "dispatch (wake_idle (put_back s))"
  have "idle_thread (put_back s) = idle_thread s" using p(5) by (simp add: switch_frame_def)
  then have c: "thread_ready_list (wake_idle (put_back s)) = candidates s"
    by (simp add: w(4) p(4) candidates_def Let_def)
  have "sched_ok ?s'" by (rule dispatch_ok(1) [OF w(2,3)]) (use w(6,7) p(6) in simp)
  moreover have "switch_frame s ?s'" using p(5) w(5) by (simp add: switch_frame_def dispatch_fields)
  ultimately show ?thesis using schedule_eq [OF assms] by (simp add: dispatch_fields c)
qed

section \<open>Blocking, yielding, semaphores\<close>

text \<open>The fields that only locks and frames care about.\<close>

definition rest_same :: "'a kern_scheme \<Rightarrow> 'a kern_scheme \<Rightarrow> bool" where
  "rest_same s s' \<longleftrightarrow> thread_all_list s' = thread_all_list s \<and> locks s' = locks s \<and>
     idle_thread s' = idle_thread s \<and> (\<forall>t. stack_magic (tasks s' t) = stack_magic (tasks s t))"

lemma switch_rest: "switch_frame s s' \<Longrightarrow> rest_same s s'"
  by (simp add: switch_frame_def rest_same_def)

lemma thread_block_ok:
  assumes "blocked_status stat" and "queues_ok (set_task_status (running_thread s) stat s)"
  shows "\<exists>s'. thread_block stat s = Inr s' \<and> sched_ok s' \<and> rest_same s s' \<and> semas s' = semas s \<and>
    kstk s' = (kstk s)(running_thread s := Set_status (intr_get_status s) # kstk s (running_thread s)) \<and>
    running_thread s' = hd (candidates (set_task_status (running_thread s) stat s)) \<and>
    thread_ready_list s' = tl (candidates (set_task_status (running_thread s) stat s))"
proof -
  let ?s1 = "push_frame (Set_status (fst (intr_disable s)))
      (set_task_status (running_thread s) stat (snd (intr_disable s)))"
  have same: "same_queues (set_task_status (running_thread s) stat s) ?s1" by (simp add: same_queues_def)
  then have q: "queues_ok ?s1" using queues_ok_same assms(2) by blast
  have off: "intr_get_status ?s1 = INTR_OFF"
    using intr_disable_off [of s] by (simp add: intr_get_status_def)
  obtain s' where s': "schedule ?s1 = Inr s'" "sched_ok s'" "switch_frame ?s1 s'"
    "running_thread s' = hd (candidates ?s1)" "thread_ready_list s' = tl (candidates ?s1)"
    using schedule_ok [OF q off] by blast
  have "candidates ?s1 = candidates (set_task_status (running_thread s) stat s)"
    by (simp add: candidates_def)
  moreover have "thread_block stat s = schedule ?s1"
    using assms(1) by (simp add: thread_block_def case_prod_beta Let_def)
  moreover have "rest_same s s'" "semas s' = semas s"
    "kstk s' = (kstk s)(running_thread s := Set_status (intr_get_status s) # kstk s (running_thread s))"
    using s'(3) by (auto simp: switch_frame_def rest_same_def set_task_status_def upd_task_def)
  ultimately show ?thesis using s' by auto
qed

text \<open>The running thread gives up its state.\<close>

lemma status_ok_block:
  assumes "status_ok s" and "blocked_status stat" and "running_thread s \<notin> set (thread_ready_list s)"
    and "thread_all_list s' = thread_all_list s" "thread_ready_list s' = thread_ready_list s"
    and "running_thread s' = running_thread s"
    and "\<And>t. status_of s' t = (if t = running_thread s then stat else status_of s t)"
  shows "status_ok s'"
  unfolding status_ok_def
proof (intro ballI)
  fix t assume t: "t \<in> set (thread_all_list s')"
  have "stat \<noteq> TASK_READY" "stat \<noteq> TASK_RUNNING" using assms(2) by (auto simp: blocked_status_def)
  moreover have "(status_of s t = TASK_READY) = (t \<in> set (thread_ready_list s)) \<and>
      (status_of s t = TASK_RUNNING \<longrightarrow> t = running_thread s)"
    using assms(1) t by (simp add: status_ok_def assms(4))
  ultimately show "(status_of s' t = TASK_READY) = (t \<in> set (thread_ready_list s')) \<and>
      (status_of s' t = TASK_RUNNING \<longrightarrow> t = running_thread s')"
    using assms(3) by (cases "t = running_thread s") (simp_all add: assms(4-7))
qed

lemma running_not_queued:
  assumes "sched_ok s"
  shows "running_thread s \<notin> set (thread_ready_list s)" "\<not> in_waiters s (running_thread s)"
  using assms by (auto simp: sched_ok_def queue_defs in_waiters_def)

lemma block_self_ok:
  assumes "sched_ok s" and "blocked_status stat"
  shows "queues_ok (set_task_status (running_thread s) stat s)"
proof -
  have q: "threads_ok s" "waiting_ok s" "status_ok s" "idle_ok s"
    using assms(1) by (simp_all add: sched_ok_def queues_ok_def)
  have "status_ok (set_task_status (running_thread s) stat s)"
    by (rule status_ok_block [OF q(3) assms(2)]) (simp_all add: running_not_queued [OF assms(1)])
  moreover have "waiting_ok (set_task_status (running_thread s) stat s)"
    using q(2) running_not_queued(2) [OF assms(1)] by (simp add: waiting_ok_def in_waiters_def)
  ultimately show ?thesis
    using q(1,4) assms(2) by (simp add: queues_ok_def threads_ok_def idle_ok_def in_waiters_def)
qed

lemma thread_yield_ok:
  assumes "sched_ok s"
  shows "\<exists>s'. thread_yield s = Inr s' \<and> sched_ok s' \<and> rest_same s s' \<and> semas s' = semas s \<and>
    kstk s' = (kstk s)(running_thread s := Set_status (intr_get_status s) # kstk s (running_thread s)) \<and>
    running_thread s' = hd (thread_ready_list s @ [running_thread s]) \<and>
    thread_ready_list s' = tl (thread_ready_list s @ [running_thread s])"
proof -
  let ?cur = "running_thread s"
  let ?s0 = "set_task_status ?cur TASK_READY (s\<lparr>thread_ready_list := thread_ready_list s @ [?cur]\<rparr>)"
  let ?s1 = "push_frame (Set_status (fst (intr_disable s)))
      (set_task_status ?cur TASK_READY ((snd (intr_disable s))\<lparr>thread_ready_list := thread_ready_list s @ [?cur]\<rparr>))"
  have nr: "?cur \<notin> set (thread_ready_list s)" using assms by (auto simp: sched_ok_def queue_defs)
  have f: "thread_ready_list ?s0 = thread_ready_list s @ [?cur]" "thread_all_list ?s0 = thread_all_list s"
      "semas ?s0 = semas s" "running_thread ?s0 = ?cur" "idle_thread ?s0 = idle_thread s"
      "\<And>t. status_of ?s0 t = (if t = ?cur then TASK_READY else status_of s t)"
    by simp_all
  have run: "status_of s ?cur = TASK_RUNNING" using assms by (simp add: sched_ok_def)
  have qs: "queues_ok s" using assms by (simp add: sched_ok_def)
  have "threads_ok ?s0" using qs nr by (auto simp: queues_ok_def threads_ok_def f)
  moreover have "waiting_ok ?s0" using qs run by (auto simp: queues_ok_def waiting_ok_def f)
  moreover have "status_ok ?s0" using qs by (auto simp: queues_ok_def status_ok_def f)
  moreover have "idle_ok ?s0" using qs by (simp add: queues_ok_def idle_ok_def f in_waiters_def)
  ultimately have q0: "queues_ok ?s0" by (simp add: queues_ok_def)
  have same: "same_queues ?s0 ?s1" by (simp add: same_queues_def)
  then have q: "queues_ok ?s1" using queues_ok_same q0 by blast
  have off: "intr_get_status ?s1 = INTR_OFF"
    using intr_disable_off [of s] by (simp add: intr_get_status_def)
  obtain s' where s': "schedule ?s1 = Inr s'" "sched_ok s'" "switch_frame ?s1 s'"
    "running_thread s' = hd (candidates ?s1)" "thread_ready_list s' = tl (candidates ?s1)"
    using schedule_ok [OF q off] by blast
  have "candidates ?s1 = thread_ready_list s @ [?cur]" by (simp add: candidates_def)
  moreover have "thread_yield s = schedule ?s1"
    using nr by (simp add: thread_yield_def case_prod_beta Let_def)
  moreover have "rest_same s s'" "semas s' = semas s"
    "kstk s' = (kstk s)(running_thread s := Set_status (intr_get_status s) # kstk s (running_thread s))"
    using s'(3) by (auto simp: switch_frame_def rest_same_def set_task_status_def upd_task_def)
  ultimately show ?thesis using s' by auto
qed

text \<open>The loop of \<open>sema_down\<close>, for a thread other than idle: it waits where the value is 0.\<close>

lemma down_loop_wait:
  assumes "sched_ok s" and "running_thread s \<noteq> idle_thread s" and "svalue (semas s a) = 0"
  shows "\<exists>s'. down_loop a old s = Inr s' \<and> sched_ok s' \<and> rest_same s s' \<and>
    semas s' = (semas s)(a := (semas s a)\<lparr>waiters := waiters (semas s a) @ [running_thread s]\<rparr>) \<and>
    kstk s' = (kstk s)(running_thread s :=
      Set_status (intr_get_status s) # Down_loop a old # kstk s (running_thread s))"
proof -
  let ?cur = "running_thread s"
  let ?s1 = "push_frame (Down_loop a old) (upd_sema a (\<lambda>x. x\<lparr>waiters := waiters x @ [?cur]\<rparr>) s)"
  let ?s2 = "set_task_status ?cur TASK_BLOCKED ?s1"
  have qs: "queues_ok s" and run: "status_of s ?cur = TASK_RUNNING" using assms(1) by (auto simp: sched_ok_def)
  have nw: "\<not> in_waiters s ?cur" using qs run by (auto simp: queues_ok_def waiting_ok_def in_waiters_def)
  have f: "thread_ready_list ?s2 = thread_ready_list s" "thread_all_list ?s2 = thread_all_list s"
      "running_thread ?s2 = ?cur" "idle_thread ?s2 = idle_thread s"
      "\<And>t. status_of ?s2 t = (if t = ?cur then TASK_BLOCKED else status_of s t)"
      "\<And>b. waiters (semas ?s2 b) = (if b = a then waiters (semas s a) @ [?cur] else waiters (semas s b))"
    by simp_all
  have "threads_ok ?s2" using qs by (auto simp: queues_ok_def threads_ok_def f)
  moreover have "waiting_ok ?s2"
    unfolding waiting_ok_def f
  proof (intro conjI allI impI ballI)
    show "distinct (if b = a then waiters (semas s a) @ [?cur] else waiters (semas s b))" for b
      using qs nw by (auto simp: queues_ok_def waiting_ok_def in_waiters_def)
    fix b t assume t: "t \<in> set (if b = a then waiters (semas s a) @ [?cur] else waiters (semas s b))"
    show "t \<in> set (thread_all_list s)" "(if t = ?cur then TASK_BLOCKED else status_of s t) = TASK_BLOCKED"
      using qs t by (auto simp: queues_ok_def waiting_ok_def threads_ok_def split: if_splits)
  next
    fix b c :: u32 assume "b \<noteq> c"
    then have d: "set (waiters (semas s b)) \<inter> set (waiters (semas s c)) = {}"
      using qs by (auto simp: queues_ok_def waiting_ok_def)
    show "set (if b = a then waiters (semas s a) @ [?cur] else waiters (semas s b)) \<inter>
       set (if c = a then waiters (semas s a) @ [?cur] else waiters (semas s c)) = {}"
      using d \<open>b \<noteq> c\<close> nw by (auto simp: in_waiters_def)
  qed
  moreover have "status_ok ?s2"
  proof (rule status_ok_block [of s TASK_BLOCKED])
    show "status_ok s" "blocked_status TASK_BLOCKED" "?cur \<notin> set (thread_ready_list s)"
      using qs running_not_queued [OF assms(1)] by (simp_all add: queues_ok_def blocked_status_def)
  qed (simp_all only: f)
  moreover have "idle_ok ?s2" using qs assms(2) by (simp add: queues_ok_def idle_ok_def f in_waiters_def)
  ultimately have "queues_ok ?s2" by (simp add: queues_ok_def)
  then have q: "queues_ok (set_task_status (running_thread ?s1) TASK_BLOCKED ?s1)" by simp
  obtain s' where s': "thread_block TASK_BLOCKED ?s1 = Inr s'" "sched_ok s'" "rest_same ?s1 s'" "semas s' = semas ?s1"
    "kstk s' = (kstk ?s1)(running_thread ?s1 := Set_status (intr_get_status ?s1) # kstk ?s1 (running_thread ?s1))"
    using thread_block_ok [OF _ q] by (auto simp: blocked_status_def)
  have "?cur \<notin> set (waiters (semas s a))" using nw by (auto simp: in_waiters_def)
  then have "down_loop a old s = Inr s'"
    using s'(1) assms(3) by (simp add: down_loop_def Let_def push_frame_def upd_sema_def)
  moreover have "intr_get_status ?s1 = intr_get_status s" by (simp add: intr_get_status_def)
  ultimately show ?thesis
    using s' by (auto simp: rest_same_def intro!: exI [of _ s'])
qed

lemma down_loop_take:
  assumes "sched_ok s" and "svalue (semas s a) = 1"
  shows "\<exists>s'. down_loop a old s = Inr s' \<and> sched_ok s' \<and> rest_same s s' \<and>
    semas s' = (semas s)(a := (semas s a)\<lparr>svalue := 0\<rparr>) \<and> kstk s' = kstk s \<and> running_thread s' = running_thread s"
proof -
  let ?s1 = "upd_sema a (\<lambda>x. x\<lparr>svalue := svalue x - 1\<rparr>) s"
  let ?s2 = "snd (intr_set_status ?s1 old)"
  have "same_queues s ?s2" by (simp add: same_queues_def)
  then have "sched_ok ?s2" using sched_ok_same assms(1) by blast
  moreover have "down_loop a old s = Inr ?s2" using assms(2) by (simp add: down_loop_def Let_def)
  moreover have "rest_same s ?s2" by (simp add: rest_same_def)
  moreover have "semas ?s2 = (semas s)(a := (semas s a)\<lparr>svalue := 0\<rparr>)" using assms(2) by simp
  ultimately show ?thesis by auto
qed

lemma sema_up_ok:
  assumes "sched_ok s" and "svalue (semas s a) = 0"
  shows "\<exists>s'. sema_up a s = Inr s' \<and> sched_ok s' \<and> rest_same s s' \<and> kstk s' = kstk s \<and>
    running_thread s' = running_thread s \<and>
    semas s' = (semas s)(a := \<lparr>svalue = 1, waiters = tl (waiters (semas s a))\<rparr>) \<and>
    thread_ready_list s' = (if waiters (semas s a) = [] then thread_ready_list s
      else hd (waiters (semas s a)) # thread_ready_list s)"
proof -
  let ?d = "snd (intr_disable s)"
  have qs: "queues_ok s" and run: "status_of s (running_thread s) = TASK_RUNNING"
    using assms(1) by (auto simp: sched_ok_def)
  define s1 where "s1 = (if waiters (semas s a) = [] then ?d
    else let t = hd (waiters (semas s a)); u = upd_sema a (\<lambda>x. x\<lparr>waiters := tl (waiters x)\<rparr>) ?d
         in set_task_status t TASK_READY (u\<lparr>thread_ready_list := t # thread_ready_list u\<rparr>))"
  have s1: "(if waiters (semas ?d a) \<noteq> [] then
             let thread_blocked = hd (waiters (semas ?d a));
                 s' = upd_sema a (\<lambda>x. x\<lparr>waiters := tl (waiters x)\<rparr>) ?d
             in thread_unblock thread_blocked s'
           else Inr ?d) = Inr s1 \<and> queues_ok s1 \<and> rest_same s s1 \<and> kstk s1 = kstk s \<and>
     running_thread s1 = running_thread s \<and> status_of s1 (running_thread s) = TASK_RUNNING \<and>
     semas s1 = (semas s)(a := (semas s a)\<lparr>waiters := tl (waiters (semas s a))\<rparr>) \<and>
     thread_ready_list s1 = (if waiters (semas s a) = [] then thread_ready_list s
      else hd (waiters (semas s a)) # thread_ready_list s)"
  proof (cases "waiters (semas s a)")
    case Nil
    then have "semas s = (semas s)(a := (semas s a)\<lparr>waiters := []\<rparr>)"
      by (metis fun_upd_triv semaphore.surjective semaphore.update_convs(2) old.unit.exhaust)
    moreover have "same_queues s ?d" by (simp add: same_queues_def)
    ultimately show ?thesis using Nil qs run queues_ok_same [of s ?d]
      by (simp add: s1_def rest_same_def)
  next
    case (Cons t w)
    let ?u = "upd_sema a (\<lambda>x. x\<lparr>waiters := tl (waiters x)\<rparr>) ?d"
    have wa: "distinct (t # w)" "status_of s t = TASK_BLOCKED" "t \<in> set (thread_all_list s)"
      using qs Cons by (metis queues_ok_def waiting_ok_def list.set_intros(1))+
    have other: "t \<notin> set (waiters (semas s b))" if "b \<noteq> a" for b
      using qs Cons that by (fastforce simp: queues_ok_def waiting_ok_def)
    have f: "\<And>b. waiters (semas ?u b) = (if b = a then w else waiters (semas s b))"
      using Cons by simp
    have sub: "set (waiters (semas ?u b)) \<subseteq> set (waiters (semas s b))" for b
      using Cons by (auto simp: f)
    have "threads_ok ?u" "status_ok ?u" using qs by (auto simp: queues_ok_def threads_ok_def status_ok_def)
    moreover have "waiting_ok ?u"
      unfolding waiting_ok_def
    proof (intro conjI allI impI ballI)
      show "distinct (waiters (semas ?u b))" for b
        unfolding f using qs wa(1) by (simp add: queues_ok_def waiting_ok_def)
      fix b x assume "x \<in> set (waiters (semas ?u b))"
      then have "x \<in> set (waiters (semas s b))" using sub by blast
      then show "x \<in> set (thread_all_list ?u)" "status_of ?u x = TASK_BLOCKED"
        using qs by (auto simp: queues_ok_def waiting_ok_def)
    next
      fix b c :: u32 assume "b \<noteq> c"
      then have "set (waiters (semas s b)) \<inter> set (waiters (semas s c)) = {}"
        using qs by (auto simp: queues_ok_def waiting_ok_def)
      then show "set (waiters (semas ?u b)) \<inter> set (waiters (semas ?u c)) = {}" using sub by blast
    qed
    moreover have "\<not> in_waiters ?u (idle_thread s)"
      using qs sub by (meson in_waiters_def idle_ok_def queues_ok_def subsetD)
    then have "idle_ok ?u" using qs by (simp add: queues_ok_def idle_ok_def)
    ultimately have qu: "queues_ok ?u" by (simp add: queues_ok_def)
    have b: "blocked_status (status_of ?u t)" using wa(2) by (simp add: blocked_status_def)
    have nw: "\<not> in_waiters ?u t" using wa(1) other Cons by (auto simp: in_waiters_def split: if_splits)
    have mem: "t \<in> set (thread_all_list ?u)" using wa(3) by simp
    note up = unblock_queues_ok [OF qu b nw mem]
    have "thread_unblock t ?u = Inr s1"
      using thread_unblock_eq [OF b up(1)] Cons by (simp add: s1_def Let_def)
    moreover have "queues_ok s1" using up(2) Cons by (simp add: s1_def Let_def)
    moreover have "t \<noteq> running_thread s" using wa(2) run by auto
    ultimately show ?thesis using Cons run
      by (auto simp: s1_def rest_same_def Let_def)
  qed
  let ?s2 = "upd_sema a (\<lambda>x. x\<lparr>svalue := svalue x + 1\<rparr>) s1"
  let ?s3 = "snd (intr_set_status ?s2 (fst (intr_disable s)))"
  have v: "svalue (semas ?s2 a) = 1" using s1 assms(2) by simp
  have "sema_up a s = Inr ?s3"
    using s1 v assms(2) by (simp add: sema_up_def case_prod_beta Let_def)
  moreover have "same_queues s1 ?s3" by (simp add: same_queues_def)
  then have "sched_ok ?s3" using sched_ok_same s1 by (fastforce simp: sched_ok_def same_queues_def)
  moreover have "rest_same s ?s3" "semas ?s3 = (semas s)(a := \<lparr>svalue = 1, waiters = tl (waiters (semas s a))\<rparr>)"
    using s1 assms(2) by (auto simp: rest_same_def)
  ultimately show ?thesis using s1 by auto
qed

end
