(* ===== verification/Locks.thy ===== *)
theory Locks
  imports Threads
begin

text \<open>
  Any interleaving of threads that use locks. The processor runs the running thread: the next
  frame of its kernel stack, or a new call that the thread makes; between two such steps the
  timer interrupts where the interrupt flag is set. The invariant of this step relation gives
  mutual exclusion, the absence of failing assertions and of lost wake-ups.
\<close>

section \<open>The machine\<close>

fun run_frame :: "frame \<Rightarrow> 'a kern_scheme \<Rightarrow> 'a kern_scheme res" where
  "run_frame Start_thread s = Inr (snd (intr_enable s))"
| "run_frame (Set_status st) s = Inr (snd (intr_set_status s st))"
| "run_frame Iret s = Inr (sti s)"
| "run_frame (Down_loop a st) s = down_loop a st s"
| "run_frame (Sema_down a) s = sema_down a s"
| "run_frame (Sema_up a) s = sema_up a s"
| "run_frame (Lock_acquire l) s = lock_acquire l s"
| "run_frame (Lock_holder l) s = lock_acquire_holder l s"
| "run_frame (Lock_release l) s = lock_release l s"
| "run_frame (Thread_block st) s = thread_block st s"
| "run_frame Thread_yield s = thread_yield s"

text \<open>
  What the code of a thread may do: take any lock (the idle thread takes none, and no thread
  takes the same lock 2^32 times over), release a lock it holds, give up the processor, block
  itself, wake a thread that has blocked itself, or start a thread in a page that no thread has
  (\<open>thread_start\<close> as one step, at a moment when no other thread is inside \<open>allocate_pid\<close>).
\<close>

definition lock_free :: "'a kern_scheme \<Rightarrow> u32 \<Rightarrow> bool" where
  "lock_free s l \<longleftrightarrow> locks s l = \<lparr>holder = 0, holder_repeat_nr = 0\<rparr> \<and>
     semas s (sema_of l) = \<lparr>svalue = 1, waiters = []\<rparr>"

inductive kstep :: "kern \<Rightarrow> kern \<Rightarrow> bool" where
  frame: "kstk s (running_thread s) = f # fs \<Longrightarrow> run_frame f (pop_frame s) = Inr s' \<Longrightarrow> kstep s s'"
| timer: "intr_get_status s = INTR_ON \<Longrightarrow> timer_interrupt s = Inr s' \<Longrightarrow> kstep s s'"
| acquire: "kstk s (running_thread s) = [] \<Longrightarrow> running_thread s \<noteq> idle_thread s \<Longrightarrow>
    holder (locks s l) \<noteq> running_thread s \<or> holder_repeat_nr (locks s l) \<noteq> - 1 \<Longrightarrow>
    kstep s (push_frame (Lock_acquire l) s)"
| release: "kstk s (running_thread s) = [] \<Longrightarrow> running_thread s \<noteq> idle_thread s \<Longrightarrow> holder (locks s l) = running_thread s \<Longrightarrow>
    kstep s (push_frame (Lock_release l) s)"
| yield: "kstk s (running_thread s) = [] \<Longrightarrow> kstep s (push_frame Thread_yield s)"
| block: "kstk s (running_thread s) = [] \<Longrightarrow> blocked_status st \<Longrightarrow> kstep s (push_frame (Thread_block st) s)"
| unblock: "kstk s (running_thread s) = [] \<Longrightarrow> blocked_status (status_of s t) \<Longrightarrow> \<not> in_waiters s t \<Longrightarrow>
    t \<in> set (thread_all_list s) \<Longrightarrow> thread_unblock t s = Inr s' \<Longrightarrow> kstep s s'"
| enable: "kstk s (running_thread s) = [] \<Longrightarrow> kstep s (sti s)"
| create: "kstk s (running_thread s) = [] \<Longrightarrow> lock_free s (pid_lock s) \<Longrightarrow>
    page \<notin> set (thread_all_list s) \<Longrightarrow> page \<noteq> main_thread s \<Longrightarrow> kstk s page = [] \<Longrightarrow>
    thread_start kernel_thread page name prio function arg s = Inr (t, s') \<Longrightarrow> kstep s s'"

inductive_cases kstep_cases: "kstep s s'"

section \<open>The invariant of locks\<close>

fun inert :: "frame \<Rightarrow> bool" where
  "inert Start_thread = True"
| "inert (Set_status _) = True"
| "inert Iret = True"
| "inert (Thread_block _) = True"
| "inert Thread_yield = True"
| "inert _ = False"

text \<open>The first frame of a stack that matters to a lock, if any.\<close>

fun pend :: "frame list \<Rightarrow> frame option" where
  "pend [] = None"
| "pend (f # fs) = (if inert f then pend fs else Some f)"

fun shape :: "frame list \<Rightarrow> bool" where
  "shape [] = True"
| "shape (Sema_down a # fs) = (\<exists>l. a = sema_of l \<and> fs = [Lock_holder l])"
| "shape (Down_loop a st # fs) = (\<exists>l. a = sema_of l \<and> fs = [Lock_holder l])"
| "shape (Sema_up a # fs) = (fs = [] \<and> (\<exists>l. a = sema_of l))"
| "shape (Lock_holder l # fs) = (fs = [])"
| "shape (Lock_acquire l # fs) = (fs = [])"
| "shape (Lock_release l # fs) = (fs = [])"
| "shape (Thread_block st # fs) = (blocked_status st \<and> shape fs)"
| "shape (f # fs) = shape fs"

text \<open>A thread owns the unit of a semaphore between \<open>sema_down\<close> and the entry of its name as
  the holder, and between the removal of its name and \<open>sema_up\<close>.\<close>

definition owns :: "kern \<Rightarrow> u32 \<Rightarrow> u32 \<Rightarrow> bool" where
  "owns s t a \<longleftrightarrow> pend (kstk s t) = Some (Sema_up a) \<or>
     (\<exists>l. pend (kstk s t) = Some (Lock_holder l) \<and> a = sema_of l)"

definition holds :: "kern \<Rightarrow> u32 \<Rightarrow> u32 \<Rightarrow> bool" where
  "holds s t l \<longleftrightarrow> holder (locks s l) = t \<and> t \<noteq> 0 \<or> owns s t (sema_of l)"

definition lock_ok :: "kern \<Rightarrow> u32 \<Rightarrow> bool" where
  "lock_ok s l \<longleftrightarrow>
     (holder (locks s l) = 0 \<longleftrightarrow> holder_repeat_nr (locks s l) = 0) \<and>
     svalue (semas s (sema_of l)) \<in> {0, 1} \<and>
     (if holder (locks s l) \<noteq> 0 then svalue (semas s (sema_of l)) = 0 \<and> (\<forall>t. \<not> owns s t (sema_of l))
      else if svalue (semas s (sema_of l)) = 0 then \<exists>u. \<forall>t. owns s t (sema_of l) \<longleftrightarrow> t = u
      else \<forall>t. \<not> owns s t (sema_of l))"

definition stack_ok :: "kern \<Rightarrow> u32 \<Rightarrow> bool" where
  "stack_ok s t \<longleftrightarrow> shape (kstk s t) \<and>
     (\<forall>l. pend (kstk s t) = Some (Lock_release l) \<longrightarrow> holder (locks s l) = t) \<and>
     (\<forall>l. pend (kstk s t) = Some (Lock_acquire l) \<longrightarrow>
        holder (locks s l) \<noteq> t \<or> holder_repeat_nr (locks s l) \<noteq> - 1) \<and>
     (t = idle_thread s \<longrightarrow> pend (kstk s t) = None)"

text \<open>A waiting thread is in the loop of \<open>sema_down\<close>, and where a semaphore with waiters has its
  unit back, some thread that has been woken is on its way to take it.\<close>

definition looping :: "kern \<Rightarrow> u32 \<Rightarrow> u32 \<Rightarrow> bool" where
  "looping s t a \<longleftrightarrow> (\<exists>st. pend (kstk s t) = Some (Down_loop a st))"

definition wake_ok :: "kern \<Rightarrow> u32 \<Rightarrow> bool" where
  "wake_ok s a \<longleftrightarrow> (\<forall>t \<in> set (waiters (semas s a)). looping s t a) \<and>
     (svalue (semas s a) = 1 \<and> waiters (semas s a) \<noteq> [] \<longrightarrow>
        (\<exists>t. t \<notin> set (waiters (semas s a)) \<and> looping s t a))"

definition kernel_ok :: "kern \<Rightarrow> bool" where
  "kernel_ok s \<longleftrightarrow> sched_ok s \<and> (\<forall>l. lock_ok s l) \<and> (\<forall>a. wake_ok s a) \<and>
     (\<forall>t \<in> set (thread_all_list s). stack_ok s t \<and> stack_magic (tasks s t) = 0x19870916)"

lemma sema_of_inj [simp]: "sema_of l = sema_of k \<longleftrightarrow> l = k"
  by (simp add: sema_of_def)

lemma pop_frame_simps [simp]:
  "thread_ready_list (pop_frame s) = thread_ready_list s" "thread_all_list (pop_frame s) = thread_all_list s"
  "running_thread (pop_frame s) = running_thread s" "idle_thread (pop_frame s) = idle_thread s"
  "semas (pop_frame s) = semas s" "locks (pop_frame s) = locks s" "tasks (pop_frame s) = tasks s"
  "status_of (pop_frame s) u = status_of s u" "eflags (pop_frame s) = eflags s"
  "kstk (pop_frame s) = (kstk s)(running_thread s := tl (kstk s (running_thread s)))"
  by (simp_all add: pop_frame_def status_of_def)

lemma sched_ok_pop [simp]: "sched_ok (pop_frame s) = sched_ok s"
  by (rule sched_ok_same) (simp add: same_queues_def)

text \<open>A step that leaves locks, semaphores and the pending frames alone.\<close>

lemma kernel_ok_inert:
  assumes "kernel_ok s" and "sched_ok s'" and "rest_same s s'" and "semas s' = semas s"
    and "\<And>t. pend (kstk s' t) = pend (kstk s t)" and "\<And>t. t \<in> set (thread_all_list s) \<Longrightarrow> shape (kstk s' t)"
  shows "kernel_ok s'"
proof -
  have o: "owns s' t a = owns s t a" "looping s' t a = looping s t a" for t a
    by (simp_all add: owns_def looping_def assms(5))
  have l: "locks s' = locks s" "thread_all_list s' = thread_all_list s" "idle_thread s' = idle_thread s"
    "\<And>t. stack_magic (tasks s' t) = stack_magic (tasks s t)"
    using assms(3) by (simp_all add: rest_same_def)
  show ?thesis
    using assms(1,2,6) by (simp add: kernel_ok_def lock_ok_def stack_ok_def wake_ok_def o l assms(4,5))
qed

lemma shape_tl: "shape (f # fs) \<Longrightarrow> inert f \<Longrightarrow> shape fs"
  by (cases f) auto

lemma idle_inert: "stack_ok s (idle_thread s) \<Longrightarrow> kstk s (idle_thread s) = f # fs \<Longrightarrow> inert f"
  by (auto simp: stack_ok_def split: if_splits)

section \<open>Every step succeeds and keeps the invariant\<close>

lemma running_listed:
  assumes "kernel_ok s"
  shows "running_thread s \<in> set (thread_all_list s)" "0 \<notin> set (thread_all_list s)" "idle_thread s \<in> set (thread_all_list s)"
  using assms by (auto simp: kernel_ok_def sched_ok_def queues_ok_def threads_ok_def)

lemma run_frame_inert:
  assumes ok: "kernel_ok s" and top: "kstk s (running_thread s) = f # fs" and "inert f"
  shows "\<exists>s'. run_frame f (pop_frame s) = Inr s' \<and> kernel_ok s'"
proof -
  let ?cur = "running_thread s"
  let ?s = "pop_frame s"
  have sched: "sched_ok s" using ok by (simp add: kernel_ok_def)
  have cur: "?cur \<in> set (thread_all_list s)" by (rule running_listed(1) [OF ok])
  have sh: "t \<in> set (thread_all_list s) \<Longrightarrow> shape (kstk s t)" for t using ok by (simp add: kernel_ok_def stack_ok_def)
  have pend: "pend (((kstk s)(?cur := g # fs)) t) = pend (kstk s t)" if "inert g" for g t
    using top assms(3) that by simp
  have pend0: "pend (((kstk s)(?cur := fs)) t) = pend (kstk s t)" for t
    using top assms(3) by simp
  have shape0: "t \<in> set (thread_all_list s) \<Longrightarrow> shape (((kstk s)(?cur := fs)) t)" for t
    using sh [of t] sh [of ?cur] cur shape_tl [of f fs] top assms(3) by simp
  have flags: "kernel_ok s'" if "only_flags ?s s'" for s'
    using that top pend0 shape0 sched
    by (intro kernel_ok_inert [OF ok])
      (auto simp: rest_same_def only_flags_fields sched_ok_same [OF only_flags_same_queues [OF that]])
  have switched: "kernel_ok s'"
    if "sched_ok s'" "rest_same ?s s'" "semas s' = semas ?s"
      "kstk s' = (kstk ?s)(running_thread ?s := Set_status st # kstk ?s (running_thread ?s))" for s' st
  proof (rule kernel_ok_inert [OF ok that(1)])
    have k: "kstk s' = (kstk s)(?cur := Set_status st # fs)" using that(4) top by simp
    show "pend (kstk s' t) = pend (kstk s t)" for t unfolding k by (rule pend) simp
    show "shape (kstk s' t)" if "t \<in> set (thread_all_list s)" for t unfolding k using shape0 [OF that] by (cases "t = ?cur") simp_all
  qed (use that(2,3) in \<open>simp_all add: rest_same_def\<close>)
  show ?thesis
  proof (cases f)
    case (Thread_block st)
    have b: "blocked_status st" using sh [OF cur] top Thread_block by simp
    have "sched_ok ?s" using sched by simp
    from thread_block_ok [OF b block_self_ok [OF this b]] obtain s' where
      "thread_block st ?s = Inr s'" "sched_ok s'" "rest_same ?s s'" "semas s' = semas ?s"
      "kstk s' = (kstk ?s)(running_thread ?s := Set_status (intr_get_status ?s) # kstk ?s (running_thread ?s))"
      by blast
    then show ?thesis using switched Thread_block by auto
  next
    case Thread_yield
    have "sched_ok ?s" using sched by simp
    from thread_yield_ok [OF this] obtain s' where
      "thread_yield ?s = Inr s'" "sched_ok s'" "rest_same ?s s'" "semas s' = semas ?s"
      "kstk s' = (kstk ?s)(running_thread ?s := Set_status (intr_get_status ?s) # kstk ?s (running_thread ?s))"
      by blast
    then show ?thesis using switched Thread_yield by auto
  qed (use assms(3) flags in auto)
qed

text \<open>Two small facts about who is who on the stacks.\<close>

lemma owns_upd:
  "kstk s' = (kstk s)(t := fs) \<Longrightarrow> owns s' u a =
     (if u = t then pend fs = Some (Sema_up a) \<or> (\<exists>l. pend fs = Some (Lock_holder l) \<and> a = sema_of l)
      else owns s u a)"
  by (simp add: owns_def)

lemma looping_upd:
  "kstk s' = (kstk s)(t := fs) \<Longrightarrow> looping s' u a =
     (if u = t then (\<exists>st. pend fs = Some (Down_loop a st)) else looping s u a)"
  by (simp add: looping_def)

lemma stack_ok_upd:
  assumes ok: "stack_ok s u" and "u \<noteq> t" and k: "kstk s' = (kstk s)(t := fs)" and i: "idle_thread s' = idle_thread s"
    and l: "\<And>l. holder (locks s' l) = u \<longleftrightarrow> holder (locks s l) = u"
      "\<And>l. holder (locks s l) = u \<Longrightarrow> locks s' l = locks s l"
  shows "stack_ok s' u"
proof -
  have ku: "kstk s' u = kstk s u" using \<open>u \<noteq> t\<close> k by simp
  have "holder (locks s' k) \<noteq> u \<or> holder_repeat_nr (locks s' k) \<noteq> - 1"
    if "pend (kstk s u) = Some (Lock_acquire k)" for k
    using ok that l [of k] by (cases "holder (locks s k) = u") (auto simp: stack_ok_def)
  then show ?thesis using ok ku by (auto simp: stack_ok_def i l(1))
qed

lemma kernel_okI:
  assumes "kernel_ok s" "sched_ok s'" "rest_same s s' \<or> (thread_all_list s' = thread_all_list s \<and>
      (\<forall>t. stack_magic (tasks s' t) = stack_magic (tasks s t)))"
    and "\<And>k. lock_ok s' k" "\<And>t. t \<in> set (thread_all_list s) \<Longrightarrow> stack_ok s' t" "\<And>a. wake_ok s' a"
  shows "kernel_ok s'"
  using assms by (auto simp: kernel_ok_def rest_same_def)

text \<open>The running thread is not idle when a frame matters to a lock.\<close>

lemma not_idle:
  assumes "kernel_ok s" and "kstk s (running_thread s) = f # fs" and "\<not> inert f"
  shows "running_thread s \<noteq> idle_thread s"
  using assms idle_inert [of s f fs] running_listed(3) [OF assms(1)] by (auto simp: kernel_ok_def)

lemma running_not_waiting:
  assumes "kernel_ok s"
  shows "running_thread s \<notin> set (waiters (semas s a))"
  using running_not_queued(2) [of s] assms by (auto simp: kernel_ok_def in_waiters_def)

lemma running_nonzero: "kernel_ok s \<Longrightarrow> running_thread s \<noteq> 0"
  by (auto simp: kernel_ok_def sched_ok_def queues_ok_def threads_ok_def)

text \<open>Taking the unit, or queueing for it, at the head of the loop of \<open>sema_down\<close>. The state \<open>s\<close> is
  the one before the frame is popped.\<close>

lemma down_ok:
  assumes ok: "kernel_ok s" and top: "kstk s (running_thread s) = f # [Lock_holder l]"
    and f: "f = Sema_down (sema_of l) \<or> (\<exists>st. f = Down_loop (sema_of l) st)"
    and s1: "only_flags (pop_frame s) s1"
  shows "\<exists>s'. down_loop (sema_of l) old s1 = Inr s' \<and> kernel_ok s'"
proof -
  let ?cur = "running_thread s" and ?a = "sema_of l"
  have sched: "sched_ok s1"
    using ok sched_ok_same [OF only_flags_same_queues [OF s1]] by (simp add: kernel_ok_def)
  note f1 = only_flags_fields [OF s1, simplified]
  have k1: "kstk s1 = (kstk s)(?cur := [Lock_holder l])" using f1(7) top(1) by simp
  have lk: "lock_ok s k" for k using ok by (simp add: kernel_ok_def)
  have so: "t \<in> set (thread_all_list s) \<Longrightarrow> stack_ok s t" for t using ok by (simp add: kernel_ok_def)
  have wk: "wake_ok s b" for b using ok by (simp add: kernel_ok_def)
  have ni: "?cur \<noteq> idle_thread s" using not_idle [OF ok top(1)] f by auto
  have own_cur: "\<not> owns s ?cur b" for b using f top by (auto simp: owns_def)
  have nw: "?cur \<notin> set (waiters (semas s b))" for b by (rule running_not_waiting [OF ok])
  show ?thesis
  proof (cases "svalue (semas s ?a) = 0")
    case True
    obtain s' where s': "down_loop ?a old s1 = Inr s'" "sched_ok s'" "rest_same s1 s'"
      "semas s' = (semas s1)(?a := (semas s1 ?a)\<lparr>waiters := waiters (semas s1 ?a) @ [running_thread s1]\<rparr>)"
      "kstk s' = (kstk s1)(running_thread s1 :=
         Set_status (intr_get_status s1) # Down_loop ?a old # kstk s1 (running_thread s1))"
      using down_loop_wait [OF sched, of ?a old] ni True f1 by auto
    have k: "kstk s' = (kstk s)(?cur := [Set_status (intr_get_status s1), Down_loop ?a old, Lock_holder l])"
      using s'(5) k1 f1(2) by simp
    have e: "locks s' = locks s" "idle_thread s' = idle_thread s" "thread_all_list s' = thread_all_list s"
      "\<And>t. stack_magic (tasks s' t) = stack_magic (tasks s t)"
      "semas s' = (semas s)(?a := (semas s ?a)\<lparr>waiters := waiters (semas s ?a) @ [?cur]\<rparr>)"
      using s'(3,4) f1 by (simp_all add: rest_same_def)
    have own: "owns s' t b = owns s t b" for t b
      using own_cur by (simp add: owns_upd [OF k])
    have loop: "looping s' t b = (if t = ?cur then b = ?a else looping s t b)" for t b
      by (auto simp: looping_upd [OF k])
    have sv: "svalue (semas s' b) = svalue (semas s b)" for b by (simp add: e)
    have "lock_ok s' m" for m
      using lk [of m] unfolding lock_ok_def own e(1) sv .
    moreover have "stack_ok s' t" if t: "t \<in> set (thread_all_list s)" for t
    proof (cases "t = ?cur")
      case True
      then show ?thesis using ni by (simp add: stack_ok_def k e)
    next
      case False
      then show ?thesis by (rule stack_ok_upd [OF so [OF t] _ k e(2)]) (simp_all add: e)
    qed
    moreover have "wake_ok s' b" for b
    proof -
      have "looping s' t b" if "t \<in> set (waiters (semas s' b))" for t
        using that wk [of b] nw [of b] by (auto simp: wake_ok_def loop e split: if_splits)
      moreover have "\<exists>t. t \<notin> set (waiters (semas s' b)) \<and> looping s' t b"
        if v: "svalue (semas s' b) = 1" "waiters (semas s' b) \<noteq> []"
      proof -
        have b: "b \<noteq> ?a" using v True by (auto simp: e)
        then obtain t where "t \<notin> set (waiters (semas s b))" "looping s t b"
          using v wk [of b] by (auto simp: wake_ok_def e)
        moreover have "t \<noteq> ?cur" using \<open>looping s t b\<close> b f top by (auto simp: looping_def)
        ultimately show ?thesis using b by (auto simp: loop e)
      qed
      ultimately show ?thesis by (simp add: wake_ok_def)
    qed
    ultimately have "kernel_ok s'" using s'(2) e by (intro kernel_okI [OF ok]) auto
    then show ?thesis using s'(1) by blast
  next
    case False
    then have v1: "svalue (semas s ?a) = 1" using lk [of l] by (auto simp: lock_ok_def)
    obtain s' where s': "down_loop ?a old s1 = Inr s'" "sched_ok s'" "rest_same s1 s'"
      "semas s' = (semas s1)(?a := (semas s1 ?a)\<lparr>svalue := 0\<rparr>)" "kstk s' = kstk s1"
      using down_loop_take [OF sched, of ?a old] v1 f1 by auto
    have k: "kstk s' = (kstk s)(?cur := [Lock_holder l])" using s'(5) k1 by simp
    have e: "locks s' = locks s" "idle_thread s' = idle_thread s" "thread_all_list s' = thread_all_list s"
      "\<And>t. stack_magic (tasks s' t) = stack_magic (tasks s t)"
      "semas s' = (semas s)(?a := (semas s ?a)\<lparr>svalue := 0\<rparr>)"
      using s'(3,4) f1 by (simp_all add: rest_same_def)
    have own: "owns s' t b = (if t = ?cur then b = ?a else owns s t b)" for t b
      by (simp add: owns_upd [OF k])
    have loop: "looping s' t b = (if t = ?cur then False else looping s t b)" for t b
      by (simp add: looping_upd [OF k])
    have "lock_ok s' m" for m
    proof (cases "m = l")
      case True
      have "holder (locks s l) = 0" "\<forall>t. \<not> owns s t ?a" using lk [of l] v1 by (auto simp: lock_ok_def split: if_splits)
      then show ?thesis using True lk [of l] by (auto simp: lock_ok_def own e)
    next
      case False
      then have "owns s' t (sema_of m) = owns s t (sema_of m)" for t using own_cur by (simp add: own)
      then show ?thesis using lk [of m] False by (simp add: lock_ok_def e)
    qed
    moreover have "stack_ok s' t" if t: "t \<in> set (thread_all_list s)" for t
    proof (cases "t = ?cur")
      case True
      then show ?thesis using ni by (simp add: stack_ok_def k e)
    next
      case False
      then show ?thesis by (rule stack_ok_upd [OF so [OF t] _ k e(2)]) (simp_all add: e)
    qed
    moreover have "wake_ok s' b" for b
    proof -
      have "looping s' t b" if "t \<in> set (waiters (semas s' b))" for t
        using that wk [of b] nw [of b] by (auto simp: wake_ok_def loop e split: if_splits)
      moreover have "\<exists>t. t \<notin> set (waiters (semas s' b)) \<and> looping s' t b"
        if v: "svalue (semas s' b) = 1" "waiters (semas s' b) \<noteq> []"
      proof -
        have b: "b \<noteq> ?a" using v by (auto simp: e)
        then obtain t where "t \<notin> set (waiters (semas s b))" "looping s t b"
          using v wk [of b] by (auto simp: wake_ok_def e)
        moreover have "t \<noteq> ?cur" using \<open>looping s t b\<close> b f top by (auto simp: looping_def)
        ultimately show ?thesis using b by (auto simp: loop e)
      qed
      ultimately show ?thesis by (simp add: wake_ok_def)
    qed
    ultimately have "kernel_ok s'" using s'(2) e by (intro kernel_okI [OF ok]) auto
    then show ?thesis using s'(1) by blast
  qed
qed

lemma release_up_ok:
  assumes ok: "kernel_ok s" and top: "kstk s (running_thread s) = [Sema_up (sema_of l)]"
  shows "\<exists>s'. sema_up (sema_of l) (pop_frame s) = Inr s' \<and> kernel_ok s'"
proof -
  let ?cur = "running_thread s" and ?a = "sema_of l"
  have lk: "lock_ok s k" for k using ok by (simp add: kernel_ok_def)
  have so: "t \<in> set (thread_all_list s) \<Longrightarrow> stack_ok s t" for t using ok by (simp add: kernel_ok_def)
  have wk: "wake_ok s b" for b using ok by (simp add: kernel_ok_def)
  have sched: "sched_ok (pop_frame s)" using ok by (simp add: kernel_ok_def)
  have ni: "?cur \<noteq> idle_thread s" using not_idle [OF ok top] by simp
  have nw: "?cur \<notin> set (waiters (semas s b))" for b by (rule running_not_waiting [OF ok])
  have own_cur: "owns s ?cur b \<longleftrightarrow> b = ?a" for b using top by (auto simp: owns_def)
  have v: "holder (locks s l) = 0" "svalue (semas s ?a) = 0" "\<And>t. owns s t ?a \<Longrightarrow> t = ?cur"
    using lk [of l] own_cur [of ?a] by (auto simp: lock_ok_def split: if_splits)
  obtain s' where s': "sema_up ?a (pop_frame s) = Inr s'" "sched_ok s'" "rest_same (pop_frame s) s'"
    "kstk s' = (kstk s)(?cur := [])"
    "semas s' = (semas s)(?a := \<lparr>svalue = 1, waiters = tl (waiters (semas s ?a))\<rparr>)"
    using sema_up_ok [OF sched, of ?a] v(2) top by auto
  have e: "locks s' = locks s" "idle_thread s' = idle_thread s" "thread_all_list s' = thread_all_list s"
      "\<And>t. stack_magic (tasks s' t) = stack_magic (tasks s t)"
    using s'(3) by (simp_all add: rest_same_def)
  note k = s'(4)
  have own: "owns s' t b = (if t = ?cur then False else owns s t b)" for t b
    by (simp add: owns_upd [OF k])
  have loop: "looping s' t b = (if t = ?cur then False else looping s t b)" for t b
    by (simp add: looping_upd [OF k])
  have "lock_ok s' m" for m
  proof (cases "m = l")
    case True
    have "\<not> owns s' t ?a" for t using v(3) [of t] by (auto simp: own)
    then show ?thesis using True v(1) lk [of l] by (auto simp: lock_ok_def e s'(5) split: if_splits)
  next
    case False
    then have "owns s' t (sema_of m) = owns s t (sema_of m)" for t using own_cur [of "sema_of m"] by (simp add: own)
    then show ?thesis using lk [of m] False by (simp add: lock_ok_def e s'(5))
  qed
  moreover have "stack_ok s' t" if t: "t \<in> set (thread_all_list s)" for t
  proof (cases "t = ?cur")
    case True
    then show ?thesis using ni by (simp add: stack_ok_def k e)
  next
    case False
    then show ?thesis by (rule stack_ok_upd [OF so [OF t] _ k e(2)]) (simp_all add: e)
  qed
  moreover have "wake_ok s' b" for b
  proof (cases "b = ?a")
    case True
    have w: "distinct (waiters (semas s ?a))"
      using ok by (auto simp: kernel_ok_def sched_ok_def queues_ok_def waiting_ok_def)
    have lw: "looping s' t ?a" if "t \<in> set (waiters (semas s ?a))" for t
      using that wk [of ?a] nw [of ?a] by (auto simp: wake_ok_def loop)
    show ?thesis
    proof (cases "waiters (semas s ?a)")
      case Nil
      then show ?thesis using True by (simp add: wake_ok_def s'(5))
    next
      case (Cons t q)
      then have "t \<notin> set q" "looping s' t ?a" using w lw by auto
      then show ?thesis using True Cons lw by (auto simp: wake_ok_def s'(5))
    qed
  next
    case False
    have "\<not> looping s ?cur b" using top by (simp add: looping_def)
    then have "looping s' t b = looping s t b" for t by (simp add: loop)
    then show ?thesis using wk [of b] False by (simp add: wake_ok_def s'(5))
  qed
  ultimately have "kernel_ok s'" using s'(2) e by (intro kernel_okI [OF ok]) auto
  then show ?thesis using s'(1) by blast
qed

text \<open>The steps of a lock that do not touch its semaphore.\<close>

lemma lock_step_ok:
  assumes ok: "kernel_ok s" and nl: "\<And>b. \<not> looping s (running_thread s) b"
    and k: "kstk s' = (kstk s)(running_thread s := fs)"
    and e: "same_queues s s'" "tasks s' = tasks s" "semas s' = semas s"
    and l: "\<And>m. m \<noteq> l \<Longrightarrow> locks s' m = locks s m"
    and l0: "locks s' = locks s \<or>
      holder (locks s l) \<in> {0, running_thread s} \<and> holder (locks s' l) \<in> {0, running_thread s}"
    and o: "\<And>m. m \<noteq> l \<Longrightarrow> owns s (running_thread s) (sema_of m) = owns s' (running_thread s) (sema_of m)"
    and lk: "lock_ok s' l" and st: "stack_ok s' (running_thread s)"
    and nl': "\<And>b. \<not> looping s' (running_thread s) b"
  shows "kernel_ok s'"
proof (rule kernel_okI [OF ok])
  let ?cur = "running_thread s"
  show "sched_ok s'" using ok e(1) sched_ok_same by (auto simp: kernel_ok_def)
  show "rest_same s s' \<or> thread_all_list s' = thread_all_list s \<and>
      (\<forall>t. stack_magic (tasks s' t) = stack_magic (tasks s t))"
    using e by (simp add: same_queues_def)
  have own: "owns s' t b = owns s t b" if "t \<noteq> ?cur" for t b using that by (simp add: owns_def k)
  have lo: "looping s' t b = looping s t b" for t b
    using nl nl' by (cases "t = ?cur") (auto simp: looping_def k)
  show "lock_ok s' m" for m
  proof (cases "m = l")
    case False
    have "owns s' t (sema_of m) = owns s t (sema_of m)" for t
      using own [of t "sema_of m"] o [OF False] by (cases "t = ?cur") simp_all
    then show ?thesis using ok l [OF False] by (simp add: kernel_ok_def lock_ok_def e(3))
  qed (simp add: lk)
  show "stack_ok s' t" if t: "t \<in> set (thread_all_list s)" for t
  proof (cases "t = ?cur")
    case False
    have "t \<noteq> 0" using t running_listed(2) [OF ok] by auto
    have h: "holder (locks s' m) = t \<longleftrightarrow> holder (locks s m) = t" for m
      using l [of m] l0 False \<open>t \<noteq> 0\<close> by (cases "m = l") auto
    have h2: "locks s' m = locks s m" if "holder (locks s m) = t" for m
      using l [of m] l0 False \<open>t \<noteq> 0\<close> that by (cases "m = l") auto
    have "stack_ok s t" using ok t by (simp add: kernel_ok_def)
    then show ?thesis using False k _ h h2 by (rule stack_ok_upd) (use e(1) in \<open>simp add: same_queues_def\<close>)
  qed (simp add: st)
  show "wake_ok s' a" for a using ok by (simp add: kernel_ok_def wake_ok_def e(3) lo)
qed

lemma lock_acquire_ok:
  assumes ok: "kernel_ok s" and top: "kstk s (running_thread s) = [Lock_acquire l]"
  shows "\<exists>s'. lock_acquire l (pop_frame s) = Inr s' \<and> kernel_ok s'"
proof -
  let ?cur = "running_thread s"
  have lk: "lock_ok s l" using ok by (simp add: kernel_ok_def)
  have so: "stack_ok s ?cur" using ok running_listed(1) [OF ok] by (simp add: kernel_ok_def)
  have ni: "?cur \<noteq> idle_thread s" using not_idle [OF ok top] by simp
  have nl: "\<not> looping s ?cur b" for b using top by (simp add: looping_def)
  have no: "\<not> owns s ?cur b" for b using top by (simp add: owns_def)
  show ?thesis
  proof (cases "holder (locks s l) = ?cur")
    case False
    let ?s' = "push_frame (Sema_down (sema_of l)) (push_frame (Lock_holder l) (pop_frame s))"
    have k: "kstk ?s' = (kstk s)(?cur := [Sema_down (sema_of l), Lock_holder l])" using top by simp
    have o: "owns ?s' t b = owns s t b" for t b using no by (simp add: owns_upd [OF k])
    have "kernel_ok ?s'"
    proof (rule lock_step_ok [OF ok nl k, of l])
      show "lock_ok ?s' l" using lk by (simp add: lock_ok_def o)
      show "stack_ok ?s' ?cur" using ni top by (simp add: stack_ok_def)
    qed (simp_all add: same_queues_def o looping_def)
    then show ?thesis using False by (simp add: lock_acquire_def)
  next
    case True
    let ?s' = "upd_lock l (\<lambda>l. l\<lparr>holder_repeat_nr := holder_repeat_nr l + 1\<rparr>) (pop_frame s)"
    have k: "kstk ?s' = (kstk s)(?cur := [])" using top by simp
    have o: "owns ?s' t b = owns s t b" for t b using no by (simp add: owns_upd [OF k])
    have rep: "holder_repeat_nr (locks s l) \<noteq> - 1" using so top True by (simp add: stack_ok_def)
    then have rep1: "holder_repeat_nr (locks s l) + 1 \<noteq> 0" using eq_neg_iff_add_eq_0 by blast
    have "kernel_ok ?s'"
    proof (rule lock_step_ok [OF ok nl k, of l])
      show "lock_ok ?s' l" using lk rep1 True running_nonzero [OF ok] by (simp add: lock_ok_def o)
      show "stack_ok ?s' ?cur" using ni by (simp add: stack_ok_def top)
      show "locks ?s' = locks s \<or> holder (locks s l) \<in> {0, ?cur} \<and> holder (locks ?s' l) \<in> {0, ?cur}"
        using True by simp
    qed (simp_all add: same_queues_def o looping_def top)
    then show ?thesis using True by (simp add: lock_acquire_def)
  qed
qed

lemma lock_holder_ok:
  assumes ok: "kernel_ok s" and top: "kstk s (running_thread s) = [Lock_holder l]"
  shows "\<exists>s'. lock_acquire_holder l (pop_frame s) = Inr s' \<and> kernel_ok s'"
proof -
  let ?cur = "running_thread s" and ?a = "sema_of l"
  have lk: "lock_ok s l" using ok by (simp add: kernel_ok_def)
  have nl: "\<not> looping s ?cur b" for b using top by (simp add: looping_def)
  have own: "owns s ?cur b \<longleftrightarrow> b = ?a" for b using top by (auto simp: owns_def)
  have v: "holder (locks s l) = 0" "holder_repeat_nr (locks s l) = 0" "svalue (semas s ?a) = 0"
      "\<And>t. owns s t ?a \<Longrightarrow> t = ?cur"
    using lk own [of ?a] by (auto simp: lock_ok_def split: if_splits)
  define s' where "s' = upd_lock l (\<lambda>l. l\<lparr>holder_repeat_nr := 1\<rparr>)
    (upd_lock l (\<lambda>l. l\<lparr>holder := ?cur\<rparr>) (pop_frame s))"
  have run: "lock_acquire_holder l (pop_frame s) = Inr s'"
    using v(2) by (simp add: lock_acquire_holder_def Let_def s'_def)
  have k: "kstk s' = (kstk s)(?cur := [])" using top by (simp add: s'_def)
  have o: "owns s' t b = (if t = ?cur then False else owns s t b)" for t b by (simp add: owns_upd [OF k])
  have "kernel_ok s'"
  proof (rule lock_step_ok [OF ok nl k, of l])
    have "\<not> owns s' t ?a" for t using v(4) [of t] by (auto simp: o)
    then show "lock_ok s' l" using v running_nonzero [OF ok] by (simp add: lock_ok_def s'_def)
    show "stack_ok s' ?cur" by (simp add: stack_ok_def k)
    show "locks s' = locks s \<or> holder (locks s l) \<in> {0, ?cur} \<and> holder (locks s' l) \<in> {0, ?cur}"
      using v(1) by (simp add: s'_def)
    show "owns s ?cur (sema_of m) = owns s' ?cur (sema_of m)" if "m \<noteq> l" for m
      using that own [of "sema_of m"] by (simp add: o)
  qed (simp_all add: same_queues_def looping_def k, simp_all add: s'_def)
  then show ?thesis using run by blast
qed

lemma lock_release_ok:
  assumes ok: "kernel_ok s" and top: "kstk s (running_thread s) = [Lock_release l]"
  shows "\<exists>s'. lock_release l (pop_frame s) = Inr s' \<and> kernel_ok s'"
proof -
  let ?cur = "running_thread s" and ?a = "sema_of l"
  have lk: "lock_ok s l" using ok by (simp add: kernel_ok_def)
  have so: "stack_ok s ?cur" using ok running_listed(1) [OF ok] by (simp add: kernel_ok_def)
  have ni: "?cur \<noteq> idle_thread s" using not_idle [OF ok top] by simp
  have nl: "\<not> looping s ?cur b" for b using top by (simp add: looping_def)
  have no: "\<not> owns s ?cur b" for b using top by (simp add: owns_def)
  have h: "holder (locks s l) = ?cur" using so top by (simp add: stack_ok_def)
  have v: "holder_repeat_nr (locks s l) \<noteq> 0" "svalue (semas s ?a) = 0" "\<And>t. \<not> owns s t ?a"
    using lk h running_nonzero [OF ok] by (auto simp: lock_ok_def)
  show ?thesis
  proof (cases "holder_repeat_nr (locks s l) > 1")
    case True
    define s' where "s' = upd_lock l (\<lambda>l. l\<lparr>holder_repeat_nr := holder_repeat_nr l - 1\<rparr>) (pop_frame s)"
    have run: "lock_release l (pop_frame s) = Inr s'"
      using True h by (simp add: lock_release_def s'_def)
    have k: "kstk s' = (kstk s)(?cur := [])" using top by (simp add: s'_def)
    have o: "owns s' t b = owns s t b" for t b using no by (simp add: owns_upd [OF k])
    have rep: "holder_repeat_nr (locks s l) - 1 \<noteq> 0" using True by auto
    have "kernel_ok s'"
    proof (rule lock_step_ok [OF ok nl k, of l])
      show "lock_ok s' l" using v rep h running_nonzero [OF ok] by (simp add: lock_ok_def o) (simp add: s'_def)
      show "stack_ok s' ?cur" by (simp add: stack_ok_def k)
      show "locks s' = locks s \<or> holder (locks s l) \<in> {0, ?cur} \<and> holder (locks s' l) \<in> {0, ?cur}"
        using h by (simp add: s'_def)
    qed (simp_all add: same_queues_def looping_def o k, simp_all add: s'_def)
    then show ?thesis using run by blast
  next
    case False
    have r1: "holder_repeat_nr (locks s l) = 1"
    proof -
      have "unat (holder_repeat_nr (locks s l)) \<le> 1" using False by (simp add: word_less_nat_alt)
      moreover have "unat (holder_repeat_nr (locks s l)) \<noteq> 0" using v(1) unat_eq_0 by blast
      ultimately have "unat (holder_repeat_nr (locks s l)) = unat (1 :: u32)" by simp
      then show ?thesis by (rule unsigned_word_eqI)
    qed
    define s' where "s' = push_frame (Sema_up ?a) (upd_lock l (\<lambda>l. l\<lparr>holder_repeat_nr := 0\<rparr>)
      (upd_lock l (\<lambda>l. l\<lparr>holder := 0\<rparr>) (pop_frame s)))"
    have run: "lock_release l (pop_frame s) = Inr s'"
      using r1 h by (simp add: lock_release_def s'_def Let_def)
    have k: "kstk s' = (kstk s)(?cur := [Sema_up ?a])" using top by (simp add: s'_def)
    have o: "owns s' t b = (if t = ?cur then b = ?a else owns s t b)" for t b
      by (auto simp: owns_upd [OF k])
    have "kernel_ok s'"
    proof (rule lock_step_ok [OF ok nl k, of l])
      have "owns s' t ?a = (t = ?cur)" for t using v(3) [of t] by (simp add: o)
      then show "lock_ok s' l" using v(2) by (simp add: lock_ok_def) (simp add: s'_def, blast)
      show "stack_ok s' ?cur" using ni by (simp add: stack_ok_def k) (simp add: s'_def)
      show "locks s' = locks s \<or> holder (locks s l) \<in> {0, ?cur} \<and> holder (locks s' l) \<in> {0, ?cur}"
        using h by (simp add: s'_def)
      show "owns s ?cur (sema_of m) = owns s' ?cur (sema_of m)" if "m \<noteq> l" for m
        using that no by (simp add: o)
    qed (simp_all add: same_queues_def looping_def k, simp_all add: s'_def)
    then show ?thesis using run by blast
  qed
qed

lemma run_frame_ok:
  assumes ok: "kernel_ok s" and top: "kstk s (running_thread s) = f # fs"
  shows "\<exists>s'. run_frame f (pop_frame s) = Inr s' \<and> kernel_ok s'"
proof (cases "inert f")
  case True
  then show ?thesis by (rule run_frame_inert [OF ok top])
next
  case False
  have sh: "shape (f # fs)"
    using ok running_listed(1) [OF ok] top by (auto simp: kernel_ok_def stack_ok_def)
  show ?thesis
  proof (cases f)
    case (Down_loop a st)
    then obtain l where "a = sema_of l" "fs = [Lock_holder l]" using sh by auto
    then show ?thesis using down_ok [OF ok, of f l "pop_frame s" st] top Down_loop by auto
  next
    case (Sema_down a)
    then obtain l where l: "a = sema_of l" "fs = [Lock_holder l]" using sh by auto
    have "only_flags (pop_frame s) (snd (intr_disable (pop_frame s)))" by simp
    from down_ok [OF ok _ _ this, of f l "fst (intr_disable (pop_frame s))"] l top Sema_down
    show ?thesis by (simp add: sema_down_def case_prod_beta)
  next
    case (Sema_up a)
    then show ?thesis using sh top release_up_ok [OF ok] by auto
  next
    case (Lock_acquire l)
    then show ?thesis using sh top lock_acquire_ok [OF ok, of l] by auto
  next
    case (Lock_holder l)
    then show ?thesis using sh top lock_holder_ok [OF ok, of l] by auto
  next
    case (Lock_release l)
    then show ?thesis using sh top lock_release_ok [OF ok, of l] by auto
  qed (use False in auto)
qed

lemma timer_ok:
  assumes ok: "kernel_ok s" and on: "intr_get_status s = INTR_ON"
  shows "\<exists>s'. timer_interrupt s = Inr s' \<and> kernel_ok s'"
proof -
  let ?cur = "running_thread s"
  let ?s1 = "cli (push_frame Iret s)"
  define s2 where "s2 = (upd_task ?cur (\<lambda>p. p\<lparr>elapsed_ticks := elapsed_ticks p + 1\<rparr>) ?s1)\<lparr>tick_count := tick_count s + 1\<rparr>"
  have cur: "?cur \<in> set (thread_all_list s)" by (rule running_listed(1) [OF ok])
  have magic: "stack_magic (tasks s ?cur) = 0x19870916" using ok cur by (simp add: kernel_ok_def)
  have st: "status_of s2 t = status_of s t" for t by (simp add: s2_def status_of_def upd_task_def)
  have f: "running_thread s2 = ?cur" "thread_ready_list s2 = thread_ready_list s" "semas s2 = semas s"
    "locks s2 = locks s" "thread_all_list s2 = thread_all_list s" "idle_thread s2 = idle_thread s"
    "kstk s2 = (kstk s)(?cur := Iret # kstk s ?cur)" "\<And>t. stack_magic (tasks s2 t) = stack_magic (tasks s t)"
    by (simp_all add: s2_def)
  have same: "same_queues s s2" by (simp add: same_queues_def f st)
  have sched: "sched_ok s" using ok by (simp add: kernel_ok_def)
  have q2: "queues_ok s2" using queues_ok_same [OF same] sched by (simp add: sched_ok_def)
  have off: "intr_get_status s2 = INTR_OFF"
    using intr_disable_off [of "push_frame Iret s"] on
    by (simp add: s2_def intr_disable_def intr_get_status_def upd_task_def)
  have k: "kernel_ok s'" if "sched_ok s'" "rest_same s2 s'" "semas s' = semas s2" "kstk s' = kstk s2" for s'
    using that ok by (intro kernel_ok_inert [OF ok that(1)]) (auto simp: rest_same_def f kernel_ok_def stack_ok_def)
  have run: "timer_interrupt s = (if ticks (tasks s2 ?cur) = 0 then schedule s2
      else Inr (upd_task ?cur (\<lambda>p. p\<lparr>ticks := ticks p - 1\<rparr>) s2))"
    using magic by (simp add: timer_interrupt_def intr_timer_handler_def Let_def s2_def cli_def)
  show ?thesis
  proof (cases "ticks (tasks s2 ?cur) = 0")
    case True
    obtain s' where "schedule s2 = Inr s'" "sched_ok s'" "switch_frame s2 s'" using schedule_ok [OF q2 off] by blast
    then show ?thesis using True run k [of s'] switch_rest by (auto simp: switch_frame_def)
  next
    case False
    let ?s' = "upd_task ?cur (\<lambda>p. p\<lparr>ticks := ticks p - 1\<rparr>) s2"
    have "same_queues s ?s'" using same by (simp add: same_queues_def f) (simp add: status_of_def)
    then have "kernel_ok ?s'" using sched sched_ok_same by (intro k) (auto simp: rest_same_def)
    then show ?thesis using False run by simp
  qed
qed

section \<open>Creating a thread\<close>

lemma allocate_pid_free:
  assumes "lock_free s (pid_lock s)" and "running_thread s \<noteq> 0"
  shows "allocate_pid s = Inr (next_pid s + 1, s\<lparr>next_pid := next_pid s + 1\<rparr>)"
proof -
  let ?l = "pid_lock s" and ?a = "sema_of (pid_lock s)"
  let ?g = "upd_sema ?a (\<lambda>x. x\<lparr>svalue := svalue x - 1\<rparr>)"
  have "sema_down ?a s = Inr (snd (intr_set_status (?g (snd (intr_disable s))) (fst (intr_disable s))))"
    using assms(1) by (simp add: sema_down_def down_loop_def Let_def case_prod_beta lock_free_def)
  also have "snd (intr_set_status (?g (snd (intr_disable s))) (fst (intr_disable s))) = ?g s"
    by (rule bracket_commute) (simp_all add: upd_sema_def)
  finally have down: "sema_down ?a s = Inr (?g s)" .
  let ?s1 = "upd_lock ?l (\<lambda>l. l\<lparr>holder_repeat_nr := 1\<rparr>) (upd_lock ?l (\<lambda>l. l\<lparr>holder := running_thread s\<rparr>) (?g s))"
  have acq: "lock_acquire_now ?l s = Inr ?s1"
    using assms down by (simp add: lock_acquire_now_def lock_acquire_holder_def lock_free_def Let_def)
  let ?s2 = "?s1\<lparr>next_pid := next_pid s + 1\<rparr>"
  let ?s3 = "upd_lock ?l (\<lambda>l. l\<lparr>holder_repeat_nr := 0\<rparr>) (upd_lock ?l (\<lambda>l. l\<lparr>holder := 0\<rparr>) ?s2)"
  let ?h = "upd_sema ?a (\<lambda>x. x\<lparr>svalue := svalue x + 1\<rparr>)"
  have rel: "lock_release ?l ?s2 = Inr (push_frame (Sema_up ?a) ?s3)"
    using assms by (simp add: lock_release_def Let_def lock_free_def)
  have pop: "pop_frame (push_frame (Sema_up ?a) ?s3) = ?s3"
    by (simp add: pop_frame_def push_frame_def)
  have "sema_up ?a ?s3 = Inr (snd (intr_set_status (?h (snd (intr_disable ?s3))) (fst (intr_disable ?s3))))"
    using assms(1) by (simp add: sema_up_def Let_def case_prod_beta lock_free_def)
  also have "snd (intr_set_status (?h (snd (intr_disable ?s3))) (fst (intr_disable ?s3))) = ?h ?s3"
    by (rule bracket_commute) (simp_all add: upd_sema_def)
  finally have up: "sema_up ?a ?s3 = Inr (?h ?s3)" .
  have "?h ?s3 = s\<lparr>next_pid := next_pid s + 1\<rparr>"
    using assms(1) by (simp add: upd_sema_def upd_lock_def lock_free_def fun_upd_idem)
  moreover have "holder_repeat_nr (locks ?s2 ?l) = 1" by simp
  ultimately show ?thesis
    using acq rel pop up by (simp add: allocate_pid_def lock_release_now_def Let_def upd_lock_def upd_sema_def)
qed

lemma init_thread_ok:
  assumes "p \<noteq> 0" and "lock_free s (pid_lock s)" and "running_thread s \<noteq> 0" and "length name < 16"
  shows "\<exists>tk. init_thread p name prio s = Inr (s\<lparr>next_pid := next_pid s + 1, tasks := (tasks s)(p := tk)\<rparr>) \<and>
    status tk = (if p = main_thread s then TASK_RUNNING else TASK_READY) \<and> stack_magic tk = 0x19870916 \<and>
    pid tk = next_pid s + 1 \<and> parent_pid tk = - 1 \<and> ticks tk = priority tk \<and> pgdir tk = 0 \<and>
    fd_table tk = [0, 1, 2, - 1, - 1, - 1, - 1, - 1] \<and> cwd_inode_nr tk = 0"
proof -
  let ?s0 = "upd_task p (\<lambda>_. zero_task) s"
  have "lock_free ?s0 (pid_lock ?s0)" "running_thread ?s0 \<noteq> 0"
    using assms by (simp_all add: lock_free_def upd_task_def)
  note pid = allocate_pid_free [OF this]
  define tk where "tk = zero_task\<lparr>pid := next_pid s + 1, task_name := patch (task_name zero_task) 0 (name @ [0]),
    status := (if p = main_thread s then TASK_RUNNING else TASK_READY), self_kstack := p + PG_SIZE,
    priority := ucast prio, ticks := ucast prio, elapsed_ticks := 0, pgdir := 0,
    fd_table := [0, 1, 2] @ replicate 5 (- 1), cwd_inode_nr := 0, parent_pid := - 1, stack_magic := 0x19870916\<rparr>"
  have "init_thread p name prio s = Inr (s\<lparr>next_pid := next_pid s + 1, tasks := (tasks s)(p := tk)\<rparr>)"
    using assms(1,4) pid
    by (simp add: init_thread_def Let_def upd_task_def set_task_status_def tk_def zero_task_def MAX_FILES_OPEN_PER_PROC_def)
  then show ?thesis
    by (intro exI [of _ tk]) (simp add: tk_def eval_nat_numeral)
qed

lemma thread_start_ok:
  assumes "page \<noteq> 0" and "lock_free s (pid_lock s)" and "running_thread s \<noteq> 0" and "page \<noteq> main_thread s"
    and "page \<notin> set (thread_ready_list s)" "page \<notin> set (thread_all_list s)"
    and run: "thread_start kernel_thread page name prio function arg s = Inr (t, s')"
  shows "thread_ready_list s' = thread_ready_list s @ [page] \<and> thread_all_list s' = thread_all_list s @ [page] \<and>
    running_thread s' = running_thread s \<and> idle_thread s' = idle_thread s \<and> locks s' = locks s \<and>
    semas s' = semas s \<and> kstk s' = (kstk s)(page := [Start_thread]) \<and> eflags s' = eflags s \<and> t = page \<and>
    main_thread s' = main_thread s \<and> pid_lock s' = pid_lock s \<and>
    (\<forall>u. status_of s' u = (if u = page then TASK_READY else status_of s u)) \<and>
    (\<forall>u. stack_magic (tasks s' u) = (if u = page then 0x19870916 else stack_magic (tasks s u)))"
proof -
  have len: "length name < 16"
  proof (rule ccontr)
    assume "\<not> length name < 16"
    then have "init_thread page name prio s = Inl Fault"
      using assms(1) allocate_pid_free [of "upd_task page (\<lambda>_. zero_task) s"] assms(2,3)
      by (simp add: init_thread_def Let_def lock_free_def upd_task_def)
    then show False using run by (simp add: thread_start_def)
  qed
  obtain tk where tk: "init_thread page name prio s = Inr (s\<lparr>next_pid := next_pid s + 1, tasks := (tasks s)(page := tk)\<rparr>)"
    "status tk = TASK_READY" "stack_magic tk = 0x19870916"
    using init_thread_ok [OF assms(1-3) len, of prio] assms(4) by auto
  let ?s2 = "thread_create kernel_thread page function arg (s\<lparr>next_pid := next_pid s + 1, tasks := (tasks s)(page := tk)\<rparr>)"
  have f: "thread_ready_list ?s2 = thread_ready_list s" "thread_all_list ?s2 = thread_all_list s"
    "running_thread ?s2 = running_thread s" "idle_thread ?s2 = idle_thread s" "locks ?s2 = locks s"
    "semas ?s2 = semas s" "kstk ?s2 = (kstk s)(page := [Start_thread])" "eflags ?s2 = eflags s"
    "main_thread ?s2 = main_thread s" "pid_lock ?s2 = pid_lock s"
    "\<And>u. status (tasks ?s2 u) = (if u = page then TASK_READY else status (tasks s u))"
    "\<And>u. stack_magic (tasks ?s2 u) = (if u = page then 0x19870916 else stack_magic (tasks s u))"
    using tk by (simp_all add: thread_create_def Let_def upd_task_def)
  have "s' = ?s2\<lparr>thread_ready_list := thread_ready_list s @ [page], thread_all_list := thread_all_list s @ [page]\<rparr>" "t = page"
    using run tk(1) f(1,2) assms(5,6) by (auto simp: thread_start_def enqueue_thread_def)
  then show ?thesis by (simp add: f status_of_def)
qed

lemma create_ok:
  assumes ok: "kernel_ok s" and free: "lock_free s (pid_lock s)" and new: "page \<notin> set (thread_all_list s)"
    and nm: "page \<noteq> main_thread s" and e: "kstk s page = []"
    and run: "thread_start kernel_thread page name prio function arg s = Inr (t, s')"
  shows "kernel_ok s'"
proof -
  have sched: "threads_ok s" "waiting_ok s" "status_ok s" "idle_ok s" "status_of s (running_thread s) = TASK_RUNNING"
    using ok by (simp_all add: kernel_ok_def sched_ok_def queues_ok_def)
  have p0: "page \<noteq> 0"
  proof
    assume "page = 0"
    then show False using run by (simp add: thread_start_def init_thread_def)
  qed
  have nr: "page \<notin> set (thread_ready_list s)" using sched(1) new by (auto simp: threads_ok_def)
  have f: "thread_ready_list s' = thread_ready_list s @ [page]" "thread_all_list s' = thread_all_list s @ [page]"
    "running_thread s' = running_thread s" "idle_thread s' = idle_thread s" "locks s' = locks s"
    "semas s' = semas s" "kstk s' = (kstk s)(page := [Start_thread])"
    "\<And>u. status_of s' u = (if u = page then TASK_READY else status_of s u)"
    "\<And>u. stack_magic (tasks s' u) = (if u = page then 0x19870916 else stack_magic (tasks s u))"
    using thread_start_ok [OF p0 free running_nonzero [OF ok] nm nr new run] by simp_all
  have cur: "running_thread s \<noteq> page" "idle_thread s \<noteq> page" using new running_listed [OF ok] by auto
  have nw: "page \<notin> set (waiters (semas s a))" for a using sched(2) new by (auto simp: waiting_ok_def)
  have "threads_ok s'" using sched(1) new nr p0 by (auto simp: threads_ok_def f)
  moreover have "waiting_ok s'" using sched(2) nw by (simp add: waiting_ok_def f) metis
  moreover have "status_ok s'" using sched(3) nr by (auto simp: status_ok_def f)
  moreover have "idle_ok s'" using sched(4) cur by (simp add: idle_ok_def f in_waiters_def)
  ultimately have "sched_ok s'" using sched(5) cur by (simp add: sched_ok_def queues_ok_def f)
  moreover have o: "owns s' u a = owns s u a" "looping s' u a = looping s u a" "pend (kstk s' u) = pend (kstk s u)" for u a
    using e by (simp_all add: owns_def looping_def f)
  have "lock_ok s' l" for l using ok by (simp add: kernel_ok_def lock_ok_def o f)
  moreover have "wake_ok s' a" for a using ok by (simp add: kernel_ok_def wake_ok_def o f)
  moreover have "stack_ok s' u" if "u \<in> set (thread_all_list s')" for u
  proof (cases "u = page")
    case True
    then show ?thesis using cur by (simp add: stack_ok_def f)
  next
    case False
    then have "stack_ok s u" using ok that by (simp add: kernel_ok_def f)
    then show ?thesis using False by (simp add: stack_ok_def f)
  qed
  ultimately show ?thesis using ok by (simp add: kernel_ok_def f)
qed

section \<open>The invariant is inductive\<close>

lemma push_inert_ok:
  assumes ok: "kernel_ok s" and "inert f" and "shape [f]" and e: "kstk s (running_thread s) = []"
  shows "kernel_ok (push_frame f s)"
proof (rule kernel_ok_inert [OF ok])
  have "same_queues s (push_frame f s)" by (simp add: same_queues_def)
  then show "sched_ok (push_frame f s)" using ok sched_ok_same by (auto simp: kernel_ok_def)
  show "pend (kstk (push_frame f s) t) = pend (kstk s t)" for t using assms(2) by simp
  show "shape (kstk (push_frame f s) t)" if "t \<in> set (thread_all_list s)" for t
    using ok that assms(3) e by (cases "t = running_thread s") (simp_all add: kernel_ok_def stack_ok_def)
qed (simp_all add: rest_same_def)

lemma kstep_ok: "kstep s s' \<Longrightarrow> kernel_ok s \<Longrightarrow> kernel_ok s'"
proof (induction rule: kstep.induct)
  case (frame s f fs s')
  then show ?case using run_frame_ok [OF frame.prems frame.hyps(1)] by auto
next
  case (timer s s')
  then show ?case using timer_ok [OF timer.prems timer.hyps(1)] by auto
next
  case (acquire s l)
  let ?s' = "push_frame (Lock_acquire l) s"
  have k: "kstk ?s' = (kstk s)(running_thread s := [Lock_acquire l])" using acquire.hyps(1) by simp
  show ?case
  proof (rule lock_step_ok [OF acquire.prems _ k, of l])
    have "owns ?s' t b = owns s t b" for t b using acquire.hyps(1) by (simp add: owns_def)
    then show "lock_ok ?s' l" using acquire.prems by (simp add: kernel_ok_def lock_ok_def)
    show "stack_ok ?s' (running_thread s)" using acquire.hyps by (simp add: stack_ok_def)
  qed (use acquire.hyps in \<open>simp_all add: looping_def owns_def same_queues_def\<close>)
next
  case (release s l)
  let ?s' = "push_frame (Lock_release l) s"
  have k: "kstk ?s' = (kstk s)(running_thread s := [Lock_release l])" using release.hyps(1) by simp
  show ?case
  proof (rule lock_step_ok [OF release.prems _ k, of l])
    have "owns ?s' t b = owns s t b" for t b using release.hyps(1) by (simp add: owns_def)
    then show "lock_ok ?s' l" using release.prems by (simp add: kernel_ok_def lock_ok_def)
    show "stack_ok ?s' (running_thread s)" using release.hyps by (simp add: stack_ok_def)
  qed (use release.hyps in \<open>simp_all add: looping_def owns_def same_queues_def\<close>)
next
  case (yield s)
  then show ?case by (intro push_inert_ok) auto
next
  case (block s st)
  then show ?case by (intro push_inert_ok) auto
next
  case (unblock s t s')
  have sched: "sched_ok s" and q: "queues_ok s" using unblock.prems by (auto simp: kernel_ok_def sched_ok_def)
  note u = unblock_queues_ok [OF q unblock.hyps(2-4)]
  have s': "s' = set_task_status t TASK_READY (s\<lparr>thread_ready_list := t # thread_ready_list s\<rparr>)"
    using thread_unblock_eq [OF unblock.hyps(2) u(1)] unblock.hyps(5) by simp
  have "t \<noteq> running_thread s" using sched unblock.hyps(2) by (auto simp: sched_ok_def blocked_status_def)
  then have "sched_ok s'" using u(2) sched by (simp add: s' sched_ok_def)
  then show ?case using unblock.prems
    by (intro kernel_ok_inert [OF unblock.prems]) (auto simp: rest_same_def s' kernel_ok_def stack_ok_def)
next
  case (enable s)
  have "sched_ok (sti s)"
    using sched_ok_same [OF only_flags_same_queues [of s "sti s"]] enable.prems by (simp add: kernel_ok_def)
  then show ?case using enable.prems
    by (intro kernel_ok_inert [OF enable.prems]) (auto simp: rest_same_def kernel_ok_def stack_ok_def)
next
  case (create s page kernel_thread name prio func arg t s')
  then show ?case using create_ok by blast
qed

lemma kernel_ok_reachable: "kstep\<^sup>*\<^sup>* s s' \<Longrightarrow> kernel_ok s \<Longrightarrow> kernel_ok s'"
  by (induction rule: rtranclp_induct) (auto intro: kstep_ok)

section \<open>The state after thread_init\<close>

lemma thread_init_ok:
  assumes r: "running_thread s \<noteq> 0" "kstk s (running_thread s) = []" and free: "\<forall>l. lock_free s l"
    and page: "page \<noteq> 0" "page \<noteq> running_thread s"
  shows "\<exists>s'. thread_init kernel_thread idle page s = Inr s' \<and> thread_ready_list s' = [page] \<and>
    thread_all_list s' = [running_thread s, page] \<and> idle_thread s' = page \<and> running_thread s' = running_thread s \<and>
    status_of s' (running_thread s) = TASK_RUNNING \<and> status_of s' page = TASK_READY \<and>
    stack_magic (tasks s' (running_thread s)) = 0x19870916 \<and> stack_magic (tasks s' page) = 0x19870916 \<and>
    locks s' = locks s \<and> semas s' = semas s \<and> kstk s' = (kstk s)(page := [Start_thread])"
proof -
  let ?r = "running_thread s"
  let ?s1 = "(lock_init (pid_lock s) (s\<lparr>thread_ready_list := [], thread_all_list := []\<rparr>))\<lparr>main_thread := ?r\<rparr>"
  have li: "lock_init (pid_lock s) (s\<lparr>thread_ready_list := [], thread_all_list := []\<rparr>) =
      s\<lparr>thread_ready_list := [], thread_all_list := []\<rparr>"
    using free by (simp add: lock_init_def sema_init_def lock_free_def fun_upd_idem)
  have lf: "lock_free ?s1 (pid_lock ?s1)" "running_thread ?s1 \<noteq> 0" using free r by (simp_all add: li lock_free_def)
  have "length [109, 97, 105, 110 :: u8] < 16" by simp
  from init_thread_ok [OF r(1) lf this, of 31] obtain tk where
    tk: "init_thread ?r [109, 97, 105, 110] 31 ?s1 = Inr (?s1\<lparr>next_pid := next_pid ?s1 + 1, tasks := (tasks ?s1)(?r := tk)\<rparr>)"
      "status tk = TASK_RUNNING" "stack_magic tk = 0x19870916"
    by (auto simp: li)
  define s2 where "s2 = (?s1\<lparr>next_pid := next_pid ?s1 + 1, tasks := (tasks ?s1)(?r := tk)\<rparr>)\<lparr>thread_all_list := [?r]\<rparr>"
  have mk: "make_main_thread (lock_init (pid_lock s) (s\<lparr>thread_ready_list := [], thread_all_list := []\<rparr>)) = Inr s2"
    using tk(1) by (simp add: make_main_thread_def li s2_def)
  have lf2: "lock_free s2 (pid_lock s2)" "running_thread s2 \<noteq> 0" using free r by (simp_all add: li lock_free_def s2_def)
  have "length [105, 100, 108, 101 :: u8] < 16" by simp
  from init_thread_ok [OF page(1) lf2 this, of 10] obtain tk2 where
    tk2: "init_thread page [105, 100, 108, 101] 10 s2 = Inr (s2\<lparr>next_pid := next_pid s2 + 1, tasks := (tasks s2)(page := tk2)\<rparr>)"
      "status tk2 = TASK_READY" "stack_magic tk2 = 0x19870916"
    using page(2) by (auto simp: s2_def li)
  define s3 where "s3 = thread_create kernel_thread page idle 0 (s2\<lparr>next_pid := next_pid s2 + 1, tasks := (tasks s2)(page := tk2)\<rparr>)"
  have s3: "thread_ready_list s3 = []" "thread_all_list s3 = [?r]" "running_thread s3 = ?r" "locks s3 = locks s"
      "semas s3 = semas s" "kstk s3 = (kstk s)(page := [Start_thread])"
      "status_of s3 ?r = TASK_RUNNING" "status_of s3 page = TASK_READY"
      "stack_magic (tasks s3 ?r) = 0x19870916" "stack_magic (tasks s3 page) = 0x19870916"
    using page tk tk2 by (simp_all add: s3_def thread_create_def Let_def s2_def li status_of_def upd_task_def)
  have "thread_start kernel_thread page [105, 100, 108, 101] 10 idle 0 s2 =
      Inr (page, s3\<lparr>thread_ready_list := [page], thread_all_list := [?r, page]\<rparr>)"
    using tk2(1) s3 page(2) by (simp add: thread_start_def enqueue_thread_def s3_def [symmetric])
  then have "thread_init kernel_thread idle page s =
      Inr (s3\<lparr>thread_ready_list := [page], thread_all_list := [?r, page], idle_thread := page\<rparr>)"
    using mk by (simp add: thread_init_def Let_def)
  moreover have "status_of (s3\<lparr>thread_ready_list := [page], thread_all_list := [?r, page], idle_thread := page\<rparr>) t = status_of s3 t" for t
    by (simp add: status_of_def)
  ultimately show ?thesis using s3 by simp
qed

lemma boot_kernel_ok:
  assumes r: "running_thread s \<noteq> 0" "kstk s (running_thread s) = []" and free: "\<forall>l. lock_free s l"
    and page: "page \<noteq> 0" "page \<noteq> running_thread s" and idle: "\<forall>t. kstk s t = []"
  shows "\<exists>s'. thread_init kernel_thread idle page s = Inr s' \<and> kernel_ok s'"
proof -
  obtain s' where s': "thread_init kernel_thread idle page s = Inr s'" "thread_ready_list s' = [page]"
    "thread_all_list s' = [running_thread s, page]" "idle_thread s' = page" "running_thread s' = running_thread s"
    "status_of s' (running_thread s) = TASK_RUNNING" "status_of s' page = TASK_READY"
    "stack_magic (tasks s' (running_thread s)) = 0x19870916" "stack_magic (tasks s' page) = 0x19870916"
    "locks s' = locks s" "semas s' = semas s" "kstk s' = (kstk s)(page := [Start_thread])"
    using thread_init_ok [OF assms(1-5), of kernel_thread idle] by blast
  have w: "waiters (semas s' a) = []" for a
  proof -
    have "a = sema_of (a - 4)" by (simp add: sema_of_def)
    then show ?thesis using free s'(11) unfolding lock_free_def by (metis semaphore.select_convs(2))
  qed
  have p: "pend (kstk s' t) = None" "shape (kstk s' t)" for t using idle s'(12) by simp_all
  have "sched_ok s'"
    using s' w page r by (auto simp: sched_ok_def queue_defs in_waiters_def)
  moreover have "lock_ok s' l" for l
    using free s'(10,11) p by (simp add: lock_free_def lock_ok_def owns_def)
  moreover have "stack_ok s' t" for t by (simp add: stack_ok_def p)
  moreover have "wake_ok s' a" for a by (simp add: wake_ok_def w)
  ultimately have "kernel_ok s'" using s' by (simp add: kernel_ok_def)
  then show ?thesis using s'(1) by blast
qed

section \<open>Reachable states\<close>

text \<open>The state in which \<open>thread_init\<close> is called: the locks that threads will use are initialised,
  and no thread is inside a call.\<close>

definition boot_state :: "kern \<Rightarrow> u32 \<Rightarrow> bool" where
  "boot_state s page \<longleftrightarrow> running_thread s \<noteq> 0 \<and> (\<forall>t. kstk s t = []) \<and> (\<forall>l. lock_free s l) \<and>
     page \<noteq> 0 \<and> page \<noteq> running_thread s"

definition reach :: "kern \<Rightarrow> bool" where
  "reach s \<longleftrightarrow> (\<exists>s0 s1 kernel_thread idle page. boot_state s0 page \<and>
     thread_init kernel_thread idle page s0 = Inr s1 \<and> kstep\<^sup>*\<^sup>* s1 s)"

lemma reach_ok: "reach s \<Longrightarrow> kernel_ok s"
proof -
  assume "reach s"
  then obtain s0 s1 kernel_thread idle page where b: "boot_state s0 page"
      "thread_init kernel_thread idle page s0 = Inr s1" "kstep\<^sup>*\<^sup>* s1 s"
    unfolding reach_def by blast
  obtain s' where "thread_init kernel_thread idle page s0 = Inr s'" "kernel_ok s'"
    using boot_kernel_ok [of s0 page] b(1) unfolding boot_state_def by blast
  then have "kernel_ok s1" using b(2) by simp
  then show ?thesis by (rule kernel_ok_reachable [OF b(3)])
qed

lemma reach_step: "reach s \<Longrightarrow> kstep s s' \<Longrightarrow> reach s'"
  unfolding reach_def by (meson rtranclp.rtrancl_into_rtrancl)

lemma reach_frame:
  "reach s \<Longrightarrow> kstk s (running_thread s) = f # fs \<Longrightarrow> run_frame f (pop_frame s) = Inr s' \<Longrightarrow> reach s'"
  by (blast intro: reach_step kstep.frame)

lemma sema_down_free:
  assumes "svalue (semas s a) = 1"
  shows "sema_down a s = Inr (upd_sema a (\<lambda>x. x\<lparr>svalue := svalue x - 1\<rparr>) s)"
proof -
  let ?g = "upd_sema a (\<lambda>x. x\<lparr>svalue := svalue x - 1\<rparr>)"
  have "sema_down a s = Inr (snd (intr_set_status (?g (snd (intr_disable s))) (fst (intr_disable s))))"
    using assms by (simp add: sema_down_def down_loop_def Let_def case_prod_beta)
  also have "snd (intr_set_status (?g (snd (intr_disable s))) (fst (intr_disable s))) = ?g s"
    by (rule bracket_commute) (simp_all add: upd_sema_def)
  finally show ?thesis .
qed

lemma acquire_free_reach:
  assumes "reach s" and e: "kstk s (running_thread s) = []" "running_thread s \<noteq> idle_thread s"
    and free: "holder (locks s l) = 0" "svalue (semas s (sema_of l)) = 1"
  shows "\<exists>s'. reach s' \<and> holds s' (running_thread s) l"
proof -
  let ?r = "running_thread s" and ?a = "sema_of l"
  have r0: "?r \<noteq> 0" using running_nonzero [OF reach_ok [OF assms(1)]] .
  let ?s1 = "push_frame (Lock_acquire l) s"
  have 1: "reach ?s1" using assms(1) e free r0 by (auto intro!: reach_step [OF _ kstep.acquire])
  let ?s2 = "push_frame (Sema_down ?a) (push_frame (Lock_holder l) (pop_frame ?s1))"
  have f1: "run_frame (Lock_acquire l) (pop_frame ?s1) = Inr ?s2"
    using free r0 by (simp add: lock_acquire_def)
  have 2: "reach ?s2" by (rule reach_frame [OF 1 _ f1, of "[]"]) (simp add: e)
  let ?s3 = "upd_sema ?a (\<lambda>x. x\<lparr>svalue := svalue x - 1\<rparr>) (pop_frame ?s2)"
  have f2: "run_frame (Sema_down ?a) (pop_frame ?s2) = Inr ?s3"
    using free by (simp add: sema_down_free)
  have 3: "reach ?s3" by (rule reach_frame [OF 2 _ f2, of "[Lock_holder l]"]) (simp add: e)
  have "kstk ?s3 (running_thread ?s3) = [Lock_holder l]" by (simp add: e)
  then have "holds ?s3 ?r l" by (simp add: holds_def owns_def)
  with 3 show ?thesis by blast
qed

section \<open>A free lock from acquiring to releasing\<close>

lemma sema_up_idle:
  fixes s :: "'a kern_scheme"
  assumes "semas s a = \<lparr>svalue = 0, waiters = []\<rparr>"
  shows "sema_up a s = Inr (upd_sema a (\<lambda>x. x\<lparr>svalue := svalue x + 1\<rparr>) s)"
proof -
  let ?g = "upd_sema a (\<lambda>x. x\<lparr>svalue := svalue x + 1\<rparr>)"
  have "sema_up a s = Inr (snd (intr_set_status (?g (snd (intr_disable s))) (fst (intr_disable s))))"
    using assms by (simp add: sema_up_def Let_def case_prod_beta upd_sema_def)
  also have "snd (intr_set_status (?g (snd (intr_disable s))) (fst (intr_disable s))) = ?g s"
    by (rule bracket_commute) (simp_all add: upd_sema_def)
  finally show ?thesis .
qed

text \<open>The running thread holds the lock, once.\<close>

definition locked :: "u32 \<Rightarrow> 'a kern_scheme \<Rightarrow> 'a kern_scheme" where
  "locked l s = s\<lparr>locks := (locks s)(l := \<lparr>holder = running_thread s, holder_repeat_nr = 1\<rparr>),
     semas := (semas s)(sema_of l := \<lparr>svalue = 0, waiters = []\<rparr>)\<rparr>"

lemma lock_acquire_locked:
  fixes s :: "'a kern_scheme"
  assumes "locks s l = \<lparr>holder = 0, holder_repeat_nr = 0\<rparr>" "semas s (sema_of l) = \<lparr>svalue = 1, waiters = []\<rparr>" "running_thread s \<noteq> 0"
  shows "lock_acquire_now l s = Inr (locked l s)"
proof -
  have "svalue (semas s (sema_of l)) = 1" using assms(2) by simp
  note d = sema_down_free [OF this]
  show ?thesis
    unfolding lock_acquire_now_def d using assms
    by (simp add: lock_acquire_holder_def Let_def upd_lock_def upd_sema_def locked_def)
qed

lemma lock_release_locked:
  fixes s :: "'a kern_scheme"
  assumes l: "locks s l = \<lparr>holder = 0, holder_repeat_nr = 0\<rparr>" "semas s (sema_of l) = \<lparr>svalue = 1, waiters = []\<rparr>"
  shows "lock_release_now l (locked l s) = Inr s"
proof -
  define u where "u = (locked l s)\<lparr>locks := (locks s)(l := \<lparr>holder = 0, holder_repeat_nr = 0\<rparr>)\<rparr>"
  have "lock_release l (locked l s) = Inr (push_frame (Sema_up (sema_of l)) u)"
    by (simp add: lock_release_def Let_def upd_lock_def locked_def u_def)
  moreover have "pop_frame (push_frame f u) = u" for f by (simp add: pop_frame_def push_frame_def)
  moreover have "semas u (sema_of l) = \<lparr>svalue = 0, waiters = []\<rparr>" by (simp add: u_def locked_def)
  note up = sema_up_idle [OF this]
  moreover have "upd_sema (sema_of l) (\<lambda>x. x\<lparr>svalue := svalue x + 1\<rparr>) u = s"
  proof -
    have "(locks s)(l := \<lparr>holder = 0, holder_repeat_nr = 0\<rparr>) = locks s" using l(1) by (metis fun_upd_triv)
    moreover have "(semas s)(sema_of l := \<lparr>svalue = 1, waiters = []\<rparr>) = semas s" using l(2) by (metis fun_upd_triv)
    ultimately show ?thesis by (simp add: u_def locked_def upd_sema_def)
  qed
  ultimately show ?thesis by (simp add: lock_release_now_def locked_def)
qed

section \<open>Properties\<close>

text \<open>C5: in every reachable state of any interleaving, timer interrupts included, at most one
  thread is inside a lock, from the return of its \<open>sema_down\<close> to its call of \<open>sema_up\<close>.\<close>

theorem mutual_exclusion:
  assumes "reach s" and "holds s t l" and "holds s u l"
  shows "t = u"
proof -
  have "lock_ok s l" using reach_ok [OF assms(1)] by (simp add: kernel_ok_def)
  then show ?thesis using assms(2,3) by (auto simp: lock_ok_def holds_def split: if_splits)
qed


text \<open>C9: in every reachable state exactly one thread is running, the ready queue holds exactly
  the ready threads, once each, every thread in the waiters of a semaphore is blocked and in
  no other queue, and the idle thread never waits for a semaphore.\<close>

theorem queues_match_statuses:
  assumes "reach s"
  shows "running_thread s \<in> set (thread_all_list s) \<and> distinct (thread_ready_list s) \<and>
    (\<forall>t \<in> set (thread_all_list s).
       (status_of s t = TASK_RUNNING \<longleftrightarrow> t = running_thread s) \<and>
       (status_of s t = TASK_READY \<longleftrightarrow> t \<in> set (thread_ready_list s))) \<and>
    (\<forall>a. distinct (waiters (semas s a)) \<and> idle_thread s \<notin> set (waiters (semas s a)) \<and>
       (\<forall>t \<in> set (waiters (semas s a)). status_of s t = TASK_BLOCKED \<and>
          (\<forall>b. t \<in> set (waiters (semas s b)) \<longrightarrow> a = b)))"
proof -
  have s: "threads_ok s" "waiting_ok s" "status_ok s" "idle_ok s" "status_of s (running_thread s) = TASK_RUNNING"
    using reach_ok [OF assms] by (auto simp: kernel_ok_def sched_ok_def queues_ok_def)
  have "a = b" if "t \<in> set (waiters (semas s a))" "t \<in> set (waiters (semas s b))" for t a b
    using s(2) that unfolding waiting_ok_def by blast
  moreover have "status_of s t = TASK_RUNNING \<longleftrightarrow> t = running_thread s" if "t \<in> set (thread_all_list s)" for t
    using s(3,5) that unfolding status_ok_def by metis
  ultimately show ?thesis
    using s(1-4) unfolding threads_ok_def waiting_ok_def status_ok_def idle_ok_def in_waiters_def by blast
qed


fun preempt :: "nat \<Rightarrow> kern \<Rightarrow> kern res" where
  "preempt 0 s = Inr s"
| "preempt (Suc n) s = bnd (schedule s) (preempt n)"

lemma preempt_rotates:
  "sched_ok s \<Longrightarrow> intr_get_status s = INTR_OFF \<Longrightarrow>
   \<exists>s'. preempt n s = Inr s' \<and> running_thread s' # thread_ready_list s' = rotate n (running_thread s # thread_ready_list s)"
proof (induction n arbitrary: s)
  case (Suc n)
  obtain s1 where s1: "schedule s = Inr s1" "sched_ok s1" "switch_frame s s1"
    "running_thread s1 = hd (candidates s)" "thread_ready_list s1 = tl (candidates s)"
    using schedule_ok [of s] Suc.prems by (auto simp: sched_ok_def)
  have c: "candidates s = thread_ready_list s @ [running_thread s]"
    using Suc.prems(1) by (simp add: candidates_def sched_ok_def)
  then have q: "running_thread s1 # thread_ready_list s1 = rotate1 (running_thread s # thread_ready_list s)"
    using s1(4,5) by (cases "thread_ready_list s") simp_all
  have "intr_get_status s1 = INTR_OFF" using s1(3) Suc.prems(2) by (simp add: switch_frame_def intr_get_status_def)
  from Suc.IH [OF s1(2) this] show ?case using s1(1) q by (simp add: rotate1_rotate_swap [symmetric] rotate_def funpow_swap1)
qed simp

text \<open>C29: the scheduler is round robin: \<open>n\<close> expiries of a time slice give the processor to the
  thread at position \<open>n\<close> of the ready queue, and no thread is lost from the round.\<close>

theorem schedule_round_robin:
  assumes "sched_ok s" and "intr_get_status s = INTR_OFF" and "n \<le> length (thread_ready_list s)"
  shows "\<exists>s'. preempt n s = Inr s' \<and> running_thread s' = (running_thread s # thread_ready_list s) ! n \<and>
    running_thread s' # thread_ready_list s' = rotate n (running_thread s # thread_ready_list s)"
proof -
  let ?q = "running_thread s # thread_ready_list s"
  obtain s' where s': "preempt n s = Inr s'" "running_thread s' # thread_ready_list s' = rotate n ?q"
    using preempt_rotates [OF assms(1,2)] by blast
  have "n < length ?q" using assms(3) by simp
  then have "rotate n ?q ! 0 = ?q ! n" using nth_rotate [of 0 ?q n] by simp
  then have "running_thread s' = ?q ! n" using s'(2) by (metis nth_Cons_0)
  with s' show ?thesis by blast
qed

section \<open>Concrete instances\<close>

definition demo_boot :: kern where
  "demo_boot = \<lparr>eflags = 0x202, tasks = (\<lambda>_. zero_task), running_thread = 0xc009e000, thread_ready_list = [],
     thread_all_list = [], semas = (\<lambda>_. \<lparr>svalue = 1, waiters = []\<rparr>),
     locks = (\<lambda>_. \<lparr>holder = 0, holder_repeat_nr = 0\<rparr>), kstk = (\<lambda>_. []),
     tstacks = (\<lambda>_. \<lparr>ts_ebp = 0, ts_ebx = 0, ts_edi = 0, ts_esi = 0, ts_eip = 0, ts_function = 0, ts_func_arg = 0\<rparr>),
     idle_thread = 0, main_thread = 0, pid_lock = 0xc0020000, next_pid = 0, tick_count = 0,
     page_map = (\<lambda>_. 0), cr3 = 0x100000, tss_esp0 = 0\<rparr>"

lemma demo_boot_state: "boot_state demo_boot 0xc0100000"
  by (simp add: boot_state_def demo_boot_def lock_free_def)

lemma demo_reach: "\<exists>s. reach s \<and> running_thread s = 0xc009e000 \<and> thread_ready_list s = [0xc0100000] \<and>
  kstk s (running_thread s) = [] \<and> idle_thread s = 0xc0100000 \<and> lock_free s l \<and> sched_ok s"
proof -
  have d: "running_thread demo_boot = 0xc009e000" "kstk demo_boot = (\<lambda>_. [])" "\<forall>l. lock_free demo_boot l"
    by (simp_all add: demo_boot_def lock_free_def)
  obtain s where s: "thread_init 0 0 0xc0100000 demo_boot = Inr s" "thread_ready_list s = [0xc0100000]"
    "idle_thread s = 0xc0100000" "running_thread s = 0xc009e000" "locks s = locks demo_boot"
    "semas s = semas demo_boot" "kstk s = (\<lambda>_. [])(0xc0100000 := [Start_thread])"
    using thread_init_ok [of demo_boot "0xc0100000" 0 0] d by auto
  then have "reach s" using demo_boot_state unfolding reach_def by blast
  then show ?thesis using s d(3) reach_ok [of s] by (auto simp: lock_free_def kernel_ok_def)
qed

lemma demo_holds: "\<exists>s. reach s \<and> holds s 0xc009e000 0xc0030000"
proof -
  obtain s where s: "reach s" "running_thread s = 0xc009e000" "kstk s (running_thread s) = []"
    "idle_thread s = 0xc0100000" "lock_free s 0xc0030000"
    using demo_reach [of "0xc0030000"] by blast
  then show ?thesis using acquire_free_reach [of s "0xc0030000"] by (simp add: lock_free_def)
qed

text \<open>A driver that makes given steps, to reach states in which threads contend.\<close>

datatype op = Do_frame | Do_acquire u32 | Do_release u32 | Do_yield | Do_block | Do_create u32

fun drive :: "op list \<Rightarrow> kern \<Rightarrow> kern res" where
  "drive [] s = Inr s"
| "drive (Do_frame # ops) s =
     (case kstk s (running_thread s) of [] \<Rightarrow> Inl Fault
      | f # fs \<Rightarrow> bnd (run_frame f (pop_frame s)) (drive ops))"
| "drive (Do_acquire l # ops) s =
     bnd (defined (kstk s (running_thread s) = [] \<and> running_thread s \<noteq> idle_thread s \<and>
        holder (locks s l) \<noteq> running_thread s)) (\<lambda>_. drive ops (push_frame (Lock_acquire l) s))"
| "drive (Do_release l # ops) s =
     bnd (defined (kstk s (running_thread s) = [] \<and> running_thread s \<noteq> idle_thread s \<and>
        holder (locks s l) = running_thread s)) (\<lambda>_. drive ops (push_frame (Lock_release l) s))"
| "drive (Do_yield # ops) s =
     bnd (defined (kstk s (running_thread s) = [])) (\<lambda>_. drive ops (push_frame Thread_yield s))"
| "drive (Do_block # ops) s =
     bnd (defined (kstk s (running_thread s) = [])) (\<lambda>_. drive ops (push_frame (Thread_block TASK_BLOCKED) s))"
| "drive (Do_create page # ops) s =
     bnd (defined (kstk s (running_thread s) = [] \<and> lock_free s (pid_lock s) \<and> page \<notin> set (thread_all_list s) \<and>
        page \<noteq> main_thread s \<and> kstk s page = [])) (\<lambda>_.
     bnd (thread_start 0 page [97] 10 0 0 s) (\<lambda>(t, s). drive ops s))"

lemma drive_reach: "drive ops s = Inr s' \<Longrightarrow> reach s \<Longrightarrow> reach s'"
proof (induction ops arbitrary: s)
  case (Cons op ops)
  show ?case
  proof (cases op)
    case Do_frame
    then obtain f fs where f: "kstk s (running_thread s) = f # fs" using Cons.prems by (cases "kstk s (running_thread s)") auto
    then show ?thesis using Cons Do_frame by (auto simp: res_simps intro: reach_frame [OF _ f])
  next
    case (Do_create page)
    then obtain t s1 where "kstk s (running_thread s) = []" "lock_free s (pid_lock s)"
      "page \<notin> set (thread_all_list s)" "page \<noteq> main_thread s" "kstk s page = []"
      "thread_start 0 page [97] 10 0 0 s = Inr (t, s1)" "drive ops s1 = Inr s'"
      using Cons.prems(1) by (auto simp: res_simps)
    then show ?thesis using Cons.IH Cons.prems(2) reach_step kstep.create by blast
  next
    case (Do_acquire l)
    then have "reach (push_frame (Lock_acquire l) s)"
      using Cons.prems by (auto simp: res_simps intro!: reach_step [OF Cons.prems(2)] kstep.acquire)
    then show ?thesis using Cons Do_acquire by (auto simp: res_simps)
  next
    case (Do_release l)
    then have "reach (push_frame (Lock_release l) s)"
      using Cons.prems by (auto simp: res_simps intro!: reach_step [OF Cons.prems(2)] kstep.release)
    then show ?thesis using Cons Do_release by (auto simp: res_simps)
  next
    case Do_yield
    then have "reach (push_frame Thread_yield s)"
      using Cons.prems by (auto simp: res_simps intro!: reach_step [OF Cons.prems(2)] kstep.yield)
    then show ?thesis using Cons Do_yield by (auto simp: res_simps)
  next
    case Do_block
    then have "reach (push_frame (Thread_block TASK_BLOCKED) s)"
      using Cons.prems by (auto simp: res_simps blocked_status_def intro!: reach_step [OF Cons.prems(2)] kstep.block)
    then show ?thesis using Cons Do_block by (auto simp: res_simps)
  qed
qed simp

text \<open>Three threads: main takes the lock, A and B queue for it, main releases it.\<close>

definition contention :: "op list" where
  "contention = [Do_create 0xc0200000, Do_create 0xc0300000,
     Do_acquire 0xc0030000, Do_frame, Do_frame, Do_frame, Do_yield, Do_frame,
     Do_frame, Do_block, Do_frame,
     Do_frame, Do_acquire 0xc0030000, Do_frame, Do_frame,
     Do_frame, Do_acquire 0xc0030000, Do_frame, Do_frame,
     Do_frame, Do_release 0xc0030000, Do_frame, Do_frame]"

text \<open>The definitions by which the simplifier runs the machine on a concrete state.\<close>

lemmas machine_defs =
  thread_init_def lock_init_def sema_init_def make_main_thread_def init_thread_def
  allocate_pid_def lock_acquire_now_def sema_down_def down_loop_def lock_acquire_holder_def
  lock_release_now_def lock_release_def sema_up_def pop_frame_def push_frame_def upd_task_def
  upd_sema_def upd_lock_def set_task_status_def status_of_def thread_start_def
  thread_create_def enqueue_thread_def Let_def sema_of_def intr_disable_def intr_set_status_def
  intr_enable_def intr_get_status_def cli_def sti_def EFLAGS_IF_def lock_acquire_def
  thread_unblock_def blocked_status_def schedule_def process_activate_def page_dir_activate_def
  thread_block_def thread_yield_def lock_free_def PG_SIZE_def patch_def
  MAX_FILES_OPEN_PER_PROC_def

lemma contention_runs:
  "(case bnd (thread_init 0 0 0xc0100000 demo_boot) (drive contention) of Inl _ \<Rightarrow> False
    | Inr s \<Rightarrow> svalue (semas s 0xc0030004) = 1 \<and> waiters (semas s 0xc0030004) = [0xc0300000] \<and>
        thread_ready_list s = [0xc0200000])"
  by (simp add: machine_defs demo_boot_def zero_task_def contention_def)

lemma contention_reach: "\<exists>s. reach s \<and> svalue (semas s 0xc0030004) = 1 \<and> waiters (semas s 0xc0030004) = [0xc0300000]"
proof -
  obtain s1 where s1: "thread_init 0 0 0xc0100000 demo_boot = Inr s1"
    using contention_runs by (cases "thread_init 0 0 0xc0100000 demo_boot") auto
  then have "reach s1" using demo_boot_state unfolding reach_def by blast
  moreover obtain s where "drive contention s1 = Inr s" "svalue (semas s 0xc0030004) = 1"
      "waiters (semas s 0xc0030004) = [0xc0300000]"
    using contention_runs s1 by (cases "drive contention s1") auto
  ultimately show ?thesis using drive_reach by blast
qed


theorem mutual_exclusion_witness:
  "\<exists>s. reach s \<and> holds s 0xc009e000 0xc0030000 \<and> \<not> holds s 0xc0100000 0xc0030000"
  using demo_holds mutual_exclusion [of _ "0xc009e000" "0xc0030000" "0xc0100000"] by fastforce


theorem queues_match_statuses_witness:
  "\<exists>s. reach s \<and> thread_ready_list s = [0xc0100000] \<and> status_of s (running_thread s) = TASK_RUNNING"
  using demo_reach [of 0] queues_match_statuses by blast

theorem schedule_round_robin_witness:
  "\<exists>s s'. thread_ready_list s = [0xc0100000] \<and> preempt 1 s = Inr s' \<and> running_thread s' = 0xc0100000"
proof -
  obtain s0 :: kern where s0: "sched_ok s0" "thread_ready_list s0 = [0xc0100000]" using demo_reach [of 0] by blast
  let ?s = "snd (intr_disable s0)"
  have "same_queues s0 ?s" by (simp add: same_queues_def)
  then have "sched_ok ?s" using s0(1) sched_ok_same by blast
  then obtain s' where "preempt 1 ?s = Inr s'" "running_thread s' = 0xc0100000"
    using schedule_round_robin [of ?s 1] s0(2) by auto
  then show ?thesis using s0(2) by (intro exI [of _ ?s] exI [of _ s']) simp
qed

end
