(* ===== verification/Ioqueue.thy ===== *)
theory Ioqueue
  imports Locks Fifo
begin

text \<open>
  The ring buffer between an interrupt handler and a thread (device/ioqueue.c). The positions
  are C ints in the range of the buffer. A call that finds the buffer empty (or full) takes the
  lock, enters itself as the waiter and blocks; it goes on, when it is woken, with the release
  of the lock and the head of its loop again (\<open>ioq_getchar_resume\<close>, \<open>ioq_putchar_resume\<close>).
\<close>

section \<open>The code\<close>

definition bufsize :: nat where
  "bufsize = 64"

record ioqueue =
  ioq_lock :: u32
  producer :: u32
  consumer :: u32
  ioq_buf :: "u8 list"
  head :: nat
  tail :: nat

definition ioqueue_init :: "u32 \<Rightarrow> ioqueue \<Rightarrow> 'a kern_scheme \<Rightarrow> ioqueue \<times> 'a kern_scheme" where
  "ioqueue_init a ioq s =
     (let s = lock_init a s
      in (ioq\<lparr>ioq_lock := a, producer := 0, consumer := 0, head := 0, tail := 0\<rparr>, s))"

definition next_pos :: "nat \<Rightarrow> nat" where
  "next_pos p = (p + 1) mod bufsize"

definition ioq_full :: "ioqueue \<Rightarrow> 'a kern_scheme \<Rightarrow> bool res" where
  "ioq_full ioq s =
     bnd (ASSERT (intr_get_status s = INTR_OFF)) (\<lambda>_. Inr (next_pos (head ioq) = tail ioq))"

definition ioq_empty :: "ioqueue \<Rightarrow> 'a kern_scheme \<Rightarrow> bool res" where
  "ioq_empty ioq s =
     bnd (ASSERT (intr_get_status s = INTR_OFF)) (\<lambda>_. Inr (head ioq = tail ioq))"

text \<open>\<open>ioq_wait\<close> and \<open>wakeup\<close> on the field \<open>waiter\<close>: its new value comes with the state.\<close>

definition ioq_wait :: "u32 \<Rightarrow> 'a kern_scheme \<Rightarrow> (u32 \<times> 'a kern_scheme) res" where
  "ioq_wait waiter s =
     bnd (ASSERT (waiter = 0)) (\<lambda>_.
     bnd (thread_block TASK_BLOCKED s) (\<lambda>s'. Inr (running_thread s, s')))"

definition wakeup :: "u32 \<Rightarrow> 'a kern_scheme \<Rightarrow> (u32 \<times> 'a kern_scheme) res" where
  "wakeup waiter s =
     bnd (ASSERT (waiter \<noteq> 0)) (\<lambda>_.
     bnd (thread_unblock waiter s) (\<lambda>s. Inr (0, s)))"

text \<open>The result \<open>None\<close>: the thread has been switched away inside \<open>ioq_wait\<close>.\<close>

definition ioq_getchar :: "ioqueue \<Rightarrow> 'a kern_scheme \<Rightarrow> (u8 option \<times> ioqueue \<times> 'a kern_scheme) res" where
  "ioq_getchar ioq s =
     bnd (ASSERT (intr_get_status s = INTR_OFF)) (\<lambda>_.
     bnd (ioq_empty ioq s) (\<lambda>empty.
     if empty then
       bnd (lock_acquire_now (ioq_lock ioq) s) (\<lambda>s.
       bnd (ioq_wait (consumer ioq) s) (\<lambda>(w, s).
       Inr (None, ioq\<lparr>consumer := w\<rparr>, s)))
     else
       bnd (defined (tail ioq < length (ioq_buf ioq))) (\<lambda>_.
       let byte = ioq_buf ioq ! tail ioq;
           ioq = ioq\<lparr>tail := next_pos (tail ioq)\<rparr>
       in if producer ioq \<noteq> 0 then
            bnd (wakeup (producer ioq) s) (\<lambda>(w, s).
            Inr (Some byte, ioq\<lparr>producer := w\<rparr>, s))
          else Inr (Some byte, ioq, s))))"

definition ioq_getchar_resume :: "ioqueue \<Rightarrow> 'a kern_scheme \<Rightarrow> (u8 option \<times> ioqueue \<times> 'a kern_scheme) res" where
  "ioq_getchar_resume ioq s = bnd (lock_release_now (ioq_lock ioq) s) (ioq_getchar ioq)"

definition ioq_putchar :: "ioqueue \<Rightarrow> u8 \<Rightarrow> 'a kern_scheme \<Rightarrow> (unit option \<times> ioqueue \<times> 'a kern_scheme) res" where
  "ioq_putchar ioq byte s =
     bnd (ASSERT (intr_get_status s = INTR_OFF)) (\<lambda>_.
     bnd (ioq_full ioq s) (\<lambda>full.
     if full then
       bnd (lock_acquire_now (ioq_lock ioq) s) (\<lambda>s.
       bnd (ioq_wait (producer ioq) s) (\<lambda>(w, s).
       Inr (None, ioq\<lparr>producer := w\<rparr>, s)))
     else
       bnd (defined (head ioq < length (ioq_buf ioq))) (\<lambda>_.
       let ioq = ioq\<lparr>ioq_buf := (ioq_buf ioq)[head ioq := byte]\<rparr>;
           ioq = ioq\<lparr>head := next_pos (head ioq)\<rparr>
       in if consumer ioq \<noteq> 0 then
            bnd (wakeup (consumer ioq) s) (\<lambda>(w, s).
            Inr (Some (), ioq\<lparr>consumer := w\<rparr>, s))
          else Inr (Some (), ioq, s))))"

definition ioq_putchar_resume :: "ioqueue \<Rightarrow> u8 \<Rightarrow> 'a kern_scheme \<Rightarrow> (unit option \<times> ioqueue \<times> 'a kern_scheme) res" where
  "ioq_putchar_resume ioq byte s = bnd (lock_release_now (ioq_lock ioq) s) (ioq_putchar ioq byte)"

section \<open>The queue a ring buffer represents\<close>

definition ring :: "ioqueue \<Rightarrow> u8 list \<Rightarrow> bool" where
  "ring ioq xs \<longleftrightarrow> length (ioq_buf ioq) = bufsize \<and> tail ioq < bufsize \<and> length xs < bufsize \<and>
     head ioq = (tail ioq + length xs) mod bufsize \<and>
     (\<forall>i < length xs. ioq_buf ioq ! ((tail ioq + i) mod bufsize) = xs ! i)"

lemma ring_init: "length (ioq_buf ioq) = bufsize \<Longrightarrow> ring (fst (ioqueue_init a ioq s)) []"
  by (simp add: ring_def ioqueue_init_def bufsize_def)

lemma mod_add_inj:
  fixes i j t :: nat
  assumes "i < bufsize" "j < bufsize" "(t + i) mod bufsize = (t + j) mod bufsize"
  shows "i = j"
proof (rule ccontr)
  assume "i \<noteq> j"
  have "int bufsize dvd int (t + i) - int (t + j)"
    using assms(3) by (metis mod_eq_dvd_iff of_nat_mod)
  then have d: "int bufsize dvd int i - int j" by simp
  have "int i - int j \<noteq> 0" using \<open>i \<noteq> j\<close> by simp
  with d have "\<bar>int bufsize\<bar> \<le> \<bar>int i - int j\<bar>" by (rule dvd_imp_le_int [rotated])
  with assms show False by linarith
qed

lemma ring_empty: "ring ioq xs \<Longrightarrow> head ioq = tail ioq \<longleftrightarrow> xs = []"
  using mod_add_inj [of "length xs" 0 "tail ioq"] by (auto simp: ring_def)

lemma ring_full: "ring ioq xs \<Longrightarrow> next_pos (head ioq) = tail ioq \<longleftrightarrow> length xs = bufsize - 1"
proof -
  assume r: "ring ioq xs"
  have n: "next_pos (head ioq) = (tail ioq + Suc (length xs)) mod bufsize"
    using r by (simp add: ring_def next_pos_def mod_Suc_eq)
  show ?thesis
  proof
    assume "next_pos (head ioq) = tail ioq"
    then have "(tail ioq + Suc (length xs)) mod bufsize = (tail ioq + 0) mod bufsize" using r n by (simp add: ring_def)
    then have "\<not> Suc (length xs) < bufsize" using mod_add_inj [of "Suc (length xs)" 0 "tail ioq"] by (auto simp: bufsize_def)
    moreover have "length xs < bufsize" using r by (simp add: ring_def)
    ultimately show "length xs = bufsize - 1" by linarith
  next
    assume "length xs = bufsize - 1"
    then have "Suc (length xs) = bufsize" by (simp add: bufsize_def)
    then show "next_pos (head ioq) = tail ioq" using r n by (simp add: ring_def)
  qed
qed


section \<open>First in, first out\<close>

lemma ring_put:
  assumes "ring ioq xs" and "length xs < bufsize - 1"
  shows "ring (ioq\<lparr>ioq_buf := (ioq_buf ioq)[head ioq := b], head := next_pos (head ioq)\<rparr>) (xs @ [b])"
proof -
  have other: "(tail ioq + i) mod bufsize \<noteq> head ioq" if "i < length xs" for i
    using mod_add_inj [of i "length xs" "tail ioq"] assms that by (auto simp: ring_def)
  have "(ioq_buf ioq)[head ioq := b] ! ((tail ioq + i) mod bufsize) = (xs @ [b]) ! i"
    if "i < length (xs @ [b])" for i
    using that assms(1) other [of i]
    by (cases "i < length xs") (auto simp: ring_def nth_append bufsize_def less_Suc_eq)
  then show ?thesis using assms by (simp add: ring_def next_pos_def mod_Suc_eq bufsize_def)
qed

lemma ring_get:
  assumes "ring ioq (x # xs)"
  shows "ioq_buf ioq ! tail ioq = x" and "ring (ioq\<lparr>tail := next_pos (tail ioq)\<rparr>) xs"
proof -
  have "ioq_buf ioq ! ((tail ioq + 0) mod bufsize) = (x # xs) ! 0"
    using assms unfolding ring_def by blast
  then show "ioq_buf ioq ! tail ioq = x" using assms by (simp add: ring_def)
  have i: "ioq_buf ioq ! ((tail ioq + Suc i) mod bufsize) = xs ! i" if "i < length xs" for i
    using assms that unfolding ring_def by (metis Suc_less_eq length_Cons nth_Cons_Suc)
  have n: "(Suc (tail ioq) mod bufsize + i) mod bufsize = (tail ioq + Suc i) mod bufsize" for i
    using mod_add_left_eq [of "Suc (tail ioq)" bufsize i] by simp
  show "ring (ioq\<lparr>tail := next_pos (tail ioq)\<rparr>) xs"
    using assms i n by (auto simp: ring_def next_pos_def bufsize_def)
qed

lemma putchar_ring:
  assumes "ring ioq xs" "length xs < bufsize - 1" "intr_get_status s = INTR_OFF"
  shows "ioq_putchar ioq b s =
    (let ioq' = ioq\<lparr>ioq_buf := (ioq_buf ioq)[head ioq := b], head := next_pos (head ioq)\<rparr> in
     if consumer ioq \<noteq> 0 then
       bnd (thread_unblock (consumer ioq) s) (\<lambda>s. Inr (Some (), ioq'\<lparr>consumer := 0\<rparr>, s))
     else Inr (Some (), ioq', s))"
proof -
  have "next_pos (head ioq) \<noteq> tail ioq" using ring_full [OF assms(1)] assms(2) by simp
  moreover have "head ioq < length (ioq_buf ioq)" using assms(1) by (simp add: ring_def bufsize_def)
  ultimately show ?thesis using assms(3)
    by (auto simp: ioq_putchar_def ioq_full_def wakeup_def bnd_assoc Let_def)
qed

lemma getchar_ring:
  assumes "ring ioq (x # xs)" "intr_get_status s = INTR_OFF" "producer ioq = 0"
  shows "ioq_getchar ioq s = Inr (Some x, ioq\<lparr>tail := next_pos (tail ioq)\<rparr>, s)"
proof -
  have "head ioq \<noteq> tail ioq" using ring_empty [OF assms(1)] by simp
  moreover have "tail ioq < length (ioq_buf ioq)" using assms(1) by (simp add: ring_def)
  ultimately show ?thesis using assms(2,3) ring_get [OF assms(1)]
    by (simp add: ioq_getchar_def ioq_empty_def)
qed

text \<open>A call that goes through without waiting, as an operation on the queue.\<close>

definition put_now :: "u8 \<Rightarrow> ioqueue \<times> 'a kern_scheme \<Rightarrow> (ioqueue \<times> 'a kern_scheme) res" where
  "put_now b = (\<lambda>(ioq, s). bnd (ioq_putchar ioq b s) (\<lambda>(r, ioq, s).
     case r of None \<Rightarrow> Inl Blocked | Some _ \<Rightarrow> Inr (ioq, s)))"

definition get_now :: "ioqueue \<times> 'a kern_scheme \<Rightarrow> (u8 \<times> ioqueue \<times> 'a kern_scheme) res" where
  "get_now = (\<lambda>(ioq, s). bnd (ioq_getchar ioq s) (\<lambda>(r, ioq, s).
     case r of None \<Rightarrow> Inl Blocked | Some b \<Rightarrow> Inr (b, ioq, s)))"

definition ioq_rep :: "ioqueue \<times> 'a kern_scheme \<Rightarrow> u8 list \<Rightarrow> bool" where
  "ioq_rep = (\<lambda>(ioq, s) xs. ring ioq xs \<and> intr_get_status s = INTR_OFF \<and> producer ioq = 0 \<and> consumer ioq = 0)"

interpretation ioq: fifo ioq_rep "\<lambda>xs _. length xs < bufsize - 1" put_now get_now
proof unfold_locales
  fix qs :: "ioqueue \<times> 'a kern_scheme" and xs and e :: u8
  assume "ioq_rep qs xs" and "length xs < bufsize - 1"
  then show "\<exists>qs'. put_now e qs = Inr qs' \<and> ioq_rep qs' (xs @ [e])"
    using ring_put [of "fst qs" xs e] by (cases qs) (auto simp: ioq_rep_def put_now_def putchar_ring Let_def)
next
  fix qs :: "ioqueue \<times> 'a kern_scheme" and x :: u8 and xs
  assume "ioq_rep qs (x # xs)"
  then show "\<exists>qs'. get_now qs = Inr (x, qs') \<and> ioq_rep qs' xs"
    using ring_get [of "fst qs" x xs] by (cases qs) (auto simp: ioq_rep_def get_now_def getchar_ring)
next
  fix qs :: "ioqueue \<times> 'a kern_scheme"
  assume a: "ioq_rep qs []"
  obtain q s where qs: "qs = (q, s)" by (cases qs)
  from a have "head q = tail q" using ring_empty [of q "[]"] by (simp add: ioq_rep_def qs)
  then have "\<nexists>b q' s'. ioq_getchar q s = Inr (Some b, q', s')"
    using a by (auto simp: ioq_rep_def qs ioq_getchar_def ioq_empty_def bnd_eq_Inr)
  then show "\<exists>stop. get_now qs = Inl stop"
    by (cases "ioq_getchar q s") (auto simp: get_now_def qs split: option.splits)
qed

text \<open>C30: the ring buffer of 64 bytes is a queue of at most 63: bytes put into it by
  \<open>ioq_putchar\<close>, as long as they fit, are what \<open>ioq_getchar\<close> then returns, in the same order.\<close>

theorem ioq_fifo_order:
  assumes "ioq_rep qs xs" and "length xs + length es \<le> 63"
  shows "\<exists>qs'. ioq.run (map Enq es @ replicate (length xs + length es) Deq) qs = Inr (xs @ es, qs') \<and> ioq_rep qs' []"
  by (rule ioq.fifo_order [OF assms(1)]) (use assms(2) in \<open>auto simp: bufsize_def\<close>)

definition empty_queue :: ioqueue where
  "empty_queue = \<lparr>ioq_lock = 0, producer = 0, consumer = 0, ioq_buf = replicate 64 0, head = 60, tail = 60\<rparr>"

theorem ioq_fifo_order_witness:
  "\<exists>qs'. ioq.run (map Enq [104, 101, 108, 108, 111, 33] @ [Deq, Deq, Deq, Deq, Deq, Deq]) (empty_queue, demo_boot\<lparr>eflags := 0\<rparr>)
     = Inr ([104, 101, 108, 108, 111, 33], qs')"
proof -
  have "ioq_rep (empty_queue, demo_boot\<lparr>eflags := 0\<rparr>) []"
    by (simp add: ioq_rep_def ring_def empty_queue_def bufsize_def intr_get_status_def EFLAGS_IF_def)
  from ioq_fifo_order [OF this, of "[104, 101, 108, 108, 111, 33]"] show ?thesis
    by (simp del: ioq.run.simps list.map) blast
qed

text \<open>C31: a byte that is put into an empty buffer for which a thread waits makes that thread the
  first of the ready queue and clears the buffer's entry for a waiter; when the thread goes on, it gives back
  the buffer's lock and returns this byte.\<close>

theorem ioq_wakes_reader:
  assumes "ring ioq []" "intr_get_status s = INTR_OFF" "consumer ioq = w" "w \<noteq> 0" "producer ioq = 0"
    and "status_of s w = TASK_BLOCKED" "w \<notin> set (thread_ready_list s)"
    and "locks s (ioq_lock ioq) = \<lparr>holder = w, holder_repeat_nr = 1\<rparr>"
    and "semas s (sema_of (ioq_lock ioq)) = \<lparr>svalue = 0, waiters = []\<rparr>"
  shows "\<exists>ioq' s'. ioq_putchar ioq b s = Inr (Some (), ioq', s') \<and> ring ioq' [b] \<and> consumer ioq' = 0 \<and>
    thread_ready_list s' = w # thread_ready_list s \<and> status_of s' w = TASK_READY \<and>
    (\<exists>ioq'' s''. ioq_getchar_resume ioq' (s'\<lparr>running_thread := w\<rparr>) = Inr (Some b, ioq'', s'') \<and> ring ioq'' [] \<and>
       holder (locks s'' (ioq_lock ioq)) = 0)"
proof -
  let ?s' = "set_task_status w TASK_READY (s\<lparr>thread_ready_list := w # thread_ready_list s\<rparr>)"
  let ?q = "ioq\<lparr>ioq_buf := (ioq_buf ioq)[head ioq := b], head := next_pos (head ioq), consumer := 0\<rparr>"
  have un: "thread_unblock w s = Inr ?s'"
    by (rule thread_unblock_eq) (use assms in \<open>simp_all add: blocked_status_def\<close>)
  have put: "ioq_putchar ioq b s = Inr (Some (), ?q, ?s')"
    using assms un putchar_ring [OF assms(1) _ assms(2)] by (simp add: bufsize_def)
  have r: "ring ?q [b]" using ring_put [OF assms(1), of b] by (auto simp: bufsize_def ring_def)
  let ?r = "?s'\<lparr>running_thread := w\<rparr>"
  let ?l = "ioq_lock ioq"
  let ?u = "upd_lock ?l (\<lambda>l. l\<lparr>holder_repeat_nr := 0\<rparr>) (upd_lock ?l (\<lambda>l. l\<lparr>holder := 0\<rparr>) ?r)"
  let ?h = "upd_sema (sema_of ?l) (\<lambda>x. x\<lparr>svalue := svalue x + 1\<rparr>)"
  have rel: "lock_release ?l ?r = Inr (push_frame (Sema_up (sema_of ?l)) ?u)"
    using assms(8) by (simp add: lock_release_def Let_def)
  have pop: "pop_frame (push_frame (Sema_up (sema_of ?l)) ?u) = ?u"
    by (simp add: pop_frame_def push_frame_def)
  have "sema_up (sema_of ?l) ?u = Inr (snd (intr_set_status (?h (snd (intr_disable ?u))) (fst (intr_disable ?u))))"
    using assms(9) by (simp add: sema_up_def Let_def case_prod_beta)
  also have "snd (intr_set_status (?h (snd (intr_disable ?u))) (fst (intr_disable ?u))) = ?h ?u"
    by (rule bracket_commute) (simp_all add: upd_sema_def)
  finally have "lock_release_now ?l ?r = Inr (?h ?u)"
    using rel pop assms(8) by (simp add: lock_release_now_def)
  moreover have "intr_get_status (?h ?u) = INTR_OFF"
    using assms(2) by (simp add: intr_get_status_def)
  ultimately have res: "ioq_getchar_resume ?q ?r = Inr (Some b, ?q\<lparr>tail := next_pos (tail ioq)\<rparr>, ?h ?u)"
    using getchar_ring [OF r, of "?h ?u"] assms(5) by (simp add: ioq_getchar_resume_def)
  have e: "ring (?q\<lparr>tail := next_pos (tail ioq)\<rparr>) []" using ring_get(2) [OF r] by simp
  show ?thesis
    by (rule exI, rule exI, intro conjI, rule put, rule r, simp, simp, simp, rule exI, rule exI, intro conjI, rule res, rule e)
      simp
qed

theorem ioq_wakes_reader_witness:
  "\<exists>ioq' s'. ioq_putchar (empty_queue\<lparr>consumer := 7\<rparr>) 65
      (demo_boot\<lparr>eflags := 0, tasks := (\<lambda>_. zero_task\<lparr>status := TASK_BLOCKED\<rparr>),
         locks := (\<lambda>_. \<lparr>holder = 7, holder_repeat_nr = 1\<rparr>), semas := (\<lambda>_. \<lparr>svalue = 0, waiters = []\<rparr>),
         thread_ready_list := []\<rparr>)
     = Inr (Some (), ioq', s') \<and> thread_ready_list s' = [7]"
proof -
  let ?s = "demo_boot\<lparr>eflags := 0, tasks := (\<lambda>_. zero_task\<lparr>status := TASK_BLOCKED\<rparr>),
         locks := (\<lambda>_. \<lparr>holder = 7, holder_repeat_nr = 1\<rparr>), semas := (\<lambda>_. \<lparr>svalue = 0, waiters = []\<rparr>),
         thread_ready_list := []\<rparr>"
  have "ring (empty_queue\<lparr>consumer := 7\<rparr>) []"
    by (simp add: ring_def empty_queue_def bufsize_def)
  moreover have "intr_get_status ?s = INTR_OFF" by (simp add: intr_get_status_def EFLAGS_IF_def)
  ultimately show ?thesis
    using ioq_wakes_reader [of "empty_queue\<lparr>consumer := 7\<rparr>" ?s 7 65]
    by (auto simp: empty_queue_def status_of_def)
qed

end
