(* ===== verification/Keyboard.thy ===== *)
theory Keyboard
  imports Ioqueue
begin

text \<open>
  The keyboard driver (device/keyboard.c). The handler gets the byte that \<open>inb(KBD_BUF_PORT)\<close>
  reads, changes the flags for the modifier keys, and puts the character of the key into the
  buffer \<open>kbd_buf\<close>. It is shown to be a decoder of scan codes followed by a buffer of 63 bytes.
\<close>

section \<open>The code\<close>

record keyboard =
  ctrl_status :: bool
  shift_status :: bool
  alt_status :: bool
  caps_lock_status :: bool
  ext_scancode :: bool
  kbd_buf :: ioqueue

definition chars :: "string \<Rightarrow> u8 list" where
  "chars = map of_char"

text \<open>The two columns of \<open>keymap\<close>, without and with shift.\<close>

definition keymap_base :: "u8 list" where
  "keymap_base = [0, 27] @ chars ''1234567890-='' @ [8, 9] @ chars ''qwertyuiop[]'' @ [13, 0] @
     chars ''asdfghjkl;'' @ [39] @ chars ''`'' @ [0, 92] @ chars ''zxcvbnm,./'' @ [0] @ chars ''*'' @ [0] @ chars '' '' @ [0]"

definition keymap_shift :: "u8 list" where
  "keymap_shift = [0, 27] @ chars ''!@#$%^&*()_+'' @ [8, 9] @ chars ''QWERTYUIOP{}'' @ [13, 0] @
     chars ''ASDFGHJKL:'' @ [34] @ chars ''~'' @ [0] @ chars ''|'' @ chars ''ZXCVBNM<>?'' @ [0] @ chars ''*'' @ [0] @ chars '' '' @ [0]"

definition keymap :: "nat \<Rightarrow> bool \<Rightarrow> u8" where
  "keymap index shift = (if shift then keymap_shift else keymap_base) ! index"

definition shift_l_make :: u16 where "shift_l_make = 0x2a"
definition shift_r_make :: u16 where "shift_r_make = 0x36"
definition alt_l_make :: u16 where "alt_l_make = 0x38"
definition alt_r_make :: u16 where "alt_r_make = 0xe038"
definition ctrl_l_make :: u16 where "ctrl_l_make = 0x1d"
definition ctrl_r_make :: u16 where "ctrl_r_make = 0xe01d"
definition caps_lock_make :: u16 where "caps_lock_make = 0x3a"

lemmas make_codes = shift_l_make_def shift_r_make_def alt_l_make_def alt_r_make_def ctrl_l_make_def
  ctrl_r_make_def caps_lock_make_def

text \<open>Which column of the table a make code selects.\<close>

definition use_shift :: "u16 \<Rightarrow> bool \<Rightarrow> bool \<Rightarrow> bool" where
  "use_shift scancode shift_down_last caps_lock_last =
     (if scancode < 0x0e \<or> scancode = 0x29 \<or> scancode = 0x1a \<or> scancode = 0x1b \<or> scancode = 0x2b \<or>
         scancode = 0x27 \<or> scancode = 0x28 \<or> scancode = 0x33 \<or> scancode = 0x34 \<or> scancode = 0x35
      then shift_down_last
      else if shift_down_last \<and> caps_lock_last then False
      else if shift_down_last \<or> caps_lock_last then True
      else False)"

text \<open>The first component of the result is what goes to the screen.\<close>

definition intr_keyboard_handler :: "u8 \<Rightarrow> keyboard \<Rightarrow> 'a kern_scheme \<Rightarrow> (string \<times> keyboard \<times> 'a kern_scheme) res" where
  "intr_keyboard_handler port k s =
     (let shift_down_last = shift_status k;
          caps_lock_last = caps_lock_status k;
          scancode = ucast port :: u16 in
      if scancode = 0xe0 then Inr ([], k\<lparr>ext_scancode := True\<rparr>, s)
      else
      let (scancode, k) = (if ext_scancode k then (0xe000 OR scancode, k\<lparr>ext_scancode := False\<rparr>) else (scancode, k));
          break_code = (scancode AND 0x0080 \<noteq> 0) in
      if break_code then
        let make_code = scancode AND 0xff7f in
        Inr ([], if make_code = ctrl_l_make \<or> make_code = ctrl_r_make then k\<lparr>ctrl_status := False\<rparr>
                 else if make_code = shift_l_make \<or> make_code = shift_r_make then k\<lparr>shift_status := False\<rparr>
                 else if make_code = alt_l_make \<or> make_code = alt_r_make then k\<lparr>alt_status := False\<rparr>
                 else k, s)
      else if (scancode > 0x00 \<and> scancode < 0x3b) \<or> scancode = alt_r_make \<or> scancode = ctrl_r_make then
        let shift = use_shift scancode shift_down_last caps_lock_last;
            scancode = scancode AND 0x00ff;
            index = unat scancode in
        bnd (defined (index < 0x3b)) (\<lambda>_.
        let cur_char = keymap index shift in
        if cur_char \<noteq> 0 then
          bnd (ioq_full (kbd_buf k) s) (\<lambda>full.
          if \<not> full then
            bnd (ioq_putchar (kbd_buf k) cur_char s) (\<lambda>(_, q, s). Inr ([], k\<lparr>kbd_buf := q\<rparr>, s))
          else Inr ([], k, s))
        else
          Inr ([], if scancode = ctrl_l_make \<or> scancode = ctrl_l_make then k\<lparr>ctrl_status := True\<rparr>
                   else if scancode = shift_l_make \<or> scancode = shift_r_make then k\<lparr>shift_status := True\<rparr>
                   else if scancode = alt_l_make \<or> scancode = alt_r_make then k\<lparr>alt_status := True\<rparr>
                   else if scancode = caps_lock_make then k\<lparr>caps_lock_status := \<not> caps_lock_status k\<rparr>
                   else k, s))
      else Inr (''unknown key\<newline>'', k, s))"

definition keyboard_init :: "u32 \<Rightarrow> u32 \<Rightarrow> keyboard \<Rightarrow> 'a kern_scheme \<Rightarrow> intr_state \<Rightarrow>
    (keyboard \<times> 'a kern_scheme \<times> intr_state) res" where
  "keyboard_init buf_lock handler k s i =
     (let i = put_str ''keyboard init start\<newline>'' i;
          (q, s) = ioqueue_init buf_lock (kbd_buf k) s in
      bnd (register_handler 0x21 handler i) (\<lambda>i.
      Inr (k\<lparr>kbd_buf := q\<rparr>, s, put_str ''keyboard init done\<newline>'' i)))"

section \<open>The decoder the driver implements\<close>

text \<open>Shift, caps lock, and whether the last byte was the prefix \<open>0xe0\<close>. A letter is a capital if
  exactly one of shift and caps lock is on; caps lock has no effect on another key.\<close>

definition key_char :: "bool \<Rightarrow> bool \<Rightarrow> nat \<Rightarrow> u8" where
  "key_char sh caps key =
     (let c = keymap_base ! key in
      if 97 \<le> c \<and> c \<le> 122 then (if sh \<noteq> caps then c - 32 else c)
      else if sh then keymap_shift ! key else c)"

definition decode :: "bool \<times> bool \<times> bool \<Rightarrow> u8 \<Rightarrow> (bool \<times> bool \<times> bool) \<times> u8 list" where
  "decode = (\<lambda>(sh, caps, ext) c.
     if c = 0xe0 then ((sh, caps, True), [])
     else if c \<ge> 0x80 then ((sh \<and> (ext \<or> c \<noteq> 0xaa \<and> c \<noteq> 0xb6), caps, False), [])
     else if ext then ((sh, caps, False), [])
     else if c = 0x2a \<or> c = 0x36 then ((True, caps, False), [])
     else if c = 0x3a then ((sh, \<not> caps, False), [])
     else ((sh, caps, False),
           if c < 0x3b \<and> keymap_base ! unat c \<noteq> 0 then [key_char sh caps (unat c)] else []))"

fun decode_all :: "bool \<times> bool \<times> bool \<Rightarrow> u8 list \<Rightarrow> (bool \<times> bool \<times> bool) \<times> u8 list" where
  "decode_all m [] = (m, [])"
| "decode_all m (c # cs) =
     (let (m, out) = decode m c; (m, rest) = decode_all m cs in (m, out @ rest))"

fun kbd_run :: "u8 list \<Rightarrow> keyboard \<Rightarrow> 'a kern_scheme \<Rightarrow> (keyboard \<times> 'a kern_scheme) res" where
  "kbd_run [] k s = Inr (k, s)"
| "kbd_run (c # cs) k s = bnd (intr_keyboard_handler c k s) (\<lambda>(_, k, s). kbd_run cs k s)"

definition mods :: "keyboard \<Rightarrow> bool \<times> bool \<times> bool" where
  "mods k = (shift_status k, caps_lock_status k, ext_scancode k)"

lemma keymap_lengths: "length keymap_base = 0x3b" "length keymap_shift = 0x3b"
  by (simp_all add: keymap_base_def keymap_shift_def chars_def)

lemma keymap_tables:
  "keymap_base =
    [0, 27, 49, 50, 51, 52, 53, 54, 55, 56, 57, 48, 45, 61, 8, 9, 113, 119, 101, 114, 116, 121, 117,
     105, 111, 112, 91, 93, 13, 0, 97, 115, 100, 102, 103, 104, 106, 107, 108, 59, 39, 96, 0, 92,
     122, 120, 99, 118, 98, 110, 109, 44, 46, 47, 0, 42, 0, 32, 0]"
  "keymap_shift =
    [0, 27, 33, 64, 35, 36, 37, 94, 38, 42, 40, 41, 95, 43, 8, 9, 81, 87, 69, 82, 84, 89, 85, 73,
     79, 80, 123, 125, 13, 0, 65, 83, 68, 70, 71, 72, 74, 75, 76, 58, 34, 126, 0, 124, 90, 88, 67,
     86, 66, 78, 77, 60, 62, 63, 0, 42, 0, 32, 0]"
  by (simp_all add: keymap_base_def keymap_shift_def chars_def)

lemma keymap_rows:
  "\<forall>(key, b, c) \<in> set (zip [0..<59] (zip keymap_base keymap_shift)). \<forall>sh caps.
     (if use_shift (of_nat key) sh caps then c else b) =
     (if 97 \<le> b \<and> b \<le> 122 then if sh \<noteq> caps then b - 32 else b else if sh then c else b) \<and>
     ((if 97 \<le> b \<and> b \<le> 122 then if sh \<noteq> caps then b - 32 else b else if sh then c else b) = 0 \<longleftrightarrow> b = 0)"
  by (simp add: upt_conv_Cons use_shift_def keymap_tables)

lemma keymap_key:
  assumes "key < 59"
  shows "keymap key (use_shift (of_nat key) sh caps) = key_char sh caps key"
    and "key_char sh caps key = 0 \<longleftrightarrow> keymap_base ! key = 0"
proof -
  have "(key, keymap_base ! key, keymap_shift ! key) \<in> set (zip [0..<59] (zip keymap_base keymap_shift))"
    using assms by (auto simp: in_set_zip keymap_lengths intro!: exI [of _ key])
  note row = bspec [OF keymap_rows this, simplified prod.case, rule_format]
  show "keymap key (use_shift (of_nat key) sh caps) = key_char sh caps key"
    using row [of sh caps] unfolding keymap_def key_char_def Let_def by (cases "use_shift (of_nat key) sh caps") simp_all
  show "key_char sh caps key = 0 \<longleftrightarrow> keymap_base ! key = 0"
    using row [of sh caps] unfolding key_char_def Let_def by blast
qed

text \<open>What the handler computes from one byte, before it touches the buffer.\<close>

lemma u8_bit7: "bit c 7 \<longleftrightarrow> odd (unat c div 2 ^ 7)" for c :: u8
  using bit_iff_odd [of "unat c" 7] bit_unsigned_iff[of c 7, where ?'a = nat] by simp
lemma u8_sign: "0x80 \<le> c \<longleftrightarrow> bit c 7" for c :: u8
proof -
  have "unat c < 256" using unsigned_less [of c] by simp
  then have "unat c div 128 = (if 128 \<le> unat c then 1 else 0)" by (simp add: le_div_geq)
  then show ?thesis using u8_bit7 [of c] by (simp add: word_le_nat_alt)
qed
lemma u8_bits:
  fixes c :: u8
  shows "\<not> bit c (Suc (Suc (Suc (Suc (Suc (Suc (Suc (Suc n))))))))"
    and "bit c 7 = bit c (Suc (Suc (Suc (Suc (Suc (Suc (Suc 0)))))))"
  by (auto simp: eval_nat_numeral dest: bit_imp_le_length)

lemma word_eq_bits: "v = w \<longleftrightarrow> (\<forall>n \<in> set [0..<LENGTH('a)]. bit v n = bit w n)" for v w :: "'a::len word"
  by (auto intro: bit_word_eqI)

lemma scancode_bits:
  fixes c :: u8
  shows "(ucast c :: u16) = 0xe0 \<longleftrightarrow> c = 0xe0"
    and "(ucast c :: u16) AND 0x0080 \<noteq> 0 \<longleftrightarrow> bit c 7"
    and "(0xe000 OR ucast c :: u16) AND 0x0080 \<noteq> 0 \<longleftrightarrow> bit c 7"
    and "bit c 7 \<Longrightarrow> (ucast c :: u16) AND 0xff7f = 0x2a \<longleftrightarrow> c = 0xaa"
    and "bit c 7 \<Longrightarrow> (ucast c :: u16) AND 0xff7f = 0x36 \<longleftrightarrow> c = 0xb6"
    and "(0xe000 OR ucast c :: u16) AND 0xff7f \<noteq> 0x2a"
    and "(0xe000 OR ucast c :: u16) AND 0xff7f \<noteq> 0x36"
    and "(ucast c :: u16) AND 0xff = ucast c"
    and "(ucast c :: u16) = 0x2a \<longleftrightarrow> c = 0x2a" and "(ucast c :: u16) = 0x36 \<longleftrightarrow> c = 0x36"
    and "(ucast c :: u16) = 0x3a \<longleftrightarrow> c = 0x3a"
    and "(ucast c :: u16) \<noteq> 0xe038" and "(ucast c :: u16) \<noteq> 0xe01d"
    and "(0xe000 OR ucast c :: u16) = 0xe038 \<longleftrightarrow> c = 0x38"
    and "(0xe000 OR ucast c :: u16) = 0xe01d \<longleftrightarrow> c = 0x1d"
  by (simp_all add: word_eq_bits u8_bits upt_conv_Cons bit_simps)


lemma ext_code_large: "\<not> 0xe000 OR ucast (c :: u8) < (0x3b :: u16)"
proof -
  have "uint (0xe000 :: u16) \<le> uint (0xe000 OR ucast c :: u16)"
    unfolding unsigned_or_eq by (rule or_greater_eq) simp
  then show ?thesis by (simp add: word_less_def)
qed
lemma ucast_code:
  fixes c :: u8
  shows "(ucast c :: u16) = of_nat (unat c)" and "(0 :: u16) < ucast c \<longleftrightarrow> 0 < c"
    and "(ucast c :: u16) < 0x3b \<longleftrightarrow> c < 0x3b" and "unat (ucast c :: u16) = unat c"
proof -
  show u: "unat (ucast c :: u16) = unat c"
    using unsigned_less [of c, where ?'a = nat] by (simp add: unsigned_ucast_eq take_bit_nat_eq_self)
  then show "(ucast c :: u16) = of_nat (unat c)" by simp
  show "(0 :: u16) < ucast c \<longleftrightarrow> 0 < c" "(ucast c :: u16) < 0x3b \<longleftrightarrow> c < 0x3b"
    by (simp_all add: word_less_nat_alt u)
qed

section \<open>The driver is the decoder followed by a buffer\<close>

definition kbd_ready :: "keyboard \<Rightarrow> 'a kern_scheme \<Rightarrow> u8 list \<Rightarrow> bool" where
  "kbd_ready k s xs \<longleftrightarrow> ring (kbd_buf k) xs \<and> intr_get_status s = INTR_OFF \<and> consumer (kbd_buf k) = 0"

lemma kbd_put:
  assumes "kbd_ready k s xs"
  shows "\<exists>q. bnd (ioq_full (kbd_buf k) s) (\<lambda>full.
          if \<not> full then bnd (ioq_putchar (kbd_buf k) c s) (\<lambda>(_, q, s). Inr ([], k\<lparr>kbd_buf := q\<rparr>, s))
          else Inr ([], k, s)) = Inr ([] :: string, k\<lparr>kbd_buf := q\<rparr>, s) \<and>
    kbd_ready (k\<lparr>kbd_buf := q\<rparr>) s (take 63 (xs @ [c]))"
proof (cases "length xs = bufsize - 1")
  case True
  then have "next_pos (head (kbd_buf k)) = tail (kbd_buf k)"
    using assms ring_full by (auto simp: kbd_ready_def)
  then have "ioq_full (kbd_buf k) s = Inr True" using assms by (simp add: ioq_full_def kbd_ready_def)
  moreover have "take 63 (xs @ [c]) = xs" using True by (simp add: bufsize_def)
  ultimately show ?thesis using assms by (intro exI [of _ "kbd_buf k"]) simp
next
  case False
  then have l: "length xs < bufsize - 1" using assms by (auto simp: kbd_ready_def ring_def)
  then have "ioq_full (kbd_buf k) s = Inr False"
    using assms ring_full [of "kbd_buf k" xs] by (simp add: ioq_full_def kbd_ready_def)
  then show ?thesis
    using assms putchar_ring [of "kbd_buf k" xs s c] ring_put [of "kbd_buf k" xs c] l
    by (auto simp: kbd_ready_def bufsize_def)
qed

lemma kbd_step:
  assumes "kbd_ready k s xs"
  shows "\<exists>out k'. intr_keyboard_handler c k s = Inr (out, k', s) \<and>
    mods k' = fst (decode (mods k) c) \<and> kbd_ready k' s (take 63 (xs @ snd (decode (mods k) c)))"
proof -
  have len: "take 63 xs = xs" using assms by (simp add: kbd_ready_def ring_def bufsize_def)
  consider "c = 0xe0" | "c \<noteq> 0xe0" "bit c 7" | "\<not> bit c 7" by blast
  then show ?thesis
  proof cases
    case 1
    then show ?thesis using assms len
      by (simp add: intr_keyboard_handler_def decode_def mods_def kbd_ready_def)
  next
    case 2
    then show ?thesis using assms len scancode_bits [of c]
      by (simp add: intr_keyboard_handler_def decode_def mods_def kbd_ready_def u8_sign make_codes Let_def)
  next
    case 3
    then have ne: "c \<noteq> 0xe0" "\<not> c \<ge> 0x80" using u8_sign [of c] by auto
    show ?thesis
    proof (cases "ext_scancode k")
      case True
      then show ?thesis using assms len ne 3 scancode_bits [of c] ext_code_large [of c]
        by (cases "c = 0x38"; cases "c = 0x1d")
          (simp_all add: intr_keyboard_handler_def decode_def mods_def kbd_ready_def make_codes Let_def
             keymap_def keymap_tables)
    next
      case False
      show ?thesis
      proof (cases "0 < c \<and> c < 0x3b \<and> keymap_base ! unat c \<noteq> 0")
        case True
        then have key: "unat c < 59" by (simp add: word_less_nat_alt)
        have nm: "c \<noteq> 0x2a" "c \<noteq> 0x36" "c \<noteq> 0x3a" using True by (auto simp: keymap_tables)
        let ?ch = "key_char (shift_status k) (caps_lock_status k) (unat c)"
        note km = keymap_key [OF key, of "shift_status k" "caps_lock_status k", unfolded ucast_code(1) [symmetric]]
        have "intr_keyboard_handler c k s = bnd (ioq_full (kbd_buf k) s) (\<lambda>full.
            if \<not> full then bnd (ioq_putchar (kbd_buf k) ?ch s) (\<lambda>(_, q, s). Inr ([], k\<lparr>kbd_buf := q\<rparr>, s))
            else Inr ([], k, s))"
          using False True ne 3 scancode_bits [of c] km key
          by (simp add: intr_keyboard_handler_def ucast_code(2-4) Let_def cong: if_cong)
        moreover have "decode (mods k) c = (mods k, [?ch])"
          using False True ne nm by (simp add: decode_def mods_def)
        moreover from kbd_put [OF assms, of ?ch] obtain q where
          "bnd (ioq_full (kbd_buf k) s) (\<lambda>full.
            if \<not> full then bnd (ioq_putchar (kbd_buf k) ?ch s) (\<lambda>(_, q, s). Inr ([], k\<lparr>kbd_buf := q\<rparr>, s))
            else Inr ([], k, s)) = Inr ([] :: string, k\<lparr>kbd_buf := q\<rparr>, s)"
          "kbd_ready (k\<lparr>kbd_buf := q\<rparr>) s (take 63 (xs @ [?ch]))" by blast
        ultimately show ?thesis
          by (intro exI [of _ "[]"] exI [of _ "k\<lparr>kbd_buf := q\<rparr>"]) (simp add: mods_def)
      next
        case nochar: False
        then consider "c = 0 \<or> \<not> c < 0x3b" | "0 < c" "c < 0x3b" "keymap_base ! unat c = 0"
          using word_gt_0 [of c] by blast
        then show ?thesis
        proof cases
          case 1
          have "intr_keyboard_handler c k s = Inr (''unknown key\<newline>'', k, s)"
            by (rule disjE [OF 1])
              (use False ne 3 scancode_bits [of c] in
                \<open>simp_all add: intr_keyboard_handler_def ucast_code(2-4) make_codes Let_def\<close>)
          moreover have "decode (mods k) c = (mods k, [])"
            using False ne 1 by (auto simp: decode_def mods_def keymap_tables)
          ultimately show ?thesis using assms len by simp
        next
          case 2
          then have key: "unat c < 59" by (simp add: word_less_nat_alt)
          then show ?thesis
            using 2 assms False ne len 3 scancode_bits [of c]
              keymap_key [OF key, of "shift_status k" "caps_lock_status k", unfolded ucast_code(1) [symmetric]]
            by (auto simp add: intr_keyboard_handler_def decode_def mods_def ucast_code(2-4) kbd_ready_def Let_def make_codes)
        qed
      qed
    qed
  qed
qed


text \<open>C32: the interrupt handler of the keyboard, run on any sequence of bytes from the keyboard,
  never stops, and leaves in the buffer, behind what was there, the characters that the
  reference decoder gives for the bytes, up to the 63 the buffer holds; those that do not fit
  are dropped. Shift, caps lock and the prefix are tracked as the decoder tracks them.\<close>

theorem keyboard_decodes:
  assumes "kbd_ready k s xs"
  shows "\<exists>k'. kbd_run codes k s = Inr (k', s) \<and> mods k' = fst (decode_all (mods k) codes) \<and>
    kbd_ready k' s (take 63 (xs @ snd (decode_all (mods k) codes)))"
  using assms
proof (induction codes arbitrary: k xs)
  case Nil
  then have "take 63 xs = xs" by (simp add: kbd_ready_def ring_def bufsize_def)
  then show ?case using Nil by simp
next
  case (Cons c cs)
  obtain m out where d: "decode (mods k) c = (m, out)" by fastforce
  obtain o1 k1 where 1: "intr_keyboard_handler c k s = Inr (o1, k1, s)" "mods k1 = m"
    "kbd_ready k1 s (take 63 (xs @ out))" using kbd_step [OF Cons.prems, of c] d by auto
  have t: "take 63 (take 63 (xs @ out) @ zs) = take 63 (xs @ out @ zs)" for zs
    using Cons.prems by (simp add: kbd_ready_def ring_def bufsize_def min_def)
  from Cons.IH [OF 1(3)] obtain k' where "kbd_run cs k1 s = Inr (k', s)" "mods k' = fst (decode_all m cs)"
    "kbd_ready k' s (take 63 (xs @ out @ snd (decode_all m cs)))" unfolding t 1(2) by blast
  with 1 d show ?case by (simp add: case_prod_beta)
qed

definition quiet_keyboard :: keyboard where
  "quiet_keyboard = \<lparr>ctrl_status = False, shift_status = False, alt_status = False,
     caps_lock_status = False, ext_scancode = False, kbd_buf = empty_queue\<rparr>"

text \<open>The keys Shift+H, i, Shift+1 pressed and released: the text is \<open>Hi!\<close>.\<close>

theorem keyboard_decodes_witness:
  "\<exists>k'. kbd_run [0x2a, 0x23, 0xa3, 0xaa, 0x17, 0x97, 0x36, 0x02, 0x82, 0xb6] quiet_keyboard (demo_boot\<lparr>eflags := 0\<rparr>)
      = Inr (k', demo_boot\<lparr>eflags := 0\<rparr>) \<and> ring (kbd_buf k') [72, 105, 33]"
proof -
  let ?s = "demo_boot\<lparr>eflags := 0\<rparr>"
  let ?codes = "[0x2a, 0x23, 0xa3, 0xaa, 0x17, 0x97, 0x36, 0x02, 0x82, 0xb6] :: u8 list"
  have "kbd_ready quiet_keyboard ?s []"
    by (simp add: kbd_ready_def ring_def quiet_keyboard_def empty_queue_def bufsize_def intr_get_status_def EFLAGS_IF_def)
  moreover have "snd (decode_all (mods quiet_keyboard) ?codes) = [72, 105, 33]"
    by (simp add: decode_def mods_def quiet_keyboard_def key_char_def keymap_tables)
  ultimately show ?thesis using keyboard_decodes [of quiet_keyboard ?s "[]" ?codes]
    by (auto simp: kbd_ready_def simp del: kbd_run.simps decode_all.simps)
qed

text \<open>Releasing one of the two shift keys turns shift off although the other is still held
  down: the driver has one flag for both.\<close>

lemma shift_release_ignores_other:
  "fst (decode_all (sh, caps, False) [0x2a, 0x36, 0xaa]) = (False, caps, False)"
  by (simp add: decode_def)

end
