(* ===== verification/Memory.thy ===== *)
theory Memory
  imports Locks Bitmap
begin

text \<open>
  Memory management (kernel/memory.c and memory.h): the pools of page frames, the pools of
  virtual pages, the page tables, and the heap of \<open>sys_malloc\<close>. Physical memory is a function
  from the address of a 32-bit word to its value; the code reads and writes it through the
  page tables that \<open>cr3\<close> points to, as the processor does. The descriptors \<open>mem_block_desc\<close>
  are objects at their addresses; the free list of a descriptor is a list of blocks (\<open>Klist\<close>
  shows that the linked list implements it).
\<close>

section \<open>State\<close>

datatype pool_flags = PF_KERNEL | PF_USER

record virtual_addr =
  vaddr_bitmap :: bitmap
  vaddr_start :: u32

record mem_block_desc =
  block_size :: u32
  blocks_per_arena :: u32
  free_list :: "u32 list"

record pool =
  pool_bitmap :: bitmap
  phy_addr_start :: u32
  pool_size :: u32
  pool_lock :: u32

record msys = kern +
  pmem :: "u32 \<Rightarrow> u32"
  kernel_pool :: pool
  user_pool :: pool
  kernel_vaddr :: virtual_addr
  userprog_vaddr :: "u32 \<Rightarrow> virtual_addr"
  descs :: "u32 \<Rightarrow> mem_block_desc"
  k_block_descs :: u32
  kscreen :: "screen_event list"

text \<open>\<open>userprog_vaddr\<close> is the field of that name of a control block; \<open>k_block_descs\<close> the address of
  the array of that name, \<open>u_block_desc\<close> that of the array in a control block. A descriptor has
  24 bytes. The structure \<open>arena\<close> has three words: \<open>desc\<close>, \<open>cnt\<close> and \<open>large\<close>.\<close>

definition u_block_desc :: "u32 \<Rightarrow> u32" where
  "u_block_desc t = t + 100"

definition DESC_CNT :: nat where "DESC_CNT = 7"
definition sizeof_desc :: u32 where "sizeof_desc = 24"
definition sizeof_arena :: u32 where "sizeof_arena = 12"
definition PG_P_1 :: u32 where "PG_P_1 = 1"
definition PG_RW_W :: u32 where "PG_RW_W = 2"
definition PG_US_U :: u32 where "PG_US_U = 4"
definition K_HEAP_START :: u32 where "K_HEAP_START = 0xc0100000"

definition the_pool :: "pool_flags \<Rightarrow> 'a msys_scheme \<Rightarrow> pool" where
  "the_pool pf s = (if pf = PF_KERNEL then kernel_pool s else user_pool s)"

definition set_pool :: "pool_flags \<Rightarrow> pool \<Rightarrow> 'a msys_scheme \<Rightarrow> 'a msys_scheme" where
  "set_pool pf p s = (if pf = PF_KERNEL then s\<lparr>kernel_pool := p\<rparr> else s\<lparr>user_pool := p\<rparr>)"

section \<open>The processor's view of memory\<close>

definition PDE_IDX :: "u32 \<Rightarrow> u32" where
  "PDE_IDX addr = drop_bit 22 (addr AND 0xffc00000)"

definition PTE_IDX :: "u32 \<Rightarrow> u32" where
  "PTE_IDX addr = drop_bit 12 (addr AND 0x003ff000)"

text \<open>The walk of the processor through the page tables. The kernel runs at privilege level 0 with
  \<open>CR0.WP\<close> clear, so only the bit P matters.\<close>

definition walk :: "'a msys_scheme \<Rightarrow> u32 \<Rightarrow> u32 res" where
  "walk s va =
     (let pde = pmem s (cr3 s + PDE_IDX va * 4) in
      if pde AND 1 = 0 then Inl Fault
      else
        let pte = pmem s ((pde AND 0xfffff000) + PTE_IDX va * 4) in
        if pte AND 1 = 0 then Inl Fault
        else Inr ((pte AND 0xfffff000) + (va AND 0xfff)))"

definition vload :: "'a msys_scheme \<Rightarrow> u32 \<Rightarrow> u32 res" where
  "vload s va = bnd (walk s va) (\<lambda>pa. Inr (pmem s pa))"

definition vstore :: "u32 \<Rightarrow> u32 \<Rightarrow> 'a msys_scheme \<Rightarrow> 'a msys_scheme res" where
  "vstore va w s = bnd (walk s va) (\<lambda>pa. Inr (s\<lparr>pmem := (pmem s)(pa := w)\<rparr>))"

text \<open>\<open>memset(va, 0, 4 n)\<close>, word by word.\<close>

fun vzero :: "u32 \<Rightarrow> nat \<Rightarrow> 'a msys_scheme \<Rightarrow> 'a msys_scheme res" where
  "vzero va 0 s = Inr s"
| "vzero va (Suc n) s = bnd (vstore va 0 s) (vzero (va + 4) n)"

section \<open>Frames, virtual pages and page tables\<close>

definition pte_ptr :: "u32 \<Rightarrow> u32" where
  "pte_ptr vaddr = 0xffc00000 + drop_bit 10 (vaddr AND 0xffc00000) + PTE_IDX vaddr * 4"

definition pde_ptr :: "u32 \<Rightarrow> u32" where
  "pde_ptr vaddr = 0xfffff000 + PDE_IDX vaddr * 4"

definition palloc :: "pool \<Rightarrow> (u32 \<times> pool) res" where
  "palloc m_pool =
     bnd (bitmap_scan (pool_bitmap m_pool) 1) (\<lambda>bit_idx.
     if bit_idx = - 1 then Inr (0, m_pool)
     else
       bnd (bitmap_set (pool_bitmap m_pool) bit_idx 1) (\<lambda>b.
       let page_phyaddr = bit_idx * PG_SIZE + phy_addr_start m_pool
       in Inr (page_phyaddr, m_pool\<lparr>pool_bitmap := b\<rparr>)))"

text \<open>\<open>palloc(&kernel_pool)\<close> and \<open>palloc(&user_pool)\<close> on the state.\<close>

definition palloc_from :: "pool_flags \<Rightarrow> 'a msys_scheme \<Rightarrow> (u32 \<times> 'a msys_scheme) res" where
  "palloc_from pf s = bnd (palloc (the_pool pf s)) (\<lambda>(p, pool). Inr (p, set_pool pf pool s))"

definition page_table_add :: "u32 \<Rightarrow> u32 \<Rightarrow> 'a msys_scheme \<Rightarrow> 'a msys_scheme res" where
  "page_table_add vaddr page_phyaddr s =
     (let pde = pde_ptr vaddr; pte = pte_ptr vaddr in
      bnd (vload s pde) (\<lambda>d.
      if d AND 1 \<noteq> 0 then
        bnd (vload s pte) (\<lambda>t.
        bnd (ASSERT (t AND 1 = 0)) (\<lambda>_.
        vstore pte (page_phyaddr OR PG_US_U OR PG_RW_W OR PG_P_1) s))
      else
        bnd (palloc_from PF_KERNEL s) (\<lambda>(pde_phyaddr, s).
        bnd (vstore pde (pde_phyaddr OR PG_US_U OR PG_RW_W OR PG_P_1) s) (\<lambda>s.
        bnd (vzero (pte AND 0xfffff000) 1024 s) (\<lambda>s.
        bnd (vload s pte) (\<lambda>t.
        bnd (ASSERT (t AND 1 = 0)) (\<lambda>_.
        vstore pte (page_phyaddr OR PG_US_U OR PG_RW_W OR PG_P_1) s)))))))"

definition addr_v2p :: "'a msys_scheme \<Rightarrow> u32 \<Rightarrow> u32 res" where
  "addr_v2p s vaddr =
     bnd (vload s (pte_ptr vaddr)) (\<lambda>t. Inr ((t AND 0xfffff000) + (vaddr AND 0x00000fff)))"

text \<open>The loop that writes \<open>n\<close> bits from \<open>start\<close> on.\<close>

fun set_bits :: "u32 \<Rightarrow> nat \<Rightarrow> u8 \<Rightarrow> bitmap \<Rightarrow> bitmap res" where
  "set_bits start 0 v b = Inr b"
| "set_bits start (Suc n) v b = bnd (bitmap_set b start v) (set_bits (start + 1) n v)"

text \<open>The virtual pages of the kernel, or of the running process.\<close>

definition the_vaddr :: "pool_flags \<Rightarrow> 'a msys_scheme \<Rightarrow> virtual_addr" where
  "the_vaddr pf s = (if pf = PF_KERNEL then kernel_vaddr s else userprog_vaddr s (running_thread s))"

definition set_vmap :: "pool_flags \<Rightarrow> bitmap \<Rightarrow> 'a msys_scheme \<Rightarrow> 'a msys_scheme" where
  "set_vmap pf b s =
     (if pf = PF_KERNEL then s\<lparr>kernel_vaddr := (kernel_vaddr s)\<lparr>vaddr_bitmap := b\<rparr>\<rparr>
      else s\<lparr>userprog_vaddr := (userprog_vaddr s)(running_thread s :=
               (userprog_vaddr s (running_thread s))\<lparr>vaddr_bitmap := b\<rparr>)\<rparr>)"

definition vaddr_get :: "pool_flags \<Rightarrow> u32 \<Rightarrow> 'a msys_scheme \<Rightarrow> (u32 \<times> 'a msys_scheme) res" where
  "vaddr_get pf pg_cnt s =
     (let v = the_vaddr pf s in
      bnd (bitmap_scan (vaddr_bitmap v) pg_cnt) (\<lambda>bit_idx_start.
      if bit_idx_start = - 1 then Inr (0, s)
      else
        bnd (set_bits bit_idx_start (unat pg_cnt) 1 (vaddr_bitmap v)) (\<lambda>b.
        let s = set_vmap pf b s;
            start = vaddr_start v + bit_idx_start * PG_SIZE
        in if pf = PF_KERNEL then Inr (start, s)
           else bnd (ASSERT (start < 0xc0000000 - PG_SIZE)) (\<lambda>_. Inr (start, s)))))"

fun map_pages :: "pool_flags \<Rightarrow> u32 \<Rightarrow> nat \<Rightarrow> 'a msys_scheme \<Rightarrow> (bool \<times> 'a msys_scheme) res" where
  "map_pages pf vaddr 0 s = Inr (True, s)"
| "map_pages pf vaddr (Suc cnt) s =
     bnd (palloc_from pf s) (\<lambda>(page_phyaddr, s).
     if page_phyaddr = 0 then Inr (False, s)
     else bnd (page_table_add vaddr page_phyaddr s) (map_pages pf (vaddr + PG_SIZE) cnt))"

definition malloc_page :: "pool_flags \<Rightarrow> u32 \<Rightarrow> 'a msys_scheme \<Rightarrow> (u32 \<times> 'a msys_scheme) res" where
  "malloc_page pf pg_cnt s =
     bnd (ASSERT (pg_cnt > 0 \<and> pg_cnt < 3840)) (\<lambda>_.
     bnd (vaddr_get pf pg_cnt s) (\<lambda>(start, s).
     if start = 0 then Inr (0, s)
     else bnd (map_pages pf start (unat pg_cnt) s) (\<lambda>(ok, s).
       if ok then Inr (start, s) else Inr (0, s))))"

definition get_kernel_pages :: "u32 \<Rightarrow> 'a msys_scheme \<Rightarrow> (u32 \<times> 'a msys_scheme) res" where
  "get_kernel_pages pg_cnt s =
     bnd (lock_acquire_now (pool_lock (kernel_pool s)) s) (\<lambda>s.
     bnd (malloc_page PF_KERNEL pg_cnt s) (\<lambda>(vaddr, s).
     bnd (if vaddr \<noteq> 0 then vzero vaddr (unat (pg_cnt * PG_SIZE) div 4) s else Inr s) (\<lambda>s.
     bnd (lock_release_now (pool_lock (kernel_pool s)) s) (\<lambda>s.
     Inr (vaddr, s)))))"

definition get_user_pages :: "u32 \<Rightarrow> 'a msys_scheme \<Rightarrow> (u32 \<times> 'a msys_scheme) res" where
  "get_user_pages pg_cnt s =
     bnd (lock_acquire_now (pool_lock (user_pool s)) s) (\<lambda>s.
     bnd (malloc_page PF_USER pg_cnt s) (\<lambda>(vaddr, s).
     bnd (if vaddr \<noteq> 0 then vzero vaddr (unat (pg_cnt * PG_SIZE) div 4) s else Inr s) (\<lambda>s.
     bnd (lock_release_now (pool_lock (user_pool s)) s) (\<lambda>s.
     Inr (vaddr, s)))))"

text \<open>\<open>ASSERT(bit_idx > 0)\<close> is a signed comparison.\<close>

definition get_a_page :: "pool_flags \<Rightarrow> u32 \<Rightarrow> 'a msys_scheme \<Rightarrow> (u32 \<times> 'a msys_scheme) res" where
  "get_a_page pf vaddr s =
     bnd (lock_acquire_now (pool_lock (the_pool pf s)) s) (\<lambda>s.
     let cur = running_thread s; v = the_vaddr pf s in
     bnd (if pgdir (tasks s cur) \<noteq> 0 \<and> pf = PF_USER \<or> pgdir (tasks s cur) = 0 \<and> pf = PF_KERNEL then
            let bit_idx = (vaddr - vaddr_start v) div PG_SIZE in
            bnd (ASSERT (sint bit_idx > 0)) (\<lambda>_.
            bnd (bitmap_set (vaddr_bitmap v) bit_idx 1) (\<lambda>b. Inr (set_vmap pf b s)))
          else Inl Panic) (\<lambda>s.
     bnd (palloc_from pf s) (\<lambda>(page_phyaddr, s).
     if page_phyaddr = 0 then Inr (0, s)
     else
       bnd (page_table_add vaddr page_phyaddr s) (\<lambda>s.
       bnd (lock_release_now (pool_lock (the_pool pf s)) s) (\<lambda>s.
       Inr (vaddr, s))))))"

definition get_a_page_without_opvaddrbitmap :: "pool_flags \<Rightarrow> u32 \<Rightarrow> 'a msys_scheme \<Rightarrow> (u32 \<times> 'a msys_scheme) res" where
  "get_a_page_without_opvaddrbitmap pf vaddr s =
     bnd (lock_acquire_now (pool_lock (the_pool pf s)) s) (\<lambda>s.
     bnd (palloc_from pf s) (\<lambda>(page_phyaddr, s).
     if page_phyaddr = 0 then
       bnd (lock_release_now (pool_lock (the_pool pf s)) s) (\<lambda>s. Inr (0, s))
     else
       bnd (page_table_add vaddr page_phyaddr s) (\<lambda>s.
       bnd (lock_release_now (pool_lock (the_pool pf s)) s) (\<lambda>s.
       Inr (vaddr, s)))))"

section \<open>Giving memory back\<close>

definition pfree :: "u32 \<Rightarrow> 'a msys_scheme \<Rightarrow> 'a msys_scheme res" where
  "pfree pg_phy_addr s =
     (let pf = (if pg_phy_addr \<ge> phy_addr_start (user_pool s) then PF_USER else PF_KERNEL);
          mem_pool = the_pool pf s;
          bit_idx = (pg_phy_addr - phy_addr_start mem_pool) div PG_SIZE in
      bnd (bitmap_set (pool_bitmap mem_pool) bit_idx 0) (\<lambda>b.
      Inr (set_pool pf (mem_pool\<lparr>pool_bitmap := b\<rparr>) s)))"

definition page_table_pte_remove :: "u32 \<Rightarrow> 'a msys_scheme \<Rightarrow> 'a msys_scheme res" where
  "page_table_pte_remove vaddr s =
     (let pte = pte_ptr vaddr in bnd (vload s pte) (\<lambda>t. vstore pte (t AND NOT PG_P_1) s))"

definition vaddr_remove :: "pool_flags \<Rightarrow> u32 \<Rightarrow> u32 \<Rightarrow> 'a msys_scheme \<Rightarrow> 'a msys_scheme res" where
  "vaddr_remove pf vaddr pg_cnt s =
     (let v = the_vaddr pf s;
          bit_idx_start = (vaddr - vaddr_start v) div PG_SIZE in
      bnd (set_bits bit_idx_start (unat pg_cnt) 0 (vaddr_bitmap v)) (\<lambda>b.
      Inr (set_vmap pf b s)))"

text \<open>The two loops of \<open>mfree_page\<close>; \<open>ok\<close> is the range check of each.\<close>

fun mfree_loop :: "(u32 \<Rightarrow> bool) \<Rightarrow> u32 \<Rightarrow> nat \<Rightarrow> 'a msys_scheme \<Rightarrow> 'a msys_scheme res" where
  "mfree_loop ok vaddr 0 s = Inr s"
| "mfree_loop ok vaddr (Suc n) s =
     (let vaddr = vaddr + PG_SIZE in
      bnd (addr_v2p s vaddr) (\<lambda>pg_phy_addr.
      bnd (ASSERT (pg_phy_addr mod PG_SIZE = 0 \<and> ok pg_phy_addr)) (\<lambda>_.
      bnd (pfree pg_phy_addr s) (\<lambda>s.
      bnd (page_table_pte_remove vaddr s) (\<lambda>s.
      mfree_loop ok vaddr n s)))))"

definition mfree_page :: "pool_flags \<Rightarrow> u32 \<Rightarrow> u32 \<Rightarrow> 'a msys_scheme \<Rightarrow> 'a msys_scheme res" where
  "mfree_page pf vaddr pg_cnt s =
     bnd (ASSERT (pg_cnt \<ge> 1 \<and> vaddr mod PG_SIZE = 0)) (\<lambda>_.
     bnd (addr_v2p s vaddr) (\<lambda>pg_phy_addr.
     bnd (ASSERT (pg_phy_addr mod PG_SIZE = 0 \<and> pg_phy_addr \<ge> 0x102000)) (\<lambda>_.
     if pg_phy_addr \<ge> phy_addr_start (user_pool s) then
       bnd (mfree_loop (\<lambda>p. p \<ge> phy_addr_start (user_pool s)) (vaddr - PG_SIZE) (unat pg_cnt) s)
         (vaddr_remove pf vaddr pg_cnt)
     else
       bnd (mfree_loop (\<lambda>p. p \<ge> phy_addr_start (kernel_pool s) \<and> p < phy_addr_start (user_pool s))
            (vaddr - PG_SIZE) (unat pg_cnt) s)
         (vaddr_remove pf vaddr pg_cnt))))"

end
