(* ===== verification/Paging.thy ===== *)
theory Paging
  imports Memory
begin

text \<open>
  What the page-table functions of memory.c do to the translation of addresses. The kernel
  edits its tables through the last entry of the page directory, which points to the directory
  itself; the lemmas compute where such an address leads.
\<close>

section \<open>Index arithmetic\<close>

lemma unat_drop_bit_u32: "unat (drop_bit n (a :: u32)) = unat a div 2 ^ n"
  by (simp only: unat_drop_bit_eq drop_bit_eq_div [of n "unat a"])

lemma unat_take_bit_u32: "unat (take_bit n (a :: u32)) = unat a mod 2 ^ n"
  by (simp only: unsigned_take_bit_eq take_bit_eq_mod [of n "unat a"])

lemma masks_u32:
  "(0xffc00000 :: u32) = NOT (mask 22)" "(0x003ff000 :: u32) = push_bit 12 (mask 10)"
  "(0xfffff000 :: u32) = NOT (mask 12)" "(0xfff :: u32) = mask 12"
  by (simp_all add: mask_eq_exp_minus_1)

lemma unat_PDE_IDX: "unat (PDE_IDX a) = unat a div 4194304"
proof -
  have "PDE_IDX a = drop_bit 22 a"
    unfolding PDE_IDX_def masks_u32 by (rule bit_word_eqI) (auto simp: bit_simps dest: bit_imp_le_length)
  then show ?thesis by (simp add: unat_drop_bit_u32)
qed

lemma unat_PTE_IDX: "unat (PTE_IDX a) = unat a div 4096 mod 1024"
proof -
  have "PTE_IDX a = take_bit 10 (drop_bit 12 a)"
    unfolding PTE_IDX_def masks_u32 by (rule bit_word_eqI) (auto simp: bit_simps dest: bit_imp_le_length)
  then show ?thesis by (simp add: unat_take_bit_u32 unat_drop_bit_u32)
qed

lemma unat_offset: "unat (a AND 0xfff :: u32) = unat a mod 4096"
proof -
  have "a AND 0xfff = take_bit 12 a"
    unfolding masks_u32 by (simp add: take_bit_eq_mask)
  then show ?thesis by (simp add: unat_take_bit_u32)
qed

lemma unat_frame: "unat (a AND 0xfffff000 :: u32) = unat a div 4096 * 4096"
proof -
  have e: "a AND 0xfffff000 = push_bit 12 (drop_bit 12 a)"
    unfolding masks_u32 by (rule bit_word_eqI) (auto simp: bit_simps dest: bit_imp_le_length)
  have "unat (push_bit 12 (drop_bit 12 a)) = unat (drop_bit 12 a) * 2 ^ 12"
    using unat_less_2p32 [of a]
    by (simp add: push_bit_eq_mult unat_word_ariths unat_drop_bit_u32)
  then show ?thesis unfolding e by (simp add: unat_drop_bit_u32)
qed

lemma idx_less: "unat (PDE_IDX a) < 1024" "unat (PTE_IDX a) < 1024"
  using unat_less_2p32 [of a] by (auto simp: unat_PDE_IDX unat_PTE_IDX)

text \<open>A page-aligned address plus an offset in the page.\<close>

definition aligned :: "u32 \<Rightarrow> bool" where
  "aligned a \<longleftrightarrow> 4096 dvd unat a"

lemma aligned_frame [simp]: "aligned (a AND 0xfffff000)"
  by (simp add: aligned_def unat_frame)

lemma unat_aligned_add:
  assumes "aligned a" and "unat i < 4096"
  shows "unat (a + i) = unat a + unat i"
proof -
  obtain k where k: "unat a = 4096 * k" using assms(1) by (auto simp: aligned_def)
  moreover have "unat a < 4294967296" by (rule unat_less_2p32)
  ultimately have "k < 1048576" by linarith
  then have "4096 * k + unat i < 4294967296" using assms(2) by linarith
  then show ?thesis using k by (subst unat_add_u32) simp_all
qed

lemma unat_idx4: "unat i < 1024 \<Longrightarrow> unat (i * 4 :: u32) = unat i * 4"
  by (subst unat_mult_u32) simp_all

lemma aligned_add_inject:
  assumes "aligned a" "aligned b" "unat i < 4096" "unat j < 4096"
  shows "a + i = b + j \<longleftrightarrow> a = b \<and> i = j"
proof
  assume "a + i = b + j"
  then have e: "unat a + unat i = unat b + unat j" using unat_aligned_add assms by metis
  have "unat a div 4096 = (unat a + unat i) div 4096" "unat b div 4096 = (unat b + unat j) div 4096"
    using assms by (auto simp: aligned_def)
  then have "unat a = unat b" using e assms by (metis aligned_def dvd_div_mult_self)
  with e show "a = b \<and> i = j" by (simp add: word_unat_eq_iff)
qed simp

lemma entry_inject:
  assumes "aligned a" "aligned b" "unat i < 1024" "unat j < 1024"
  shows "a + i * 4 = b + j * 4 \<longleftrightarrow> a = b \<and> i = j"
proof -
  have "unat (i * 4) < 4096" "unat (j * 4) < 4096" using assms by (simp_all add: unat_idx4)
  moreover have "i * 4 = j * 4 \<longleftrightarrow> i = j"
    using assms(3,4) unat_idx4 [of i] unat_idx4 [of j] by (auto simp: word_unat_eq_iff)
  ultimately show ?thesis using aligned_add_inject [OF assms(1,2)] by simp
qed

text \<open>Where the addresses of the two pointer functions lie.\<close>

lemma unat_pte_ptr: "unat (pte_ptr a) = 4290772992 + unat a div 4194304 * 4096 + unat a div 4096 mod 1024 * 4"
proof -
  have d: "unat (drop_bit 10 (a AND 0xffc00000)) = unat a div 4194304 * 4096"
  proof -
    have e: "drop_bit 10 (a AND 0xffc00000) = push_bit 12 (drop_bit 22 a)"
      unfolding masks_u32 by (rule bit_word_eqI) (auto simp: bit_simps dest: bit_imp_le_length)
    have "unat (push_bit 12 (drop_bit 22 a)) = unat (drop_bit 22 a) * 2 ^ 12"
      using unat_less_2p32 [of a] by (simp add: push_bit_eq_mult unat_word_ariths unat_drop_bit_u32)
    then show ?thesis unfolding e by (simp add: unat_drop_bit_u32)
  qed
  have p: "unat a div 4194304 < 1024" using unat_less_2p32 [of a] by auto
  have t: "unat (PTE_IDX a * 4) = unat a div 4096 mod 1024 * 4"
    using idx_less(2) [of a] by (simp add: unat_idx4 unat_PTE_IDX)
  have 1: "unat (0xffc00000 + drop_bit 10 (a AND 0xffc00000)) = 4290772992 + unat a div 4194304 * 4096"
    using p d by (subst unat_add_u32) simp_all
  have "unat a div 4096 mod 1024 < 1024" by simp
  then have "unat (0xffc00000 + drop_bit 10 (a AND 0xffc00000)) + unat (PTE_IDX a * 4) < 2 ^ 32"
    unfolding 1 t using p by simp
  then show ?thesis unfolding pte_ptr_def by (subst unat_add_u32) (simp_all only: 1 t)
qed

lemma unat_pde_ptr: "unat (pde_ptr a) = 4294963200 + unat a div 4194304 * 4"
  using idx_less(1) [of a] unfolding pde_ptr_def
  by (subst unat_add_u32) (simp_all add: unat_idx4 unat_PDE_IDX)

lemma pte_ptr_indices:
  "PDE_IDX (pte_ptr a) = 1023" "PTE_IDX (pte_ptr a) = PDE_IDX a" "pte_ptr a AND 0xfff = PTE_IDX a * 4"
proof -
  have p: "unat a div 4194304 < 1024" using unat_less_2p32 [of a] by auto
  have t: "unat a div 4096 mod 1024 < 1024" by simp
  have u: "unat (pte_ptr a) = 4096 * (1047552 + unat a div 4194304) + unat a div 4096 mod 1024 * 4"
    by (simp add: unat_pte_ptr)
  have m: "unat (pte_ptr a) mod 4096 = unat a div 4096 mod 1024 * 4"
    unfolding u mod_mult_self4 using t by simp
  have d: "unat (pte_ptr a) div 4096 = 1047552 + unat a div 4194304"
    unfolding u using t by (subst div_mult_self4) simp_all
  have "unat (pte_ptr a) div 4194304 = 1023"
    using d p div_mult2_eq [of "unat (pte_ptr a)" 4096 1024] by simp
  then show "PDE_IDX (pte_ptr a) = 1023" by (simp add: word_unat_eq_iff unat_PDE_IDX)
  show "PTE_IDX (pte_ptr a) = PDE_IDX a"
    using p mod_mult_self4 [of 1024 1023 "unat a div 4194304"]
    by (simp add: word_unat_eq_iff unat_PDE_IDX unat_PTE_IDX d)
  show "pte_ptr a AND 0xfff = PTE_IDX a * 4"
    using m idx_less(2) [of a] by (simp add: word_unat_eq_iff unat_offset unat_idx4 unat_PTE_IDX)
qed

lemma pde_ptr_indices:
  "PDE_IDX (pde_ptr a) = 1023" "PTE_IDX (pde_ptr a) = 1023" "pde_ptr a AND 0xfff = PDE_IDX a * 4"
proof -
  have p: "unat a div 4194304 < 1024" using unat_less_2p32 [of a] by auto
  have u: "unat (pde_ptr a) = 4096 * 1048575 + unat a div 4194304 * 4" by (simp add: unat_pde_ptr)
  have m: "unat (pde_ptr a) mod 4096 = unat a div 4194304 * 4"
    unfolding u mod_mult_self4 using p by simp
  have d: "unat (pde_ptr a) div 4096 = 1048575"
    unfolding u using p by (subst div_mult_self4) simp_all
  have "unat (pde_ptr a) div 4194304 = 1023"
    using d div_mult2_eq [of "unat (pde_ptr a)" 4096 1024] by simp
  then show "PDE_IDX (pde_ptr a) = 1023" by (simp add: word_unat_eq_iff unat_PDE_IDX)
  show "PTE_IDX (pde_ptr a) = 1023" by (simp add: word_unat_eq_iff unat_PTE_IDX d)
  show "pde_ptr a AND 0xfff = PDE_IDX a * 4"
    using m idx_less(1) [of a] by (simp add: word_unat_eq_iff unat_offset unat_idx4 unat_PDE_IDX)
qed


section \<open>Translation\<close>

definition pde_of :: "'a msys_scheme \<Rightarrow> u32 \<Rightarrow> u32" where
  "pde_of s a = pmem s (cr3 s + PDE_IDX a * 4)"

definition present :: "'a msys_scheme \<Rightarrow> u32 \<Rightarrow> bool" where
  "present s a \<longleftrightarrow> pde_of s a AND 1 \<noteq> 0"

definition table_of :: "'a msys_scheme \<Rightarrow> u32 \<Rightarrow> u32" where
  "table_of s a = pde_of s a AND 0xfffff000"

definition pte_of :: "'a msys_scheme \<Rightarrow> u32 \<Rightarrow> u32" where
  "pte_of s a = pmem s (table_of s a + PTE_IDX a * 4)"

lemma walk_eq:
  "walk s a = (if present s a \<and> pte_of s a AND 1 \<noteq> 0 then Inr ((pte_of s a AND 0xfffff000) + (a AND 0xfff)) else Inl Fault)"
  by (simp add: walk_def present_def pte_of_def table_of_def pde_of_def Let_def)

lemma aligned_table [simp]: "aligned (table_of s a)"
  by (simp add: table_of_def)

text \<open>The last entry of the directory points to the directory.\<close>

definition self_mapped :: "'a msys_scheme \<Rightarrow> bool" where
  "self_mapped s \<longleftrightarrow> aligned (cr3 s) \<and> pmem s (cr3 s + 1023 * 4) AND 1 \<noteq> 0 \<and>
     pmem s (cr3 s + 1023 * 4) AND 0xfffff000 = cr3 s"

lemma walk_pde_ptr: "self_mapped s \<Longrightarrow> walk s (pde_ptr a) = Inr (cr3 s + PDE_IDX a * 4)"
  by (simp add: self_mapped_def walk_eq present_def pte_of_def table_of_def pde_of_def pde_ptr_indices)

lemma walk_pte_ptr:
  "self_mapped s \<Longrightarrow> walk s (pte_ptr a) = (if present s a then Inr (table_of s a + PTE_IDX a * 4) else Inl Fault)"
  by (simp add: self_mapped_def walk_eq present_def pte_of_def table_of_def pde_of_def pte_ptr_indices)

lemma addr_v2p_walk: "self_mapped s \<Longrightarrow> walk s a = Inr pa \<Longrightarrow> addr_v2p s a = Inr pa"
proof -
  assume a: "self_mapped s" "walk s a = Inr pa"
  then have "present s a" "pa = (pte_of s a AND 0xfffff000) + (a AND 0xfff)" by (auto simp: walk_eq split: if_splits)
  with a(1) show ?thesis by (simp add: addr_v2p_def vload_def walk_pte_ptr pte_of_def)
qed

lemma page_offset:
  assumes "aligned va" "unat i < 4096"
  shows "PDE_IDX (va + i) = PDE_IDX va" "PTE_IDX (va + i) = PTE_IDX va" "(va + i) AND 0xfff = i"
proof -
  obtain k where k: "unat va = 4096 * k" using assms(1) by (auto simp: aligned_def)
  have u: "unat (va + i) = 4096 * k + unat i" using unat_aligned_add [OF assms] k by simp
  have d: "unat (va + i) div 4096 = unat va div 4096" and m: "unat (va + i) mod 4096 = unat i"
    unfolding u k using assms(2) by simp_all
  have "unat (va + i) div 4194304 = unat va div 4194304"
    using d div_mult2_eq [of "unat (va + i)" 4096 1024] div_mult2_eq [of "unat va" 4096 1024] by simp
  with d m show "PDE_IDX (va + i) = PDE_IDX va" "PTE_IDX (va + i) = PTE_IDX va" "(va + i) AND 0xfff = i"
    by (simp_all add: word_unat_eq_iff unat_PDE_IDX unat_PTE_IDX unat_offset)
qed

lemma aligned_offset_0: "aligned va \<Longrightarrow> va AND 0xfff = 0"
  using page_offset(3) [of va 0] by simp

lemma walk_offset:
  assumes "aligned va" "unat i < 4096" "walk s va = Inr f"
  shows "walk s (va + i) = Inr (f + i)"
  using assms(3) page_offset [OF assms(1,2)] aligned_offset_0 [OF assms(1)]
  by (auto simp: walk_eq present_def pte_of_def table_of_def pde_of_def split: if_splits)

text \<open>The words of a frame.\<close>

definition frame :: "u32 \<Rightarrow> u32 set" where
  "frame f = {f + of_nat i * 4 | i. i < 1024}"

lemma frame_entry: "aligned f \<Longrightarrow> aligned g \<Longrightarrow> unat i < 1024 \<Longrightarrow> g + i * 4 \<in> frame f \<longleftrightarrow> g = f"
proof
  assume a: "aligned f" "aligned g" "unat i < 1024"
  show "g = f" if "g + i * 4 \<in> frame f"
  proof -
    from that obtain j where "g + i * 4 = f + of_nat j * 4" "j < 1024" by (auto simp: frame_def)
    with entry_inject [OF a(2,1) a(3), of "of_nat j"] show ?thesis by simp
  qed
next
  assume a: "aligned f" "aligned g" "unat i < 1024"
  assume "g = f"
  then have "g + i * 4 = f + of_nat (unat i) * 4" by simp
  with a(3) show "g + i * 4 \<in> frame f" unfolding frame_def by blast
qed

lemma ex_range_Suc: "(\<exists>i. k \<le> i \<and> i < k + Suc n \<and> P i) \<longleftrightarrow> P k \<or> (\<exists>i. Suc k \<le> i \<and> i < Suc k + n \<and> P i)"
proof
  assume "\<exists>i. k \<le> i \<and> i < k + Suc n \<and> P i"
  then obtain i where "k \<le> i" "i < k + Suc n" "P i" by blast
  then show "P k \<or> (\<exists>i. Suc k \<le> i \<and> i < Suc k + n \<and> P i)" by (cases "i = k") auto
next
  assume "P k \<or> (\<exists>i. Suc k \<le> i \<and> i < Suc k + n \<and> P i)"
  then show "\<exists>i. k \<le> i \<and> i < k + Suc n \<and> P i"
  proof
    show "\<exists>i. Suc k \<le> i \<and> i < Suc k + n \<and> P i \<Longrightarrow> ?thesis" by (metis Suc_leD add_Suc add_Suc_right)
  qed (auto intro!: exI [of _ k])
qed

lemma if_either: "(if C then a else if B then a else m) = (if B \<or> C then a else m)"
  by simp

lemma vzero_loop:
  assumes "aligned va" "walk s va = Inr f" "aligned f"
    and "cr3 s + PDE_IDX va * 4 \<notin> frame f" "table_of s va + PTE_IDX va * 4 \<notin> frame f" "k + n \<le> 1024"
  shows "vzero (va + of_nat k * 4) n s = Inr (s\<lparr>pmem := (\<lambda>x. if \<exists>i. k \<le> i \<and> i < k + n \<and> x = f + of_nat i * 4
    then 0 else pmem s x)\<rparr>)"
  using assms
proof (induction n arbitrary: k s)
  case (Suc n)
  let ?i = "of_nat k :: u32"
  let ?s1 = "s\<lparr>pmem := (pmem s)(f + ?i * 4 := 0)\<rparr>"
  have k: "k < 1024" using Suc.prems by simp
  then have i: "unat (?i * 4) < 4096" by (simp add: unat_idx4)
  have st: "vstore (va + ?i * 4) 0 s = Inr ?s1"
    using walk_offset [OF Suc.prems(1) i Suc.prems(2)] by (simp add: vstore_def)
  have mem: "f + ?i * 4 \<in> frame f" unfolding frame_def using k by blast
  then have same: "pde_of ?s1 va = pde_of s va" "pte_of ?s1 va = pte_of s va" "table_of ?s1 va = table_of s va"
    using Suc.prems(4,5) by (auto simp: pde_of_def pte_of_def table_of_def)
  then have w: "walk ?s1 va = Inr f" using Suc.prems(2) by (simp add: walk_eq present_def split: if_splits)
  have e: "va + ?i * 4 + 4 = va + of_nat (Suc k) * 4" by (simp add: algebra_simps)
  have ih: "vzero (va + of_nat (Suc k) * 4) n ?s1 = Inr (?s1\<lparr>pmem := (\<lambda>x. if \<exists>i. Suc k \<le> i \<and> i < Suc k + n \<and>
      x = f + of_nat i * 4 then 0 else pmem ?s1 x)\<rparr>)"
    by (rule Suc.IH) (use Suc.prems w same in \<open>simp_all\<close>)
  have fe: "(\<lambda>x. if \<exists>i. Suc k \<le> i \<and> i < Suc k + n \<and> x = f + of_nat i * 4 then 0 else pmem ?s1 x) =
      (\<lambda>x. if \<exists>i. k \<le> i \<and> i < k + Suc n \<and> x = f + of_nat i * 4 then 0 else pmem s x)"
  proof (rule ext)
    fix x
    note ex = ex_range_Suc [of k n "\<lambda>i. x = f + of_nat i * 4"]
    have w: "pmem ?s1 x = (if x = f + ?i * 4 then 0 else pmem s x)" by simp
    show "(if \<exists>i. Suc k \<le> i \<and> i < Suc k + n \<and> x = f + of_nat i * 4 then 0 else pmem ?s1 x) =
      (if \<exists>i. k \<le> i \<and> i < k + Suc n \<and> x = f + of_nat i * 4 then 0 else pmem s x)"
      unfolding ex w by (rule if_either)
  qed
  show ?case unfolding vzero.simps st bnd_Inr e ih fe by simp
next
  case (0 k s)
  have "(\<exists>i. k \<le> i \<and> i < k + 0 \<and> P i) = False" for P by auto
  then show ?case by (simp only: vzero.simps if_False) simp
qed

lemma vzero_page:
  assumes "aligned va" "walk s va = Inr f" "aligned f"
    and "cr3 s + PDE_IDX va * 4 \<notin> frame f" "table_of s va + PTE_IDX va * 4 \<notin> frame f"
  shows "vzero va 1024 s = Inr (s\<lparr>pmem := (\<lambda>x. if x \<in> frame f then 0 else pmem s x)\<rparr>)"
proof -
  have "(\<exists>i. i < 1024 \<and> x = f + of_nat i * 4) \<longleftrightarrow> x \<in> frame f" for x by (auto simp: frame_def)
  then show ?thesis using vzero_loop [OF assms, of 0 1024] by simp
qed


section \<open>Adding and removing a page\<close>

definition same_page :: "u32 \<Rightarrow> u32 \<Rightarrow> bool" where
  "same_page u v \<longleftrightarrow> PDE_IDX u = PDE_IDX v \<and> PTE_IDX u = PTE_IDX v"

text \<open>The tables of a directory lie outside of it.\<close>

definition tables_ok :: "'a msys_scheme \<Rightarrow> bool" where
  "tables_ok s \<longleftrightarrow> self_mapped s \<and> (\<forall>a. present s a \<and> PDE_IDX a \<noteq> 1023 \<longrightarrow> table_of s a \<noteq> cr3 s)"

text \<open>\<open>u\<close> is translated by the same entry of the same table as \<open>v\<close>: it is on the same page, or its
  directory entry points to the same table (the entries 0 and 768 that the loader makes do).\<close>

definition aliases :: "'a msys_scheme \<Rightarrow> u32 \<Rightarrow> u32 \<Rightarrow> bool" where
  "aliases s u v \<longleftrightarrow> PTE_IDX u = PTE_IDX v \<and>
     (PDE_IDX u = PDE_IDX v \<or> present s u \<and> present s v \<and> table_of s u = table_of s v)"

definition fresh_frame :: "'a msys_scheme \<Rightarrow> u32 \<Rightarrow> bool" where
  "fresh_frame s f \<longleftrightarrow> aligned f \<and> f \<noteq> cr3 s \<and> (\<forall>a. present s a \<longrightarrow> table_of s a \<noteq> f)"

lemma pde_same: "PDE_IDX u = PDE_IDX v \<Longrightarrow> pde_of s u = pde_of s v \<and> present s u = present s v \<and> table_of s u = table_of s v"
  by (simp add: pde_of_def present_def table_of_def)

lemma flags_page:
  assumes "aligned p"
  shows "(p OR PG_US_U OR PG_RW_W OR PG_P_1) AND 1 \<noteq> 0"
    and "(p OR PG_US_U OR PG_RW_W OR PG_P_1) AND 0xfffff000 = p"
proof -
  have "p AND 0xfffff000 = p" using assms by (simp add: word_unat_eq_iff unat_frame aligned_def)
  then have low: "\<not> bit p n" if "n < 12" for n
    by (metis that masks_u32(3) bit_and_iff bit_not_iff bit_mask_iff)
  have f: "PG_US_U OR PG_RW_W OR PG_P_1 = (mask 3 :: u32)"
    by (simp add: PG_US_U_def PG_RW_W_def PG_P_1_def mask_eq_exp_minus_1)
  have r: "p OR PG_US_U OR PG_RW_W OR PG_P_1 = p OR mask 3" using f by (simp add: or.assoc)
  show "(p OR PG_US_U OR PG_RW_W OR PG_P_1) AND 1 \<noteq> 0"
  proof -
    have "odd (p OR mask 3)" by (simp add: even_or_iff mask_eq_exp_minus_1)
    then have "(p OR mask 3) mod 2 = 1" using odd_iff_mod_2_eq_one by blast
    then show ?thesis unfolding r and_one_eq by simp
  qed
  show "(p OR PG_US_U OR PG_RW_W OR PG_P_1) AND 0xfffff000 = p"
    unfolding r masks_u32(3) by (rule bit_word_eqI) (use low in \<open>auto simp: bit_simps\<close>)
qed

text \<open>Writing the entry of \<open>v\<close> in its table changes the translation of the page of \<open>v\<close> alone.\<close>

lemma write_pte:
  fixes s :: "'a msys_scheme" and w :: u32
  assumes "tables_ok s" "present s v" "PDE_IDX v \<noteq> 1023"
  defines "s' \<equiv> s\<lparr>pmem := (pmem s)(table_of s v + PTE_IDX v * 4 := w)\<rparr>"
  shows "tables_ok s'" and "pde_of s' u = pde_of s u" and "present s' u = present s u"
    and "table_of s' u = table_of s u" and "aliases s' u v = aliases s u v"
    and "present s u \<Longrightarrow> pte_of s' u = (if aliases s u v then w else pte_of s u)"
proof -
  have ac: "aligned (cr3 s)" using assms(1) by (simp add: tables_ok_def self_mapped_def)
  have ne: "table_of s v \<noteq> cr3 s" using assms by (simp add: tables_ok_def)
  have pd: "cr3 s + i * 4 \<noteq> table_of s v + PTE_IDX v * 4" if "unat i < 1024" for i
    using entry_inject [OF ac aligned_table [of s v] that idx_less(2) [of v]] ne by simp
  have pde: "pde_of s' u = pde_of s u" for u
    using pd [OF idx_less(1), of u] by (simp add: pde_of_def s'_def)
  then show "pde_of s' u = pde_of s u" "present s' u = present s u" "table_of s' u = table_of s u"
    by (simp_all add: present_def table_of_def)
  have pr: "present s' u = present s u" "table_of s' u = table_of s u" for u
    using pde by (simp_all add: present_def table_of_def)
  show "aliases s' u v = aliases s u v" by (simp add: aliases_def pr)
  have "pmem s' (cr3 s + 1023 * 4) = pmem s (cr3 s + 1023 * 4)" using pd [of 1023] by (simp add: s'_def)
  then show "tables_ok s'" using assms(1) by (simp add: tables_ok_def self_mapped_def pr) (simp add: s'_def)
  have pm: "pmem s' = (pmem s)(table_of s v + PTE_IDX v * 4 := w)" by (simp add: s'_def)
  have "pte_of s' u = (if table_of s u = table_of s v \<and> PTE_IDX u = PTE_IDX v then w else pte_of s u)"
    unfolding pte_of_def pr pm fun_upd_apply
      entry_inject [OF aligned_table [of s u] aligned_table [of s v] idx_less(2) [of u] idx_less(2) [of v]]
    by (rule refl)
  moreover have "aliases s u v \<longleftrightarrow> table_of s u = table_of s v \<and> PTE_IDX u = PTE_IDX v" if "present s u"
    using that assms(2) pde_same [of u v s] unfolding aliases_def by blast
  ultimately show "present s u \<Longrightarrow> pte_of s' u = (if aliases s u v then w else pte_of s u)"
    by simp
qed


lemma page_flags: "p OR PG_US_U OR PG_RW_W OR PG_P_1 = p OR (PG_US_U OR (PG_RW_W OR PG_P_1))"
  by (simp add: or.assoc)

text \<open>The first case of \<open>page_table_add\<close>: the table exists.\<close>

lemma add_present:
  assumes "tables_ok s" "present s v" "PDE_IDX v \<noteq> 1023" "walk s v = Inl Fault"
  shows "page_table_add v p s =
    Inr (s\<lparr>pmem := (pmem s)(table_of s v + PTE_IDX v * 4 := p OR PG_US_U OR PG_RW_W OR PG_P_1)\<rparr>)"
proof -
  have sm: "self_mapped s" using assms(1) by (simp add: tables_ok_def)
  have "pte_of s v AND 1 = 0" using assms(2,4) by (simp add: walk_eq split: if_splits)
  then show ?thesis using assms(2) walk_pde_ptr [OF sm, of v] walk_pte_ptr [OF sm, of v]
    by (simp add: page_table_add_def vload_def vstore_def present_def pde_of_def pte_of_def)
qed

text \<open>The second case: a new table.\<close>

lemma palloc_from_fields:
  assumes "palloc_from pf s = Inr (f, s1)"
  shows "pmem s1 = pmem s" "cr3 s1 = cr3 s" "tasks s1 = tasks s" "running_thread s1 = running_thread s"
    "locks s1 = locks s" "semas s1 = semas s" "descs s1 = descs s" "eflags s1 = eflags s"
    "kernel_vaddr s1 = kernel_vaddr s" "userprog_vaddr s1 = userprog_vaddr s"
  using assms by (auto simp: palloc_from_def set_pool_def res_simps split: if_splits)

lemma translation_same:
  assumes "pmem s1 = pmem s" "cr3 s1 = cr3 s"
  shows "pde_of s1 = pde_of s" "present s1 = present s" "table_of s1 = table_of s" "pte_of s1 = pte_of s"
    "walk s1 = walk s" "self_mapped s1 = self_mapped s" "tables_ok s1 = tables_ok s" "aliases s1 = aliases s"
    "fresh_frame s1 = fresh_frame s"
proof -
  show 1: "pde_of s1 = pde_of s" using assms by (simp add: pde_of_def fun_eq_iff)
  then show 2: "present s1 = present s" "table_of s1 = table_of s" by (simp_all add: present_def table_of_def fun_eq_iff)
  then show 3: "pte_of s1 = pte_of s" using assms by (simp add: pte_of_def fun_eq_iff)
  show "walk s1 = walk s" using 2 3 by (simp add: walk_eq fun_eq_iff)
  show "self_mapped s1 = self_mapped s" using assms by (simp add: self_mapped_def)
  then show "tables_ok s1 = tables_ok s" using 2 assms by (simp add: tables_ok_def)
  show "aliases s1 = aliases s" using 2 by (simp add: aliases_def fun_eq_iff)
  show "fresh_frame s1 = fresh_frame s" using 2 assms by (simp add: fresh_frame_def fun_eq_iff)
qed

text \<open>The directory entry of \<open>v\<close> set to the frame \<open>f\<close>, and \<open>f\<close> filled with zeros.\<close>

definition with_table :: "u32 \<Rightarrow> u32 \<Rightarrow> 'a msys_scheme \<Rightarrow> 'a msys_scheme" where
  "with_table v f s = s\<lparr>pmem := (\<lambda>x. if x \<in> frame f then 0
     else ((pmem s)(cr3 s + PDE_IDX v * 4 := f OR PG_US_U OR PG_RW_W OR PG_P_1)) x)\<rparr>"

lemma with_table_facts:
  assumes "tables_ok s" "\<not> present s v" "PDE_IDX v \<noteq> 1023" "fresh_frame s f"
  shows "pde_of (with_table v f s) u = (if PDE_IDX u = PDE_IDX v then f OR PG_US_U OR PG_RW_W OR PG_P_1 else pde_of s u)"
    and "present (with_table v f s) u = (PDE_IDX u = PDE_IDX v \<or> present s u)"
    and "table_of (with_table v f s) u = (if PDE_IDX u = PDE_IDX v then f else table_of s u)"
    and "tables_ok (with_table v f s)" and "aliases (with_table v f s) u v \<longleftrightarrow> same_page u v"
    and "PDE_IDX u \<noteq> 1023 \<Longrightarrow> walk (with_table v f s) u = walk s u"
proof -
  let ?s = "with_table v f s"
  have ac: "aligned (cr3 s)" and af: "aligned f" and ne: "f \<noteq> cr3 s"
    using assms by (simp_all add: tables_ok_def self_mapped_def fresh_frame_def)
  have nf: "cr3 s + i * 4 \<notin> frame f" if "unat i < 1024" for i
    using frame_entry [OF af ac that] ne by simp
  have c: "cr3 ?s = cr3 s" by (simp add: with_table_def)
  have pd: "pmem ?s (cr3 s + i * 4) = (if i = PDE_IDX v then f OR PG_US_U OR PG_RW_W OR PG_P_1 else pmem s (cr3 s + i * 4))"
    if "unat i < 1024" for i
    using nf [OF that] entry_inject [OF ac ac that idx_less(1) [of v]] by (simp add: with_table_def)
  show pde: "pde_of ?s u = (if PDE_IDX u = PDE_IDX v then f OR PG_US_U OR PG_RW_W OR PG_P_1 else pde_of s u)" for u
    unfolding pde_of_def c pd [OF idx_less(1)] by (rule refl)
  show pr: "present ?s u = (PDE_IDX u = PDE_IDX v \<or> present s u)" for u
    using flags_page(1) [OF af] by (simp add: present_def pde)
  show tb: "table_of ?s u = (if PDE_IDX u = PDE_IDX v then f else table_of s u)" for u
    using flags_page(2) [OF af] by (simp add: table_of_def pde)
  have i1023: "unat (1023 :: u32) < 1024" by simp
  show "tables_ok ?s"
    using assms(1,3) ne pd [OF i1023] unfolding tables_ok_def self_mapped_def c by (auto simp: pr tb)
  show "aliases ?s u v \<longleftrightarrow> same_page u v"
    using assms(4) by (auto simp: aliases_def same_page_def pr tb fresh_frame_def)
  have pt: "pte_of ?s u = 0" if "PDE_IDX u = PDE_IDX v" for u
    using that frame_entry [OF af af idx_less(2) [of u]] by (simp add: pte_of_def tb) (simp add: with_table_def)
  have pt': "pte_of ?s u = pte_of s u" if "PDE_IDX u \<noteq> PDE_IDX v" "present s u" "PDE_IDX u \<noteq> 1023" for u
  proof -
    have "table_of s u \<noteq> f" using assms(4) that(2) by (auto simp: fresh_frame_def)
    then have n: "table_of s u + PTE_IDX u * 4 \<notin> frame f"
      using frame_entry [OF af aligned_table [of s u] idx_less(2) [of u]] by simp
    have "table_of s u \<noteq> cr3 s" using assms(1) that by (simp add: tables_ok_def)
    then have "table_of s u + PTE_IDX u * 4 \<noteq> cr3 s + PDE_IDX v * 4"
      using entry_inject [OF aligned_table [of s u] ac idx_less(2) [of u] idx_less(1) [of v]] by simp
    then show ?thesis using n that(1) by (simp add: pte_of_def tb) (simp add: with_table_def)
  qed
  show "PDE_IDX u \<noteq> 1023 \<Longrightarrow> walk ?s u = walk s u"
    using pt pt' assms(2) pde_same [of u v s] by (cases "PDE_IDX u = PDE_IDX v") (auto simp: walk_eq pr)
qed


lemma add_absent:
  assumes "tables_ok s" "\<not> present s v" "PDE_IDX v \<noteq> 1023"
    and "palloc_from PF_KERNEL s = Inr (f, s1)" "fresh_frame s f"
  shows "page_table_add v p s = page_table_add v p (with_table v f s1)"
    and "page_table_add v p s = Inr ((with_table v f s1)\<lparr>pmem := (pmem (with_table v f s1))(f + PTE_IDX v * 4 :=
      p OR PG_US_U OR PG_RW_W OR PG_P_1)\<rparr>)"
proof -
  note same = translation_same [OF palloc_from_fields(1,2) [OF assms(4)]]
  have t1: "tables_ok s1" "\<not> present s1 v" "fresh_frame s1 f" "self_mapped s1"
    using assms same by (simp_all add: tables_ok_def)
  let ?e = "f OR PG_US_U OR PG_RW_W OR PG_P_1"
  let ?s2 = "s1\<lparr>pmem := (pmem s1)(cr3 s1 + PDE_IDX v * 4 := ?e)\<rparr>"
  let ?s3 = "with_table v f s1"
  have af: "aligned f" and ne: "f \<noteq> cr3 s1" and ac: "aligned (cr3 s1)"
    using t1 by (simp_all add: fresh_frame_def self_mapped_def)
  have c1: "cr3 s1 + 1023 * 4 \<noteq> cr3 s1 + PDE_IDX v * 4"
    using entry_inject [OF ac ac _ idx_less(1), of 1023 v] assms(3) by simp
  have sm2: "self_mapped ?s2" using t1(4) c1 by (simp add: self_mapped_def)
  have e2: "pde_of ?s2 v = ?e" by (simp add: pde_of_def)
  have p2: "present ?s2 v" "table_of ?s2 v = f"
    unfolding present_def table_of_def e2 using flags_page [OF af] by simp_all
  let ?w = "pte_ptr v AND 0xfffff000"
  have u: "unat (pte_ptr v) = unat ?w + unat (pte_ptr v AND 0xfff)"
    by (simp add: unat_frame unat_offset)
  then have pw: "pte_ptr v = ?w + (pte_ptr v AND 0xfff)"
    using unat_aligned_add [OF aligned_frame, of "pte_ptr v AND 0xfff" "pte_ptr v"] by (simp add: word_unat_eq_iff unat_offset)
  have o4: "unat (pte_ptr v AND 0xfff) < 4096" by (simp add: unat_offset)
  have ix: "PDE_IDX ?w = 1023" "PTE_IDX ?w = PDE_IDX v"
    using page_offset(1,2) [OF aligned_frame o4, of "pte_ptr v", folded pw] pte_ptr_indices [of v] by simp_all
  have selfe: "pmem ?s2 (cr3 s1 + 1023 * 4) AND 0xfffff000 = cr3 s1" "pmem ?s2 (cr3 s1 + 1023 * 4) AND 1 \<noteq> 0"
    using sm2 by (simp_all add: self_mapped_def)
  have w: "walk ?s2 ?w = Inr f"
    using selfe flags_page [OF af] aligned_offset_0 [OF aligned_frame, of "pte_ptr v"]
    by (simp add: walk_eq present_def pte_of_def table_of_def pde_of_def ix)
  have tw: "table_of ?s2 ?w = cr3 s1"
    using selfe by (simp add: table_of_def pde_of_def ix)
  have i1023: "unat (1023 :: u32) < 1024" by simp
  have nf: "cr3 ?s2 + PDE_IDX ?w * 4 \<notin> frame f" "table_of ?s2 ?w + PTE_IDX ?w * 4 \<notin> frame f"
    unfolding tw ix using frame_entry [OF af ac i1023] frame_entry [OF af ac idx_less(1) [of v]] ne by simp_all
  have vz: "vzero ?w 1024 ?s2 = Inr ?s3"
  proof -
    have e: "pmem ?s2 = (pmem s1)(cr3 s1 + PDE_IDX v * 4 := ?e)" by simp
    show ?thesis using vzero_page [OF aligned_frame w af nf] unfolding e with_table_def by simp
  qed
  note wt = with_table_facts [OF t1(1,2) assms(3) t1(3)]
  have sm3: "self_mapped ?s3" using wt(4) by (simp add: tables_ok_def)
  have p3: "present ?s3 v" "table_of ?s3 v = f" by (simp_all add: wt)
  have z: "pmem ?s3 (f + PTE_IDX v * 4) = 0"
    using frame_entry [OF af af idx_less(2) [of v]] by (simp add: with_table_def)
  have ld: "vload s (pde_ptr v) = Inr (pde_of s v)"
    using walk_pde_ptr [of s v] assms(1) by (simp add: vload_def pde_of_def tables_ok_def)
  have st: "vstore (pde_ptr v) ?e s1 = Inr ?s2"
    using walk_pde_ptr [OF t1(4), of v] by (simp add: vstore_def)
  have l3: "vload ?s3 (pte_ptr v) = Inr 0"
    using walk_pte_ptr [OF sm3, of v] p3 z by (simp add: vload_def)
  have s3: "vstore (pte_ptr v) x ?s3 = Inr (?s3\<lparr>pmem := (pmem ?s3)(f + PTE_IDX v * 4 := x)\<rparr>)" for x
    using walk_pte_ptr [OF sm3, of v] p3 by (simp add: vstore_def)
  show r: "page_table_add v p s = Inr (?s3\<lparr>pmem := (pmem ?s3)(f + PTE_IDX v * 4 :=
      p OR PG_US_U OR PG_RW_W OR PG_P_1)\<rparr>)"
    using assms(2,4) ld st vz l3 s3 by (simp add: page_table_add_def present_def)
  have "walk ?s3 v = Inl Fault" using p3 z by (simp add: walk_eq pte_of_def)
  from add_present [OF wt(4) p3(1) assms(3) this]
  show "page_table_add v p s = page_table_add v p ?s3" by (simp add: r p3(2))
qed

lemma aliases_self [simp]: "aliases s v v"
  by (simp add: aliases_def)

lemma aliases_present: "aliases s u v \<Longrightarrow> present s u \<longleftrightarrow> present s v"
  using pde_same [of u v s] by (auto simp: aliases_def)

lemma aliases_fault: "aliases s u v \<Longrightarrow> walk s u = Inl Fault \<longleftrightarrow> walk s v = Inl Fault"
  using pde_same [of u v s] by (auto simp: aliases_def walk_eq pte_of_def)

lemma add_walk:
  assumes "tables_ok s" "present s v" "PDE_IDX v \<noteq> 1023" "walk s v = Inl Fault" "aligned p"
    and "page_table_add v p s = Inr s'"
  shows "tables_ok s'" and "present s' u = present s u" and "aliases s' u v = aliases s u v"
    and "walk s' u = (if aliases s u v then Inr (p + (u AND 0xfff)) else walk s u)"
    and "table_of s' u = table_of s u"
proof -
  let ?e = "p OR PG_US_U OR PG_RW_W OR PG_P_1"
  have s': "s' = s\<lparr>pmem := (pmem s)(table_of s v + PTE_IDX v * 4 := ?e)\<rparr>"
    using add_present [OF assms(1-4)] assms(6) by simp
  note w = write_pte [OF assms(1-3), where w = ?e, folded s']
  show "tables_ok s'" "present s' u = present s u" "aliases s' u v = aliases s u v" "table_of s' u = table_of s u"
    by (rule w)+
  show "walk s' u = (if aliases s u v then Inr (p + (u AND 0xfff)) else walk s u)"
    using w(3) [of u] w(6) [of u] flags_page [OF assms(5)]
    aliases_present [of s u v] assms(2)
    by (cases "present s u"; cases "aliases s u v") (simp_all add: walk_eq)
qed

lemma page_table_add_ok:
  assumes "tables_ok s" "PDE_IDX v \<noteq> 1023" "walk s v = Inl Fault" "aligned p"
    and "\<not> present s v \<Longrightarrow> \<exists>f s1. palloc_from PF_KERNEL s = Inr (f, s1) \<and> fresh_frame s f"
  shows "\<exists>s'. page_table_add v p s = Inr s' \<and> tables_ok s' \<and> (\<forall>u. aliases s' u v = aliases s u v) \<and>
    addr_v2p s' v = Inr (p + (v AND 0xfff)) \<and>
    (\<forall>u. PDE_IDX u \<noteq> 1023 \<longrightarrow> walk s' u = (if aliases s u v then Inr (p + (u AND 0xfff)) else walk s u))"
proof -
  have v2p: "addr_v2p s' v = Inr (p + (v AND 0xfff))" if "tables_ok s'" "walk s' v = Inr (p + (v AND 0xfff))"
    for s' :: "'a msys_scheme"
    using that addr_v2p_walk [of s' v] by (simp add: tables_ok_def)
  show ?thesis
  proof (cases "present s v")
    case True
    obtain s' where s': "page_table_add v p s = Inr s'"
      using add_present [OF assms(1) True assms(2,3)] by blast
    note w = add_walk [OF assms(1) True assms(2-4) s']
    have "walk s' v = Inr (p + (v AND 0xfff))" using w(4) [of v] by simp
    with s' w(1,3,4) v2p [OF w(1)] show ?thesis by blast
  next
    case False
    from assms(5) [OF this] obtain f s1 where f: "palloc_from PF_KERNEL s = Inr (f, s1)" "fresh_frame s f" by blast
    note same = translation_same [OF palloc_from_fields(1,2) [OF f(1)]]
    have t1: "tables_ok s1" "\<not> present s1 v" "fresh_frame s1 f" using assms(1) False f(2) same by simp_all
    note wt = with_table_facts [OF t1(1,2) assms(2) t1(3)]
    let ?s1 = "with_table v f s1"
    have w3: "walk ?s1 v = Inl Fault" using wt(6) [OF assms(2)] assms(3) same by simp
    have p3: "present ?s1 v" by (simp add: wt)
    note r = add_absent [OF assms(1) False assms(2) f, of p]
    obtain s' where s': "page_table_add v p ?s1 = Inr s'"
      using add_present [OF wt(4) p3 assms(2) w3] by blast
    note w = add_walk [OF wt(4) p3 assms(2) w3 assms(4) s']
    have a: "aliases ?s1 u v = aliases s u v" for u
      using wt(5) [of u] False by (auto simp: aliases_def same_page_def)
    have u: "walk s' u = (if aliases s u v then Inr (p + (u AND 0xfff)) else walk s u)" if "PDE_IDX u \<noteq> 1023" for u
      using w(4) [of u] wt(6) [OF that] same a by simp
    moreover have "walk s' v = Inr (p + (v AND 0xfff))" using u [OF assms(2)] by simp
    ultimately show ?thesis using r(1) s' w(1,3) a v2p [OF w(1)] by auto
  qed
qed

lemma remove_walk:
  assumes "tables_ok s" "walk s v = Inr f" "PDE_IDX v \<noteq> 1023"
  shows "\<exists>s'. page_table_pte_remove v s = Inr s' \<and> tables_ok s' \<and>
    (\<forall>u. walk s' u = (if aliases s u v then Inl Fault else walk s u))"
proof -
  have pr: "present s v" using assms(2) by (simp add: walk_eq split: if_splits)
  have sm: "self_mapped s" using assms(1) by (simp add: tables_ok_def)
  let ?e = "pte_of s v AND NOT PG_P_1"
  let ?s' = "s\<lparr>pmem := (pmem s)(table_of s v + PTE_IDX v * 4 := ?e)\<rparr>"
  have "page_table_pte_remove v s = Inr ?s'"
    using walk_pte_ptr [OF sm, of v] pr by (simp add: page_table_pte_remove_def vload_def vstore_def pte_of_def)
  moreover note w = write_pte [OF assms(1) pr assms(3), where w = ?e]
  have "?e AND 1 = 0" by (rule bit_word_eqI) (auto simp: PG_P_1_def bit_simps bit_1_iff)
  then have "walk ?s' u = (if aliases s u v then Inl Fault else walk s u)" for u
    using w(3) [of u] w(6) [of u] by (cases "present s u"; cases "aliases s u v") (simp_all add: walk_eq)
  ultimately show ?thesis using w(1) by blast
qed

text \<open>C22: \<open>page_table_add\<close> of an unmapped virtual page maps exactly this page: afterwards the
  processor translates an address of the page (or of another page that shares its table entry)
  into the frame, and every other address outside the window of the tables as before, also
  when a new page table had to be allocated and cleared. \<open>addr_v2p\<close> gives the address that
  the processor uses.\<close>

theorem page_table_add_maps:
  assumes "tables_ok s" "PDE_IDX v \<noteq> 1023" "walk s v = Inl Fault" "aligned p"
    and "\<not> present s v \<Longrightarrow> \<exists>f s1. palloc_from PF_KERNEL s = Inr (f, s1) \<and> fresh_frame s f"
  shows "\<exists>s'. page_table_add v p s = Inr s' \<and> tables_ok s' \<and> (\<forall>u. aliases s' u v = aliases s u v) \<and>
    addr_v2p s' v = Inr (p + (v AND 0xfff)) \<and>
    (\<forall>u. PDE_IDX u \<noteq> 1023 \<longrightarrow> walk s' u = (if aliases s u v then Inr (p + (u AND 0xfff)) else walk s u))"
  using assms by (rule page_table_add_ok)

text \<open>C21: removing a page again (\<open>page_table_pte_remove\<close>) leaves exactly the addresses of that page
  unmapped, so adding and removing a page restores every translation.\<close>

theorem page_table_add_remove:
  assumes "tables_ok s" "PDE_IDX v \<noteq> 1023" "walk s v = Inl Fault" "aligned p"
    and "\<not> present s v \<Longrightarrow> \<exists>f s1. palloc_from PF_KERNEL s = Inr (f, s1) \<and> fresh_frame s f"
  shows "\<exists>s' s''. page_table_add v p s = Inr s' \<and> page_table_pte_remove v s' = Inr s'' \<and>
    (\<forall>u. PDE_IDX u \<noteq> 1023 \<longrightarrow> walk s'' u = walk s u)"
proof -
  from page_table_add_ok [OF assms] obtain s' where s': "page_table_add v p s = Inr s'" "tables_ok s'"
    "\<forall>u. aliases s' u v = aliases s u v"
    "\<forall>u. PDE_IDX u \<noteq> 1023 \<longrightarrow> walk s' u = (if aliases s u v then Inr (p + (u AND 0xfff)) else walk s u)" by blast
  have "walk s' v = Inr (p + (v AND 0xfff))" using s'(4) assms(2) by simp
  from remove_walk [OF s'(2) this assms(2)] obtain s'' where "page_table_pte_remove v s' = Inr s''"
    "\<forall>u. walk s'' u = (if aliases s' u v then Inl Fault else walk s' u)" by blast
  moreover have "walk s u = Inl Fault" if "aliases s u v" for u
    using aliases_fault [OF that] assms(3) by blast
  ultimately show ?thesis using s'(1,3,4) by (metis (no_types, lifting))
qed

section \<open>A concrete state\<close>

text \<open>A directory at \<open>0x100000\<close> with the kernel's first table and itself, and a pool of 8192 frames
  from \<open>0x200000\<close> on.\<close>

definition free_map :: bitmap where
  "free_map = \<lparr>btmp_bytes_len = 1024, bits = (\<lambda>_. 0)\<rparr>"

definition demo_mem :: msys where
  "demo_mem = \<lparr>eflags = 0x202, tasks = (\<lambda>_. zero_task), running_thread = 0xc009e000, thread_ready_list = [],
     thread_all_list = [0xc009e000], semas = (\<lambda>_. \<lparr>svalue = 1, waiters = []\<rparr>),
     locks = (\<lambda>_. \<lparr>holder = 0, holder_repeat_nr = 0\<rparr>), kstk = (\<lambda>_. []),
     tstacks = (\<lambda>_. \<lparr>ts_ebp = 0, ts_ebx = 0, ts_edi = 0, ts_esi = 0, ts_eip = 0, ts_function = 0, ts_func_arg = 0\<rparr>),
     idle_thread = 0, main_thread = 0, pid_lock = 0xc0020000, next_pid = 0, tick_count = 0,
     page_map = (\<lambda>_. 0), cr3 = 0x100000, tss_esp0 = 0,
     pmem = (\<lambda>_. 0)(0x100000 + 768 * 4 := 0x101007, 0x100000 + 1023 * 4 := 0x100007),
     kernel_pool = \<lparr>pool_bitmap = free_map, phy_addr_start = 0x200000, pool_size = 0x2000000, pool_lock = 0xc0021000\<rparr>,
     user_pool = \<lparr>pool_bitmap = free_map, phy_addr_start = 0x2200000, pool_size = 0x2000000, pool_lock = 0xc0022000\<rparr>,
     kernel_vaddr = \<lparr>vaddr_bitmap = free_map, vaddr_start = 0xc0100000\<rparr>,
     userprog_vaddr = (\<lambda>_. \<lparr>vaddr_bitmap = free_map, vaddr_start = 0x8048000\<rparr>),
     descs = (\<lambda>_. \<lparr>block_size = 0, blocks_per_arena = 0, free_list = []\<rparr>),
     k_block_descs = 0xc0023000, kscreen = []\<rparr>"

lemma free_map_facts: "small free_map" "n_bits free_map = 8192" "\<not> is_set free_map k"
  by (simp_all add: small_def n_bits_def free_map_def is_set_def)

lemma free_map_scan: "bitmap_scan free_map 1 = Inr 0"
  using free_map_facts by (intro iffD2 [OF bitmap_scan_one] exI [of _ 0]) simp_all

lemma demo_pde: "pde_of demo_mem a = (if PDE_IDX a = 1023 then 0x100007 else if PDE_IDX a = 768 then 0x101007 else 0)"
proof -
  have al: "aligned 0x100000" by (simp add: aligned_def)
  have i: "unat (1023 :: u32) < 1024" "unat (768 :: u32) < 1024" by simp_all
  show ?thesis
    using entry_inject [OF al al idx_less(1) [of a] i(1)] entry_inject [OF al al idx_less(1) [of a] i(2)]
    unfolding pde_of_def demo_mem_def by simp
qed

lemma demo_tables: "tables_ok demo_mem" "present demo_mem a \<longleftrightarrow> PDE_IDX a = 768 \<or> PDE_IDX a = 1023"
  "present demo_mem a \<Longrightarrow> table_of demo_mem a = (if PDE_IDX a = 768 then 0x101000 else 0x100000)"
proof -
  show p: "present demo_mem a \<longleftrightarrow> PDE_IDX a = 768 \<or> PDE_IDX a = 1023" for a
    by (simp add: present_def demo_pde)
  show t: "present demo_mem a \<Longrightarrow> table_of demo_mem a = (if PDE_IDX a = 768 then 0x101000 else 0x100000)" for a
    by (auto simp: table_of_def demo_pde p)
  have c: "cr3 demo_mem = 0x100000" by (simp add: demo_mem_def)
  have "pmem demo_mem (cr3 demo_mem + 1023 * 4) = 0x100007" unfolding demo_mem_def by simp
  then have "self_mapped demo_mem" unfolding self_mapped_def c by (simp add: aligned_def)
  then show "tables_ok demo_mem" using t p by (auto simp: tables_ok_def c)
qed

lemma demo_palloc: "\<exists>s1. palloc_from PF_KERNEL demo_mem = Inr (0x200000, s1)"
proof -
  obtain b where "bitmap_set free_map 0 1 = Inr b" using bitmap_set_ok by blast
  then show ?thesis
    by (simp add: palloc_from_def the_pool_def palloc_def demo_mem_def free_map_scan)
qed

lemma demo_unmapped: "PDE_IDX 0x8048000 = 32" "\<not> present demo_mem 0x8048000" "walk demo_mem 0x8048000 = Inl Fault"
proof -
  show i: "PDE_IDX 0x8048000 = 32" by (simp add: PDE_IDX_def)
  then show "\<not> present demo_mem 0x8048000" by (simp add: demo_tables)
  then show "walk demo_mem 0x8048000 = Inl Fault" by (simp add: walk_eq)
qed

lemma demo_fresh: "fresh_frame demo_mem 0x200000"
  using demo_tables(3) by (auto simp: fresh_frame_def aligned_def demo_mem_def split: if_splits)

theorem page_table_add_maps_witness:
  "\<exists>s'. page_table_add 0x8048000 0x300000 demo_mem = Inr s' \<and> addr_v2p s' 0x8048000 = Inr 0x300000 \<and>
     walk s' 0x8048123 = Inr 0x300123 \<and> walk s' 0xc0000000 = walk demo_mem 0xc0000000"
proof -
  have "\<exists>f s1. palloc_from PF_KERNEL demo_mem = Inr (f, s1) \<and> fresh_frame demo_mem f"
    using demo_palloc demo_fresh by blast
  with page_table_add_maps [of demo_mem "0x8048000" "0x300000"] demo_unmapped demo_tables(1)
  obtain s' where "page_table_add 0x8048000 0x300000 demo_mem = Inr s'" "addr_v2p s' 0x8048000 = Inr (0x300000 + (0x8048000 AND 0xfff))"
    "\<forall>u. PDE_IDX u \<noteq> 1023 \<longrightarrow> walk s' u = (if aliases demo_mem u 0x8048000 then Inr (0x300000 + (u AND 0xfff)) else walk demo_mem u)"
    by (auto simp: aligned_def)
  then show ?thesis using demo_unmapped(2) by (auto simp: aliases_def PDE_IDX_def PTE_IDX_def)
qed

theorem page_table_add_remove_witness:
  "\<exists>s' s''. page_table_add 0x8048000 0x300000 demo_mem = Inr s' \<and> page_table_pte_remove 0x8048000 s' = Inr s'' \<and>
     walk s'' 0x8048000 = Inl Fault"
proof -
  have "\<exists>f s1. palloc_from PF_KERNEL demo_mem = Inr (f, s1) \<and> fresh_frame demo_mem f"
    using demo_palloc demo_fresh by blast
  with page_table_add_remove [of demo_mem "0x8048000" "0x300000"] demo_unmapped demo_tables(1)
  show ?thesis by (auto simp: aligned_def)
qed

end
