(* ===== verification/Arena.thy ===== *)
theory Arena
  imports Memory
begin

text \<open>
  The heap of \<open>sys_malloc\<close> and \<open>sys_free\<close> (the second half of kernel/memory.c) and the set-up of
  the pools. An arena is one page: its header of three words, then the blocks of one size.
\<close>

section \<open>The code\<close>

definition arena2block :: "u32 \<Rightarrow> u32 \<Rightarrow> 'a msys_scheme \<Rightarrow> u32 res" where
  "arena2block a idx s =
     bnd (vload s a) (\<lambda>desc. Inr (a + sizeof_arena + idx * block_size (descs s desc)))"

definition block2arena :: "u32 \<Rightarrow> u32" where
  "block2arena b = b AND 0xfffff000"

definition upd_desc :: "u32 \<Rightarrow> (mem_block_desc \<Rightarrow> mem_block_desc) \<Rightarrow> 'a msys_scheme \<Rightarrow> 'a msys_scheme" where
  "upd_desc d f s = s\<lparr>descs := (descs s)(d := f (descs s d))\<rparr>"

text \<open>The counter and \<open>block_size\<close> are 16-bit variables. \<open>n\<close> descriptors are left.\<close>

fun desc_init_loop :: "u32 \<Rightarrow> nat \<Rightarrow> u16 \<Rightarrow> 'a msys_scheme \<Rightarrow> 'a msys_scheme" where
  "desc_init_loop d 0 sz s = s"
| "desc_init_loop d (Suc n) sz s =
     (let s = upd_desc d (\<lambda>_. \<lparr>block_size = ucast sz,
                blocks_per_arena = (PG_SIZE - sizeof_arena) div ucast sz, free_list = []\<rparr>) s
      in desc_init_loop (d + sizeof_desc) n (sz * 2) s)"

definition block_desc_init :: "u32 \<Rightarrow> 'a msys_scheme \<Rightarrow> 'a msys_scheme" where
  "block_desc_init desc_array s = desc_init_loop desc_array DESC_CNT 16 s"

text \<open>The blocks of a new arena go to the free list of its descriptor.\<close>

fun split_arena :: "u32 \<Rightarrow> u32 \<Rightarrow> nat \<Rightarrow> 'a msys_scheme \<Rightarrow> 'a msys_scheme res" where
  "split_arena a block_idx 0 s = Inr s"
| "split_arena a block_idx (Suc n) s =
     bnd (arena2block a block_idx s) (\<lambda>b.
     bnd (vload s a) (\<lambda>desc.
     bnd (ASSERT (b \<notin> set (free_list (descs s desc)))) (\<lambda>_.
     split_arena a (block_idx + 1) n (upd_desc desc (\<lambda>d. d\<lparr>free_list := free_list d @ [b]\<rparr>) s))))"

fun find_desc :: "'a msys_scheme \<Rightarrow> u32 \<Rightarrow> u32 \<Rightarrow> nat \<Rightarrow> nat \<Rightarrow> nat" where
  "find_desc s d sz idx 0 = idx"
| "find_desc s d sz idx (Suc n) =
     (if sz \<le> block_size (descs s d) then idx
      else find_desc s (d + sizeof_desc) sz (Suc idx) n)"

definition DIV_ROUND_UP :: "u32 \<Rightarrow> u32 \<Rightarrow> u32" where
  "DIV_ROUND_UP X STEP = (X + STEP - 1) div STEP"

text \<open>The branch of \<open>sys_malloc\<close> for more than 1024 bytes, and the one for a block.\<close>

definition malloc_large :: "pool_flags \<Rightarrow> u32 \<Rightarrow> 'a msys_scheme \<Rightarrow> (u32 \<times> 'a msys_scheme) res" where
  "malloc_large pf sz s =
     (let page_cnt = DIV_ROUND_UP (sz + sizeof_arena) PG_SIZE in
      bnd (malloc_page pf page_cnt s) (\<lambda>(a, s).
      if a \<noteq> 0 then
        bnd (vzero a (unat (page_cnt * PG_SIZE) div 4) s) (\<lambda>s.
        bnd (vstore a 0 s) (\<lambda>s.
        bnd (vstore (a + 4) page_cnt s) (\<lambda>s.
        bnd (vstore (a + 8) 1 s) (\<lambda>s.
        Inr (a + sizeof_arena, s)))))
      else Inr (0, s)))"

definition new_arena :: "pool_flags \<Rightarrow> u32 \<Rightarrow> 'a msys_scheme \<Rightarrow> (u32 \<times> 'a msys_scheme) res" where
  "new_arena pf desc s =
     bnd (malloc_page pf 1 s) (\<lambda>(a, s).
     if a = 0 then Inr (0, s)
     else
       bnd (vzero a 1024 s) (\<lambda>s.
       bnd (vstore a desc s) (\<lambda>s.
       bnd (vstore (a + 8) 0 s) (\<lambda>s.
       bnd (vstore (a + 4) (blocks_per_arena (descs s desc)) s) (\<lambda>s.
       let (old_status, s) = intr_disable s in
       bnd (split_arena a 0 (unat (blocks_per_arena (descs s desc))) s) (\<lambda>s.
       Inr (a, snd (intr_set_status s old_status))))))))"

definition take_block :: "u32 \<Rightarrow> 'a msys_scheme \<Rightarrow> (u32 \<times> 'a msys_scheme) res" where
  "take_block desc s =
     bnd (defined (free_list (descs s desc) \<noteq> [])) (\<lambda>_.
     let b = hd (free_list (descs s desc));
         s = upd_desc desc (\<lambda>d. d\<lparr>free_list := tl (free_list d)\<rparr>) s in
     bnd (vzero b (unat (block_size (descs s desc)) div 4) s) (\<lambda>s.
     let a = block2arena b in
     bnd (vload s (a + 4)) (\<lambda>cnt.
     bnd (vstore (a + 4) (cnt - 1) s) (\<lambda>s.
     Inr (b, s)))))"

definition malloc_block :: "pool_flags \<Rightarrow> u32 \<Rightarrow> u32 \<Rightarrow> 'a msys_scheme \<Rightarrow> (u32 \<times> 'a msys_scheme) res" where
  "malloc_block pf descs0 sz s =
     (let desc_idx = find_desc s descs0 sz 0 DESC_CNT;
          desc = descs0 + of_nat desc_idx * sizeof_desc in
      bnd (defined (desc_idx < DESC_CNT)) (\<lambda>_.
      if free_list (descs s desc) = [] then
        bnd (new_arena pf desc s) (\<lambda>(a, s). if a = 0 then Inr (0, s) else take_block desc s)
      else take_block desc s))"

definition sys_malloc :: "u32 \<Rightarrow> 'a msys_scheme \<Rightarrow> (u32 \<times> 'a msys_scheme) res" where
  "sys_malloc sz s =
     (let cur_thread = running_thread s;
          kernel = pgdir (tasks s cur_thread) = 0;
          pf = (if kernel then PF_KERNEL else PF_USER);
          mem_pool = the_pool pf s;
          descs0 = (if kernel then k_block_descs s else u_block_desc cur_thread) in
      if \<not> (sz > 0 \<and> sz < pool_size mem_pool) then Inr (0, s)
      else
        bnd (lock_acquire_now (pool_lock mem_pool) s) (\<lambda>s.
        bnd (if sz > 1024 then malloc_large pf sz s else malloc_block pf descs0 sz s) (\<lambda>(p, s).
        bnd (lock_release_now (pool_lock mem_pool) s) (\<lambda>s.
        Inr (p, s)))))"

text \<open>All blocks of the arena are free: they leave the free list.\<close>

fun unlink_arena :: "u32 \<Rightarrow> u32 \<Rightarrow> nat \<Rightarrow> 'a msys_scheme \<Rightarrow> 'a msys_scheme res" where
  "unlink_arena a block_idx 0 s = Inr s"
| "unlink_arena a block_idx (Suc n) s =
     bnd (arena2block a block_idx s) (\<lambda>b.
     bnd (vload s a) (\<lambda>desc.
     bnd (ASSERT (b \<in> set (free_list (descs s desc)))) (\<lambda>_.
     unlink_arena a (block_idx + 1) n (upd_desc desc (\<lambda>d. d\<lparr>free_list := remove1 b (free_list d)\<rparr>) s))))"

text \<open>Appending a block that is in the list already breaks the list: \<open>Fault\<close>.\<close>

definition free_block :: "pool_flags \<Rightarrow> u32 \<Rightarrow> u32 \<Rightarrow> u32 \<Rightarrow> 'a msys_scheme \<Rightarrow> 'a msys_scheme res" where
  "free_block pf b a desc s =
     bnd (defined (desc \<noteq> 0 \<and> b \<notin> set (free_list (descs s desc)))) (\<lambda>_.
     let s = upd_desc desc (\<lambda>d. d\<lparr>free_list := free_list d @ [b]\<rparr>) s in
     bnd (vload s (a + 4)) (\<lambda>cnt.
     bnd (vstore (a + 4) (cnt + 1) s) (\<lambda>s.
     if cnt + 1 = blocks_per_arena (descs s desc) then
       bnd (unlink_arena a 0 (unat (blocks_per_arena (descs s desc))) s) (mfree_page pf a 1)
     else Inr s)))"

definition sys_free :: "u32 \<Rightarrow> 'a msys_scheme \<Rightarrow> 'a msys_scheme res" where
  "sys_free ptr s =
     bnd (ASSERT (ptr \<noteq> 0)) (\<lambda>_.
     let kernel = pgdir (tasks s (running_thread s)) = 0 in
     bnd (if kernel then ASSERT (ptr \<ge> K_HEAP_START) else Inr ()) (\<lambda>_.
     let pf = (if kernel then PF_KERNEL else PF_USER);
         mem_pool = the_pool pf s in
     bnd (lock_acquire_now (pool_lock mem_pool) s) (\<lambda>s.
     let a = block2arena ptr in
     bnd (vload s (a + 8)) (\<lambda>large.
     bnd (ASSERT (large = 0 \<or> large = 1)) (\<lambda>_.
     bnd (vload s a) (\<lambda>desc.
     bnd (if desc = 0 \<and> large = 1 then
            bnd (vload s (a + 4)) (\<lambda>cnt. mfree_page pf a cnt s)
          else free_block pf ptr a desc s) (\<lambda>s.
     lock_release_now (pool_lock mem_pool) s)))))))"

section \<open>Setting up the pools\<close>

definition MEM_BITMAP_BASE :: u32 where "MEM_BITMAP_BASE = 0xc009a000"

definition emit :: "screen_event list \<Rightarrow> 'a msys_scheme \<Rightarrow> 'a msys_scheme" where
  "emit es s = s\<lparr>kscreen := kscreen s @ es\<rparr>"

text \<open>\<open>mem\<close> is what is in memory where the bitmaps will be. The numbers of pages are 16-bit variables.\<close>

definition mem_pool_init :: "(u32 \<Rightarrow> u8) \<Rightarrow> u32 \<Rightarrow> 'a msys_scheme \<Rightarrow> 'a msys_scheme" where
  "mem_pool_init mem all_mem s =
     (let s = emit [Put_str ''   mem_pool_init start\<newline>''] s;
          page_table_size = PG_SIZE * 256;
          used_mem = page_table_size + 0x100000;
          free_mem = all_mem - used_mem;
          all_free_pages = ucast (free_mem div PG_SIZE) :: u16;
          kernel_free_pages = all_free_pages div 2;
          user_free_pages = all_free_pages - kernel_free_pages;
          kbm_length = ucast (kernel_free_pages div 8) :: u32;
          ubm_length = ucast (user_free_pages div 8) :: u32;
          kp_start = used_mem;
          up_start = kp_start + ucast kernel_free_pages * PG_SIZE;
          s = s\<lparr>kernel_pool := (kernel_pool s)\<lparr>phy_addr_start := kp_start,
                  pool_size := ucast kernel_free_pages * PG_SIZE,
                  pool_bitmap := \<lparr>btmp_bytes_len = kbm_length, bits = (\<lambda>i. mem (MEM_BITMAP_BASE + i))\<rparr>\<rparr>\<rparr>;
          s = s\<lparr>user_pool := (user_pool s)\<lparr>phy_addr_start := up_start,
                  pool_size := ucast user_free_pages * PG_SIZE,
                  pool_bitmap := \<lparr>btmp_bytes_len = ubm_length,
                     bits = (\<lambda>i. mem (MEM_BITMAP_BASE + kbm_length + i))\<rparr>\<rparr>\<rparr>;
          s = emit [Put_str ''      kernel_pool_bitmap_start:'', Put_int MEM_BITMAP_BASE,
                Put_str '' kernel_pool_phy_addr_start:'', Put_int kp_start, Put_str ''\<newline>'',
                Put_str ''      user_pool_bitmap_start:'', Put_int (MEM_BITMAP_BASE + kbm_length),
                Put_str '' user_pool_phy_addr_start:'', Put_int up_start, Put_str ''\<newline>''] s;
          s = s\<lparr>kernel_pool := (kernel_pool s)\<lparr>pool_bitmap := bitmap_init (pool_bitmap (kernel_pool s))\<rparr>\<rparr>;
          s = s\<lparr>user_pool := (user_pool s)\<lparr>pool_bitmap := bitmap_init (pool_bitmap (user_pool s))\<rparr>\<rparr>;
          s = lock_init (pool_lock (kernel_pool s)) s;
          s = lock_init (pool_lock (user_pool s)) s;
          s = s\<lparr>kernel_vaddr := \<lparr>vaddr_bitmap = bitmap_init \<lparr>btmp_bytes_len = kbm_length,
                     bits = (\<lambda>i. mem (MEM_BITMAP_BASE + kbm_length + ubm_length + i))\<rparr>,
                   vaddr_start = K_HEAP_START\<rparr>\<rparr>
      in emit [Put_str ''   mem_pool_init done\<newline>''] s)"

definition mem_init :: "(u32 \<Rightarrow> u8) \<Rightarrow> 'a msys_scheme \<Rightarrow> 'a msys_scheme res" where
  "mem_init mem s =
     (let s = emit [Put_str ''mem_init start\<newline>''] s in
      bnd (vload s 0xb00) (\<lambda>mem_bytes_total.
      let s = mem_pool_init mem mem_bytes_total s;
          s = block_desc_init (k_block_descs s) s
      in Inr (emit [Put_str ''mem_init done\<newline>''] s)))"

end
