(* ===== verification/Pools.thy ===== *)
theory Pools
  imports Paging Arena
begin

text \<open>
  The pools of page frames as allocators, the set-up of the pools, and allocation of whole
  pages: frames handed out are different and unused, mapped pages lead to them, and nothing
  else is remapped.
\<close>

section \<open>Frames\<close>

definition pool_ok :: "pool \<Rightarrow> bool" where
  "pool_ok p \<longleftrightarrow> small (pool_bitmap p) \<and> aligned (phy_addr_start p) \<and> 0 < unat (phy_addr_start p) \<and>
     unat (phy_addr_start p) + n_bits (pool_bitmap p) * 4096 \<le> 4294967296"

definition pools_ok :: "'a msys_scheme \<Rightarrow> bool" where
  "pools_ok s \<longleftrightarrow> pool_ok (kernel_pool s) \<and> pool_ok (user_pool s) \<and>
     unat (phy_addr_start (kernel_pool s)) + n_bits (pool_bitmap (kernel_pool s)) * 4096
       \<le> unat (phy_addr_start (user_pool s))"

definition frame_addr :: "pool \<Rightarrow> nat \<Rightarrow> u32" where
  "frame_addr p i = phy_addr_start p + of_nat i * PG_SIZE"

lemma unat_frame_addr:
  assumes "pool_ok p" "i < n_bits (pool_bitmap p)"
  shows "unat (frame_addr p i) = unat (phy_addr_start p) + i * 4096"
proof -
  have i: "i < 2147483648" using assms by (simp add: pool_ok_def small_def)
  have le: "unat (phy_addr_start p) + i * 4096 + 4096 \<le> 4294967296"
  proof -
    have "(i + 1) * 4096 \<le> n_bits (pool_bitmap p) * 4096" using assms(2) by (intro mult_le_mono1) simp
    then show ?thesis using assms(1) by (simp add: pool_ok_def)
  qed
  then have "i * 4096 < 4294967296" by linarith
  then have u: "unat (of_nat i * PG_SIZE) = i * 4096" using i by (subst unat_mult_u32) (simp_all add: PG_SIZE_def)
  show ?thesis unfolding frame_addr_def using le by (subst unat_add_u32) (simp_all add: u)
qed

lemma frame_addr_aligned: "pool_ok p \<Longrightarrow> i < n_bits (pool_bitmap p) \<Longrightarrow> aligned (frame_addr p i)"
  using unat_frame_addr [of p i] by (simp add: pool_ok_def aligned_def)

lemma frame_addr_inject:
  "pool_ok p \<Longrightarrow> i < n_bits (pool_bitmap p) \<Longrightarrow> j < n_bits (pool_bitmap p) \<Longrightarrow>
   frame_addr p i = frame_addr p j \<longleftrightarrow> i = j"
  using unat_frame_addr [of p i] unat_frame_addr [of p j] by (auto simp: word_unat_eq_iff)

lemma frame_index:
  assumes "pool_ok p" "i < n_bits (pool_bitmap p)"
  shows "(frame_addr p i - phy_addr_start p) div PG_SIZE = of_nat i"
proof -
  have i: "i < 2147483648" using assms by (simp add: pool_ok_def small_def)
  have e: "frame_addr p i - phy_addr_start p = of_nat i * PG_SIZE" by (simp add: frame_addr_def)
  have "phy_addr_start p \<le> frame_addr p i" using unat_frame_addr [OF assms] by (simp add: word_le_nat_alt)
  then have "unat (frame_addr p i - phy_addr_start p) = i * 4096"
    using unat_frame_addr [OF assms] by (simp add: unat_sub)
  then have "unat ((frame_addr p i - phy_addr_start p) div PG_SIZE) = i"
    by (simp add: unat_div PG_SIZE_def)
  then show ?thesis using i by (simp add: word_unat_eq_iff)
qed

definition free_frames :: "pool_flags \<Rightarrow> 'a msys_scheme \<Rightarrow> u32 set" where
  "free_frames pf s = {frame_addr (the_pool pf s) i | i. i < n_bits (pool_bitmap (the_pool pf s)) \<and>
     \<not> is_set (pool_bitmap (the_pool pf s)) i}"

lemma palloc_Inr:
  assumes "pool_ok p"
  shows "palloc p = Inr (f, p') \<longleftrightarrow> (\<exists>i b. i < n_bits (pool_bitmap p) \<and> f = frame_addr p i \<and>
    \<not> is_set (pool_bitmap p) i \<and> (\<forall>k < i. is_set (pool_bitmap p) k) \<and>
    bitmap_set (pool_bitmap p) (of_nat i) 1 = Inr b \<and> p' = p\<lparr>pool_bitmap := b\<rparr>)"
proof -
  have sm: "small (pool_bitmap p)" using assms by (simp add: pool_ok_def)
  have n1: "(of_nat i :: u32) \<noteq> - 1" if "i < n_bits (pool_bitmap p)" for i
  proof -
    have "i < 2147483648" using that sm by (simp add: small_def)
    then have "unat (of_nat i :: u32) < 4294967295" by simp
    moreover have "unat (- 1 :: u32) = 4294967295" by (simp add: unsigned_minus_1_eq_mask mask_eq_exp_minus_1)
    ultimately show ?thesis by (metis less_irrefl)
  qed
  have st: "palloc p = Inr (frame_addr p i, p\<lparr>pool_bitmap := b\<rparr>)"
    if "i < n_bits (pool_bitmap p)" "\<not> is_set (pool_bitmap p) i" "\<forall>k < i. is_set (pool_bitmap p) k"
      "bitmap_set (pool_bitmap p) (of_nat i) 1 = Inr b" for i b
  proof -
    have "bitmap_scan (pool_bitmap p) 1 = Inr (of_nat i)" using that bitmap_scan_one [OF sm] by blast
    then show ?thesis using that(4) n1 [OF that(1)] by (simp add: palloc_def frame_addr_def add.commute)
  qed
  show ?thesis
  proof
    assume a: "palloc p = Inr (f, p')"
    then obtain r where r: "bitmap_scan (pool_bitmap p) 1 = Inr r" by (auto simp: palloc_def res_simps)
    then obtain i where i: "i < n_bits (pool_bitmap p)" "\<not> is_set (pool_bitmap p) i"
      "\<forall>k < i. is_set (pool_bitmap p) k" using bitmap_scan_one [OF sm] by blast
    obtain b where b: "bitmap_set (pool_bitmap p) (of_nat i) 1 = Inr b" using bitmap_set_ok by blast
    with a st [OF i b] i show "\<exists>i b. i < n_bits (pool_bitmap p) \<and> f = frame_addr p i \<and>
      \<not> is_set (pool_bitmap p) i \<and> (\<forall>k < i. is_set (pool_bitmap p) k) \<and>
      bitmap_set (pool_bitmap p) (of_nat i) 1 = Inr b \<and> p' = p\<lparr>pool_bitmap := b\<rparr>" by auto
  qed (use st in blast)
qed

lemma palloc_Inl:
  assumes "pool_ok p"
  shows "palloc p = Inl e \<longleftrightarrow> e = Panic \<and> (\<forall>k < n_bits (pool_bitmap p). is_set (pool_bitmap p) k)"
proof -
  have sm: "small (pool_bitmap p)" using assms by (simp add: pool_ok_def)
  have ex: "\<exists>b. bitmap_set (pool_bitmap p) i 1 = Inr b" for i using bitmap_set_ok by blast
  show ?thesis
  proof
    assume "palloc p = Inl e"
    then have "bitmap_scan (pool_bitmap p) 1 = Inl e"
      using ex by (auto simp: palloc_def bnd_eq_Inl Let_def split: if_splits) (metis Inr_Inl_False)
    then show "e = Panic \<and> (\<forall>k < n_bits (pool_bitmap p). is_set (pool_bitmap p) k)"
      by (rule bitmap_scan_one_Inl [OF sm])
  next
    assume a: "e = Panic \<and> (\<forall>k < n_bits (pool_bitmap p). is_set (pool_bitmap p) k)"
    have "bitmap_scan (pool_bitmap p) 1 = Inl Panic"
    proof (cases "bitmap_scan (pool_bitmap p) 1")
      case (Inl e')
      with bitmap_scan_one_Inl [OF sm] show ?thesis by blast
    next
      case (Inr r)
      with bitmap_scan_one_lt [OF sm] a show ?thesis by blast
    qed
    with a show "palloc p = Inl e" by (simp add: palloc_def)
  qed
qed

section \<open>The pools are allocators\<close>

text \<open>The index of the frame that \<open>palloc\<close> takes, and \<open>pfree\<close> of the frame with an index.\<close>

definition alloc_frame :: "pool_flags \<Rightarrow> 'a msys_scheme \<Rightarrow> (u32 \<times> 'a msys_scheme) res" where
  "alloc_frame pf s = bnd (palloc_from pf s) (\<lambda>(f, s).
     Inr ((f - phy_addr_start (the_pool pf s)) div PG_SIZE, s))"

definition release_frame :: "pool_flags \<Rightarrow> 'a msys_scheme \<Rightarrow> u32 \<Rightarrow> 'a msys_scheme res" where
  "release_frame pf s i = pfree (phy_addr_start (the_pool pf s) + i * PG_SIZE) s"

lemma the_set_pool: "the_pool pf (set_pool pf' p s) = (if pf = pf' then p else the_pool pf s)"
  by (cases pf; cases pf') (simp_all add: the_pool_def set_pool_def)

lemma pool_ok_the: "pools_ok s \<Longrightarrow> pool_ok (the_pool pf s)"
  by (simp add: pools_ok_def the_pool_def)

lemma pool_ok_bitmap: "n_bits b = n_bits (pool_bitmap p) \<Longrightarrow> pool_ok (p\<lparr>pool_bitmap := b\<rparr>) = pool_ok p"
  by (simp add: pool_ok_def small_def)

lemma pools_ok_bitmap:
  "n_bits b = n_bits (pool_bitmap (the_pool pf s)) \<Longrightarrow>
   pools_ok (set_pool pf ((the_pool pf s)\<lparr>pool_bitmap := b\<rparr>) s) = pools_ok s"
  by (cases pf) (simp_all add: pools_ok_def set_pool_def the_pool_def pool_ok_bitmap)

lemma is_set_upd:
  assumes "bitmap_set b (of_nat i) v = Inr b'" "i < 2147483648" "k < n_bits b" "small b"
  shows "is_set b' k = (if k = i then v = 1 else is_set b k)"
  using is_set_bitmap_set [OF assms(1), of k] assms(2-4) by (simp add: small_def)

lemma pfree_frame:
  assumes "pools_ok s" "i < n_bits (pool_bitmap (the_pool pf s))"
  shows "pfree (frame_addr (the_pool pf s) i) s = bnd (bitmap_set (pool_bitmap (the_pool pf s)) (of_nat i) 0)
    (\<lambda>b. Inr (set_pool pf ((the_pool pf s)\<lparr>pool_bitmap := b\<rparr>) s))"
proof -
  have ok: "pool_ok (the_pool pf s)" by (rule pool_ok_the [OF assms(1)])
  have "phy_addr_start (user_pool s) \<le> frame_addr (the_pool pf s) i \<longleftrightarrow> pf = PF_USER"
  proof (cases pf)
    case PF_KERNEL
    have "unat (phy_addr_start (kernel_pool s)) + i * 4096 < unat (phy_addr_start (user_pool s))"
      using assms PF_KERNEL unfolding pools_ok_def the_pool_def by auto
    then show ?thesis using unat_frame_addr [OF ok assms(2)] PF_KERNEL
      by (simp add: word_le_nat_alt the_pool_def)
  next
    case PF_USER
    then show ?thesis using unat_frame_addr [OF ok assms(2)] by (simp add: word_le_nat_alt the_pool_def)
  qed
  then have "(if phy_addr_start (user_pool s) \<le> frame_addr (the_pool pf s) i then PF_USER else PF_KERNEL) = pf"
    by (cases pf) simp_all
  then show ?thesis unfolding pfree_def Let_def by (simp add: frame_index [OF ok assms(2)])
qed

lemma alloc_frame_Inr:
  assumes "pools_ok s" "alloc_frame pf s = Inr (i, s')"
  shows "\<exists>b. unat i < n_bits (pool_bitmap (the_pool pf s)) \<and> \<not> is_set (pool_bitmap (the_pool pf s)) (unat i) \<and>
    bitmap_set (pool_bitmap (the_pool pf s)) i 1 = Inr b \<and>
    palloc_from pf s = Inr (frame_addr (the_pool pf s) (unat i), s') \<and>
    s' = set_pool pf ((the_pool pf s)\<lparr>pool_bitmap := b\<rparr>) s"
proof -
  have ok: "pool_ok (the_pool pf s)" by (rule pool_ok_the [OF assms(1)])
  from assms(2) obtain f p' where p: "palloc (the_pool pf s) = Inr (f, p')" "s' = set_pool pf p' s"
      "i = (f - phy_addr_start p') div PG_SIZE"
    by (auto simp: alloc_frame_def palloc_from_def res_simps the_set_pool)
  then obtain j b where j: "j < n_bits (pool_bitmap (the_pool pf s))" "f = frame_addr (the_pool pf s) j"
    "\<not> is_set (pool_bitmap (the_pool pf s)) j" "bitmap_set (pool_bitmap (the_pool pf s)) (of_nat j) 1 = Inr b"
    "p' = (the_pool pf s)\<lparr>pool_bitmap := b\<rparr>" using palloc_Inr [OF ok] by auto
  have i: "i = of_nat j" using p(3) j frame_index [OF ok j(1)] by simp
  moreover have "j < 4294967296" using j(1) ok by (simp add: pool_ok_def small_def)
  ultimately show ?thesis using j p by (simp add: palloc_from_def)
qed

interpretation frames: bit_allocator
  "\<lambda>s. is_set (pool_bitmap (the_pool pf s))" "\<lambda>s. n_bits (pool_bitmap (the_pool pf s))"
  "alloc_frame pf" "release_frame pf" pools_ok for pf
proof unfold_locales
  fix s s' :: "'a msys_scheme" and i :: u32
  assume a: "pools_ok s" "alloc_frame pf s = Inr (i, s')"
  from alloc_frame_Inr [OF a] obtain b where b: "unat i < n_bits (pool_bitmap (the_pool pf s))"
    "\<not> is_set (pool_bitmap (the_pool pf s)) (unat i)" "bitmap_set (pool_bitmap (the_pool pf s)) i 1 = Inr b"
    "s' = set_pool pf ((the_pool pf s)\<lparr>pool_bitmap := b\<rparr>) s" by blast
  have sm: "small (pool_bitmap (the_pool pf s))" using pool_ok_the [OF a(1)] by (simp add: pool_ok_def)
  then show "pools_ok s' \<and> n_bits (pool_bitmap (the_pool pf s')) = n_bits (pool_bitmap (the_pool pf s)) \<and>
     unat i < n_bits (pool_bitmap (the_pool pf s)) \<and> \<not> is_set (pool_bitmap (the_pool pf s)) (unat i) \<and>
     (\<forall>k < n_bits (pool_bitmap (the_pool pf s)).
        is_set (pool_bitmap (the_pool pf s')) k \<longleftrightarrow> k = unat i \<or> is_set (pool_bitmap (the_pool pf s)) k)"
    using b a(1) is_set_bitmap_set [OF b(3)] by (simp add: pools_ok_bitmap the_set_pool small_def)
next
  fix s :: "'a msys_scheme" and e
  assume a: "pools_ok s" "alloc_frame pf s = Inl e"
  then have "palloc (the_pool pf s) = Inl e" by (auto simp: alloc_frame_def palloc_from_def bnd_eq_Inl)
  then show "e = Panic \<and> (\<forall>k < n_bits (pool_bitmap (the_pool pf s)). is_set (pool_bitmap (the_pool pf s)) k)"
    using palloc_Inl [OF pool_ok_the [OF a(1)]] by blast
next
  fix s :: "'a msys_scheme" and i :: u32
  assume a: "pools_ok s" "unat i < n_bits (pool_bitmap (the_pool pf s))"
  obtain b where b: "bitmap_set (pool_bitmap (the_pool pf s)) i 0 = Inr b" using bitmap_set_ok by blast
  have sm: "small (pool_bitmap (the_pool pf s))" using pool_ok_the [OF a(1)] by (simp add: pool_ok_def)
  have "release_frame pf s i = Inr (set_pool pf ((the_pool pf s)\<lparr>pool_bitmap := b\<rparr>) s)"
    using pfree_frame [OF a] b by (simp add: release_frame_def frame_addr_def)
  then show "\<exists>s'. release_frame pf s i = Inr s' \<and> pools_ok s' \<and>
      n_bits (pool_bitmap (the_pool pf s')) = n_bits (pool_bitmap (the_pool pf s)) \<and>
      (\<forall>k < n_bits (pool_bitmap (the_pool pf s)).
         is_set (pool_bitmap (the_pool pf s')) k \<longleftrightarrow> k \<noteq> unat i \<and> is_set (pool_bitmap (the_pool pf s)) k)"
    using b a is_set_bitmap_set [OF b] sm by (simp add: pools_ok_bitmap the_set_pool small_def)
qed


lemma free_frames_units: "free_frames pf s = frame_addr (the_pool pf s) ` frames.free_units pf s"
  by (auto simp: free_frames_def frames.free_units_def)

lemma frame_addr_same: "phy_addr_start p' = phy_addr_start p \<Longrightarrow> frame_addr p' = frame_addr p"
  by (simp add: frame_addr_def fun_eq_iff)

lemma palloc_from_step:
  assumes "pools_ok s" "palloc_from pf s = Inr (f, s')"
  shows "pools_ok s'" and "f \<in> free_frames pf s" and "free_frames pf s' = free_frames pf s - {f}"
    and "pf' \<noteq> pf \<Longrightarrow> the_pool pf' s' = the_pool pf' s" and "aligned f" and "f \<noteq> 0"
    and "\<exists>s''. pfree f s' = Inr s'' \<and> pools_ok s'' \<and> free_frames pf s'' = free_frames pf s"
proof -
  obtain i where i: "alloc_frame pf s = Inr (i, s')" using assms(2) by (simp add: alloc_frame_def)
  note a = alloc_frame_Inr [OF assms(1) i]
  have f: "f = frame_addr (the_pool pf s) (unat i)" using a assms(2) by auto
  have ok: "pool_ok (the_pool pf s)" by (rule pool_ok_the [OF assms(1)])
  have lt: "unat i < n_bits (pool_bitmap (the_pool pf s))" using a by blast
  note u = frames.alloc_free_units [OF assms(1) i]
  have fa: "frame_addr (the_pool pf s') = frame_addr (the_pool pf s)"
    using a by (intro frame_addr_same) (auto simp: the_set_pool)
  show "pools_ok s'" using frames.alloc_ok [OF assms(1) i] by blast
  show "f \<in> free_frames pf s" using u(1) f by (auto simp: free_frames_units)
  have inj: "inj_on (frame_addr (the_pool pf s)) (frames.free_units pf s)"
    using frame_addr_inject [OF ok] by (auto simp: inj_on_def frames.free_units_def)
  show "free_frames pf s' = free_frames pf s - {f}"
    unfolding free_frames_units fa u(2) f using inj u(1) by (auto simp: inj_on_def)
  show "pf' \<noteq> pf \<Longrightarrow> the_pool pf' s' = the_pool pf' s" using a by (auto simp: the_set_pool)
  show "aligned f" unfolding f by (rule frame_addr_aligned [OF ok lt])
  show "f \<noteq> 0" using unat_frame_addr [OF ok lt] ok f by (auto simp: pool_ok_def)
  have rel: "release_frame pf s' i = pfree f s'"
  proof -
    have "phy_addr_start (the_pool pf s') = phy_addr_start (the_pool pf s)" using a by (auto simp: the_set_pool)
    then show ?thesis by (simp add: release_frame_def f frame_addr_def)
  qed
  from frames.release_after_alloc [OF assms(1) i] obtain s'' where s'': "release_frame pf s' i = Inr s''" "pools_ok s''"
    "frames.free_units pf s'' = frames.free_units pf s" by blast
  have "phy_addr_start (the_pool pf s'') = phy_addr_start (the_pool pf s')"
    using s''(1) by (auto simp: release_frame_def pfree_def res_simps the_set_pool Let_def set_pool_def the_pool_def split: if_splits)
  then have "frame_addr (the_pool pf s'') = frame_addr (the_pool pf s)" using fa frame_addr_same by metis
  then show "\<exists>s''. pfree f s' = Inr s'' \<and> pools_ok s'' \<and> free_frames pf s'' = free_frames pf s"
    using s'' rel by (simp add: free_frames_units)
qed

lemma palloc_from_panics: "pools_ok s \<Longrightarrow> palloc_from pf s = Inl e \<longleftrightarrow> e = Panic \<and> free_frames pf s = {}"
proof -
  assume ok: "pools_ok s"
  have "palloc_from pf s = Inl e \<longleftrightarrow> alloc_frame pf s = Inl e" by (auto simp: alloc_frame_def bnd_eq_Inl)
  moreover have "alloc_frame pf s = Inl e \<Longrightarrow> e = Panic" using frames.alloc_full [OF ok] by blast
  ultimately show ?thesis using frames.alloc_panics_iff_full [OF ok, of pf] by (auto simp: free_frames_units)
qed

text \<open>C23: a frame that \<open>palloc\<close> returns was free, is page-aligned and not 0, and is the only frame
  that is no longer free; \<open>pfree\<close> of its address makes exactly this frame free again.\<close>

theorem palloc_pfree_roundtrip:
  assumes "pools_ok s" "palloc_from pf s = Inr (f, s')"
  shows "f \<noteq> 0 \<and> aligned f \<and> f \<in> free_frames pf s \<and> free_frames pf s' = free_frames pf s - {f} \<and>
    (\<exists>s''. pfree f s' = Inr s'' \<and> pools_ok s'' \<and> free_frames pf s'' = free_frames pf s)"
  using palloc_from_step [OF assms] by blast

text \<open>C36: when no frame is free, \<open>palloc\<close> does not return NULL, for which all its callers test: the
  kernel stops in the \<open>ASSERT\<close> of \<open>bitmap_scan\<close>. As long as a frame is free it returns one.\<close>

theorem palloc_exhausted_panics:
  assumes "pools_ok s"
  shows "(palloc_from pf s = Inl Panic \<longleftrightarrow> free_frames pf s = {}) \<and> (\<forall>s'. palloc_from pf s \<noteq> Inr (0, s'))"
  using palloc_from_panics [OF assms] palloc_from_step(6) [OF assms] by blast

section \<open>Setting up the pools\<close>

lemma bitmap_init_clear: "k < n_bits b \<Longrightarrow> small b \<Longrightarrow> \<not> is_set (bitmap_init b) k"
proof -
  assume k: "k < n_bits b" "small b"
  then have "k div 8 < unat (btmp_bytes_len b)" by (simp add: n_bits_def)
  moreover have "k div 8 < 4294967296" using k by (simp add: small_def)
  ultimately have "(of_nat (k div 8) :: u32) < btmp_bytes_len b" by (simp add: word_less_nat_alt)
  then show ?thesis by (simp add: is_set_def bitmap_init_def)
qed

lemma n_bits_init [simp]: "n_bits (bitmap_init b) = n_bits b" "small (bitmap_init b) = small b"
  by (simp_all add: n_bits_def bitmap_init_def small_def)

text \<open>The numbers that \<open>mem_pool_init\<close> computes with 16-bit variables.\<close>

lemma unat_ucast_u32: "unat (ucast (w :: u16) :: u32) = unat w"
  using unsigned_less [of w, where ?'a = nat] by (simp add: unsigned_ucast_eq take_bit_nat_eq_self)

lemma page_numbers:
  assumes "0x300000 \<le> unat all_mem" "unat all_mem < 0x10200000"
  defines "n \<equiv> (unat all_mem - 0x200000) div 4096"
    and "a \<equiv> ucast ((all_mem - (PG_SIZE * 256 + 0x100000)) div PG_SIZE) :: u16"
  shows "256 \<le> n" "n < 65536" "unat a = n" "unat (a div 2) = n div 2" "unat (a - a div 2) = n - n div 2"
    "unat (a div 2 div 8) = n div 2 div 8" "unat ((a - a div 2) div 8) = (n - n div 2) div 8"
    "2097152 + n * 4096 \<le> unat all_mem"
proof -
  show n: "256 \<le> n" "n < 65536" using assms(1,2) unfolding n_def by auto
  have used: "(PG_SIZE * 256 + 0x100000 :: u32) = 0x200000" by (simp add: PG_SIZE_def)
  have "unat (all_mem - 0x200000) = unat all_mem - 0x200000"
    using assms(1) by (subst unat_sub) (simp_all add: word_le_nat_alt)
  then have d: "unat ((all_mem - (PG_SIZE * 256 + 0x100000)) div PG_SIZE) = n"
    unfolding used by (simp add: unat_div PG_SIZE_def n_def)
  show a: "unat a = n"
    unfolding a_def using n(2) by (simp only: unsigned_ucast_eq d) (simp add: take_bit_nat_eq_self)
  show h: "unat (a div 2) = n div 2" by (simp add: unat_div a)
  show u: "unat (a - a div 2) = n - n div 2"
    using a h by (subst unat_sub) (simp_all add: word_le_nat_alt)
  show "unat (a div 2 div 8) = n div 2 div 8" by (simp add: unat_div a)
  show "unat ((a - a div 2) div 8) = (n - n div 2) div 8"
    unfolding unat_div u by simp
  have "n * 4096 \<le> unat all_mem - 2097152" unfolding n_def by simp
  then show "2097152 + n * 4096 \<le> unat all_mem" using assms(1) by linarith
qed

text \<open>C35: \<open>mem_pool_init\<close> on a machine with at least 3 MiB and less than 258 MiB of memory divides
  the memory above the first 2 MiB into two pools of frames that are all free, do not overlap
  and do not reach beyond the memory.\<close>

theorem mem_pool_init_pools:
  assumes "0x300000 \<le> unat all_mem" "unat all_mem < 0x10200000"
  shows "let s' = mem_pool_init mem all_mem s in
    pools_ok s' \<and> phy_addr_start (kernel_pool s') = 0x200000 \<and>
    unat (phy_addr_start (user_pool s')) + n_bits (pool_bitmap (user_pool s')) * 4096 \<le> unat all_mem \<and>
    (\<forall>pf. free_frames pf s' = frame_addr (the_pool pf s') ` {..< n_bits (pool_bitmap (the_pool pf s'))}) \<and>
    n_bits (vaddr_bitmap (kernel_vaddr s')) = n_bits (pool_bitmap (kernel_pool s'))"
proof -
  define n where "n = (unat all_mem - 0x200000) div 4096"
  define a where "a = (ucast ((all_mem - (PG_SIZE * 256 + 0x100000)) div PG_SIZE) :: u16)"
  note nums = page_numbers [OF assms, folded n_def a_def]
  let ?s = "mem_pool_init mem all_mem s"
  have e: "(PG_SIZE * 256 + 0x100000 :: u32) = 0x200000" by (simp add: PG_SIZE_def)
  have kb: "pool_bitmap (kernel_pool ?s) = bitmap_init \<lparr>btmp_bytes_len = ucast (a div 2 div 8),
      bits = (\<lambda>i. mem (MEM_BITMAP_BASE + i))\<rparr>"
    "phy_addr_start (kernel_pool ?s) = 0x200000"
    "phy_addr_start (user_pool ?s) = 0x200000 + ucast (a div 2) * PG_SIZE"
    "pool_bitmap (user_pool ?s) = bitmap_init \<lparr>btmp_bytes_len = ucast ((a - a div 2) div 8),
      bits = (\<lambda>i. mem (MEM_BITMAP_BASE + ucast (a div 2 div 8) + i))\<rparr>"
    by (simp_all add: mem_pool_init_def Let_def a_def e emit_def lock_init_def sema_init_def)
  have kv: "btmp_bytes_len (vaddr_bitmap (kernel_vaddr ?s)) = ucast (a div 2 div 8)"
    by (simp add: mem_pool_init_def Let_def a_def e emit_def lock_init_def sema_init_def bitmap_init_def)
  have nb: "n_bits (pool_bitmap (kernel_pool ?s)) = 8 * (n div 2 div 8)"
    "n_bits (pool_bitmap (user_pool ?s)) = 8 * ((n - n div 2) div 8)"
    "n_bits (vaddr_bitmap (kernel_vaddr ?s)) = 8 * (n div 2 div 8)"
    using nums unfolding kb(1,4) by (simp_all add: n_bits_def bitmap_init_def unat_ucast_u32 kv)
  have us: "unat (phy_addr_start (user_pool ?s)) = 0x200000 + n div 2 * 4096"
  proof -
    have m: "unat (ucast (a div 2) * PG_SIZE) = n div 2 * 4096"
      using nums(2,4) by (subst unat_mult_u32) (simp_all add: unat_ucast_u32 PG_SIZE_def)
    show ?thesis unfolding kb using nums(2) by (subst unat_add_u32) (simp_all add: m)
  qed
  have sm: "small (pool_bitmap (kernel_pool ?s))" "small (pool_bitmap (user_pool ?s))"
    using nums(2) by (simp_all add: small_def nb)
  have lim: "n div 2 < 32768" "n div 2 div 8 \<le> 4096" "(n - n div 2) div 8 \<le> 4096" using nums(2) by auto
  have le: "n div 2 * 4096 + 32768 * ((n - n div 2) div 8) \<le> 4292870144" using lim(1,3) by linarith
  have ok: "pools_ok ?s"
    using sm nb us kb(2) lim(2) le by (simp add: pools_ok_def pool_ok_def aligned_def)
  have clear: "\<not> is_set (pool_bitmap (the_pool pf ?s)) k" if "k < n_bits (pool_bitmap (the_pool pf ?s))" for pf k
  proof -
    obtain b where b: "pool_bitmap (the_pool pf ?s) = bitmap_init b"
      using kb(1,4) by (cases pf) (simp_all add: the_pool_def)
    have "small (pool_bitmap (the_pool pf ?s))" using sm by (simp add: the_pool_def)
    then show ?thesis using that bitmap_init_clear [of k b] unfolding b by simp
  qed
  have "free_frames pf ?s = frame_addr (the_pool pf ?s) ` {..< n_bits (pool_bitmap (the_pool pf ?s))}" for pf
    using clear by (auto simp: free_frames_def)
  moreover have "unat (phy_addr_start (user_pool ?s)) + n_bits (pool_bitmap (user_pool ?s)) * 4096 \<le> unat all_mem"
    using nums(8) us nb(2) by simp
  ultimately show ?thesis using ok kb(2) nb by (simp add: Let_def)
qed


section \<open>Mapping pages\<close>

text \<open>The frames of the kernel pool that are free are not in use as tables.\<close>

definition mem_ok :: "'a msys_scheme \<Rightarrow> bool" where
  "mem_ok s \<longleftrightarrow> tables_ok s \<and> pools_ok s \<and> (\<forall>f \<in> free_frames PF_KERNEL s. fresh_frame s f)"

lemma free_frames_the_pool: "the_pool pf s' = the_pool pf s \<Longrightarrow> free_frames pf s' = free_frames pf s"
  by (simp add: free_frames_def)

lemma palloc_from_mem_ok:
  assumes "mem_ok s" "palloc_from pf s = Inr (f, s')"
  shows "mem_ok s'" and "free_frames pf' s' \<subseteq> free_frames pf' s"
proof -
  have ok: "pools_ok s" using assms(1) by (simp add: mem_ok_def)
  note st = palloc_from_step [OF ok assms(2)]
  show sub: "free_frames pf' s' \<subseteq> free_frames pf' s" for pf'
    using st(3) free_frames_the_pool [OF st(4)] by (cases "pf' = pf") auto
  note same = translation_same [OF palloc_from_fields(1,2) [OF assms(2)]]
  show "mem_ok s'" using assms(1) st(1) sub same by (auto simp: mem_ok_def)
qed

lemma fresh_write:
  assumes "\<And>u. present s' u = present s u" "\<And>u. table_of s' u = table_of s u" "cr3 s' = cr3 s"
  shows "fresh_frame s' = fresh_frame s" and "aliases s' = aliases s"
  using assms by (simp_all add: fresh_frame_def aliases_def fun_eq_iff)

lemma page_table_add_mem:
  assumes "mem_ok s" "PDE_IDX v \<noteq> 1023" "walk s v = Inl Fault" "aligned p"
  shows "page_table_add v p s = Inl Panic \<or> (\<exists>s'. page_table_add v p s = Inr s' \<and> mem_ok s' \<and>
    (\<forall>pf. free_frames pf s' \<subseteq> free_frames pf s) \<and> aliases s' = aliases s \<and>
    (\<forall>u. PDE_IDX u \<noteq> 1023 \<longrightarrow> walk s' u = (if aliases s u v then Inr (p + (u AND 0xfff)) else walk s u)))"
proof -
  have t: "tables_ok s" and ok: "pools_ok s" and fr: "\<forall>f \<in> free_frames PF_KERNEL s. fresh_frame s f"
    using assms(1) by (simp_all add: mem_ok_def)
  show ?thesis
  proof (cases "present s v")
    case True
    let ?s' = "s\<lparr>pmem := (pmem s)(table_of s v + PTE_IDX v * 4 := p OR PG_US_U OR PG_RW_W OR PG_P_1)\<rparr>"
    have r: "page_table_add v p s = Inr ?s'" by (rule add_present [OF t True assms(2,3)])
    note w = write_pte [OF t True assms(2), where w = "p OR PG_US_U OR PG_RW_W OR PG_P_1"]
    note aw = add_walk [OF t True assms(2-4) r]
    have f: "fresh_frame ?s' = fresh_frame s" "aliases ?s' = aliases s"
      by (rule fresh_write; use w in simp)+
    have pl: "the_pool pf ?s' = the_pool pf s" for pf by (simp add: the_pool_def)
    then have ff: "free_frames pf ?s' = free_frames pf s" for pf by (rule free_frames_the_pool)
    have "pools_ok ?s'" using ok by (simp add: pools_ok_def)
    then have "mem_ok ?s'" using aw(1) fr ff f by (simp add: mem_ok_def)
    with r ff f aw(4) show ?thesis by (intro disjI2 exI [of _ ?s']) simp
  next
    case False
    have ld: "vload s (pde_ptr v) = Inr (pde_of s v)"
      using walk_pde_ptr [of s v] t by (simp add: vload_def pde_of_def tables_ok_def)
    show ?thesis
    proof (cases "palloc_from PF_KERNEL s")
      case (Inl e)
      then have "e = Panic" using palloc_from_panics [OF ok] by blast
      then have "page_table_add v p s = Inl Panic"
        using Inl ld False by (simp add: page_table_add_def present_def)
      then show ?thesis by blast
    next
      case (Inr x)
      then obtain f s1 where f: "palloc_from PF_KERNEL s = Inr (f, s1)" by (cases x) auto
      note st = palloc_from_step [OF ok f]
      have ff: "fresh_frame s f" using fr st(2) by blast
      note same = translation_same [OF palloc_from_fields(1,2) [OF f]]
      have t1: "tables_ok s1" "\<not> present s1 v" "fresh_frame s1 f" using t False ff same by simp_all
      note wt = with_table_facts [OF t1(1,2) assms(2) t1(3)]
      let ?s1 = "with_table v f s1"
      let ?s' = "?s1\<lparr>pmem := (pmem ?s1)(f + PTE_IDX v * 4 := p OR PG_US_U OR PG_RW_W OR PG_P_1)\<rparr>"
      have r: "page_table_add v p s = Inr ?s'" by (rule add_absent(2) [OF t False assms(2) f ff])
      have p3: "present ?s1 v" "table_of ?s1 v = f" by (simp_all add: wt)
      note w = write_pte [OF wt(4) p3(1) assms(2), where w = "p OR PG_US_U OR PG_RW_W OR PG_P_1", unfolded p3(2)]
      have c: "cr3 ?s' = cr3 s1" by (simp add: with_table_def)
      have pr: "present ?s' u = (PDE_IDX u = PDE_IDX v \<or> present s u)"
        "table_of ?s' u = (if PDE_IDX u = PDE_IDX v then f else table_of s u)" for u
        using w(3,4) wt(2,3) same by simp_all
      have al: "aliases ?s' = aliases s"
      proof (intro ext)
        fix a b
        have "table_of s u \<noteq> f" if "present s u" for u using ff that by (auto simp: fresh_frame_def)
        moreover have "\<not> present s u" if "PDE_IDX u = PDE_IDX v" for u using False pde_same [OF that, of s] by simp
        ultimately show "aliases ?s' a b = aliases s a b" unfolding aliases_def pr by auto
      qed
      have pl: "the_pool pf ?s' = the_pool pf s1" for pf by (simp add: the_pool_def with_table_def)
      then have fp: "free_frames pf ?s' = free_frames pf s1" for pf by (rule free_frames_the_pool)
      have sub: "free_frames pf ?s' \<subseteq> free_frames pf s" for pf
        using palloc_from_mem_ok(2) [OF assms(1) f] fp by simp
      have "fresh_frame ?s' g" if "g \<in> free_frames PF_KERNEL ?s'" for g
      proof -
        have "g \<noteq> f" "fresh_frame s g" using that fp [of PF_KERNEL] st(3) fr by auto
        then show ?thesis using pr c same palloc_from_fields(2) [OF f] by (auto simp: fresh_frame_def split: if_splits)
      qed
      moreover have "pools_ok ?s'" using st(1) by (simp add: pools_ok_def with_table_def)
      ultimately have mo: "mem_ok ?s'" using w(1) by (simp add: mem_ok_def)
      have "walk ?s' u = (if aliases s u v then Inr (p + (u AND 0xfff)) else walk s u)" if "PDE_IDX u \<noteq> 1023" for u
      proof -
        from page_table_add_ok [OF t assms(2-4)] f ff obtain s'' where s'': "page_table_add v p s = Inr s''"
          "\<forall>u. PDE_IDX u \<noteq> 1023 \<longrightarrow> walk s'' u = (if aliases s u v then Inr (p + (u AND 0xfff)) else walk s u)" by blast
        then show ?thesis using r that by simp
      qed
      with r sub al mo show ?thesis by (intro disjI2 exI [of _ ?s']) simp
    qed
  qed
qed


text \<open>A frame that is in use but is not a table does not become one.\<close>

lemma page_table_add_fresh:
  assumes "mem_ok s" "PDE_IDX v \<noteq> 1023" "walk s v = Inl Fault" "page_table_add v p s = Inr s'"
    and "fresh_frame s f" "f \<notin> free_frames PF_KERNEL s"
  shows "fresh_frame s' f"
proof -
  have t: "tables_ok s" and ok: "pools_ok s" and fr: "\<forall>f \<in> free_frames PF_KERNEL s. fresh_frame s f"
    using assms(1) by (simp_all add: mem_ok_def)
  show ?thesis
  proof (cases "present s v")
    case True
    note w = write_pte [OF t True assms(2), where w = "p OR PG_US_U OR PG_RW_W OR PG_P_1"]
    have "fresh_frame s' = fresh_frame s"
      using add_present [OF t True assms(2,3), of p] assms(4) w by (intro fresh_write) auto
    then show ?thesis using assms(5) by simp
  next
    case False
    have ld: "vload s (pde_ptr v) = Inr (pde_of s v)"
      using walk_pde_ptr [of s v] t by (simp add: vload_def pde_of_def tables_ok_def)
    obtain g s1 where g: "palloc_from PF_KERNEL s = Inr (g, s1)"
      using assms(4) ld False by (auto simp: page_table_add_def present_def Let_def res_simps)
    note st = palloc_from_step [OF ok g]
    have gf: "fresh_frame s g" and ne: "g \<noteq> f" using fr st(2) assms(6) by auto
    note same = translation_same [OF palloc_from_fields(1,2) [OF g]]
    have t1: "tables_ok s1" "\<not> present s1 v" "fresh_frame s1 g" using t False gf same by simp_all
    note wt = with_table_facts [OF t1(1,2) assms(2) t1(3)]
    have p3: "present (with_table v g s1) v" "table_of (with_table v g s1) v = g" by (simp_all add: wt)
    note w = write_pte [OF wt(4) p3(1) assms(2), where w = "p OR PG_US_U OR PG_RW_W OR PG_P_1", unfolded p3(2)]
    have c: "cr3 (with_table v g s1) = cr3 s" using palloc_from_fields(2) [OF g] by (simp add: with_table_def)
    show ?thesis
      using add_absent(2) [OF t False assms(2) g gf, of p] assms(4,5) ne w(3,4) wt(2,3) same c
      by (auto simp: fresh_frame_def split: if_splits)
  qed
qed

lemma aligned_add_page: "aligned v \<Longrightarrow> aligned (v + of_nat i * PG_SIZE)"
  unfolding aligned_def PG_SIZE_def
  by (simp add: unat_word_ariths dvd_mod_iff dvd_mult)

lemma map_pages_ok:
  assumes "mem_ok s" "aligned v"
    and "\<And>i. i < n \<Longrightarrow> PDE_IDX (v + of_nat i * PG_SIZE) \<noteq> 1023 \<and> walk s (v + of_nat i * PG_SIZE) = Inl Fault"
    and "\<And>i j. i < n \<Longrightarrow> j < n \<Longrightarrow> aliases s (v + of_nat i * PG_SIZE) (v + of_nat j * PG_SIZE) \<Longrightarrow> i = j"
  shows "map_pages pf v n s = Inl Panic \<or> (\<exists>s' F. map_pages pf v n s = Inr (True, s') \<and> mem_ok s' \<and>
    aliases s' = aliases s \<and> (\<forall>pf. free_frames pf s' \<subseteq> free_frames pf s) \<and>
    (\<forall>i<n. walk s' (v + of_nat i * PG_SIZE) = Inr (F i) \<and> F i \<in> free_frames pf s - free_frames pf s') \<and>
    inj_on F {..<n} \<and>
    (\<forall>u. PDE_IDX u \<noteq> 1023 \<and> (\<forall>i<n. \<not> aliases s u (v + of_nat i * PG_SIZE)) \<longrightarrow> walk s' u = walk s u))"
  using assms
proof (induction n arbitrary: v s)
  case 0
  then show ?case by auto
next
  case (Suc n)
  have shift: "v + PG_SIZE + of_nat i * PG_SIZE = v + of_nat (Suc i) * PG_SIZE" for i by (simp add: algebra_simps)
  have ok: "pools_ok s" using Suc.prems(1) by (simp add: mem_ok_def)
  show ?case
  proof (cases "palloc_from pf s")
    case (Inl e)
    then have "e = Panic" using palloc_from_panics [OF ok] by blast
    then show ?thesis using Inl by simp
  next
    case (Inr x)
    then obtain f s1 where f: "palloc_from pf s = Inr (f, s1)" by (cases x) auto
    note st = palloc_from_step [OF ok f] and m1 = palloc_from_mem_ok [OF Suc.prems(1) f]
    note same = translation_same [OF palloc_from_fields(1,2) [OF f]]
    have v0: "PDE_IDX v \<noteq> 1023" "walk s1 v = Inl Fault" using Suc.prems(3) [of 0] same by simp_all
    from page_table_add_mem [OF m1(1) v0 st(5)] show ?thesis
    proof (elim disjE exE conjE)
      assume "page_table_add v f s1 = Inl Panic"
      then show ?thesis using f st(6) by simp
    next
      fix s2
      assume s2: "page_table_add v f s1 = Inr s2" "mem_ok s2" "\<forall>pf. free_frames pf s2 \<subseteq> free_frames pf s1"
        "aliases s2 = aliases s1"
        "\<forall>u. PDE_IDX u \<noteq> 1023 \<longrightarrow> walk s2 u = (if aliases s1 u v then Inr (f + (u AND 0xfff)) else walk s1 u)"
      have step: "map_pages pf v (Suc n) s = map_pages pf (v + PG_SIZE) n s2"
        using f st(6) s2(1) by simp
      have na: "\<not> aliases s (v + of_nat (Suc i) * PG_SIZE) v" if "i < n" for i
        using Suc.prems(4) [of "Suc i" 0] that by auto
      have al: "aliases s2 = aliases s" using s2(4) same by simp
      have ih: "map_pages pf (v + PG_SIZE) n s2 = Inl Panic \<or> (\<exists>s' F. map_pages pf (v + PG_SIZE) n s2 = Inr (True, s') \<and> mem_ok s' \<and>
        aliases s' = aliases s2 \<and> (\<forall>pf. free_frames pf s' \<subseteq> free_frames pf s2) \<and>
        (\<forall>i<n. walk s' (v + PG_SIZE + of_nat i * PG_SIZE) = Inr (F i) \<and> F i \<in> free_frames pf s2 - free_frames pf s') \<and>
        inj_on F {..<n} \<and>
        (\<forall>u. PDE_IDX u \<noteq> 1023 \<and> (\<forall>i<n. \<not> aliases s2 u (v + PG_SIZE + of_nat i * PG_SIZE)) \<longrightarrow> walk s' u = walk s2 u))"
      proof (rule Suc.IH)
        show "mem_ok s2" by (rule s2(2))
        show "aligned (v + PG_SIZE)" using aligned_add_page [OF Suc.prems(2), of 1] by simp
        fix i assume i: "i < n"
        show "PDE_IDX (v + PG_SIZE + of_nat i * PG_SIZE) \<noteq> 1023 \<and> walk s2 (v + PG_SIZE + of_nat i * PG_SIZE) = Inl Fault"
          unfolding shift using Suc.prems(3) [of "Suc i"] i s2(5) same na [OF i] by simp
        fix j assume "j < n" "aliases s2 (v + PG_SIZE + of_nat i * PG_SIZE) (v + PG_SIZE + of_nat j * PG_SIZE)"
        then show "i = j" unfolding shift al using Suc.prems(4) [of "Suc i" "Suc j"] i by simp
      qed
      then show ?thesis unfolding shift al
      proof (elim disjE exE conjE)
        fix s' F
        assume h: "map_pages pf (v + PG_SIZE) n s2 = Inr (True, s')" "mem_ok s'" "aliases s' = aliases s"
          "\<forall>pf. free_frames pf s' \<subseteq> free_frames pf s2"
          "\<forall>i<n. walk s' (v + of_nat (Suc i) * PG_SIZE) = Inr (F i) \<and> F i \<in> free_frames pf s2 - free_frames pf s'"
          "inj_on F {..<n}"
          "\<forall>u. PDE_IDX u \<noteq> 1023 \<and> (\<forall>i<n. \<not> aliases s u (v + of_nat (Suc i) * PG_SIZE)) \<longrightarrow> walk s' u = walk s2 u"
        define G where "G i = (case i of 0 \<Rightarrow> f | Suc i \<Rightarrow> F i)" for i
        have sub: "\<forall>pf. free_frames pf s' \<subseteq> free_frames pf s" using h(4) s2(3) m1(2) by blast
        have fn: "f \<notin> free_frames pf s2" using s2(3) st(3) by blast
        have "\<not> aliases s v (v + of_nat (Suc i) * PG_SIZE)" if "i < n" for i
          using Suc.prems(4) [of 0 "Suc i"] that by auto
        then have "walk s' v = walk s2 v" using h(7) v0(1) by blast
        also have "walk s2 v = Inr f" using s2(5) v0(1) aligned_offset_0 [OF Suc.prems(2)] by simp
        finally have w0: "walk s' v = Inr f" .
        have "walk s' (v + of_nat i * PG_SIZE) = Inr (G i) \<and> G i \<in> free_frames pf s - free_frames pf s'" if "i < Suc n" for i
        proof (cases i)
          case 0
          then show ?thesis using w0 st(2) fn h(4) by (auto simp: G_def)
        next
          case (Suc k)
          then show ?thesis using h(5) that s2(3) m1(2) by (force simp: G_def)
        qed
        moreover have "inj_on G {..<Suc n}"
        proof (rule inj_onI)
          fix i j assume ij: "i \<in> {..<Suc n}" "j \<in> {..<Suc n}" "G i = G j"
          have "F k \<noteq> f" if "k < n" for k using h(5) that fn by blast
          with ij h(6) show "i = j" by (auto simp: G_def inj_on_def split: nat.splits)
        qed
        moreover have "walk s' u = walk s u"
          if "PDE_IDX u \<noteq> 1023" "\<forall>i<Suc n. \<not> aliases s u (v + of_nat i * PG_SIZE)" for u
        proof -
          have "\<not> aliases s u v" "\<forall>i<n. \<not> aliases s u (v + of_nat (Suc i) * PG_SIZE)"
            using that(2) by (auto dest: spec [of _ 0])
          then show ?thesis using h(7) s2(5) same that(1) by simp
        qed
        ultimately show ?thesis
          by (intro disjI2 exI [of _ s'] exI [of _ G] conjI) (use h(1-3) sub step in \<open>simp_all del: map_pages.simps\<close>)
      qed (use step in simp)
    qed
  qed
qed


text \<open>The pages of a pool of virtual pages: those that are not marked are not mapped, and no two of
  them share a table entry. The bit behind the map matters for a run of pages: \<open>bitmap_scan\<close> looks one
  bit too far.\<close>

definition vpage :: "virtual_addr \<Rightarrow> nat \<Rightarrow> u32" where
  "vpage v i = vaddr_start v + of_nat i * PG_SIZE"

definition vpool_ok :: "pool_flags \<Rightarrow> 'a msys_scheme \<Rightarrow> bool" where
  "vpool_ok pf s \<longleftrightarrow> (let v = the_vaddr pf s; b = vaddr_bitmap v in
     small b \<and> aligned (vaddr_start v) \<and> is_set b (n_bits b) \<and>
     (\<forall>i < n_bits b. PDE_IDX (vpage v i) \<noteq> 1023 \<and> vpage v i \<noteq> 0 \<and> (\<not> is_set b i \<longrightarrow> walk s (vpage v i) = Inl Fault)) \<and>
     (\<forall>i < n_bits b. \<forall>j < n_bits b. aliases s (vpage v i) (vpage v j) \<longrightarrow> i = j))"

lemma set_bits_spec:
  assumes "st + n < 2147483648"
  shows "\<exists>b'. set_bits (of_nat st) n 1 b = Inr b' \<and> n_bits b' = n_bits b \<and>
    (\<forall>k < 2147483648. is_set b' k \<longleftrightarrow> is_set b k \<or> st \<le> k \<and> k < st + n)"
  using assms
proof (induction n arbitrary: st b)
  case (Suc n)
  obtain b1 where b1: "bitmap_set b (of_nat st) 1 = Inr b1" using bitmap_set_ok by blast
  have e: "(of_nat st :: u32) + 1 = of_nat (Suc st)" by simp
  from Suc.IH [of "Suc st" b1] Suc.prems obtain b' where b': "set_bits (of_nat (Suc st)) n 1 b1 = Inr b'"
    "n_bits b' = n_bits b1" "\<forall>k < 2147483648. is_set b' k \<longleftrightarrow> is_set b1 k \<or> Suc st \<le> k \<and> k < Suc st + n" by auto
  have "is_set b1 k \<longleftrightarrow> k = st \<or> is_set b k" if "k < 2147483648" for k
    using is_set_bitmap_set [OF b1, of k] that Suc.prems by simp
  then have "\<forall>k < 2147483648. is_set b' k \<longleftrightarrow> is_set b k \<or> st \<le> k \<and> k < st + Suc n"
    using b'(3) by (auto simp: less_Suc_eq_le)
  moreover have "set_bits (of_nat st) (Suc n) 1 b = Inr b'" using b1 b'(1) unfolding set_bits.simps e by simp
  ultimately show ?case using b'(2) b1 by auto
qed auto

lemma bitmap_scan_run_ok:
  assumes "small b" "is_set b (n_bits b)" "1 \<le> unat cnt" "bitmap_scan b cnt = Inr r" "r \<noteq> - 1"
  shows "\<exists>st. r = of_nat st \<and> st + unat cnt \<le> n_bits b \<and> (\<forall>k < unat cnt. \<not> is_set b (st + k))"
proof (cases "unat cnt = 1")
  case True
  then have "cnt = 1" by (simp add: word_unat_eq_iff)
  then show ?thesis using assms(4) bitmap_scan_one [OF assms(1)] True by auto
next
  case False
  then have "2 \<le> unat cnt" using assms(3) by simp
  from bitmap_scan_runs [OF assms(1) this assms(4)] assms(5) obtain st where st: "r = of_nat st"
    "st + unat cnt \<le> n_bits b + 1" "\<forall>k < unat cnt. \<not> is_set b (st + k)" by blast
  have "st + unat cnt \<noteq> n_bits b + 1"
  proof
    assume "st + unat cnt = n_bits b + 1"
    then have "st + (unat cnt - 1) = n_bits b" using assms(3) by simp
    moreover have "\<not> is_set b (st + (unat cnt - 1))"
    proof -
      have "unat cnt - 1 < unat cnt" using assms(3) by linarith
      then show ?thesis using st(3) by blast
    qed
    ultimately show False using assms(2) by simp
  qed
  with st show ?thesis by (intro exI [of _ st]) simp
qed


lemma vpage_shift: "vpage v (st + i) = vpage v st + of_nat i * PG_SIZE"
  by (simp add: vpage_def algebra_simps)

lemma set_vmap_fields [simp]:
  "pmem (set_vmap pf b s) = pmem s" "cr3 (set_vmap pf b s) = cr3 s" "the_pool pf' (set_vmap pf b s) = the_pool pf' s"
  "running_thread (set_vmap pf b s) = running_thread s" "kernel_pool (set_vmap pf b s) = kernel_pool s"
  "user_pool (set_vmap pf b s) = user_pool s"
  "the_vaddr pf (set_vmap pf b s) = (the_vaddr pf s)\<lparr>vaddr_bitmap := b\<rparr>"
  by (cases pf; simp add: set_vmap_def the_pool_def the_vaddr_def)+

text \<open>These functions change nothing but physical memory and the pools.\<close>

definition only_memory :: "'a msys_scheme \<Rightarrow> 'a msys_scheme \<Rightarrow> bool" where
  "only_memory s s' \<longleftrightarrow> (\<exists>m k u. s' = s\<lparr>pmem := m, kernel_pool := k, user_pool := u\<rparr> \<and>
     pool_lock k = pool_lock (kernel_pool s) \<and> pool_lock u = pool_lock (user_pool s))"

lemma only_memory_refl [simp]: "only_memory s s"
proof -
  have "s = s\<lparr>pmem := pmem s, kernel_pool := kernel_pool s, user_pool := user_pool s\<rparr>" by simp
  then show ?thesis unfolding only_memory_def by blast
qed

lemma only_memory_trans: "only_memory s t \<Longrightarrow> only_memory t u \<Longrightarrow> only_memory s u"
  by (auto simp: only_memory_def) blast

lemma only_memory_updates [simp]:
  "only_memory s (s\<lparr>pmem := m\<rparr>)" "pool_lock p = pool_lock (the_pool pf s) \<Longrightarrow> only_memory s (set_pool pf p s)"
proof -
  have "s\<lparr>pmem := m\<rparr> = s\<lparr>pmem := m, kernel_pool := kernel_pool s, user_pool := user_pool s\<rparr>" by simp
  then show "only_memory s (s\<lparr>pmem := m\<rparr>)" unfolding only_memory_def by blast
  show "only_memory s (set_pool pf p s)" if l: "pool_lock p = pool_lock (the_pool pf s)"
    unfolding only_memory_def
  proof (intro exI conjI)
    show "set_pool pf p s = s\<lparr>pmem := pmem s, kernel_pool := kernel_pool (set_pool pf p s), user_pool := user_pool (set_pool pf p s)\<rparr>"
      by (simp add: set_pool_def)
    show "pool_lock (kernel_pool (set_pool pf p s)) = pool_lock (kernel_pool s)" "pool_lock (user_pool (set_pool pf p s)) = pool_lock (user_pool s)"
      using l by (cases pf; simp add: set_pool_def the_pool_def)+
  qed
qed

lemma only_memory_vstore: "vstore a w s = Inr s' \<Longrightarrow> only_memory s s'"
  by (auto simp: vstore_def res_simps)

lemma only_memory_vzero: "vzero a n s = Inr s' \<Longrightarrow> only_memory s s'"
proof (induction n arbitrary: a s)
  case (Suc n)
  then show ?case by (auto simp: res_simps intro: only_memory_trans only_memory_vstore)
qed simp

lemma only_memory_palloc: "palloc_from pf s = Inr (f, s') \<Longrightarrow> only_memory s s'"
  by (auto simp: palloc_from_def palloc_def Let_def res_simps split: if_splits)

lemma only_memory_add: "page_table_add v p s = Inr s' \<Longrightarrow> only_memory s s'"
  unfolding page_table_add_def Let_def
  by (auto simp: res_simps split: if_splits
      intro: only_memory_vstore only_memory_trans [OF only_memory_palloc only_memory_trans [OF only_memory_vstore
        only_memory_trans [OF only_memory_vzero only_memory_vstore]]])

lemma only_memory_map_pages: "map_pages pf v n s = Inr (r, s') \<Longrightarrow> only_memory s s'"
proof (induction n arbitrary: v s)
  case (Suc n)
  then show ?case
    by (auto simp: res_simps split: if_splits intro: only_memory_palloc
        only_memory_trans [OF only_memory_palloc only_memory_trans [OF only_memory_add]])
qed simp

lemma only_memory_vaddr: "only_memory s s' \<Longrightarrow> the_vaddr pf s' = the_vaddr pf s"
  by (auto simp: only_memory_def the_vaddr_def)

lemma mem_ok_same:
  assumes "pmem s' = pmem s" "cr3 s' = cr3 s" "kernel_pool s' = kernel_pool s" "user_pool s' = user_pool s"
  shows "mem_ok s' = mem_ok s"
  using translation_same [OF assms(1,2)] assms
  by (simp add: mem_ok_def pools_ok_def free_frames_def the_pool_def)

lemma vaddr_get_ok:
  assumes "vpool_ok pf s" "1 \<le> unat pg_cnt"
  shows "vaddr_get pf pg_cnt s \<in> {Inl Panic, Inr (0, s)} \<or>
    (\<exists>st b. st + unat pg_cnt \<le> n_bits (vaddr_bitmap (the_vaddr pf s)) \<and>
      (\<forall>k < unat pg_cnt. \<not> is_set (vaddr_bitmap (the_vaddr pf s)) (st + k)) \<and>
      vaddr_get pf pg_cnt s = Inr (vpage (the_vaddr pf s) st, set_vmap pf b s) \<and>
      n_bits b = n_bits (vaddr_bitmap (the_vaddr pf s)) \<and>
      (\<forall>k < 2147483648. is_set b k \<longleftrightarrow> is_set (vaddr_bitmap (the_vaddr pf s)) k \<or> st \<le> k \<and> k < st + unat pg_cnt))"
proof -
  let ?v = "the_vaddr pf s" and ?n = "unat pg_cnt"
  let ?b = "vaddr_bitmap ?v"
  have sm: "small ?b" and last: "is_set ?b (n_bits ?b)" using assms(1) by (simp_all add: vpool_ok_def Let_def)
  show ?thesis
  proof (cases "bitmap_scan ?b pg_cnt")
    case (Inl e)
    have "e = Panic" using Inl by (auto simp: bitmap_scan_def Let_def bnd_eq_Inl split: if_splits)
    then show ?thesis using Inl by (simp add: vaddr_get_def Let_def)
  next
    case (Inr r)
    show ?thesis
    proof (cases "r = - 1")
      case True
      then show ?thesis using Inr by (simp add: vaddr_get_def Let_def)
    next
      case False
      from bitmap_scan_run_ok [OF sm last assms(2) Inr False] obtain st where st: "r = of_nat st" "st + ?n \<le> n_bits ?b"
        "\<forall>k < ?n. \<not> is_set ?b (st + k)" by blast
      have lim: "st + ?n < 2147483648" using st(2) sm by (simp add: small_def)
      from set_bits_spec [OF lim, of ?b] obtain b where b: "set_bits (of_nat st) ?n 1 ?b = Inr b" "n_bits b = n_bits ?b"
        "\<forall>k < 2147483648. is_set b k \<longleftrightarrow> is_set ?b k \<or> st \<le> k \<and> k < st + ?n" by blast
      have "vaddr_get pf pg_cnt s = (if pf = PF_KERNEL then Inr (vpage ?v st, set_vmap pf b s)
          else bnd (ASSERT (vpage ?v st < 0xc0000000 - PG_SIZE)) (\<lambda>_. Inr (vpage ?v st, set_vmap pf b s)))"
        using Inr False b(1) by (simp add: vaddr_get_def Let_def st(1) vpage_def)
      then have "vaddr_get pf pg_cnt s = Inl Panic \<or> vaddr_get pf pg_cnt s = Inr (vpage ?v st, set_vmap pf b s)"
        by (auto simp: ASSERT_def)
      then show ?thesis using st b by blast
    qed
  qed
qed

text \<open>After a run of pages has been taken and mapped, the pages that are left are as before.\<close>

lemma vpool_ok_taken:
  assumes "vpool_ok pf s"
  defines "v \<equiv> the_vaddr pf s"
  assumes run: "st + n \<le> n_bits (vaddr_bitmap v)" and nb: "n_bits b = n_bits (vaddr_bitmap v)"
    and set: "\<And>k. k \<le> n_bits (vaddr_bitmap v) \<Longrightarrow> is_set b k \<longleftrightarrow> is_set (vaddr_bitmap v) k \<or> st \<le> k \<and> k < st + n"
    and v': "the_vaddr pf s' = v\<lparr>vaddr_bitmap := b\<rparr>" and al: "aliases s' = aliases s"
    and w: "\<forall>u. PDE_IDX u \<noteq> 1023 \<and> (\<forall>i < n. \<not> aliases s u (vpage v (st + i))) \<longrightarrow> walk s' u = walk s u"
  shows "vpool_ok pf s'"
proof -
  have vp: "small (vaddr_bitmap v)" "aligned (vaddr_start v)" "is_set (vaddr_bitmap v) (n_bits (vaddr_bitmap v))"
    "\<And>i. i < n_bits (vaddr_bitmap v) \<Longrightarrow> PDE_IDX (vpage v i) \<noteq> 1023 \<and> vpage v i \<noteq> 0 \<and>
       (\<not> is_set (vaddr_bitmap v) i \<longrightarrow> walk s (vpage v i) = Inl Fault)"
    "\<And>i j. i < n_bits (vaddr_bitmap v) \<Longrightarrow> j < n_bits (vaddr_bitmap v) \<Longrightarrow> aliases s (vpage v i) (vpage v j) \<Longrightarrow> i = j"
    using assms(1) unfolding v_def by (simp_all add: vpool_ok_def Let_def)
  have vpg: "vpage (v\<lparr>vaddr_bitmap := b\<rparr>) = vpage v" by (simp add: vpage_def fun_eq_iff)
  have "walk s' (vpage v i) = Inl Fault" if "i < n_bits (vaddr_bitmap v)" "\<not> is_set b i" for i
  proof -
    have "\<not> aliases s (vpage v i) (vpage v (st + k))" if k: "k < n" for k
    proof
      assume "aliases s (vpage v i) (vpage v (st + k))"
      then have "i = st + k" using vp(5) [of i "st + k"] \<open>i < n_bits (vaddr_bitmap v)\<close> run k by simp
      then show False using set [of i] \<open>i < n_bits (vaddr_bitmap v)\<close> \<open>\<not> is_set b i\<close> k by simp
    qed
    then have "walk s' (vpage v i) = walk s (vpage v i)" using w vp(4) [OF that(1)] by blast
    then show ?thesis using vp(4) [OF that(1)] set [of i] that by simp
  qed
  then show ?thesis using vp nb set [of "n_bits (vaddr_bitmap v)"] al by (simp add: vpool_ok_def Let_def v' vpg small_def)
qed

lemma malloc_page_ok:
  assumes "mem_ok s" "vpool_ok pf s" "1 \<le> unat pg_cnt"
  shows "malloc_page pf pg_cnt s \<in> {Inl Panic, Inr (0, s)} \<or>
    (\<exists>st s' F. malloc_page pf pg_cnt s = Inr (vpage (the_vaddr pf s) st, s') \<and> mem_ok s' \<and> vpool_ok pf s' \<and>
      st + unat pg_cnt \<le> n_bits (vaddr_bitmap (the_vaddr pf s)) \<and>
      (\<forall>i < unat pg_cnt. \<not> is_set (vaddr_bitmap (the_vaddr pf s)) (st + i) \<and>
         is_set (vaddr_bitmap (the_vaddr pf s')) (st + i) \<and>
         walk s' (vpage (the_vaddr pf s) (st + i)) = Inr (F i) \<and> F i \<in> free_frames pf s - free_frames pf s') \<and>
      inj_on F {..< unat pg_cnt} \<and>
      (\<forall>u. PDE_IDX u \<noteq> 1023 \<and> (\<forall>i < unat pg_cnt. \<not> aliases s u (vpage (the_vaddr pf s) (st + i))) \<longrightarrow>
         walk s' u = walk s u))"
proof -
  let ?v = "the_vaddr pf s" and ?n = "unat pg_cnt"
  let ?b = "vaddr_bitmap ?v"
  have vp: "small ?b" "aligned (vaddr_start ?v)" "is_set ?b (n_bits ?b)"
    "\<And>i. i < n_bits ?b \<Longrightarrow> PDE_IDX (vpage ?v i) \<noteq> 1023 \<and> vpage ?v i \<noteq> 0 \<and> (\<not> is_set ?b i \<longrightarrow> walk s (vpage ?v i) = Inl Fault)"
    "\<And>i j. i < n_bits ?b \<Longrightarrow> j < n_bits ?b \<Longrightarrow> aliases s (vpage ?v i) (vpage ?v j) \<Longrightarrow> i = j"
    using assms(2) by (simp_all add: vpool_ok_def Let_def)
  show ?thesis
  proof (cases "pg_cnt > 0 \<and> pg_cnt < 3840")
    case False
    then have "malloc_page pf pg_cnt s = Inl Panic"
      unfolding malloc_page_def by (simp only: ASSERT_False bnd_Inl)
    then show ?thesis by simp
  next
    case True
    have mp: "malloc_page pf pg_cnt s = bnd (vaddr_get pf pg_cnt s) (\<lambda>(start, s).
        if start = 0 then Inr (0, s)
        else bnd (map_pages pf start ?n s) (\<lambda>(ok, s). if ok then Inr (start, s) else Inr (0, s)))"
      unfolding malloc_page_def using True by (simp only: ASSERT_True bnd_Inr simp_thms)
    from vaddr_get_ok [OF assms(2,3)] show ?thesis
    proof (elim disjE exE conjE)
      assume "vaddr_get pf pg_cnt s \<in> {Inl Panic, Inr (0, s)}"
      then show ?thesis unfolding mp by auto
    next
      fix st b
      assume g: "st + ?n \<le> n_bits ?b" "\<forall>k < ?n. \<not> is_set ?b (st + k)"
        "vaddr_get pf pg_cnt s = Inr (vpage ?v st, set_vmap pf b s)" "n_bits b = n_bits ?b"
        "\<forall>k < 2147483648. is_set b k \<longleftrightarrow> is_set ?b k \<or> st \<le> k \<and> k < st + ?n"
      let ?s1 = "set_vmap pf b s"
      have same: "walk ?s1 = walk s" "aliases ?s1 = aliases s" by (rule translation_same; simp)+
      have ff: "free_frames pf' ?s1 = free_frames pf' s" for pf' by (rule free_frames_the_pool) simp
      have m1: "mem_ok ?s1" using mem_ok_same [of ?s1 s] assms(1) by simp
      have nz: "vpage ?v st \<noteq> 0" using vp(4) [of st] g(1) assms(3) by simp
      have al: "aligned (vpage ?v st)" unfolding vpage_def by (rule aligned_add_page [OF vp(2)])
      have "map_pages pf (vpage ?v st) ?n ?s1 = Inl Panic \<or> (\<exists>s' F. map_pages pf (vpage ?v st) ?n ?s1 = Inr (True, s') \<and> mem_ok s' \<and>
        aliases s' = aliases ?s1 \<and> (\<forall>pf. free_frames pf s' \<subseteq> free_frames pf ?s1) \<and>
        (\<forall>i<?n. walk s' (vpage ?v st + of_nat i * PG_SIZE) = Inr (F i) \<and> F i \<in> free_frames pf ?s1 - free_frames pf s') \<and>
        inj_on F {..<?n} \<and>
        (\<forall>u. PDE_IDX u \<noteq> 1023 \<and> (\<forall>i<?n. \<not> aliases ?s1 u (vpage ?v st + of_nat i * PG_SIZE)) \<longrightarrow> walk s' u = walk ?s1 u))"
      proof (rule map_pages_ok [OF m1 al])
        fix i assume i: "i < ?n"
        show "PDE_IDX (vpage ?v st + of_nat i * PG_SIZE) \<noteq> 1023 \<and> walk ?s1 (vpage ?v st + of_nat i * PG_SIZE) = Inl Fault"
          unfolding vpage_shift [symmetric] same using vp(4) [of "st + i"] g(1,2) i by simp
        fix j assume "j < ?n" "aliases ?s1 (vpage ?v st + of_nat i * PG_SIZE) (vpage ?v st + of_nat j * PG_SIZE)"
        then show "i = j" using vp(5) [of "st + i" "st + j"] g(1) i by (simp add: same vpage_shift)
      qed
      then show ?thesis unfolding same ff vpage_shift [symmetric]
      proof (elim disjE exE conjE)
        assume "map_pages pf (vpage ?v st) ?n ?s1 = Inl Panic"
        then show ?thesis using g(3) nz by (simp add: mp)
      next
        fix s' F
        assume h: "map_pages pf (vpage ?v st) ?n ?s1 = Inr (True, s')" "mem_ok s'" "aliases s' = aliases s"
          "\<forall>pf. free_frames pf s' \<subseteq> free_frames pf s"
          "\<forall>i<?n. walk s' (vpage ?v (st + i)) = Inr (F i) \<and> F i \<in> free_frames pf s - free_frames pf s'"
          "inj_on F {..<?n}"
          "\<forall>u. PDE_IDX u \<noteq> 1023 \<and> (\<forall>i<?n. \<not> aliases s u (vpage ?v (st + i))) \<longrightarrow> walk s' u = walk s u"
        have r: "malloc_page pf pg_cnt s = Inr (vpage ?v st, s')" using g(3) nz h(1) by (simp add: mp)
        have v': "the_vaddr pf s' = ?v\<lparr>vaddr_bitmap := b\<rparr>"
          using only_memory_vaddr [OF only_memory_map_pages [OF h(1)], of pf] by simp
        have nb: "n_bits ?b < 2147483648" using vp(1) by (simp add: small_def)
        have set: "is_set b k \<longleftrightarrow> is_set ?b k \<or> st \<le> k \<and> k < st + ?n" if "k \<le> n_bits ?b" for k
          using that nb g(5) by simp
        have "vpool_ok pf s'" by (rule vpool_ok_taken [OF assms(2) g(1,4) set v' h(3,7)])
        moreover have "\<forall>i < ?n. \<not> is_set ?b (st + i) \<and> is_set (vaddr_bitmap (the_vaddr pf s')) (st + i)"
          using g(1,2) set by (simp add: v')
        ultimately show ?thesis using r h g(1) by (intro disjI2 exI [of _ st] exI [of _ s'] exI [of _ F]) simp
      qed
    qed
  qed
qed



section \<open>Concrete instances\<close>

definition demo_vmap :: bitmap where
  "demo_vmap = \<lparr>btmp_bytes_len = 1, bits = (\<lambda>_. 0)(1 := 1)\<rparr>"

definition demo_heap :: msys where
  "demo_heap = demo_mem\<lparr>kernel_vaddr := \<lparr>vaddr_bitmap = demo_vmap, vaddr_start = 0xc0100000\<rparr>\<rparr>"

lemma demo_pools_ok: "pools_ok demo_mem" "pools_ok demo_heap"
  using free_map_facts by (simp_all add: pools_ok_def pool_ok_def demo_mem_def demo_heap_def aligned_def)

lemma demo_heap_same: "walk demo_heap = walk demo_mem" "tables_ok demo_heap = tables_ok demo_mem"
  "fresh_frame demo_heap = fresh_frame demo_mem" "aliases demo_heap = aliases demo_mem"
  by (rule translation_same; simp add: demo_heap_def)+

lemma demo_mem_ok: "mem_ok demo_heap"
proof -
  have ok: "pool_ok (kernel_pool demo_mem)" using demo_pools_ok(1) by (simp add: pools_ok_def)
  have "fresh_frame demo_mem f" if "f \<in> free_frames PF_KERNEL demo_mem" for f
  proof -
    from that obtain i where i: "f = frame_addr (kernel_pool demo_mem) i" "i < n_bits (pool_bitmap (kernel_pool demo_mem))"
      by (auto simp: free_frames_def the_pool_def)
    have "unat f = 0x200000 + i * 4096" using unat_frame_addr [OF ok i(2)] i(1) by (simp add: demo_mem_def)
    then have "f \<noteq> 0x100000" "f \<noteq> 0x101000" by auto
    then show ?thesis using frame_addr_aligned [OF ok i(2)] i(1) demo_tables(3)
      by (auto simp: fresh_frame_def demo_mem_def split: if_splits)
  qed
  moreover have "free_frames PF_KERNEL demo_heap = free_frames PF_KERNEL demo_mem"
    by (rule free_frames_the_pool) (simp add: demo_heap_def the_pool_def)
  ultimately show ?thesis using demo_pools_ok demo_tables(1) demo_heap_same by (simp add: mem_ok_def)
qed

lemma demo_vpool_ok: "vpool_ok PF_KERNEL demo_heap"
proof -
  let ?v = "\<lparr>vaddr_bitmap = demo_vmap, vaddr_start = 0xc0100000\<rparr>"
  have v: "the_vaddr PF_KERNEL demo_heap = ?v" by (simp add: the_vaddr_def demo_heap_def)
  have nb: "n_bits demo_vmap = 8" by (simp add: n_bits_def demo_vmap_def)
  have u: "unat (vpage ?v i) = 0xc0100000 + i * 4096" if "i < 8" for i
  proof -
    have m: "unat (of_nat i * PG_SIZE) = i * 4096" using that by (subst unat_mult_u32) (simp_all add: PG_SIZE_def)
    show ?thesis using that unfolding vpage_def by (subst unat_add_u32) (simp_all add: m)
  qed
  have pd: "PDE_IDX (vpage ?v i) = 768" if "i < 8" for i
  proof -
    have "(0xc0100000 + i * 4096) div 4194304 = (768 :: nat)" using that by (intro div_nat_eqI) simp_all
    then show ?thesis using u [OF that] by (simp add: word_unat_eq_iff unat_PDE_IDX)
  qed
  have pt: "PTE_IDX (vpage ?v i) = of_nat (256 + i)" if "i < 8" for i
  proof -
    have "0xc0100000 + i * 4096 = (786688 + i) * 4096" by simp
    then have "(0xc0100000 + i * 4096) div 4096 = 786688 + i" by (simp only: nonzero_mult_div_cancel_right)
    moreover have "(786688 + i) mod 1024 = 256 + i" using that by (simp add: mod_add_left_eq [symmetric, of 786688])
    ultimately show ?thesis using u [OF that] that
      by (simp add: word_unat_eq_iff unat_PTE_IDX del: of_nat_add)
  qed
  have w: "walk demo_mem (vpage ?v i) = Inl Fault" if "i < 8" for i
  proof -
    have pr: "present demo_mem (vpage ?v i)" using pd [OF that] demo_tables(2) by simp
    then have t: "table_of demo_mem (vpage ?v i) = 0x101000" using pd [OF that] demo_tables(3) by simp
    have al: "aligned 0x100000" "aligned 0x101000" by (simp_all add: aligned_def)
    have ix: "unat (1023 :: u32) < 1024" "unat (768 :: u32) < 1024" by simp_all
    have "pte_of demo_mem (vpage ?v i) = 0"
      unfolding pte_of_def t using entry_inject [OF al(2,1) idx_less(2) [of "vpage ?v i"] ix(1)]
        entry_inject [OF al(2,1) idx_less(2) [of "vpage ?v i"] ix(2)] by (simp add: demo_mem_def)
    then show ?thesis by (simp add: walk_eq)
  qed
  have "i = j" if "i < 8" "j < 8" "aliases demo_mem (vpage ?v i) (vpage ?v j)" for i j
  proof -
    have "(of_nat (256 + i) :: u32) = of_nat (256 + j)" using that pt by (simp add: aliases_def)
    then show ?thesis using that of_nat_eq_iff_u32 [of "256 + i" "256 + j"] by simp
  qed
  moreover have "vpage ?v i \<noteq> 0" if "i < 8" for i using u [OF that] by auto
  moreover have "small demo_vmap" using nb by (simp add: small_def)
  moreover have "is_set demo_vmap 8" by (simp add: is_set_def demo_vmap_def)
  moreover have "aligned 0xc0100000" by (simp add: aligned_def)
  ultimately show ?thesis using pd w by (simp add: vpool_ok_def Let_def v nb demo_heap_same)
qed

theorem palloc_pfree_roundtrip_witness:
  "\<exists>s'. palloc_from PF_KERNEL demo_mem = Inr (0x200000, s') \<and> 0x200000 \<notin> free_frames PF_KERNEL s' \<and>
     (\<exists>s''. pfree 0x200000 s' = Inr s'')"
proof -
  obtain s' where s': "palloc_from PF_KERNEL demo_mem = Inr (0x200000, s')" using demo_palloc by blast
  from palloc_pfree_roundtrip [OF demo_pools_ok(1) s'] s' show ?thesis by blast
qed

theorem palloc_exhausted_panics_witness:
  "palloc_from PF_KERNEL demo_mem \<noteq> Inl Panic \<and> free_frames PF_KERNEL demo_mem \<noteq> {}"
  using palloc_exhausted_panics [OF demo_pools_ok(1), of PF_KERNEL] demo_palloc by auto

theorem mem_pool_init_pools_witness:
  "pools_ok (mem_pool_init (\<lambda>_. 0xff) 0x2000000 demo_mem)"
  using mem_pool_init_pools [where all_mem = "0x2000000" and mem = "\<lambda>_. 0xff" and s = demo_mem] by (simp add: Let_def)


end
