(* ===== verification/Heap.thy ===== *)
theory Heap
  imports Pools
begin

text \<open>
  The heap of \<open>sys_malloc\<close>: the sizes of the descriptors, where the blocks of an arena lie, and
  what taking a block and giving it back does to the free list, to the counter in the header of the
  arena and to memory.
\<close>

section \<open>Descriptors\<close>

lemma upd_desc_descs [simp]: "descs (upd_desc d f s) = (descs s)(d := f (descs s d))"
  "pmem (upd_desc d f s) = pmem s" "cr3 (upd_desc d f s) = cr3 s"
  by (simp_all add: upd_desc_def)

definition class_size :: "nat \<Rightarrow> nat" where
  "class_size i = 16 * 2 ^ i"

definition class_desc :: "nat \<Rightarrow> mem_block_desc" where
  "class_desc i = \<lparr>block_size = of_nat (class_size i), blocks_per_arena = of_nat (4084 div class_size i), free_list = []\<rparr>"

lemma desc_addresses: "i < 7 \<Longrightarrow> j < 7 \<Longrightarrow> (d :: u32) + of_nat i * 24 = d + of_nat j * 24 \<Longrightarrow> i = j"
proof -
  assume a: "i < 7" "j < 7" "d + of_nat i * 24 = d + of_nat j * 24"
  then have "unat (of_nat i * 24 :: u32) = unat (of_nat j * 24 :: u32)" by simp
  moreover have "unat (of_nat k * 24 :: u32) = k * 24" if "k < 7" for k
    using that by (subst unat_mult_u32) simp_all
  ultimately show "i = j" using a by simp
qed

lemma block_desc_init_descs:
  "descs (block_desc_init d s) = (descs s)(d := class_desc 0, d + 24 := class_desc 1, d + 48 := class_desc 2,
     d + 72 := class_desc 3, d + 96 := class_desc 4, d + 120 := class_desc 5, d + 144 := class_desc 6)"
proof -
  have n: "DESC_CNT = Suc (Suc (Suc (Suc (Suc (Suc (Suc 0))))))" by (simp add: DESC_CNT_def)
  show ?thesis
    unfolding block_desc_init_def n desc_init_loop.simps
    by (simp add: Let_def sizeof_desc_def class_desc_def class_size_def sizeof_arena_def PG_SIZE_def add.assoc)
qed

lemma less7: "i < 7 \<Longrightarrow> i = 0 \<or> i = 1 \<or> i = 2 \<or> i = 3 \<or> i = 4 \<or> i = 5 \<or> i = (6 :: nat)"
  by linarith

text \<open>After \<open>block_desc_init\<close> the seven descriptors have the block sizes 16, 32, ..., 1024, the
  number of blocks of each is the largest for which header and blocks fit into a page, all free lists are
  empty, and a request of at most 1024 bytes is given to the smallest size that is large enough.\<close>

theorem block_desc_init_classes:
  assumes "i < 7"
  shows "descs (block_desc_init d s) (d + of_nat i * 24) = class_desc i \<and>
    12 + (4084 div class_size i) * class_size i \<le> 4096 \<and> 4096 < 12 + Suc (4084 div class_size i) * class_size i \<and>
    (unat sz \<le> class_size i \<and> (\<forall>j < i. class_size j < unat sz) \<longrightarrow>
       find_desc (block_desc_init d s) d sz 0 DESC_CNT = i)"
proof -
  have d: "descs (block_desc_init d s) (d + of_nat i * 24) = class_desc i" if "i < 7" for i
    using less7 [OF that] by (elim disjE) (simp_all add: block_desc_init_descs)
  have bs: "unat (block_size (class_desc j)) = class_size j" if "j < 7" for j
    using less7 [OF that] by (elim disjE) (simp_all add: class_desc_def class_size_def)
  have le: "sz \<le> block_size (descs (block_desc_init d s) (d + of_nat j * 24)) \<longleftrightarrow> unat sz \<le> class_size j" if "j < 7" for j
    using bs [OF that] d [OF that] by (simp add: word_le_nat_alt)
  have "find_desc (block_desc_init d s) (d + of_nat k * 24) sz k (7 - k) = i"
    if "unat sz \<le> class_size i" "\<forall>j < i. class_size j < unat sz" "k \<le> i" for k
    using that(3)
  proof (induction "i - k" arbitrary: k)
    case 0
    then have "7 - k = Suc (6 - k)" using assms by simp
    then show ?case using le [of k] that(1) 0 assms by simp
  next
    case (Suc n)
    then have k: "7 - k = Suc (7 - Suc k)" "k < i" "k < 7" using assms by simp_all
    have "\<not> unat sz \<le> class_size k" using that(2) k by (simp add: not_le)
    then have nle: "(sz \<le> block_size (descs (block_desc_init d s) (d + of_nat k * 24))) = False" using le [OF k(3)] by simp
    have e: "d + of_nat k * 24 + sizeof_desc = d + of_nat (Suc k) * 24" by (simp add: algebra_simps sizeof_desc_def)
    have "find_desc (block_desc_init d s) (d + of_nat (Suc k) * 24) sz (Suc k) (7 - Suc k) = i"
      by (rule Suc.hyps(1)) (use Suc.hyps(2) k in simp_all)
    then show ?case unfolding k(1) find_desc.simps nle if_False e .
  qed
  from this [of 0] have "unat sz \<le> class_size i \<and> (\<forall>j < i. class_size j < unat sz) \<longrightarrow>
       find_desc (block_desc_init d s) d sz 0 DESC_CNT = i" by (simp add: DESC_CNT_def)
  moreover have "12 + (4084 div class_size i) * class_size i \<le> 4096 \<and> 4096 < 12 + Suc (4084 div class_size i) * class_size i"
    using less7 [OF assms] by (elim disjE) (simp_all add: class_size_def)
  ultimately show ?thesis using d [OF assms] by blast
qed

theorem block_desc_init_classes_witness: "find_desc (block_desc_init 0xc0023000 demo_mem) 0xc0023000 100 0 DESC_CNT = 3"
  using block_desc_init_classes [of 3 "0xc0023000" demo_mem 100] by (simp add: class_size_def less_Suc_eq numeral_3_eq_3)

section \<open>Blocks in an arena\<close>

lemma block_address:
  assumes "aligned a" "i < 7" "idx < 4084 div class_size i"
  shows "block2arena (a + (12 + of_nat idx * of_nat (class_size i))) = a"
    and "unat (12 + of_nat idx * of_nat (class_size i) :: u32) = 12 + idx * class_size i"
    and "12 + idx * class_size i + class_size i \<le> 4096"
proof -
  have cs: "class_size i \<le> 1024" "0 < class_size i" using less7 [OF assms(2)] by (auto simp: class_size_def)
  have "Suc idx * class_size i \<le> (4084 div class_size i) * class_size i" using assms(3) by (intro mult_le_mono1) simp
  also have "\<dots> \<le> 4084" by simp
  finally show lim: "12 + idx * class_size i + class_size i \<le> 4096" by simp
  have "idx * class_size i \<le> 4084" using lim by simp
  moreover have "idx \<le> 4084" using assms(3) by (meson div_le_dividend less_imp_le_nat order_trans)
  ultimately have m: "unat (of_nat idx * of_nat (class_size i) :: u32) = idx * class_size i"
    using cs by (subst unat_mult_u32) simp_all
  show u: "unat (12 + of_nat idx * of_nat (class_size i) :: u32) = 12 + idx * class_size i"
    using lim by (subst unat_add_u32) (simp_all add: m)
  have "unat (12 + of_nat idx * of_nat (class_size i) :: u32) < 4096" using u lim cs by simp
  moreover obtain q where "unat a = 4096 * q" using assms(1) by (auto simp: aligned_def)
  ultimately have "unat (a + (12 + of_nat idx * of_nat (class_size i))) div 4096 * 4096 = unat a"
    using unat_aligned_add [OF assms(1)] by simp
  then show "block2arena (a + (12 + of_nat idx * of_nat (class_size i))) = a"
    by (simp add: block2arena_def word_unat_eq_iff unat_frame)
qed

text \<open>\<open>block2arena\<close> inverts \<open>arena2block\<close>: the arena of the block with a valid index in an
  arena is that arena; the blocks lie inside the page behind the header and do not overlap.\<close>

theorem arena_block_roundtrip:
  assumes "aligned a" "i < 7" "vload s a = Inr desc" "block_size (descs s desc) = of_nat (class_size i)"
    and "idx < 4084 div class_size i"
  shows "\<exists>b. arena2block a (of_nat idx) s = Inr b \<and> block2arena b = a \<and>
    unat b = unat a + 12 + idx * class_size i \<and> unat b + class_size i \<le> unat a + 4096"
proof -
  let ?o = "12 + of_nat idx * of_nat (class_size i) :: u32"
  note b = block_address [OF assms(1,2,5)]
  have cs: "0 < class_size i" by (simp add: class_size_def)
  have "arena2block a (of_nat idx) s = Inr (a + ?o)"
    using assms(3,4) by (simp add: arena2block_def sizeof_arena_def add.assoc)
  moreover have "unat ?o < 4096" using b(2,3) cs by simp
  then have "unat (a + ?o) = unat a + 12 + idx * class_size i"
    using unat_aligned_add [OF assms(1)] b(2) by simp
  ultimately show ?thesis using b(1,3) by auto
qed


theorem arena_block_roundtrip_witness:
  "\<exists>b. arena2block 0xc0100000 3 (demo_mem\<lparr>pmem := (pmem demo_mem)(0x101000 + 256 * 4 := 0x300007, 0x300000 := 9),
       descs := (\<lambda>_. class_desc 2)\<rparr>) = Inr b \<and> block2arena b = 0xc0100000"
proof -
  let ?s = "demo_mem\<lparr>pmem := (pmem demo_mem)(0x101000 + 256 * 4 := 0x300007, 0x300000 := 9), descs := (\<lambda>_. class_desc 2)\<rparr>"
  have "vload ?s 0xc0100000 = Inr 9"
    by (simp add: vload_def walk_def PDE_IDX_def PTE_IDX_def demo_mem_def Let_def)
  moreover have "aligned 0xc0100000" by (simp add: aligned_def)
  ultimately show ?thesis using arena_block_roundtrip [of "0xc0100000" 2 ?s 9 3]
    by (auto simp: class_desc_def class_size_def)
qed

section \<open>Taking and giving back a block\<close>

text \<open>Writing into a frame that is not a table.\<close>

lemma data_write:
  assumes "tables_ok s" "fresh_frame s f" "\<And>x. x \<notin> frame f \<Longrightarrow> m x = pmem s x"
  shows "walk (s\<lparr>pmem := m\<rparr>) u = (if present s u then walk s u else Inl Fault)"
    and "tables_ok (s\<lparr>pmem := m\<rparr>)" and "fresh_frame (s\<lparr>pmem := m\<rparr>) = fresh_frame s"
proof -
  let ?s = "s\<lparr>pmem := m\<rparr>"
  have ac: "aligned (cr3 s)" and af: "aligned f" and ne: "f \<noteq> cr3 s"
    using assms by (simp_all add: tables_ok_def self_mapped_def fresh_frame_def)
  have pd: "m (cr3 s + i * 4) = pmem s (cr3 s + i * 4)" if "unat i < 1024" for i
    using assms(3) frame_entry [OF af ac that] ne by auto
  have pde: "pde_of ?s u = pde_of s u" for u using pd [OF idx_less(1)] by (simp add: pde_of_def)
  then have pr: "present ?s u = present s u" "table_of ?s u = table_of s u" for u
    by (simp_all add: present_def table_of_def)
  have "pte_of ?s u = pte_of s u" if "present s u" for u
    using that assms(2,3) frame_entry [OF af aligned_table [of s u] idx_less(2) [of u]]
    by (auto simp: pte_of_def pr fresh_frame_def)
  then show "walk ?s u = (if present s u then walk s u else Inl Fault)" by (simp add: walk_eq pr)
  have i: "unat (1023 :: u32) < 1024" by simp
  show "tables_ok ?s" using assms(1) pd [OF i] by (simp add: tables_ok_def self_mapped_def pr)
  show "fresh_frame ?s = fresh_frame s" by (simp add: fresh_frame_def pr fun_eq_iff)
qed

lemma data_walk:
  assumes "tables_ok s" "fresh_frame s f" "\<And>x. x \<notin> frame f \<Longrightarrow> m x = pmem s x" "walk s u = Inr p"
  shows "walk (s\<lparr>pmem := m\<rparr>) u = Inr p"
  using data_write(1) [OF assms(1-3), of u] assms(4) by (simp add: walk_eq split: if_splits)

lemma word_in_frame: "k < 1024 \<Longrightarrow> f + of_nat k * 4 \<in> frame f"
  by (auto simp: frame_def)

lemma vzero_data:
  assumes "tables_ok s" "fresh_frame s f" "aligned va" "walk s va = Inr f" "k + n \<le> 1024"
  shows "\<exists>m. vzero (va + of_nat k * 4) n s = Inr (s\<lparr>pmem := m\<rparr>) \<and> (\<forall>x. x \<notin> frame f \<longrightarrow> m x = pmem s x) \<and>
    (\<forall>i < 1024. m (f + of_nat i * 4) = (if k \<le> i \<and> i < k + n then 0 else pmem s (f + of_nat i * 4)))"
proof -
  have ac: "aligned (cr3 s)" and af: "aligned f" and ne: "f \<noteq> cr3 s"
    using assms by (simp_all add: tables_ok_def self_mapped_def fresh_frame_def)
  have pr: "present s va" using assms(4) by (simp add: walk_eq split: if_splits)
  then have tn: "table_of s va \<noteq> f" using assms(2) by (auto simp: fresh_frame_def)
  have nf: "cr3 s + PDE_IDX va * 4 \<notin> frame f" "table_of s va + PTE_IDX va * 4 \<notin> frame f"
    using frame_entry [OF af ac idx_less(1)] frame_entry [OF af aligned_table idx_less(2)] ne tn by blast+
  let ?m = "\<lambda>x. if \<exists>i. k \<le> i \<and> i < k + n \<and> x = f + of_nat i * 4 then 0 else pmem s x"
  have "vzero (va + of_nat k * 4) n s = Inr (s\<lparr>pmem := ?m\<rparr>)"
    by (rule vzero_loop [OF assms(3,4) af nf assms(5)])
  moreover have "?m x = pmem s x" if "x \<notin> frame f" for x
    using that assms(5) word_in_frame by (auto intro: order_less_le_trans)
  moreover have "?m (f + of_nat i * 4) = (if k \<le> i \<and> i < k + n then 0 else pmem s (f + of_nat i * 4))" if "i < 1024" for i
  proof -
    have "(f + of_nat i * 4 = f + of_nat j * 4) \<longleftrightarrow> i = j" if "j < 1024" for j
      using entry_inject [OF af af, of "of_nat i" "of_nat j"] that \<open>i < 1024\<close> of_nat_eq_iff_u32 [of i j] by simp
    then have "(\<exists>j. k \<le> j \<and> j < k + n \<and> f + of_nat i * 4 = f + of_nat j * 4) \<longleftrightarrow> k \<le> i \<and> i < k + n"
      using assms(5) by (metis order_less_le_trans)
    then show ?thesis by simp
  qed
  ultimately show ?thesis by blast
qed

text \<open>Words of a data page: word \<open>i\<close> of the page at \<open>a\<close> is word \<open>i\<close> of its frame \<open>f\<close>.\<close>

lemma walk_page_word:
  "walk s a = Inr f \<Longrightarrow> aligned a \<Longrightarrow> i < 1024 \<Longrightarrow> walk s (a + of_nat i * 4) = Inr (f + of_nat i * 4)"
  using walk_offset [of a "of_nat i * 4" s f] by (simp add: unat_idx4)

lemma block2arena_block:
  assumes "aligned a" and "k < 1024"
  shows "block2arena (a + of_nat k * 4) = a"
proof -
  have "unat (of_nat k * 4 :: u32) < 4096" using assms(2) by (simp add: unat_idx4)
  moreover obtain q where "unat a = 4096 * q" using assms(1) by (auto simp: aligned_def)
  ultimately show ?thesis using unat_aligned_add [OF assms(1)]
    by (simp add: block2arena_def word_unat_eq_iff unat_frame)
qed

lemma take_block_step:
  assumes t: "tables_ok s" "walk s a = Inr f" "aligned a" "fresh_frame s f" and fl: "free_list (descs s d) = b # bs"
    and b: "b = a + of_nat k * 4" "3 \<le> k" "k + unat (block_size (descs s d)) div 4 \<le> 1024" "k < 1024"
  obtains m where "take_block d s = Inr (b, (upd_desc d (\<lambda>x. x\<lparr>free_list := bs\<rparr>) s)\<lparr>pmem := m\<rparr>)"
    "\<forall>x. x \<notin> frame f \<longrightarrow> m x = pmem s x" "m (f + 4) = pmem s (f + 4) - 1"
    "\<forall>i < unat (block_size (descs s d)) div 4. m (f + of_nat (k + i) * 4) = 0"
proof -
  let ?n = "unat (block_size (descs s d)) div 4" and ?t = "upd_desc d (\<lambda>x. x\<lparr>free_list := bs\<rparr>) s"
  note st = translation_same [of ?t s, simplified]
  have t': "tables_ok ?t" "walk ?t a = Inr f" "fresh_frame ?t f" using t st by simp_all
  from vzero_data [OF t'(1,3) t(3) t'(2) b(3)] obtain m where m:
    "vzero (a + of_nat k * 4) ?n ?t = Inr (?t\<lparr>pmem := m\<rparr>)" "\<And>x. x \<notin> frame f \<Longrightarrow> m x = pmem ?t x"
    "\<And>i. i < 1024 \<Longrightarrow> m (f + of_nat i * 4) = (if k \<le> i \<and> i < k + ?n then 0 else pmem ?t (f + of_nat i * 4))" by blast
  let ?m1 = "m(f + 4 := pmem s (f + 4) - 1)"
  have f4: "f + 4 \<in> frame f" using word_in_frame [of 1 f] by simp
  have "walk (?t\<lparr>pmem := m\<rparr>) a = Inr f" by (rule data_walk [OF t'(1,3) m(2) t'(2)])
  then have h4: "walk (?t\<lparr>pmem := m\<rparr>) (a + 4) = Inr (f + 4)" using walk_page_word [of _ a f 1] t(3) by simp
  have m4: "m (f + 4) = pmem s (f + 4)" using m(3) [of 1] b(2) by simp
  have tl: "upd_desc d (\<lambda>x. x\<lparr>free_list := tl (free_list x)\<rparr>) s = ?t" using fl by (simp add: upd_desc_def)
  have "take_block d s = Inr (b, ?t\<lparr>pmem := ?m1\<rparr>)"
    using m(1) h4 m4 fl b(1) block2arena_block [OF t(3) b(4)]
    by (simp add: take_block_def vload_def vstore_def tl Let_def)
  moreover have "?m1 (f + of_nat (k + i) * 4) = 0" if "i < ?n" for i
  proof -
    have i: "k + i < 1024" using that b(3) by simp
    have af: "aligned f" using t(4) by (simp add: fresh_frame_def)
    have "(of_nat (k + i) :: u32) \<noteq> 1" using i b(2) of_nat_eq_iff_u32 [of "k + i" 1] by (simp del: of_nat_add)
    moreover have "unat (of_nat (k + i) :: u32) < 1024" using i by (simp del: of_nat_add)
    ultimately have "f + of_nat (k + i) * 4 \<noteq> f + 4" using entry_inject [OF af af, of "of_nat (k + i)" 1] by (simp del: of_nat_add)
    then show ?thesis using m(3) [OF i] that by simp
  qed
  ultimately show thesis using m(2) f4 by (intro that [of ?m1]) auto
qed

lemma free_block_step:
  assumes "walk s a = Inr f" "aligned a" "b \<notin> set (free_list (descs s d))" "d \<noteq> 0"
    and "pmem s (f + 4) + 1 \<noteq> blocks_per_arena (descs s d)"
  shows "free_block pf b a d s = Inr (upd_desc d (\<lambda>x. x\<lparr>free_list := free_list x @ [b]\<rparr>) s
    \<lparr>pmem := (pmem s)(f + 4 := pmem s (f + 4) + 1)\<rparr>)"
proof -
  let ?u = "upd_desc d (\<lambda>x. x\<lparr>free_list := free_list x @ [b]\<rparr>) s"
  have "walk ?u = walk s" by (rule translation_same) simp_all
  moreover have "walk s (a + 4) = Inr (f + 4)" using walk_page_word [OF assms(1,2), of 1] by simp
  ultimately show ?thesis using assms(3-5) by (simp add: free_block_def vload_def vstore_def Let_def)
qed

text \<open>C24: taking a block from a descriptor with a free block returns the first block of the free list, all zero,
  and lowers the counter in the header of its arena; giving the block back puts it at the end of the
  free list and restores the counter, as long as the arena is not entirely free.\<close>

theorem malloc_free_block:
  assumes "tables_ok s" "walk s a = Inr f" "aligned a" "fresh_frame s f"
    and "free_list (descs s d) = b # bs" "b \<notin> set bs" "d \<noteq> 0"
    and "b = a + of_nat k * 4" "3 \<le> k" "k + unat (block_size (descs s d)) div 4 \<le> 1024" "k < 1024"
    and "pmem s (f + 4) = c" "c \<noteq> blocks_per_arena (descs s d)"
  shows "\<exists>s1 s2. take_block d s = Inr (b, s1) \<and> free_list (descs s1 d) = bs \<and> vload s1 (a + 4) = Inr (c - 1) \<and>
    (\<forall>i < unat (block_size (descs s d)) div 4. vload s1 (b + of_nat i * 4) = Inr 0) \<and>
    free_block pf b (block2arena b) d s1 = Inr s2 \<and> free_list (descs s2 d) = bs @ [b] \<and> vload s2 (a + 4) = Inr c"
proof -
  let ?n = "unat (block_size (descs s d)) div 4" and ?t = "upd_desc d (\<lambda>x. x\<lparr>free_list := bs\<rparr>) s"
  obtain m where take: "take_block d s = Inr (b, ?t\<lparr>pmem := m\<rparr>)" and m: "\<forall>x. x \<notin> frame f \<longrightarrow> m x = pmem s x"
    "m (f + 4) = pmem s (f + 4) - 1" "\<forall>i < ?n. m (f + of_nat (k + i) * 4) = 0"
    by (rule take_block_step [OF assms(1-5,8-11)])
  let ?s1 = "?t\<lparr>pmem := m\<rparr>"
  note st = translation_same [of ?t s, simplified]
  have t: "tables_ok ?t" "walk ?t a = Inr f" "fresh_frame ?t f" using assms(1,2,4) st by simp_all
  have w1: "walk ?s1 a = Inr f" by (rule data_walk [OF t(1,3) _ t(2)]) (simp add: m(1))
  have ba: "block2arena b = a" unfolding assms(8) by (rule block2arena_block [OF assms(3,11)])
  have zero: "vload ?s1 (b + of_nat i * 4) = Inr 0" if "i < ?n" for i
  proof -
    have "k + i < 1024" using that assms(10) by simp
    from walk_page_word [OF w1 assms(3) this] show ?thesis
      using m(3) that unfolding assms(8) by (simp add: vload_def algebra_simps)
  qed
  have l1: "vload ?s1 (a + 4) = Inr (c - 1)" using walk_page_word [OF w1 assms(3), of 1] m(2) assms(12) by (simp add: vload_def)
  let ?u = "upd_desc d (\<lambda>x. x\<lparr>free_list := free_list x @ [b]\<rparr>) ?s1"
  let ?s2 = "?u\<lparr>pmem := m(f + 4 := c)\<rparr>"
  have free: "free_block pf b (block2arena b) d ?s1 = Inr ?s2"
    unfolding ba using free_block_step [OF w1 assms(3), of b d pf] assms(6,7,12,13) m(2) by simp
  have "walk (?t\<lparr>pmem := m(f + 4 := c)\<rparr>) a = Inr f"
    by (rule data_walk [OF t(1,3) _ t(2)]) (use m(1) word_in_frame [of 1 f] in auto)
  moreover have "walk ?s2 = walk (?t\<lparr>pmem := m(f + 4 := c)\<rparr>)" by (rule translation_same) simp_all
  ultimately have "walk ?s2 a = Inr f" by simp
  from walk_page_word [OF this assms(3), of 1] have "vload ?s2 (a + 4) = Inr c" by (simp add: vload_def)
  then show ?thesis using take free zero l1 by (intro exI [of _ ?s1] exI [of _ ?s2]) simp
qed


definition demo_arena :: msys where
  "demo_arena = demo_mem\<lparr>pmem := (pmem demo_mem)(0x101000 + 256 * 4 := 0x300007, 0x300004 := 2),
     descs := (\<lambda>_. \<lparr>block_size = 16, blocks_per_arena = 255, free_list = [0xc010000c, 0xc010001c]\<rparr>)\<rparr>"

lemma demo_arena_facts: "tables_ok demo_arena" "fresh_frame demo_arena 0x300000" "walk demo_arena 0xc0100000 = Inr 0x300000"
proof -
  have ix: "PDE_IDX 0xc0100000 = 768" "PTE_IDX 0xc0100000 = 256" by (simp_all add: PDE_IDX_def PTE_IDX_def)
  have pr: "present demo_mem 0xc0100000" using ix demo_tables(2) by simp
  have tb: "table_of demo_mem 0xc0100000 = 0x101000" using pr ix demo_tables(3) by simp
  have fr: "fresh_frame demo_mem 0x300000"
    using demo_tables(3) by (auto simp: fresh_frame_def aligned_def demo_mem_def split: if_splits)
  let ?s1 = "demo_mem\<lparr>pmem := (pmem demo_mem)(table_of demo_mem 0xc0100000 + PTE_IDX 0xc0100000 * 4 := 0x300007)\<rparr>"
  note w = write_pte [OF demo_tables(1) pr, where w = "0x300007", unfolded ix, simplified]
  have t1: "tables_ok ?s1" and f1: "fresh_frame ?s1 0x300000"
    using w(1) fr w(2-4) by (simp_all add: ix fresh_frame_def)
  let ?s2 = "?s1\<lparr>pmem := (pmem ?s1)(0x300004 := 2)\<rparr>"
  have m: "(0x300004 :: u32) \<in> frame 0x300000" using word_in_frame [of 1 "0x300000"] by simp
  have out: "x \<notin> frame 0x300000 \<Longrightarrow> ((pmem ?s1)(0x300004 := 2)) x = pmem ?s1 x" for x using m by auto
  have t2: "tables_ok ?s2" "fresh_frame ?s2 = fresh_frame ?s1"
    using data_write(2,3) [OF t1 f1, of "(pmem ?s1)(0x300004 := 2)"] out by blast+
  have e: "pmem demo_arena = pmem ?s2" "cr3 demo_arena = cr3 ?s2"
    by (simp_all add: demo_arena_def tb ix)
  note same = translation_same [OF e]
  show "tables_ok demo_arena" "fresh_frame demo_arena 0x300000" using t2 f1 same by simp_all
  show "walk demo_arena 0xc0100000 = Inr 0x300000"
    by (simp add: walk_def PDE_IDX_def PTE_IDX_def demo_arena_def demo_mem_def Let_def)
qed

theorem malloc_free_block_witness:
  "\<exists>s1 s2. take_block 0xc0023000 demo_arena = Inr (0xc010000c, s1) \<and> vload s1 0xc0100004 = Inr 1 \<and>
     free_block PF_KERNEL 0xc010000c 0xc0100000 0xc0023000 s1 = Inr s2 \<and>
     free_list (descs s2 0xc0023000) = [0xc010001c, 0xc010000c]"
proof -
  have d: "descs demo_arena 0xc0023000 = \<lparr>block_size = 16, blocks_per_arena = 255, free_list = [0xc010000c, 0xc010001c]\<rparr>"
    "pmem demo_arena (0x300000 + 4) = 2" by (simp_all add: demo_arena_def)
  have al: "aligned 0xc0100000" by (simp add: aligned_def)
  have p: "free_list (descs demo_arena 0xc0023000) = 0xc010000c # [0xc010001c]"
    "(0xc010000c :: u32) \<notin> set [0xc010001c]" "(0xc0023000 :: u32) \<noteq> 0" "(0xc010000c :: u32) = 0xc0100000 + of_nat 3 * 4"
    "3 \<le> (3 :: nat)" "3 + unat (block_size (descs demo_arena 0xc0023000)) div 4 \<le> 1024" "3 < (1024 :: nat)"
    "(2 :: u32) \<noteq> blocks_per_arena (descs demo_arena 0xc0023000)" by (simp_all add: d)
  note r = malloc_free_block [OF demo_arena_facts(1,3) al demo_arena_facts(2) p(1-7) d(2) p(8), of PF_KERNEL]
  have e: "block2arena 0xc010000c = 0xc0100000" "(0xc0100000 + 4 :: u32) = 0xc0100004" "(2 - 1 :: u32) = 1"
    by (simp_all add: block2arena_def)
  from r [unfolded e] show ?thesis by (elim exE conjE) (simp only: append.simps, blast)
qed

end
