(* ===== verification/Disk.thy ===== *)
theory Disk
  imports Arena
begin

text \<open>
  The data the disk driver and the file system share: the structures of device/ide.h and
  fs/*.h, the state of the file system, the heap it takes its buffers and objects from, and
  the disk as an array of sectors. \<open>disk_read\<close> and \<open>disk_write\<close> are what \<open>ide_read\<close> and
  \<open>ide_write\<close> promise; \<open>Ide\<close> models the driver and \<open>Ata\<close> shows that it keeps the promise on a
  controller that follows the ATA protocol.

  A \<open>struct partition *\<close> is the number of the disk with the index of the partition in it: 0 to 3
  are \<open>prim_parts\<close>, from 4 on \<open>logic_parts\<close>. Disk \<open>2 c + d\<close> is device \<open>d\<close> of channel \<open>c\<close>. An inode or a
  directory in memory is an object at its address. A directory entry is its 24 bytes. What
  \<open>printk\<close> writes to the screen is not part of the state.
\<close>

section \<open>Structures\<close>

type_synonym part_id = "nat \<times> nat"
type_synonym bytes = "u8 list"

record super_block =
  magic :: u32
  sb_sec_cnt :: u32
  inode_cnt :: u32
  part_lba_base :: u32
  block_bitmap_lba :: u32
  block_bitmap_sects :: u32
  inode_bitmap_lba :: u32
  inode_bitmap_sects :: u32
  inode_table_lba :: u32
  inode_table_sects :: u32
  data_start_lba :: u32
  root_inode_no :: u32
  dir_entry_size :: u32

record partition =
  start_lba :: u32
  sec_cnt :: u32
  my_disk :: nat
  part_name :: bytes
  sb :: super_block
  block_bitmap :: bitmap
  inode_bitmap :: bitmap
  open_inodes :: "u32 list"

text \<open>\<open>inode_tag\<close>, the link in \<open>open_inodes\<close>, is in that list; \<open>i_sectors\<close> has 13 elements. \<open>bool\<close> is \<open>int\<close>.\<close>

record inode =
  i_no :: u32
  i_size :: u32
  i_open_cnts :: u32
  write_deny :: u32
  i_sectors :: "u32 list"

record dir =
  dir_inode :: u32
  dir_pos :: u32
  dir_buf :: bytes

record open_file =
  fd_pos :: u32
  fd_flag :: u32
  fd_inode :: u32

definition SECTOR_SIZE :: nat where "SECTOR_SIZE = 512"
definition MAX_FILE_OPEN :: nat where "MAX_FILE_OPEN = 32"
definition MAX_FILE_NAME_LEN :: nat where "MAX_FILE_NAME_LEN = 16"
definition MAX_PATH_LEN :: nat where "MAX_PATH_LEN = 512"
definition FT_UNKNOWN :: u32 where "FT_UNKNOWN = 0"
definition FT_REGULAR :: u32 where "FT_REGULAR = 1"
definition FT_DIRECTORY :: u32 where "FT_DIRECTORY = 2"

text \<open>\<open>kheap\<close> and \<open>uheap\<close> are the free blocks of the kernel's heap and of each process; \<open>root_dir\<close> is the
  address of the variable of that name, \<open>junk\<close> what the stack holds where a local variable is not
  initialised, \<open>console_out\<close> what \<open>console_put_str\<close> has written.\<close>

record fsys = kern +
  disks :: "nat \<Rightarrow> u32 \<Rightarrow> bytes"
  parts :: "part_id \<Rightarrow> partition"
  partition_list :: "part_id list"
  cur_part :: part_id
  inodes :: "u32 \<Rightarrow> inode"
  dirs :: "u32 \<Rightarrow> dir"
  root_dir :: u32
  file_table :: "open_file list"
  kheap :: "u32 list"
  uheap :: "u32 \<Rightarrow> u32 list"
  junk :: bytes
  console_out :: bytes

definition upd_part :: "part_id \<Rightarrow> (partition \<Rightarrow> partition) \<Rightarrow> 'a fsys_scheme \<Rightarrow> 'a fsys_scheme" where
  "upd_part p f s = s\<lparr>parts := (parts s)(p := f (parts s p))\<rparr>"

definition upd_inode :: "u32 \<Rightarrow> (inode \<Rightarrow> inode) \<Rightarrow> 'a fsys_scheme \<Rightarrow> 'a fsys_scheme" where
  "upd_inode i f s = s\<lparr>inodes := (inodes s)(i := f (inodes s i))\<rparr>"

definition upd_dir :: "u32 \<Rightarrow> (dir \<Rightarrow> dir) \<Rightarrow> 'a fsys_scheme \<Rightarrow> 'a fsys_scheme" where
  "upd_dir d f s = s\<lparr>dirs := (dirs s)(d := f (dirs s d))\<rparr>"

definition upd_file :: "nat \<Rightarrow> (open_file \<Rightarrow> open_file) \<Rightarrow> 'a fsys_scheme \<Rightarrow> 'a fsys_scheme" where
  "upd_file i f s = s\<lparr>file_table := (file_table s)[i := f (file_table s ! i)]\<rparr>"

section \<open>The heap\<close>

text \<open>
  The contract of \<open>sys_malloc\<close> and \<open>sys_free\<close> that the file system relies on (\<open>Heap\<close> shows it of the free
  lists of the code): an allocation takes the first free block, zeroed, or returns NULL when there
  is none; \<open>sys_free\<close> puts a block back at the end. Which heap is meant depends on \<open>pgdir\<close> of the
  running thread, and in the kernel the address must be at or above \<open>K_HEAP_START\<close>.
\<close>

definition in_kernel :: "'a fsys_scheme \<Rightarrow> bool" where
  "in_kernel s \<longleftrightarrow> pgdir (tasks s (running_thread s)) = 0"

definition heap :: "'a fsys_scheme \<Rightarrow> u32 list" where
  "heap s = (if in_kernel s then kheap s else uheap s (running_thread s))"

definition set_heap :: "u32 list \<Rightarrow> 'a fsys_scheme \<Rightarrow> 'a fsys_scheme" where
  "set_heap h s =
     (if in_kernel s then s\<lparr>kheap := h\<rparr> else s\<lparr>uheap := (uheap s)(running_thread s := h)\<rparr>)"

definition fs_malloc :: "'a fsys_scheme \<Rightarrow> u32 \<times> 'a fsys_scheme" where
  "fs_malloc s = (case heap s of [] \<Rightarrow> (0, s) | p # ps \<Rightarrow> (p, set_heap ps s))"

definition fs_free :: "u32 \<Rightarrow> 'a fsys_scheme \<Rightarrow> 'a fsys_scheme res" where
  "fs_free p s =
     bnd (ASSERT (p \<noteq> 0)) (\<lambda>_.
     bnd (if in_kernel s then ASSERT (p \<ge> K_HEAP_START) else Inr ()) (\<lambda>_.
     bnd (defined (p \<notin> set (heap s))) (\<lambda>_.
     Inr (set_heap (heap s @ [p]) s))))"

text \<open>\<open>cur->pgdir = NULL; ...; cur->pgdir = cur_pagedir_bak;\<close> around a call.\<close>

definition with_kernel_pgdir :: "('a fsys_scheme \<Rightarrow> ('b \<times> 'a fsys_scheme) res) \<Rightarrow> 'a fsys_scheme \<Rightarrow> ('b \<times> 'a fsys_scheme) res" where
  "with_kernel_pgdir f s =
     (let cur = running_thread s; bak = pgdir (tasks s cur) in
      bnd (f (upd_task cur (\<lambda>t. t\<lparr>pgdir := 0\<rparr>) s)) (\<lambda>(r, s).
      Inr (r, upd_task cur (\<lambda>t. t\<lparr>pgdir := bak\<rparr>) s)))"

section \<open>The disk\<close>

definition max_lba :: u32 where
  "max_lba = 80 * 1024 * 1024 div 512 - 1"

text \<open>A transfer runs in commands of 256 sectors; the driver checks the first sector of each.\<close>

definition lbas_ok :: "u32 \<Rightarrow> u32 \<Rightarrow> bool" where
  "lbas_ok lba n \<longleftrightarrow> list_all (\<lambda>k. lba + of_nat (256 * k) \<le> max_lba) [0..<(unat n + 255) div 256]"

definition disk_read :: "nat \<Rightarrow> u32 \<Rightarrow> u32 \<Rightarrow> 'a fsys_scheme \<Rightarrow> bytes res" where
  "disk_read dk lba n s =
     bnd (ASSERT (lba \<le> max_lba)) (\<lambda>_.
     bnd (ASSERT (n > 0)) (\<lambda>_.
     bnd (ASSERT (lbas_ok lba n)) (\<lambda>_.
     Inr (concat (map (\<lambda>i. disks s dk (lba + of_nat i)) [0..<unat n])))))"

definition put_sectors :: "u32 \<Rightarrow> nat \<Rightarrow> bytes \<Rightarrow> (u32 \<Rightarrow> bytes) \<Rightarrow> u32 \<Rightarrow> bytes" where
  "put_sectors lba n buf d =
     (\<lambda>l. if unat (l - lba) < n then take 512 (drop (512 * unat (l - lba)) buf) else d l)"

definition disk_write :: "nat \<Rightarrow> u32 \<Rightarrow> bytes \<Rightarrow> u32 \<Rightarrow> 'a fsys_scheme \<Rightarrow> 'a fsys_scheme res" where
  "disk_write dk lba buf n s =
     bnd (ASSERT (lba \<le> max_lba)) (\<lambda>_.
     bnd (ASSERT (n > 0)) (\<lambda>_.
     bnd (ASSERT (lbas_ok lba n)) (\<lambda>_.
     bnd (defined (512 * unat n \<le> length buf)) (\<lambda>_.
     Inr (s\<lparr>disks := (disks s)(dk := put_sectors lba (unat n) buf (disks s dk))\<rparr>)))))"

section \<open>Bytes of the structures\<close>

text \<open>The bytes of an array of words, and the array that bytes are read as.\<close>

definition words_bytes :: "u32 list \<Rightarrow> bytes" where
  "words_bytes ws = concat (map le32 ws)"

definition bytes_words :: "nat \<Rightarrow> bytes \<Rightarrow> u32 list" where
  "bytes_words n bs = map (\<lambda>i. rd32 bs (4 * i)) [0..<n]"

definition sizeof_inode :: nat where
  "sizeof_inode = 76"

definition sizeof_dir_entry :: nat where
  "sizeof_dir_entry = 24"

text \<open>An inode with its link zeroed, as \<open>inode_sync\<close> and \<open>partition_format\<close> write it.\<close>

definition inode_bytes :: "inode \<Rightarrow> bytes" where
  "inode_bytes i =
     words_bytes (i_no i # i_size i # i_open_cnts i # write_deny i # i_sectors i) @ replicate 8 0"

definition bytes_inode :: "bytes \<Rightarrow> inode" where
  "bytes_inode bs =
     \<lparr>i_no = rd32 bs 0, i_size = rd32 bs 4, i_open_cnts = rd32 bs 8, write_deny = rd32 bs 12,
      i_sectors = bytes_words 13 (drop 16 bs)\<rparr>"

definition sb_bytes :: "super_block \<Rightarrow> bytes" where
  "sb_bytes b =
     words_bytes [magic b, sb_sec_cnt b, inode_cnt b, part_lba_base b, block_bitmap_lba b,
       block_bitmap_sects b, inode_bitmap_lba b, inode_bitmap_sects b, inode_table_lba b,
       inode_table_sects b, data_start_lba b, root_inode_no b, dir_entry_size b]"

definition bytes_sb :: "bytes \<Rightarrow> super_block" where
  "bytes_sb bs =
     \<lparr>magic = rd32 bs 0, sb_sec_cnt = rd32 bs 4, inode_cnt = rd32 bs 8, part_lba_base = rd32 bs 12,
      block_bitmap_lba = rd32 bs 16, block_bitmap_sects = rd32 bs 20, inode_bitmap_lba = rd32 bs 24,
      inode_bitmap_sects = rd32 bs 28, inode_table_lba = rd32 bs 32, inode_table_sects = rd32 bs 36,
      data_start_lba = rd32 bs 40, root_inode_no = rd32 bs 44, dir_entry_size = rd32 bs 48\<rparr>"

text \<open>The fields of a directory entry, at the offset of the entry.\<close>

definition de_i_no :: "bytes \<Rightarrow> u32" where
  "de_i_no e = rd32 e 16"

definition de_f_type :: "bytes \<Rightarrow> u32" where
  "de_f_type e = rd32 e 20"

text \<open>The C string at the start of a buffer; reading on behind the buffer is undefined.\<close>

definition cstr_of :: "bytes \<Rightarrow> bytes res" where
  "cstr_of bs = (if 0 \<in> set bs then Inr (takeWhile (\<lambda>c. c \<noteq> 0) bs) else Inl Fault)"

lemma length_words_bytes [simp]: "length (words_bytes ws) = 4 * length ws"
  by (induction ws) (simp_all add: words_bytes_def)

lemma words_bytes_Cons: "words_bytes (w # ws) = le32 w @ words_bytes ws"
  by (simp add: words_bytes_def)

lemma rd32_words_bytes: "i < length ws \<Longrightarrow> rd32 (words_bytes ws @ xs) (4 * i) = ws ! i"
proof (induction ws arbitrary: i)
  case (Cons w ws)
  show ?case
  proof (cases i)
    case 0
    then show ?thesis by (simp add: words_bytes_Cons)
  next
    case (Suc j)
    then have "rd32 (words_bytes (w # ws) @ xs) (4 * i) = rd32 (words_bytes ws @ xs) (4 * j)"
      by (simp add: words_bytes_Cons rd32_append2)
    then show ?thesis using Cons Suc by simp
  qed
qed simp

lemma bytes_words_words_bytes: "n \<le> length ws \<Longrightarrow> bytes_words n (words_bytes ws @ xs) = take n ws"
  by (rule nth_equalityI) (simp_all add: bytes_words_def rd32_words_bytes)

lemma bytes_words_words_bytes_0 [simp]: "n = length ws \<Longrightarrow> bytes_words n (words_bytes ws) = ws"
  using bytes_words_words_bytes [of n ws "[]"] by simp

lemma length_bytes_words [simp]: "length (bytes_words n bs) = n"
  by (simp add: bytes_words_def)

lemma length_inode_bytes [simp]: "length (i_sectors i) = 13 \<Longrightarrow> length (inode_bytes i) = 76"
  by (simp add: inode_bytes_def)

text \<open>Reading back an inode or a super block that was written.\<close>

lemma bytes_inode_bytes:
  assumes "length (i_sectors i) = 13"
  shows "bytes_inode (inode_bytes i @ xs) = i"
proof -
  let ?ws = "i_no i # i_size i # i_open_cnts i # write_deny i # i_sectors i"
  let ?bs = "inode_bytes i @ xs"
  have bs: "?bs = words_bytes ?ws @ (replicate 8 0 @ xs)" by (simp add: inode_bytes_def)
  have rd: "rd32 ?bs (4 * k) = ?ws ! k" if "k < 17" for k
    unfolding bs by (rule rd32_words_bytes) (use that assms in simp)
  have "drop 16 ?bs = words_bytes (i_sectors i) @ (replicate 8 0 @ xs)"
    unfolding bs by (simp add: words_bytes_Cons)
  then have sec: "bytes_words 13 (drop 16 ?bs) = i_sectors i"
    using assms by (simp add: bytes_words_words_bytes)
  have "rd32 ?bs 0 = i_no i" "rd32 ?bs 4 = i_size i" "rd32 ?bs 8 = i_open_cnts i" "rd32 ?bs 12 = write_deny i"
    using rd [of 0] rd [of 1] rd [of 2] rd [of 3] by simp_all
  with sec show ?thesis by (simp add: bytes_inode_def)
qed

lemma length_sb_bytes [simp]: "length (sb_bytes b) = 52"
  by (simp add: sb_bytes_def)

lemma bytes_sb_bytes: "bytes_sb (sb_bytes b @ xs) = b"
proof -
  let ?bs = "sb_bytes b @ xs"
  have rd: "rd32 ?bs (4 * k) = [magic b, sb_sec_cnt b, inode_cnt b, part_lba_base b, block_bitmap_lba b,
       block_bitmap_sects b, inode_bitmap_lba b, inode_bitmap_sects b, inode_table_lba b,
       inode_table_sects b, data_start_lba b, root_inode_no b, dir_entry_size b] ! k" if "k < 13" for k
    unfolding sb_bytes_def by (rule rd32_words_bytes) (use that in simp)
  show ?thesis
    using rd [of 0] rd [of 1] rd [of 2] rd [of 3] rd [of 4] rd [of 5] rd [of 6] rd [of 7] rd [of 8]
      rd [of 9] rd [of 10] rd [of 11] rd [of 12]
    by (simp add: bytes_sb_def)
qed

section \<open>Facts about the disk and the heap\<close>

definition disk_ok :: "'a fsys_scheme \<Rightarrow> bool" where
  "disk_ok s \<longleftrightarrow> (\<forall>dk l. length (disks s dk l) = 512)"

lemma lbas_ok_small: "lba \<le> max_lba \<Longrightarrow> unat n \<le> 256 \<Longrightarrow> lbas_ok lba n"
proof -
  assume a: "lba \<le> max_lba" "unat n \<le> 256"
  have "(unat n + 255) div 256 \<le> 1" using a(2) by linarith
  then have "[0..<(unat n + 255) div 256] = [] \<or> [0..<(unat n + 255) div 256] = [0]"
    by (cases "(unat n + 255) div 256") auto
  then show ?thesis using a(1) by (auto simp: lbas_ok_def)
qed

lemma disk_read_1 [simp]: "lba \<le> max_lba \<Longrightarrow> disk_read dk lba 1 s = Inr (disks s dk lba)"
  by (simp add: disk_read_def lbas_ok_small)

lemma disk_read_2 [simp]:
  "lba \<le> max_lba \<Longrightarrow> disk_read dk lba 2 s = Inr (disks s dk lba @ disks s dk (lba + 1))"
  by (simp add: disk_read_def lbas_ok_small upt_rec)

lemma disk_write_small:
  "lba \<le> max_lba \<Longrightarrow> 0 < n \<Longrightarrow> unat n \<le> 256 \<Longrightarrow> 512 * unat n \<le> length buf \<Longrightarrow>
   disk_write dk lba buf n s = Inr (s\<lparr>disks := (disks s)(dk := put_sectors lba (unat n) buf (disks s dk))\<rparr>)"
  by (simp add: disk_write_def lbas_ok_small)

lemma put_sectors_1: "put_sectors lba (Suc 0) buf d = d(lba := take 512 buf)"
proof (rule ext)
  fix l :: u32
  have "unat (l - lba) = 0 \<longleftrightarrow> l = lba" by (simp add: unsigned_eq_0_iff)
  then show "put_sectors lba (Suc 0) buf d l = (d(lba := take 512 buf)) l"
    by (auto simp: put_sectors_def)
qed

lemma put_sectors_2: "put_sectors lba 2 buf d = d(lba := take 512 buf, lba + 1 := take 512 (drop 512 buf))"
proof (rule ext)
  fix l :: u32
  consider "l = lba" | "l = lba + 1" | "unat (l - lba) \<ge> 2"
  proof -
    have "l = lba \<or> l = lba + 1" if "\<not> unat (l - lba) \<ge> 2"
    proof -
      have "unat (l - lba) = 0 \<or> unat (l - lba) = 1" using that by linarith
      then have "l - lba = 0 \<or> l - lba = 1" by (simp only: word_unat_eq_iff) simp
      then show ?thesis by (auto simp: algebra_simps)
    qed
    then show ?thesis using that by blast
  qed
  then show "put_sectors lba 2 buf d l = (d(lba := take 512 buf, lba + 1 := take 512 (drop 512 buf))) l"
    by cases (auto simp: put_sectors_def)
qed

lemma disk_write_1 [simp]:
  "lba \<le> max_lba \<Longrightarrow> 512 \<le> length buf \<Longrightarrow>
   disk_write dk lba buf 1 s = Inr (s\<lparr>disks := (disks s)(dk := (disks s dk)(lba := take 512 buf))\<rparr>)"
  by (simp add: disk_write_small put_sectors_1)

lemma disk_write_2 [simp]:
  "lba \<le> max_lba \<Longrightarrow> 1024 \<le> length buf \<Longrightarrow>
   disk_write dk lba buf 2 s = Inr (s\<lparr>disks := (disks s)(dk := (disks s dk)
      (lba := take 512 buf, lba + 1 := take 512 (drop 512 buf)))\<rparr>)"
  by (simp add: disk_write_small put_sectors_2)

lemma disk_read_Inr: "disk_read dk lba 1 s = Inr b \<longleftrightarrow> lba \<le> max_lba \<and> b = disks s dk lba"
  by (cases "lba \<le> max_lba") (auto simp: disk_read_def lbas_ok_small)

lemma fs_malloc_Cons [simp]: "heap s = p # ps \<Longrightarrow> fs_malloc s = (p, set_heap ps s)"
  by (simp add: fs_malloc_def)

lemma heap_set_heap [simp]: "heap (set_heap h s) = h"
  by (simp add: heap_def set_heap_def in_kernel_def)

lemma in_kernel_set_heap [simp]: "in_kernel (set_heap h s) = in_kernel s"
  by (simp add: set_heap_def in_kernel_def)

lemma set_heap_set_heap [simp]: "set_heap h (set_heap h' s) = set_heap h s"
  by (simp add: set_heap_def in_kernel_def)

lemma set_heap_same [simp]: "set_heap (heap s) s = s"
  by (simp add: set_heap_def heap_def)

lemma set_heap_fields [simp]:
  "disks (set_heap h s) = disks s" "parts (set_heap h s) = parts s" "inodes (set_heap h s) = inodes s"
  "dirs (set_heap h s) = dirs s" "cur_part (set_heap h s) = cur_part s" "root_dir (set_heap h s) = root_dir s"
  "file_table (set_heap h s) = file_table s" "junk (set_heap h s) = junk s" "tasks (set_heap h s) = tasks s"
  "running_thread (set_heap h s) = running_thread s" "eflags (set_heap h s) = eflags s"
  "partition_list (set_heap h s) = partition_list s" "console_out (set_heap h s) = console_out s"
  by (simp_all add: set_heap_def)

end
