(* ===== verification/Blocks.thy ===== *)
theory Blocks
  imports Disk
begin

text \<open>
  The bitmaps of a partition: the second part of fs/file.c (\<open>inode_bitmap_alloc\<close>,
  \<open>block_bitmap_alloc\<close>, \<open>bitmap_sync\<close>) and the recycling of a block, which fs/inode.c and fs/dir.c
  write out wherever they give a block back. The allocators are interpretations of
  \<open>bit_allocator\<close>; \<open>on_disk\<close> says that the bitmaps on the disk are those in memory.
\<close>

section \<open>The code\<close>

datatype bitmap_type = INODE_BITMAP | BLOCK_BITMAP

definition inode_bitmap_alloc :: "part_id \<Rightarrow> 'a fsys_scheme \<Rightarrow> (u32 \<times> 'a fsys_scheme) res" where
  "inode_bitmap_alloc p s =
     bnd (bitmap_scan (inode_bitmap (parts s p)) 1) (\<lambda>bit_idx.
     if bit_idx = - 1 then Inr (- 1, s)
     else
       bnd (bitmap_set (inode_bitmap (parts s p)) bit_idx 1) (\<lambda>b.
       Inr (bit_idx, upd_part p (\<lambda>q. q\<lparr>inode_bitmap := b\<rparr>) s)))"

definition block_bitmap_alloc :: "part_id \<Rightarrow> 'a fsys_scheme \<Rightarrow> (u32 \<times> 'a fsys_scheme) res" where
  "block_bitmap_alloc p s =
     bnd (bitmap_scan (block_bitmap (parts s p)) 1) (\<lambda>bit_idx.
     if bit_idx = - 1 then Inr (- 1, s)
     else
       bnd (bitmap_set (block_bitmap (parts s p)) bit_idx 1) (\<lambda>b.
       Inr (data_start_lba (sb (parts s p)) + bit_idx, upd_part p (\<lambda>q. q\<lparr>block_bitmap := b\<rparr>) s)))"

text \<open>The 512 bytes of a bitmap from a byte offset on.\<close>

definition bitmap_bytes :: "bitmap \<Rightarrow> u32 \<Rightarrow> bytes" where
  "bitmap_bytes b off = map (\<lambda>i. bits b (off + of_nat i)) [0..<512]"

definition bitmap_sync :: "part_id \<Rightarrow> u32 \<Rightarrow> bitmap_type \<Rightarrow> 'a fsys_scheme \<Rightarrow> 'a fsys_scheme res" where
  "bitmap_sync p bit_idx btmp_type s =
     (let part = parts s p;
          off_sec = bit_idx div 4096;
          off_size = off_sec * 512;
          (sec_lba, bitmap_off) =
            (case btmp_type of
               INODE_BITMAP \<Rightarrow> (inode_bitmap_lba (sb part) + off_sec, bitmap_bytes (inode_bitmap part) off_size)
             | BLOCK_BITMAP \<Rightarrow> (block_bitmap_lba (sb part) + off_sec, bitmap_bytes (block_bitmap part) off_size))
      in disk_write (my_disk part) sec_lba bitmap_off 1 s)"

text \<open>\<open>bitmap_set(&part->block_bitmap, idx, 0); bitmap_sync(cur_part, idx, BLOCK_BITMAP);\<close>\<close>

definition clear_block :: "part_id \<Rightarrow> u32 \<Rightarrow> 'a fsys_scheme \<Rightarrow> 'a fsys_scheme res" where
  "clear_block p idx s =
     bnd (bitmap_set (block_bitmap (parts s p)) idx 0) (\<lambda>b.
     bitmap_sync (cur_part s) idx BLOCK_BITMAP (upd_part p (\<lambda>q. q\<lparr>block_bitmap := b\<rparr>) s))"

section \<open>The bitmaps are allocators\<close>

definition bm_of :: "bitmap_type \<Rightarrow> partition \<Rightarrow> bitmap" where
  "bm_of t q = (if t = INODE_BITMAP then inode_bitmap q else block_bitmap q)"

definition set_bm :: "bitmap_type \<Rightarrow> part_id \<Rightarrow> bitmap \<Rightarrow> 'a fsys_scheme \<Rightarrow> 'a fsys_scheme" where
  "set_bm t p b =
     (if t = INODE_BITMAP then upd_part p (\<lambda>q. q\<lparr>inode_bitmap := b\<rparr>) else upd_part p (\<lambda>q. q\<lparr>block_bitmap := b\<rparr>))"

text \<open>The index of the unit an allocation takes, and the release of a unit in memory.\<close>

definition alloc_unit :: "bitmap_type \<Rightarrow> part_id \<Rightarrow> 'a fsys_scheme \<Rightarrow> (u32 \<times> 'a fsys_scheme) res" where
  "alloc_unit t p s =
     (if t = INODE_BITMAP then inode_bitmap_alloc p s
      else bnd (block_bitmap_alloc p s) (\<lambda>(lba, s'). Inr (lba - data_start_lba (sb (parts s p)), s')))"

definition release_unit :: "bitmap_type \<Rightarrow> part_id \<Rightarrow> 'a fsys_scheme \<Rightarrow> u32 \<Rightarrow> 'a fsys_scheme res" where
  "release_unit t p s i =
     bnd (bitmap_set (bm_of t (parts s p)) i 0) (\<lambda>b. Inr (set_bm t p b s))"

definition maps_ok :: "part_id \<Rightarrow> 'a fsys_scheme \<Rightarrow> bool" where
  "maps_ok p s \<longleftrightarrow> small (inode_bitmap (parts s p)) \<and> small (block_bitmap (parts s p))"

lemma parts_upd_part [simp]: "parts (upd_part p f s) q = (if q = p then f (parts s p) else parts s q)"
  by (simp add: upd_part_def)

lemma upd_part_fields [simp]:
  "disks (upd_part p f s) = disks s" "inodes (upd_part p f s) = inodes s" "dirs (upd_part p f s) = dirs s"
  "cur_part (upd_part p f s) = cur_part s" "root_dir (upd_part p f s) = root_dir s"
  "file_table (upd_part p f s) = file_table s" "junk (upd_part p f s) = junk s"
  "tasks (upd_part p f s) = tasks s" "running_thread (upd_part p f s) = running_thread s"
  "eflags (upd_part p f s) = eflags s" "heap (upd_part p f s) = heap s" "kheap (upd_part p f s) = kheap s"
  by (simp_all add: upd_part_def heap_def in_kernel_def)

lemma bm_of_set_bm [simp]: "bm_of t (parts (set_bm t p b s) p) = b"
  by (cases t) (simp_all add: bm_of_def set_bm_def)

lemma small_bm: "maps_ok p s \<Longrightarrow> small (bm_of t (parts s p))"
  by (simp add: maps_ok_def bm_of_def)

lemma maps_ok_set_bm: "maps_ok p s \<Longrightarrow> n_bits b = n_bits (bm_of t (parts s p)) \<Longrightarrow> maps_ok p (set_bm t p b s)"
  by (cases t) (auto simp: maps_ok_def set_bm_def bm_of_def small_def)

lemma scan_one_not_m1: "small b \<Longrightarrow> bitmap_scan b 1 = Inr i \<Longrightarrow> i \<noteq> - 1"
  using bitmap_scan_one_lt [of b i] by (auto simp: small_def unsigned_minus_1_eq_mask mask_eq_exp_minus_1)

lemma alloc_unit_eq:
  assumes "maps_ok p s"
  shows "alloc_unit t p s = bnd (bitmap_scan (bm_of t (parts s p)) 1) (\<lambda>i.
    bnd (bitmap_set (bm_of t (parts s p)) i 1) (\<lambda>b. Inr (i, set_bm t p b s)))"
proof (cases "bitmap_scan (bm_of t (parts s p)) 1")
  case (Inl e)
  then show ?thesis
    by (cases t) (simp_all add: alloc_unit_def inode_bitmap_alloc_def block_bitmap_alloc_def bm_of_def)
next
  case (Inr i)
  then have i: "i \<noteq> - 1" using scan_one_not_m1 [OF small_bm [OF assms]] by blast
  obtain b where "bitmap_set (bm_of t (parts s p)) i 1 = Inr b" using bitmap_set_ok by blast
  then show ?thesis using i Inr
    by (cases t) (simp_all add: alloc_unit_def inode_bitmap_alloc_def block_bitmap_alloc_def bm_of_def set_bm_def)
qed

lemma alloc_unit_Inr:
  assumes "maps_ok p s"
  shows "alloc_unit t p s = Inr (i, s') \<longleftrightarrow>
    (\<exists>b. bitmap_scan (bm_of t (parts s p)) 1 = Inr i \<and> bitmap_set (bm_of t (parts s p)) i 1 = Inr b \<and>
      s' = set_bm t p b s)"
  unfolding alloc_unit_eq [OF assms] by (auto simp: res_simps)

interpretation fs_units: bit_allocator
  "\<lambda>s. is_set (bm_of t (parts s p))" "\<lambda>s. n_bits (bm_of t (parts s p))"
  "alloc_unit t p" "release_unit t p" "maps_ok p" for t p
proof unfold_locales
  fix s s' :: "'a fsys_scheme" and i :: u32
  assume a: "maps_ok p s" "alloc_unit t p s = Inr (i, s')"
  from a obtain b where b: "bitmap_scan (bm_of t (parts s p)) 1 = Inr i"
    "bitmap_set (bm_of t (parts s p)) i 1 = Inr b" "s' = set_bm t p b s"
    by (auto simp: alloc_unit_Inr)
  have sm: "small (bm_of t (parts s p))" by (rule small_bm [OF a(1)])
  then show "maps_ok p s' \<and> n_bits (bm_of t (parts s' p)) = n_bits (bm_of t (parts s p)) \<and>
     unat i < n_bits (bm_of t (parts s p)) \<and> \<not> is_set (bm_of t (parts s p)) (unat i) \<and>
     (\<forall>k < n_bits (bm_of t (parts s p)). is_set (bm_of t (parts s' p)) k \<longleftrightarrow> k = unat i \<or> is_set (bm_of t (parts s p)) k)"
    using b bitmap_scan_one_lt [OF sm b(1)] is_set_bitmap_set [OF b(2)] a(1)
    by (auto simp: maps_ok_set_bm small_def)
next
  fix s :: "'a fsys_scheme" and e
  assume a: "maps_ok p s" "alloc_unit t p s = Inl e"
  have ex: "\<exists>b'. bitmap_set b i 1 = Inr b'" for b i using bitmap_set_ok by blast
  have "bitmap_scan (bm_of t (parts s p)) 1 = Inl e"
    using a(2) ex unfolding alloc_unit_eq [OF a(1)] by (auto simp: bnd_eq_Inl) (metis Inr_Inl_False)
  then show "e = Panic \<and> (\<forall>k < n_bits (bm_of t (parts s p)). is_set (bm_of t (parts s p)) k)"
    by (rule bitmap_scan_one_Inl [OF small_bm [OF a(1)]])
next
  fix s :: "'a fsys_scheme" and i :: u32
  assume a: "maps_ok p s" "unat i < n_bits (bm_of t (parts s p))"
  obtain b where b: "bitmap_set (bm_of t (parts s p)) i 0 = Inr b" using bitmap_set_ok by blast
  then show "\<exists>s'. release_unit t p s i = Inr s' \<and> maps_ok p s' \<and> n_bits (bm_of t (parts s' p)) = n_bits (bm_of t (parts s p)) \<and>
      (\<forall>k < n_bits (bm_of t (parts s p)). is_set (bm_of t (parts s' p)) k \<longleftrightarrow> k \<noteq> unat i \<and> is_set (bm_of t (parts s p)) k)"
    using is_set_bitmap_set [OF b] a small_bm [OF a(1), of t]
    by (auto simp: release_unit_def maps_ok_set_bm small_def)
qed

section \<open>The bitmaps on the disk\<close>

definition lba_of :: "bitmap_type \<Rightarrow> partition \<Rightarrow> u32" where
  "lba_of t q = (if t = INODE_BITMAP then inode_bitmap_lba (sb q) else block_bitmap_lba (sb q))"

definition sects_of :: "bitmap_type \<Rightarrow> partition \<Rightarrow> u32" where
  "sects_of t q = (if t = INODE_BITMAP then inode_bitmap_sects (sb q) else block_bitmap_sects (sb q))"

text \<open>The regions of a partition follow one another; the bitmaps fill their sectors.\<close>

definition layout_ok :: "partition \<Rightarrow> bool" where
  "layout_ok q \<longleftrightarrow>
     unat (start_lba q) + 2 = unat (block_bitmap_lba (sb q)) \<and>
     unat (block_bitmap_lba (sb q)) + unat (block_bitmap_sects (sb q)) = unat (inode_bitmap_lba (sb q)) \<and>
     unat (inode_bitmap_lba (sb q)) + unat (inode_bitmap_sects (sb q)) = unat (inode_table_lba (sb q)) \<and>
     unat (inode_table_lba (sb q)) + 608 = unat (data_start_lba (sb q)) \<and>
     data_start_lba (sb q) \<le> max_lba \<and> unat (data_start_lba (sb q)) < unat (start_lba q) + unat (sec_cnt q) \<and>
     unat (start_lba q) + unat (sec_cnt q) \<le> unat max_lba + 1 \<and>
     n_bits (inode_bitmap q) = 4096 * unat (inode_bitmap_sects (sb q)) \<and>
     n_bits (block_bitmap q) = 4096 * unat (block_bitmap_sects (sb q)) \<and>
     inode_bitmap_sects (sb q) = 1 \<and> dir_entry_size (sb q) = 24"

definition on_disk :: "part_id \<Rightarrow> 'a fsys_scheme \<Rightarrow> bool" where
  "on_disk p s \<longleftrightarrow> (\<forall>t. \<forall>k < unat (sects_of t (parts s p)).
     disks s (my_disk (parts s p)) (lba_of t (parts s p) + of_nat k) = bitmap_bytes (bm_of t (parts s p)) (of_nat (512 * k)))"

lemma max_lba_nat [simp]: "unat max_lba = 163839"
  by (simp add: max_lba_def)

lemma layout_bitmaps:
  assumes "layout_ok q"
  shows "unat (lba_of t q) + unat (sects_of t q) \<le> 163839" and "n_bits (bm_of t q) = 4096 * unat (sects_of t q)"
    and "small (bm_of t q)"
  using assms by (cases t; simp add: layout_ok_def lba_of_def sects_of_def bm_of_def small_def word_le_nat_alt)+

lemma layout_maps_ok: "layout_ok (parts s p) \<Longrightarrow> maps_ok p s"
  using layout_bitmaps(3) [of "parts s p" INODE_BITMAP] layout_bitmaps(3) [of "parts s p" BLOCK_BITMAP]
  by (simp add: maps_ok_def bm_of_def)

lemma unat_lba_of_add:
  assumes "layout_ok q" "k < unat (sects_of t q)"
  shows "unat (lba_of t q + of_nat k) = unat (lba_of t q) + k"
  using layout_bitmaps(1) [OF assms(1), of t] assms(2) by (subst unat_add_u32) simp_all

lemma lba_of_inject:
  assumes "layout_ok q" "k < unat (sects_of t q)" "k' < unat (sects_of t' q)"
    and "lba_of t q + of_nat k = lba_of t' q + of_nat k'"
  shows "t = t' \<and> k = k'"
proof -
  have eq: "unat (lba_of t q) + k = unat (lba_of t' q) + k'"
    using arg_cong [OF assms(4), of unat] by (simp only: unat_lba_of_add [OF assms(1,2)] unat_lba_of_add [OF assms(1,3)])
  have "unat (lba_of BLOCK_BITMAP q) + unat (sects_of BLOCK_BITMAP q) = unat (lba_of INODE_BITMAP q)"
    using assms(1) by (simp add: layout_ok_def lba_of_def sects_of_def)
  note reg = this assms(2,3) eq
  have "t = t'"
  proof (rule ccontr)
    assume "t \<noteq> t'"
    then consider "t = BLOCK_BITMAP" "t' = INODE_BITMAP" | "t = INODE_BITMAP" "t' = BLOCK_BITMAP"
      by (cases t; cases t') blast+
    then show False
    proof cases
      case 1
      show False using reg unfolding 1 by linarith
    next
      case 2
      show False using reg unfolding 2 by linarith
    qed
  qed
  moreover have "k = k'" using eq unfolding calculation by linarith
  ultimately show ?thesis by blast
qed

lemma bitmap_set_bytes:
  assumes "bitmap_set b i v = Inr b'"
  shows "\<forall>j. j \<noteq> i div 8 \<longrightarrow> bits b' j = bits b j"
proof -
  obtain x where "b' = b\<lparr>bits := (bits b)(i div 8 := x)\<rparr>"
    using assms unfolding bitmap_set_def Let_def bnd_eq_Inr sum.inject by blast
  then show ?thesis by simp
qed

text \<open>The bytes of another sector of the bitmap are as before.\<close>

lemma bitmap_bytes_other:
  assumes "bitmap_set b i v = Inr b'" and "k \<noteq> unat i div 4096" and "512 * k + 511 < 536870912"
  shows "bitmap_bytes b' (of_nat (512 * k)) = bitmap_bytes b (of_nat (512 * k))"
  unfolding bitmap_bytes_def
proof (rule map_cong [OF refl])
  fix j assume "j \<in> set [0..<512]"
  then have j: "j < 512" by simp
  have u: "unat (of_nat (512 * k) + of_nat j :: u32) = 512 * k + j"
    using assms(3) j by (subst unat_add_u32) (simp_all del: of_nat_mult)
  have "512 * k + j \<noteq> unat i div 8"
  proof
    assume "512 * k + j = unat i div 8"
    then have "(512 * k + j) div 512 = unat i div 4096" by (simp flip: div_mult2_eq)
    moreover have "(512 * k + j) div 512 = k" using j by simp
    ultimately show False using assms(2) by simp
  qed
  then have "of_nat (512 * k) + of_nat j \<noteq> i div 8" by (metis u unat_div_8)
  then show "bits b' (of_nat (512 * k) + of_nat j) = bits b (of_nat (512 * k) + of_nat j)"
    using bitmap_set_bytes [OF assms(1)] by blast
qed

lemma set_bm_fields [simp]:
  "disks (set_bm t p b s) = disks s" "cur_part (set_bm t p b s) = cur_part s"
  "my_disk (parts (set_bm t p b s) p) = my_disk (parts s p)" "sb (parts (set_bm t p b s) p) = sb (parts s p)"
  "sects_of t' (parts (set_bm t p b s) p) = sects_of t' (parts s p)"
  "lba_of t' (parts (set_bm t p b s) p) = lba_of t' (parts s p)"
  by (cases t; simp add: set_bm_def sects_of_def lba_of_def)+

lemma bm_of_set_bm_other: "t' \<noteq> t \<Longrightarrow> bm_of t' (parts (set_bm t p b s) p) = bm_of t' (parts s p)"
  by (cases t; cases t') (simp_all add: set_bm_def bm_of_def)

lemma bitmap_sync_eq:
  "bitmap_sync p i t s = disk_write (my_disk (parts s p)) (lba_of t (parts s p) + i div 4096)
     (bitmap_bytes (bm_of t (parts s p)) (i div 4096 * 512)) 1 s"
  by (cases t) (simp_all add: bitmap_sync_def lba_of_def bm_of_def Let_def)

lemma length_bitmap_bytes [simp]: "length (bitmap_bytes b off) = 512"
  by (simp add: bitmap_bytes_def)

text \<open>Writing a bit of a bitmap and syncing its sector keeps the disk and the memory together.\<close>

lemma set_and_sync:
  assumes lay: "layout_ok (parts s p)" and on: "on_disk p s" and i: "unat i < n_bits (bm_of t (parts s p))"
    and b: "bitmap_set (bm_of t (parts s p)) i v = Inr b"
  defines "k0 \<equiv> unat i div 4096"
  defines "d \<equiv> disks s (my_disk (parts s p))"
  defines "s2 \<equiv> (set_bm t p b s)\<lparr>disks := (disks s)(my_disk (parts s p) :=
      d(lba_of t (parts s p) + of_nat k0 := bitmap_bytes b (of_nat (512 * k0))))\<rparr>"
  shows "bitmap_sync p i t (set_bm t p b s) = Inr s2"
    and "on_disk p s2" and "k0 < unat (sects_of t (parts s p))"
proof -
  let ?q = "parts s p"
  show k0: "k0 < unat (sects_of t ?q)" using i layout_bitmaps(2) [OF lay, of t] by (simp add: k0_def less_mult_imp_div_less mult.commute)
  have "unat (i div 4096) = k0" by (simp add: k0_def unat_div)
  then have "of_nat (unat (i div 4096)) = (of_nat k0 :: u32)" by simp
  then have ik: "i div 4096 = of_nat k0" by simp
  have off: "i div 4096 * 512 = of_nat (512 * k0)" by (simp add: ik mult.commute)
  have le: "lba_of t ?q + of_nat k0 \<le> max_lba"
    using unat_lba_of_add [OF lay k0] layout_bitmaps(1) [OF lay, of t] k0 by (simp add: word_le_nat_alt)
  show "bitmap_sync p i t (set_bm t p b s) = Inr s2"
    using le unfolding bitmap_sync_eq off by (simp add: ik d_def s2_def)
  show "on_disk p s2"
    unfolding on_disk_def
  proof (intro allI impI)
    fix t' k assume "k < unat (sects_of t' (parts s2 p))"
    then have k: "k < unat (sects_of t' ?q)" by (simp add: s2_def)
    have old: "d (lba_of t' ?q + of_nat k) = bitmap_bytes (bm_of t' ?q) (of_nat (512 * k))"
      using on k by (simp add: on_disk_def d_def)
    show "disks s2 (my_disk (parts s2 p)) (lba_of t' (parts s2 p) + of_nat k)
        = bitmap_bytes (bm_of t' (parts s2 p)) (of_nat (512 * k))"
    proof (cases "t' = t \<and> k = k0")
      case True
      then show ?thesis by (simp add: s2_def)
    next
      case False
      then have ne: "lba_of t' ?q + of_nat k \<noteq> lba_of t ?q + of_nat k0"
        using lba_of_inject [OF lay k k0] by blast
      show ?thesis
      proof (cases "t' = t")
        case True
        then have "k \<noteq> unat i div 4096" "512 * k + 511 < 536870912"
          using False k layout_bitmaps(1) [OF lay, of t] by (auto simp: k0_def)
        then show ?thesis using bitmap_bytes_other [OF b] ne old True by (simp add: s2_def)
      next
        case diff: False
        show ?thesis using ne old by (simp add: s2_def bm_of_set_bm_other [OF diff])
      qed
    qed
  qed
qed

lemma block_alloc_sync:
  assumes lay: "layout_ok (parts s p)" and on: "on_disk p s"
    and al: "block_bitmap_alloc p s = Inr (lba, s1)"
  obtains i b s2 where "i < n_bits (block_bitmap (parts s p))" "\<not> is_set (block_bitmap (parts s p)) i"
    "lba = data_start_lba (sb (parts s p)) + of_nat i" "bitmap_set (block_bitmap (parts s p)) (of_nat i) 1 = Inr b"
    "s1 = set_bm BLOCK_BITMAP p b s"
    "bitmap_sync p (lba - data_start_lba (sb (parts s p))) BLOCK_BITMAP s1 = Inr s2"
    "s2 = s1\<lparr>disks := (disks s)(my_disk (parts s p) := (disks s (my_disk (parts s p)))
       (block_bitmap_lba (sb (parts s p)) + of_nat (i div 4096) := bitmap_bytes b (of_nat (512 * (i div 4096)))))\<rparr>"
    "on_disk p s2"
proof -
  have "alloc_unit BLOCK_BITMAP p s = Inr (lba - data_start_lba (sb (parts s p)), s1)"
    using al by (simp add: alloc_unit_def)
  then obtain b where sc: "bitmap_scan (block_bitmap (parts s p)) 1 = Inr (lba - data_start_lba (sb (parts s p)))"
    and st: "bitmap_set (block_bitmap (parts s p)) (lba - data_start_lba (sb (parts s p))) 1 = Inr b"
    and s1: "s1 = set_bm BLOCK_BITMAP p b s"
    unfolding alloc_unit_Inr [OF layout_maps_ok [OF lay]] by (auto simp: bm_of_def)
  have sm: "small (block_bitmap (parts s p))" using layout_bitmaps(3) [OF lay, of BLOCK_BITMAP] by (simp add: bm_of_def)
  define i where "i = unat (lba - data_start_lba (sb (parts s p)))"
  have w: "lba - data_start_lba (sb (parts s p)) = of_nat i" by (simp add: i_def)
  have i: "i < n_bits (block_bitmap (parts s p))" "\<not> is_set (block_bitmap (parts s p)) i"
    using bitmap_scan_one_lt [OF sm sc] by (simp_all add: i_def)
  have ui: "unat (of_nat i :: u32) = i" using w by (simp add: i_def)
  note sy = set_and_sync [OF lay on, of "of_nat i" BLOCK_BITMAP 1 b]
  show thesis
    by (rule that [OF i _ _ s1])
      (use w st s1 i ui sy in \<open>simp_all add: bm_of_def lba_of_def algebra_simps\<close>)
qed

text \<open>C16: a block taken with \<open>block_bitmap_alloc\<close> was free; \<open>bitmap_sync\<close> then never fails and leaves the
  bitmaps on the disk equal to those in memory, with exactly that one bit more set.\<close>

theorem block_alloc_synced:
  assumes "layout_ok (parts s p)" and "on_disk p s" and "block_bitmap_alloc p s = Inr (lba, s1)"
  shows "\<exists>i s2. lba = data_start_lba (sb (parts s p)) + of_nat i \<and> i < n_bits (block_bitmap (parts s p)) \<and>
    \<not> is_set (block_bitmap (parts s p)) i \<and>
    bitmap_sync p (lba - data_start_lba (sb (parts s p))) BLOCK_BITMAP s1 = Inr s2 \<and> on_disk p s2 \<and>
    (\<forall>k < n_bits (block_bitmap (parts s p)).
       is_set (block_bitmap (parts s2 p)) k \<longleftrightarrow> k = i \<or> is_set (block_bitmap (parts s p)) k)"
proof -
  from block_alloc_sync [OF assms] obtain i b s2 where c: "i < n_bits (block_bitmap (parts s p))"
    "\<not> is_set (block_bitmap (parts s p)) i" "lba = data_start_lba (sb (parts s p)) + of_nat i"
    "bitmap_set (block_bitmap (parts s p)) (of_nat i) 1 = Inr b" "s1 = set_bm BLOCK_BITMAP p b s"
    "bitmap_sync p (lba - data_start_lba (sb (parts s p))) BLOCK_BITMAP s1 = Inr s2" "on_disk p s2"
    "s2 = s1\<lparr>disks := (disks s)(my_disk (parts s p) := (disks s (my_disk (parts s p)))
       (block_bitmap_lba (sb (parts s p)) + of_nat (i div 4096) := bitmap_bytes b (of_nat (512 * (i div 4096)))))\<rparr>" .
  have sm: "n_bits (block_bitmap (parts s p)) < 2147483648"
    using layout_bitmaps(3) [OF assms(1), of BLOCK_BITMAP] by (simp add: bm_of_def small_def)
  have "block_bitmap (parts s2 p) = b" using c(5,8) by (simp add: set_bm_def)
  then have "\<forall>k < n_bits (block_bitmap (parts s p)).
      is_set (block_bitmap (parts s2 p)) k \<longleftrightarrow> k = i \<or> is_set (block_bitmap (parts s p)) k"
    using is_set_bitmap_set [OF c(4)] sm c(1) by simp
  then show ?thesis using c by blast
qed

text \<open>Giving a block back keeps the bitmaps together, too.\<close>

lemma clear_block_synced:
  assumes "layout_ok (parts s p)" and "on_disk p s" and "cur_part s = p" and "unat i < n_bits (block_bitmap (parts s p))"
  shows "\<exists>s2. clear_block p i s = Inr s2 \<and> on_disk p s2 \<and>
    (\<forall>k < n_bits (block_bitmap (parts s p)).
       is_set (block_bitmap (parts s2 p)) k \<longleftrightarrow> k \<noteq> unat i \<and> is_set (block_bitmap (parts s p)) k)"
proof -
  obtain b where b: "bitmap_set (block_bitmap (parts s p)) i 0 = Inr b" using bitmap_set_ok by blast
  note sy = set_and_sync [OF assms(1,2), of i BLOCK_BITMAP 0 b]
  have sm: "n_bits (block_bitmap (parts s p)) < 2147483648"
    using layout_bitmaps(3) [OF assms(1), of BLOCK_BITMAP] by (simp add: bm_of_def small_def)
  have "clear_block p i s = bitmap_sync p i BLOCK_BITMAP (set_bm BLOCK_BITMAP p b s)"
    using b assms(3) by (simp add: clear_block_def set_bm_def)
  then show ?thesis
    using sy b assms(4) is_set_bitmap_set [OF b] sm by (auto simp: bm_of_def set_bm_def)
qed

section \<open>A small file system\<close>

text \<open>Partition 0 of disk 1: the block bitmap in sector 65, the bitmap of inodes in sector 66, the table of
  inodes in sectors 67 to 674, then 4096 data blocks; it holds the root directory only.\<close>

definition demo_bits :: bitmap where
  "demo_bits = \<lparr>btmp_bytes_len = 512, bits = (\<lambda>i. if i = 0 then 1 else 0)\<rparr>"

definition demo_sb :: super_block where
  "demo_sb = \<lparr>magic = 0x19590318, sb_sec_cnt = 4708, inode_cnt = 4096, part_lba_base = 63, block_bitmap_lba = 65,
     block_bitmap_sects = 1, inode_bitmap_lba = 66, inode_bitmap_sects = 1, inode_table_lba = 67,
     inode_table_sects = 608, data_start_lba = 675, root_inode_no = 0, dir_entry_size = 24\<rparr>"

definition demo_root :: inode where
  "demo_root = \<lparr>i_no = 0, i_size = 48, i_open_cnts = 0, write_deny = 0, i_sectors = 675 # replicate 12 0\<rparr>"

definition demo_dots :: bytes where
  "demo_dots = [46] @ replicate 15 0 @ le32 0 @ le32 FT_DIRECTORY @ [46, 46] @ replicate 14 0 @ le32 0 @ le32 FT_DIRECTORY"

definition demo_disk :: "u32 \<Rightarrow> bytes" where
  "demo_disk l = (if l = 64 then sb_bytes demo_sb @ replicate 460 0 else if l = 65 \<or> l = 66 then bitmap_bytes demo_bits 0
     else if l = 67 then inode_bytes demo_root @ replicate 436 0
     else if l = 675 then demo_dots @ replicate 464 0 else replicate 512 0)"

definition demo_part :: partition where
  "demo_part = \<lparr>start_lba = 63, sec_cnt = 4708, my_disk = 1, part_name = [115, 100, 98, 49, 0, 0, 0, 0], sb = demo_sb,
     block_bitmap = demo_bits, inode_bitmap = demo_bits, open_inodes = [0xc0200000]\<rparr>"

definition demo_task :: task_struct where
  "demo_task = zero_task\<lparr>fd_table := [0, 1, 2, - 1, - 1, - 1, - 1, - 1]\<rparr>"

definition demo_fs :: fsys where
  "demo_fs = \<lparr>eflags = 0x202, tasks = (\<lambda>_. demo_task), running_thread = 0xc009e000, thread_ready_list = [],
     thread_all_list = [0xc009e000], semas = (\<lambda>_. \<lparr>svalue = 1, waiters = []\<rparr>),
     locks = (\<lambda>_. \<lparr>holder = 0, holder_repeat_nr = 0\<rparr>), kstk = (\<lambda>_. []),
     tstacks = (\<lambda>_. \<lparr>ts_ebp = 0, ts_ebx = 0, ts_edi = 0, ts_esi = 0, ts_eip = 0, ts_function = 0, ts_func_arg = 0\<rparr>),
     idle_thread = 0, main_thread = 0, pid_lock = 0xc0020000, next_pid = 0, tick_count = 0,
     page_map = (\<lambda>_. 0), cr3 = 0x100000, tss_esp0 = 0,
     disks = (\<lambda>k. if k = 1 then demo_disk else (\<lambda>_. replicate 512 0)), parts = (\<lambda>_. demo_part), partition_list = [(1, 0)],
     cur_part = (1, 0), inodes = (\<lambda>_. demo_root\<lparr>i_open_cnts := 1\<rparr>),
     dirs = (\<lambda>_. \<lparr>dir_inode = 0xc0200000, dir_pos = 0, dir_buf = replicate 512 0\<rparr>), root_dir = 0xc0006000,
     file_table = replicate 32 \<lparr>fd_pos = 0, fd_flag = 0, fd_inode = 0\<rparr>,
     kheap = [0xc0200400, 0xc0200800, 0xc0200c00, 0xc0201000], uheap = (\<lambda>_. [0x8048100, 0x8048500, 0x8048900]),
     junk = replicate 512 0xcc, console_out = []\<rparr>"

lemma demo_fs_parts [simp]: "parts demo_fs p = demo_part" "my_disk demo_part = 1" "sb demo_part = demo_sb"
  "block_bitmap demo_part = demo_bits" "inode_bitmap demo_part = demo_bits" "cur_part demo_fs = (1, 0)"
  "disks demo_fs 1 = demo_disk" "disks demo_fs (Suc 0) = demo_disk"
  by (simp_all add: demo_fs_def demo_part_def)

lemma demo_layout: "layout_ok demo_part"
  by (simp add: layout_ok_def demo_part_def demo_sb_def n_bits_def demo_bits_def word_le_nat_alt)

lemma demo_on_disk: "on_disk (1, 0) demo_fs"
  by (auto simp: on_disk_def sects_of_def lba_of_def bm_of_def demo_sb_def demo_disk_def split: if_splits)

lemma demo_bits_bits: "i < 4294967296 \<Longrightarrow> is_set demo_bits i \<longleftrightarrow> i = 0"
proof -
  assume "i < 4294967296"
  then have "(of_nat (i div 8) :: u32) = 0 \<longleftrightarrow> i div 8 = 0"
    by (subst of_nat_eq_iff_u32 [of _ 0, simplified]) simp_all
  then show ?thesis by (auto simp: is_set_def demo_bits_def bit_1_iff)
qed

lemma demo_bits_len [simp]: "btmp_bytes_len demo_bits = 512"
  by (simp add: demo_bits_def)

lemma demo_bits_scan: "bitmap_scan demo_bits 1 = Inr 1"
  by (rule iffD2 [OF bitmap_scan_one])
    (auto simp: small_def n_bits_def demo_bits_len demo_bits_bits intro!: exI [of _ 1])

lemma demo_block_alloc: "\<exists>s1. block_bitmap_alloc (1, 0) demo_fs = Inr (676, s1)"
proof -
  obtain b where "bitmap_set demo_bits 1 1 = Inr b" using bitmap_set_ok by blast
  then show ?thesis by (simp add: block_bitmap_alloc_def demo_bits_scan demo_sb_def)
qed

theorem block_alloc_synced_witness:
  "\<exists>s1 i s2. block_bitmap_alloc (1, 0) demo_fs = Inr (676, s1) \<and> 676 = data_start_lba demo_sb + of_nat i \<and>
    bitmap_sync (1, 0) (676 - data_start_lba demo_sb) BLOCK_BITMAP s1 = Inr s2 \<and> on_disk (1, 0) s2"
proof -
  obtain s1 where s1: "block_bitmap_alloc (1, 0) demo_fs = Inr (676, s1)" using demo_block_alloc by blast
  have "layout_ok (parts demo_fs (1, 0))" using demo_layout by simp
  from block_alloc_synced [OF this demo_on_disk s1] s1 show ?thesis by auto
qed

end
