(* ===== verification/Inode.thy ===== *)
theory Inode
  imports Blocks
begin

text \<open>
  Inodes (fs/inode.c): where an inode lies in the table on the disk, writing, reading, sharing
  and releasing it. An inode in memory is an object at its address; \<open>open_inodes\<close> of the partition
  lists the open ones. \<open>table_byte\<close> sees the table on the disk as one array of bytes;
  \<open>disk_inode\<close> is the inode in a slot of it.
\<close>

section \<open>The code\<close>

record inode_position =
  two_sec :: bool
  sec_lba :: u32
  off_size :: u32

definition inode_locate :: "part_id \<Rightarrow> u32 \<Rightarrow> 'a fsys_scheme \<Rightarrow> inode_position res" where
  "inode_locate p inode_no s =
     bnd (ASSERT (inode_no < 4096)) (\<lambda>_.
     let table_lba = inode_table_lba (sb (parts s p));
         inode_size = of_nat sizeof_inode;
         off = inode_no * inode_size;
         off_sec = off div 512;
         off_size_in_sec = off mod 512;
         left_in_sec = 512 - off_size_in_sec
     in Inr \<lparr>two_sec = left_in_sec < inode_size, sec_lba = table_lba + off_sec, off_size = off_size_in_sec\<rparr>)"

text \<open>Read the one or two sectors of an inode into a buffer of \<open>bsz\<close> bytes, put \<open>bs\<close> at its place and
  write them back: the common part of \<open>inode_sync\<close> and \<open>inode_delete\<close>.\<close>

definition rewrite_inode :: "part_id \<Rightarrow> inode_position \<Rightarrow> bytes \<Rightarrow> nat \<Rightarrow> 'a fsys_scheme \<Rightarrow> 'a fsys_scheme res" where
  "rewrite_inode p pos bs bsz s =
     (let dk = my_disk (parts s p); n = (if two_sec pos then 2 else 1) in
      bnd (disk_read dk (sec_lba pos) n s) (\<lambda>buf.
      bnd (defined (512 * unat n \<le> bsz)) (\<lambda>_.
      disk_write dk (sec_lba pos) (patch buf (unat (off_size pos)) bs) n s)))"

text \<open>The number goes through a \<open>uint8_t\<close>.\<close>

definition inode_sync :: "part_id \<Rightarrow> inode \<Rightarrow> nat \<Rightarrow> 'a fsys_scheme \<Rightarrow> 'a fsys_scheme res" where
  "inode_sync p inode bsz s =
     (let inode_no = ucast (ucast (i_no inode) :: u8) in
      bnd (inode_locate p inode_no s) (\<lambda>pos.
      bnd (ASSERT (sec_lba pos \<le> start_lba (parts s p) + sec_cnt (parts s p))) (\<lambda>_.
      let pure_inode = inode\<lparr>i_open_cnts := 0, write_deny := 0\<rparr>
      in rewrite_inode p pos (inode_bytes pure_inode) bsz s)))"

text \<open>The inode is taken from the kernel's heap, the buffer from the heap of the running thread; \<open>memcpy\<close>
  panics on NULL, reading into the NULL buffer is undefined.\<close>

definition inode_open :: "part_id \<Rightarrow> u32 \<Rightarrow> 'a fsys_scheme \<Rightarrow> (u32 \<times> 'a fsys_scheme) res" where
  "inode_open p inode_no s =
     (case find (\<lambda>a. i_no (inodes s a) = inode_no) (open_inodes (parts s p)) of
        Some a \<Rightarrow> Inr (a, upd_inode a (\<lambda>i. i\<lparr>i_open_cnts := i_open_cnts i + 1\<rparr>) s)
      | None \<Rightarrow>
          bnd (inode_locate p inode_no s) (\<lambda>pos.
          bnd (with_kernel_pgdir (\<lambda>s. Inr (fs_malloc s)) s) (\<lambda>(a, s).
          let (inode_buf, s) = fs_malloc s in
          bnd (disk_read (my_disk (parts s p)) (sec_lba pos) (if two_sec pos then 2 else 1) s) (\<lambda>buf.
          bnd (defined (inode_buf \<noteq> 0)) (\<lambda>_.
          bnd (ASSERT (a \<noteq> 0)) (\<lambda>_.
          let s = upd_inode a (\<lambda>_. bytes_inode (drop (unat (off_size pos)) buf)) s;
              s = upd_part p (\<lambda>q. q\<lparr>open_inodes := a # open_inodes q\<rparr>) s;
              s = upd_inode a (\<lambda>i. i\<lparr>i_open_cnts := 1\<rparr>) s
          in bnd (fs_free inode_buf s) (\<lambda>s. Inr (a, s))))))))"

text \<open>\<open>list_remove\<close> unlinks the inode from the list it is in; every caller uses inodes of \<open>cur_part\<close>.\<close>

definition inode_close :: "u32 \<Rightarrow> 'a fsys_scheme \<Rightarrow> 'a fsys_scheme res" where
  "inode_close a s =
     (let (old_status, s) = intr_disable s;
          s = upd_inode a (\<lambda>i. i\<lparr>i_open_cnts := i_open_cnts i - 1\<rparr>) s in
      bnd (if i_open_cnts (inodes s a) = 0 then
             bnd (defined (a \<in> set (open_inodes (parts s (cur_part s))))) (\<lambda>_.
             let s = upd_part (cur_part s) (\<lambda>q. q\<lparr>open_inodes := remove1 a (open_inodes q)\<rparr>) s in
             bnd (with_kernel_pgdir (\<lambda>s. bnd (fs_free a s) (\<lambda>s. Inr ((), s))) s) (\<lambda>(_, s). Inr s))
           else Inr s) (\<lambda>s.
      Inr (snd (intr_set_status s old_status))))"

definition inode_delete :: "part_id \<Rightarrow> u32 \<Rightarrow> nat \<Rightarrow> 'a fsys_scheme \<Rightarrow> 'a fsys_scheme res" where
  "inode_delete p inode_no bsz s =
     bnd (ASSERT (inode_no < 4096)) (\<lambda>_.
     bnd (inode_locate p inode_no s) (\<lambda>pos.
     bnd (ASSERT (sec_lba pos \<le> start_lba (parts s p) + sec_cnt (parts s p))) (\<lambda>_.
     rewrite_inode p pos (replicate sizeof_inode 0) bsz s)))"

text \<open>The loop over \<open>all_blocks\<close>, and a block given back: its index must not be 0.\<close>

definition release_block :: "part_id \<Rightarrow> u32 \<Rightarrow> 'a fsys_scheme \<Rightarrow> 'a fsys_scheme res" where
  "release_block p lba s =
     (let idx = lba - data_start_lba (sb (parts s p)) in
      bnd (ASSERT (idx > 0)) (\<lambda>_. clear_block p idx s))"

fun release_blocks :: "part_id \<Rightarrow> u32 list \<Rightarrow> 'a fsys_scheme \<Rightarrow> 'a fsys_scheme res" where
  "release_blocks p [] s = Inr s"
| "release_blocks p (b # bs) s =
     bnd (if b \<noteq> 0 then release_block p b s else Inr s) (release_blocks p bs)"

definition inode_release :: "part_id \<Rightarrow> u32 \<Rightarrow> 'a fsys_scheme \<Rightarrow> 'a fsys_scheme res" where
  "inode_release p inode_no s =
     bnd (inode_open p inode_no s) (\<lambda>(a, s).
     bnd (ASSERT (i_no (inodes s a) = inode_no)) (\<lambda>_.
     let direct = take 12 (i_sectors (inodes s a)); table = i_sectors (inodes s a) ! 12 in
     bnd (if table \<noteq> 0 then
            bnd (disk_read (my_disk (parts s p)) table 1 s) (\<lambda>buf.
            bnd (release_block p table s) (\<lambda>s.
            Inr (direct @ bytes_words 128 buf, s)))
          else Inr (direct, s)) (\<lambda>(all_blocks, s).
     bnd (release_blocks p all_blocks s) (\<lambda>s.
     bnd (bitmap_set (inode_bitmap (parts s p)) inode_no 0) (\<lambda>b.
     bnd (bitmap_sync (cur_part s) inode_no INODE_BITMAP (upd_part p (\<lambda>q. q\<lparr>inode_bitmap := b\<rparr>) s)) (\<lambda>s.
     let (io_buf, s) = fs_malloc s in
     bnd (defined (io_buf \<noteq> 0)) (\<lambda>_.
     bnd (inode_delete p inode_no 1024 s) (\<lambda>s.
     bnd (fs_free io_buf s) (\<lambda>s.
     inode_close a s)))))))))"

definition inode_init :: "u32 \<Rightarrow> inode" where
  "inode_init inode_no =
     \<lparr>i_no = inode_no, i_size = 0, i_open_cnts = 0, write_deny = 0, i_sectors = replicate 13 0\<rparr>"

section \<open>The table of inodes on the disk\<close>

definition table_byte :: "'a fsys_scheme \<Rightarrow> part_id \<Rightarrow> nat \<Rightarrow> u8" where
  "table_byte s p x = disks s (my_disk (parts s p)) (inode_table_lba (sb (parts s p)) + of_nat (x div 512)) ! (x mod 512)"

definition slot :: "'a fsys_scheme \<Rightarrow> part_id \<Rightarrow> nat \<Rightarrow> bytes" where
  "slot s p n = map (\<lambda>j. table_byte s p (sizeof_inode * n + j)) [0..<sizeof_inode]"

definition disk_inode :: "'a fsys_scheme \<Rightarrow> part_id \<Rightarrow> nat \<Rightarrow> inode" where
  "disk_inode s p n = bytes_inode (slot s p n)"

definition straddles :: "nat \<Rightarrow> bool" where
  "straddles n \<longleftrightarrow> 512 - sizeof_inode * n mod 512 < sizeof_inode"

definition pos_of :: "'a fsys_scheme \<Rightarrow> part_id \<Rightarrow> nat \<Rightarrow> inode_position" where
  "pos_of s p n = \<lparr>two_sec = straddles n,
     sec_lba = inode_table_lba (sb (parts s p)) + of_nat (sizeof_inode * n div 512), off_size = of_nat (sizeof_inode * n mod 512)\<rparr>"

lemma inode_locate_pos:
  assumes "unat no < 4096"
  shows "inode_locate p no s = Inr (pos_of s p (unat no))"
proof -
  have u: "unat (no * 76) = 76 * unat no" using assms by (subst unat_mult_u32) simp_all
  have d: "unat (no * 76 div 512) = 76 * unat no div 512" by (simp add: unat_div u)
  have m: "unat (no * 76 mod 512) = 76 * unat no mod 512" by (simp add: unat_mod u)
  have d': "no * 76 div 512 = of_nat (76 * unat no div 512)" using arg_cong [OF d, of "of_nat :: nat \<Rightarrow> u32"] by simp
  have m': "no * 76 mod 512 = of_nat (76 * unat no mod 512)" using arg_cong [OF m, of "of_nat :: nat \<Rightarrow> u32"] by simp
  have s: "unat (512 - no * 76 mod 512) = 512 - 76 * unat no mod 512"
    using m by (subst unat_sub) (simp_all add: word_le_nat_alt)
  have lt: "(512 - no * 76 mod 512 < (76 :: u32)) = (512 - 76 * unat no mod 512 < 76)"
    using s by (simp add: word_less_nat_alt)
  have "no < 4096" using assms by (simp add: word_less_nat_alt)
  then show ?thesis
    unfolding inode_locate_def Let_def sizeof_inode_def pos_of_def straddles_def
    using lt d' m' by simp
qed

text \<open>The numbers behind a position: sector \<open>q\<close> of the table, byte \<open>r\<close> of the sector.\<close>

lemma slot_numbers:
  assumes "n < 4096"
  shows "sizeof_inode * n div 512 < 608" and "sizeof_inode * n = 512 * (sizeof_inode * n div 512) + sizeof_inode * n mod 512"
    and "straddles n \<Longrightarrow> Suc (sizeof_inode * n div 512) < 608"
    and "\<not> straddles n \<Longrightarrow> sizeof_inode * n mod 512 + sizeof_inode \<le> 512"
proof -
  let ?q = "sizeof_inode * n div 512" and ?r = "sizeof_inode * n mod 512"
  show eq: "sizeof_inode * n = 512 * ?q + ?r" by simp
  have n: "sizeof_inode * n \<le> 311220" using assms by (simp add: sizeof_inode_def)
  have r: "?r < 512" by simp
  show "?q < 608" using eq n by linarith
  show "Suc ?q < 608" if "straddles n"
    using that eq n r unfolding straddles_def sizeof_inode_def by linarith
  show "?r + sizeof_inode \<le> 512" if "\<not> straddles n"
    using that r unfolding straddles_def by linarith
qed

lemma table_lba:
  assumes "layout_ok q" "k < 608"
  shows "unat (inode_table_lba (sb q) + of_nat k) = unat (inode_table_lba (sb q)) + k"
    and "inode_table_lba (sb q) + of_nat k \<le> max_lba"
    and "inode_table_lba (sb q) + of_nat k \<le> start_lba q + sec_cnt q"
proof -
  have l: "unat (inode_table_lba (sb q)) + 608 \<le> 163839" "unat (start_lba q) + unat (sec_cnt q) \<le> 163840"
    "unat (inode_table_lba (sb q)) + 608 < unat (start_lba q) + unat (sec_cnt q)"
    using assms(1) by (auto simp: layout_ok_def word_le_nat_alt)
  show u: "unat (inode_table_lba (sb q) + of_nat k) = unat (inode_table_lba (sb q)) + k"
    using l assms(2) by (subst unat_add_u32) simp_all
  show "inode_table_lba (sb q) + of_nat k \<le> max_lba"
    using u l assms(2) by (simp add: word_le_nat_alt)
  have "unat (start_lba q + sec_cnt q) = unat (start_lba q) + unat (sec_cnt q)"
    using l by (intro unat_add_u32) simp
  then show "inode_table_lba (sb q) + of_nat k \<le> start_lba q + sec_cnt q"
    using u l assms(2) by (simp add: word_le_nat_alt)
qed

lemma table_lba_inject:
  "layout_ok q \<Longrightarrow> k < 608 \<Longrightarrow> k' < 608 \<Longrightarrow>
   inode_table_lba (sb q) + of_nat k = inode_table_lba (sb q) + of_nat k' \<longleftrightarrow> k = k'"
  by (metis add_left_cancel table_lba(1))

definition in_table :: "partition \<Rightarrow> u32 \<Rightarrow> bool" where
  "in_table q l \<longleftrightarrow> unat (inode_table_lba (sb q)) \<le> unat l \<and> unat l < unat (inode_table_lba (sb q)) + 608"

lemma in_table_sector: "layout_ok q \<Longrightarrow> k < 608 \<Longrightarrow> in_table q (inode_table_lba (sb q) + of_nat k)"
  by (simp add: in_table_def table_lba(1))

text \<open>What rewriting a slot does to the disk.\<close>

definition table_upd :: "partition \<Rightarrow> nat \<Rightarrow> bytes \<Rightarrow> (u32 \<Rightarrow> bytes) \<Rightarrow> (u32 \<Rightarrow> bytes) \<Rightarrow> bool" where
  "table_upd q n bs d d' \<longleftrightarrow> (\<forall>l. \<not> in_table q l \<longrightarrow> d' l = d l) \<and> (\<forall>l. length (d' l) = 512) \<and>
     (\<forall>k < 608. \<forall>j < 512. d' (inode_table_lba (sb q) + of_nat k) ! j =
        (if sizeof_inode * n \<le> 512 * k + j \<and> 512 * k + j < sizeof_inode * n + sizeof_inode
         then bs ! (512 * k + j - sizeof_inode * n) else d (inode_table_lba (sb q) + of_nat k) ! j))"

lemma table_upd_one:
  assumes lay: "layout_ok q" and len: "\<forall>l. length (d l) = 512" and n: "n < 4096" and bs: "length bs = sizeof_inode"
    and one: "\<not> straddles n"
  defines "k0 \<equiv> sizeof_inode * n div 512"
  defines "l0 \<equiv> inode_table_lba (sb q) + of_nat k0"
  shows "table_upd q n bs d (d(l0 := take 512 (patch (d l0) (sizeof_inode * n mod 512) bs)))"
proof -
  let ?r = "sizeof_inode * n mod 512"
  note num = slot_numbers [OF n, folded k0_def]
  have fit: "?r + length bs \<le> length (d l0)" using num(4) [OF one] bs len by simp
  have out: "\<not> in_table q l \<Longrightarrow> l \<noteq> l0" for l using in_table_sector [OF lay num(1)] by (auto simp: l0_def)
  have nth: "(d(l0 := take 512 (patch (d l0) ?r bs))) (inode_table_lba (sb q) + of_nat k) ! j =
      (if sizeof_inode * n \<le> 512 * k + j \<and> 512 * k + j < sizeof_inode * n + sizeof_inode
       then bs ! (512 * k + j - sizeof_inode * n) else d (inode_table_lba (sb q) + of_nat k) ! j)"
    if k: "k < 608" and j: "j < 512" for k j
  proof (cases "k = k0")
    case True
    have "sizeof_inode * n \<le> 512 * k + j \<longleftrightarrow> ?r \<le> j" "512 * k + j < sizeof_inode * n + sizeof_inode \<longleftrightarrow> j < ?r + sizeof_inode"
      "512 * k + j - sizeof_inode * n = j - ?r"
      using num(2) True by linarith+
    then show ?thesis
      using True j len fit bs by (simp add: l0_def [symmetric] nth_patch)
  next
    case False
    then have "inode_table_lba (sb q) + of_nat k \<noteq> l0"
      using table_lba_inject [OF lay k num(1)] by (simp add: l0_def)
    moreover have "\<not> (sizeof_inode * n \<le> 512 * k + j \<and> 512 * k + j < sizeof_inode * n + sizeof_inode)"
      using False num(2) num(4) [OF one] j by linarith
    ultimately show ?thesis by auto
  qed
  show ?thesis
    unfolding table_upd_def
  proof (intro conjI allI impI)
    show "(d(l0 := take 512 (patch (d l0) ?r bs))) l = d l" if "\<not> in_table q l" for l using out [OF that] by simp
    show "length ((d(l0 := take 512 (patch (d l0) ?r bs))) l) = 512" for l using len fit by simp
  qed (rule nth)
qed

lemma table_upd_two:
  assumes lay: "layout_ok q" and len: "\<forall>l. length (d l) = 512" and n: "n < 4096" and bs: "length bs = sizeof_inode"
    and two: "straddles n"
  defines "k0 \<equiv> sizeof_inode * n div 512"
  defines "l0 \<equiv> inode_table_lba (sb q) + of_nat k0"
  defines "buf \<equiv> patch (d l0 @ d (l0 + 1)) (sizeof_inode * n mod 512) bs"
  shows "table_upd q n bs d (d(l0 := take 512 buf, l0 + 1 := take 512 (drop 512 buf)))"
proof -
  let ?r = "sizeof_inode * n mod 512"
  note num = slot_numbers [OF n, folded k0_def]
  have r: "?r < 512" by simp
  have fit: "?r + length bs \<le> length (d l0 @ d (l0 + 1))" using r bs len by (simp add: sizeof_inode_def)
  have lbuf: "length buf = 1024" using fit len by (simp add: buf_def)
  have l1: "l0 + 1 = inode_table_lba (sb q) + of_nat (Suc k0)" by (simp add: l0_def)
  have out: "\<not> in_table q l \<Longrightarrow> l \<noteq> l0 \<and> l \<noteq> l0 + 1" for l
    using in_table_sector [OF lay num(1)] in_table_sector [OF lay num(3) [OF two]] unfolding l1 by (auto simp: l0_def)
  have ne: "l0 \<noteq> l0 + 1" using table_lba_inject [OF lay num(1) num(3) [OF two]] unfolding l1 by (simp add: l0_def)
  have nth: "(d(l0 := take 512 buf, l0 + 1 := take 512 (drop 512 buf))) (inode_table_lba (sb q) + of_nat k) ! j =
      (if sizeof_inode * n \<le> 512 * k + j \<and> 512 * k + j < sizeof_inode * n + sizeof_inode
       then bs ! (512 * k + j - sizeof_inode * n) else d (inode_table_lba (sb q) + of_nat k) ! j)"
    if k: "k < 608" and j: "j < 512" for k j
  proof -
    consider "k = k0" | "k = Suc k0" | "k \<noteq> k0" "k \<noteq> Suc k0" by blast
    then show ?thesis
    proof cases
      case 1
      have "sizeof_inode * n \<le> 512 * k + j \<longleftrightarrow> ?r \<le> j" "512 * k + j < sizeof_inode * n + sizeof_inode \<longleftrightarrow> j < ?r + sizeof_inode"
        "512 * k + j - sizeof_inode * n = j - ?r"
        using num(2) 1 by linarith+
      then show ?thesis
        using 1 j len fit bs ne by (simp add: l0_def [symmetric] buf_def nth_patch nth_append)
    next
      case 2
      have "sizeof_inode * n \<le> 512 * k + j" "512 * k + j < sizeof_inode * n + sizeof_inode \<longleftrightarrow> 512 + j < ?r + sizeof_inode"
        "512 * k + j - sizeof_inode * n = 512 + j - ?r" "?r \<le> 512 + j"
        using num(2) 2 r by linarith+
      moreover have "inode_table_lba (sb q) + of_nat k = l0 + 1" using 2 l1 by simp
      ultimately show ?thesis
        using j len fit bs lbuf by (simp add: nth_patch nth_append buf_def)
    next
      case 3
      then have "inode_table_lba (sb q) + of_nat k \<noteq> l0" "inode_table_lba (sb q) + of_nat k \<noteq> l0 + 1"
        using table_lba_inject [OF lay k num(1)] table_lba_inject [OF lay k num(3) [OF two]]
        unfolding l1 by (auto simp: l0_def)
      moreover have "\<not> (sizeof_inode * n \<le> 512 * k + j \<and> 512 * k + j < sizeof_inode * n + sizeof_inode)"
      proof -
        have "k < k0 \<or> Suc (Suc k0) \<le> k" using 3 by linarith
        then have "512 * k + 512 \<le> 512 * k0 \<or> 512 * k0 + 1024 \<le> 512 * k" by linarith
        then show ?thesis using num(2) r j by (auto simp: sizeof_inode_def)
      qed
      ultimately show ?thesis by auto
    qed
  qed
  show ?thesis
    unfolding table_upd_def
  proof (intro conjI allI impI)
    show "(d(l0 := take 512 buf, l0 + 1 := take 512 (drop 512 buf))) l = d l" if "\<not> in_table q l" for l using out [OF that] by simp
    show "length ((d(l0 := take 512 buf, l0 + 1 := take 512 (drop 512 buf))) l) = 512" for l using len lbuf by simp
  qed (rule nth)
qed

lemma div_mod_512: "y < 512 \<Longrightarrow> (512 * k + y) div 512 = k \<and> (512 * k + y) mod 512 = (y :: nat)"
  by simp

lemma div_mod_512':
  "512 \<le> y \<Longrightarrow> y < 1024 \<Longrightarrow> (512 * k + y) div 512 = Suc k \<and> (512 * k + y) mod 512 = (y :: nat) - 512"
  using div_mod_512 [of "y - 512" "Suc k"] by simp

lemma unat_mod_512: "unat (of_nat (x mod 512) :: u32) = x mod 512"
proof (rule unat_of_nat_u32)
  have "x mod 512 < 512" by simp
  then show "x mod 512 < 4294967296" by linarith
qed

lemma rewrite_inode_ok:
  assumes lay: "layout_ok (parts s p)" and dk: "disk_ok s" and n: "n < 4096" and bs: "length bs = sizeof_inode"
    and bsz: "(if straddles n then 1024 else 512) \<le> bsz"
  shows "\<exists>d'. rewrite_inode p (pos_of s p n) bs bsz s = Inr (s\<lparr>disks := (disks s)(my_disk (parts s p) := d')\<rparr>) \<and>
    table_upd (parts s p) n bs (disks s (my_disk (parts s p))) d'"
proof -
  let ?q = "parts s p" and ?k = "sizeof_inode * n div 512" and ?r = "sizeof_inode * n mod 512"
  let ?d = "disks s (my_disk ?q)" and ?l = "inode_table_lba (sb ?q) + of_nat (sizeof_inode * n div 512)"
  have len: "\<forall>l. length (?d l) = 512" using dk by (simp add: disk_ok_def)
  note num = slot_numbers [OF n]
  have r: "unat (of_nat ?r :: u32) = ?r" by (rule unat_mod_512)
  have le: "?l \<le> max_lba" by (rule table_lba(2) [OF lay num(1)])
  show ?thesis
  proof (cases "straddles n")
    case False
    have "?r + length bs \<le> 512" using num(4) [OF False] bs by simp
    then have "512 \<le> length (patch (?d ?l) ?r bs)" using len by simp
    then have "rewrite_inode p (pos_of s p n) bs bsz s = Inr (s\<lparr>disks := (disks s)(my_disk ?q :=
        ?d(?l := take 512 (patch (?d ?l) ?r bs)))\<rparr>)"
      using False bsz le r by (simp add: rewrite_inode_def pos_of_def Let_def)
    then show ?thesis using table_upd_one [OF lay len n bs False] by blast
  next
    case True
    have "?r < 512" by simp
    then have "?r + length bs \<le> 1024" using bs by (simp add: sizeof_inode_def)
    then have "1024 \<le> length (patch (?d ?l @ ?d (?l + 1)) ?r bs)" using len by simp
    then have "rewrite_inode p (pos_of s p n) bs bsz s = Inr (s\<lparr>disks := (disks s)(my_disk ?q :=
        ?d(?l := take 512 (patch (?d ?l @ ?d (?l + 1)) ?r bs),
           ?l + 1 := take 512 (drop 512 (patch (?d ?l @ ?d (?l + 1)) ?r bs))))\<rparr>)"
      using True bsz le r by (simp add: rewrite_inode_def pos_of_def Let_def)
    then show ?thesis using table_upd_two [OF lay len n bs True] by blast
  qed
qed

text \<open>With a buffer of one sector, an inode that lies in two sectors overruns the buffer.\<close>

lemma rewrite_inode_overrun:
  assumes "layout_ok (parts s p)" and "n < 4096" and "straddles n" and "bsz < 1024"
  shows "rewrite_inode p (pos_of s p n) bs bsz s = Inl Fault"
  using assms table_lba(2) [OF assms(1) slot_numbers(1) [OF assms(2)]]
  by (simp add: rewrite_inode_def pos_of_def Let_def)

lemma table_byte_upd:
  assumes lay: "layout_ok (parts s p)" and up: "table_upd (parts s p) n bs (disks s (my_disk (parts s p))) d'"
    and x: "x < 608 * 512"
  shows "table_byte (s\<lparr>disks := (disks s)(my_disk (parts s p) := d')\<rparr>) p x =
    (if sizeof_inode * n \<le> x \<and> x < sizeof_inode * n + sizeof_inode then bs ! (x - sizeof_inode * n) else table_byte s p x)"
proof -
  have "x div 512 < 608" "x mod 512 < 512" using x by (simp_all add: less_mult_imp_div_less)
  then show ?thesis using up by (simp add: table_upd_def table_byte_def)
qed

lemma slot_upd:
  assumes lay: "layout_ok (parts s p)" and up: "table_upd (parts s p) n bs (disks s (my_disk (parts s p))) d'"
    and bs: "length bs = sizeof_inode" and m: "m < 4096"
  shows "slot (s\<lparr>disks := (disks s)(my_disk (parts s p) := d')\<rparr>) p m = (if m = n then bs else slot s p m)"
proof (rule nth_equalityI)
  show "length (slot (s\<lparr>disks := (disks s)(my_disk (parts s p) := d')\<rparr>) p m) = length (if m = n then bs else slot s p m)"
    using bs by (simp add: slot_def)
next
  fix j assume "j < length (slot (s\<lparr>disks := (disks s)(my_disk (parts s p) := d')\<rparr>) p m)"
  then have j: "j < sizeof_inode" by (simp add: slot_def)
  have x: "sizeof_inode * m + j < 608 * 512" using m j by (simp add: sizeof_inode_def)
  have "sizeof_inode * n \<le> sizeof_inode * m + j \<and> sizeof_inode * m + j < sizeof_inode * n + sizeof_inode \<longleftrightarrow> m = n"
  proof -
    have "m < n \<Longrightarrow> sizeof_inode * m + sizeof_inode \<le> sizeof_inode * n" "n < m \<Longrightarrow> sizeof_inode * n + sizeof_inode \<le> sizeof_inode * m"
      by (simp_all add: sizeof_inode_def)
    then show ?thesis using j by (cases m n rule: linorder_cases) auto
  qed
  then show "slot (s\<lparr>disks := (disks s)(my_disk (parts s p) := d')\<rparr>) p m ! j = (if m = n then bs else slot s p m) ! j"
    using j table_byte_upd [OF lay up x] by (simp add: slot_def)
qed

text \<open>What \<open>inode_open\<close> reads is the slot of the inode.\<close>

lemma read_slot:
  assumes lay: "layout_ok (parts s p)" and dk: "disk_ok s" and n: "n < 4096"
  defines "pos \<equiv> pos_of s p n"
  shows "\<exists>buf. disk_read (my_disk (parts s p)) (sec_lba pos) (if two_sec pos then 2 else 1) s = Inr buf \<and>
    take sizeof_inode (drop (unat (off_size pos)) buf) = slot s p n \<and> unat (off_size pos) + sizeof_inode \<le> length buf"
proof -
  let ?q = "parts s p" and ?k = "sizeof_inode * n div 512" and ?r = "sizeof_inode * n mod 512"
  let ?d = "disks s (my_disk ?q)" and ?l = "inode_table_lba (sb ?q) + of_nat (sizeof_inode * n div 512)"
  have len: "length (?d l) = 512" for l using dk by (simp add: disk_ok_def)
  note num = slot_numbers [OF n]
  have r: "unat (of_nat ?r :: u32) = ?r" by (rule unat_mod_512)
  have le: "?l \<le> max_lba" by (rule table_lba(2) [OF lay num(1)])
  let ?buf = "if straddles n then ?d ?l @ ?d (?l + 1) else ?d ?l"
  have rd: "disk_read (my_disk ?q) (sec_lba pos) (if two_sec pos then 2 else 1) s = Inr ?buf"
    using le by (simp add: pos_def pos_of_def)
  have fit: "?r + sizeof_inode \<le> length ?buf"
    using num(4) len mod_less_divisor [of 512 "sizeof_inode * n"] by (auto simp: sizeof_inode_def)
  have "take sizeof_inode (drop ?r ?buf) = slot s p n"
  proof (rule nth_equalityI)
    show "length (take sizeof_inode (drop ?r ?buf)) = length (slot s p n)" using fit by (simp add: slot_def)
    fix j assume "j < length (take sizeof_inode (drop ?r ?buf))"
    then have j: "j < sizeof_inode" by simp
    have x: "sizeof_inode * n + j = 512 * ?k + (?r + j)" using num(2) by linarith
    have rj: "?r + j < 1024" using j mod_less_divisor [of 512 "sizeof_inode * n"] by (simp add: sizeof_inode_def)
    have "table_byte s p (sizeof_inode * n + j) = ?buf ! (?r + j)"
    proof (cases "?r + j < 512")
      case True
      then have "(sizeof_inode * n + j) div 512 = ?k" "(sizeof_inode * n + j) mod 512 = ?r + j" unfolding x using div_mod_512 [OF True] by blast+
      then show ?thesis using True len by (simp add: table_byte_def nth_append)
    next
      case False
      then have two: "straddles n" using num(4) j by linarith
      have "(sizeof_inode * n + j) div 512 = Suc ?k" "(sizeof_inode * n + j) mod 512 = ?r + j - 512"
        unfolding x using div_mod_512' [OF leI [OF False] rj] by blast+
      then show ?thesis using False two len by (simp add: table_byte_def nth_append ac_simps)
    qed
    then show "take sizeof_inode (drop ?r ?buf) ! j = slot s p n ! j" using j fit by (simp add: slot_def)
  qed
  with rd fit r show ?thesis by (auto simp: pos_def pos_of_def)
qed

lemma bytes_inode_take: "bytes_inode (take sizeof_inode xs) = bytes_inode xs"
proof -
  have "rd32 (take 76 xs) k = rd32 xs k" if "k + 4 \<le> 76" for k
    using that by (rule rd32_take)
  moreover have "rd32 (drop 16 (take 76 xs)) (4 * k) = rd32 (drop 16 xs) (4 * k)" if "k < 13" for k
    using that rd32_take [of "4 * k" 60 "drop 16 xs"] by (simp add: drop_take)
  ultimately show ?thesis by (simp add: bytes_inode_def bytes_words_def sizeof_inode_def)
qed

definition pure :: "inode \<Rightarrow> inode" where
  "pure i = i\<lparr>i_open_cnts := 0, write_deny := 0\<rparr>"

text \<open>\<open>inode_sync\<close> as one step: the slot with the number of the inode modulo 256 is written.\<close>

lemma inode_sync_fits:
  assumes lay: "layout_ok (parts s p)" and dk: "disk_ok s" and len: "length (i_sectors inode) = 13" and bsz: "(if straddles (unat (i_no inode) mod 256) then 1024 else 512) \<le> bsz"
  shows "\<exists>d'. inode_sync p inode bsz s = Inr (s\<lparr>disks := (disks s)(my_disk (parts s p) := d')\<rparr>) \<and>
    table_upd (parts s p) (unat (i_no inode) mod 256) (inode_bytes (pure inode)) (disks s (my_disk (parts s p))) d'"
proof -
  let ?n = "unat (i_no inode) mod 256" and ?no = "ucast (ucast (i_no inode) :: u8) :: u32"
  have n: "?n < 4096" by (rule less_trans [of _ 256]) simp_all
  have no: "unat ?no = ?n"
    by (simp add: unsigned_ucast_eq take_bit_eq_mod unat_mod)
  have lo: "inode_locate p ?no s = Inr (pos_of s p ?n)"
    using inode_locate_pos [of ?no p s] n unfolding no by blast
  have as: "sec_lba (pos_of s p ?n) \<le> start_lba (parts s p) + sec_cnt (parts s p)"
    using table_lba(3) [OF lay slot_numbers(1) [OF n]] by (simp add: pos_of_def)
  have bs: "length (inode_bytes (pure inode)) = sizeof_inode" using len by (simp add: sizeof_inode_def pure_def)
  show ?thesis
    using rewrite_inode_ok [OF lay dk n bs bsz] lo as by (simp add: inode_sync_def Let_def pure_def)
qed

lemma inode_sync_step:
  assumes "layout_ok (parts s p)" and "disk_ok s" and "length (i_sectors inode) = 13" and "1024 \<le> bsz"
  shows "\<exists>d'. inode_sync p inode bsz s = Inr (s\<lparr>disks := (disks s)(my_disk (parts s p) := d')\<rparr>) \<and>
    table_upd (parts s p) (unat (i_no inode) mod 256) (inode_bytes (pure inode)) (disks s (my_disk (parts s p))) d'"
  by (rule inode_sync_fits [OF assms(1-3)]) (use assms(4) in simp)

text \<open>A buffer of one sector is too small for an inode that lies in two.\<close>

lemma inode_sync_overrun:
  assumes lay: "layout_ok (parts s p)" and "straddles (unat (i_no inode) mod 256)" and "bsz < 1024"
  shows "inode_sync p inode bsz s = Inl Fault"
proof -
  let ?n = "unat (i_no inode) mod 256" and ?no = "ucast (ucast (i_no inode) :: u8) :: u32"
  have n: "?n < 4096" by (rule less_trans [of _ 256]) simp_all
  have no: "unat ?no = ?n" by (simp add: unsigned_ucast_eq take_bit_eq_mod unat_mod)
  have "inode_locate p ?no s = Inr (pos_of s p ?n)"
    using inode_locate_pos [of ?no p s] n unfolding no by blast
  moreover have "sec_lba (pos_of s p ?n) \<le> start_lba (parts s p) + sec_cnt (parts s p)"
    using table_lba(3) [OF lay slot_numbers(1) [OF n]] by (simp add: pos_of_def)
  ultimately show ?thesis
    using rewrite_inode_overrun [OF lay n assms(2,3)] by (simp add: inode_sync_def Let_def)
qed

text \<open>C15: \<open>inode_sync\<close> never fails on a formatted partition; it writes the inode, with its two run-time
  fields cleared, into the slot with its number modulo 256 (the number passes through a \<open>uint8_t\<close>),
  and changes no other slot and no sector outside the table.\<close>

theorem inode_sync_slot:
  assumes "layout_ok (parts s p)" and "disk_ok s" and "length (i_sectors inode) = 13" and "1024 \<le> bsz"
  shows "\<exists>s'. inode_sync p inode bsz s = Inr s' \<and> disk_ok s' \<and>
    (\<forall>m < 4096. disk_inode s' p m = (if m = unat (i_no inode) mod 256
       then inode\<lparr>i_open_cnts := 0, write_deny := 0\<rparr> else disk_inode s p m)) \<and>
    (\<forall>l. \<not> in_table (parts s p) l \<longrightarrow> disks s' (my_disk (parts s p)) l = disks s (my_disk (parts s p)) l)"
proof -
  from inode_sync_step [OF assms] obtain d' where
    d': "inode_sync p inode bsz s = Inr (s\<lparr>disks := (disks s)(my_disk (parts s p) := d')\<rparr>)"
    "table_upd (parts s p) (unat (i_no inode) mod 256) (inode_bytes (pure inode)) (disks s (my_disk (parts s p))) d'"
    by blast
  let ?s' = "s\<lparr>disks := (disks s)(my_disk (parts s p) := d')\<rparr>"
  have len: "length (inode_bytes (pure inode)) = sizeof_inode" using assms(3) by (simp add: sizeof_inode_def pure_def)
  have "disk_inode ?s' p m = (if m = unat (i_no inode) mod 256 then pure inode else disk_inode s p m)" if "m < 4096" for m
    using slot_upd [OF assms(1) d'(2) len that] bytes_inode_bytes [of "pure inode" "[]"] assms(3)
    by (simp add: disk_inode_def pure_def)
  moreover have "disk_ok ?s'" using d'(2) assms(2) by (simp add: disk_ok_def table_upd_def)
  moreover have "\<not> in_table (parts s p) l \<Longrightarrow> disks ?s' (my_disk (parts s p)) l = disks s (my_disk (parts s p)) l" for l
    using d'(2) by (simp add: table_upd_def)
  ultimately show ?thesis using d'(1) unfolding pure_def by blast
qed

lemma demo_disk_ok: "disk_ok demo_fs"
proof -
  have "length (demo_disk l) = 512" for l
    by (simp add: demo_disk_def demo_dots_def demo_root_def FT_DIRECTORY_def)
  then show ?thesis by (simp add: disk_ok_def demo_fs_def)
qed

theorem inode_sync_slot_witness:
  "\<exists>s'. inode_sync (1, 0) (demo_root\<lparr>i_no := 261, i_size := 7\<rparr>) 1024 demo_fs = Inr s' \<and>
     i_no (disk_inode s' (1, 0) 5) = 261 \<and> i_size (disk_inode s' (1, 0) 5) = 7"
proof -
  have "layout_ok (parts demo_fs (1, 0))" using demo_layout by simp
  moreover have "length (i_sectors (demo_root\<lparr>i_no := 261, i_size := 7\<rparr>)) = 13" by (simp add: demo_root_def)
  ultimately show ?thesis
    using inode_sync_slot [of demo_fs "(1, 0)" "demo_root\<lparr>i_no := 261, i_size := 7\<rparr>" 1024] demo_disk_ok by auto
qed

section \<open>Opening and closing\<close>

lemma with_kernel_malloc:
  "kheap s = a # h \<Longrightarrow> with_kernel_pgdir (\<lambda>s. Inr (fs_malloc s)) s = Inr (a, s\<lparr>kheap := h\<rparr>)"
  by (simp add: with_kernel_pgdir_def fs_malloc_def heap_def in_kernel_def upd_task_def set_heap_def Let_def)

lemma with_kernel_free:
  "a \<noteq> 0 \<Longrightarrow> K_HEAP_START \<le> a \<Longrightarrow> a \<notin> set (kheap s) \<Longrightarrow>
   with_kernel_pgdir (\<lambda>s. bnd (fs_free a s) (\<lambda>s. Inr ((), s))) s = Inr ((), s\<lparr>kheap := kheap s @ [a]\<rparr>)"
  by (simp add: with_kernel_pgdir_def fs_free_def heap_def in_kernel_def upd_task_def set_heap_def Let_def)

lemma find_none: "(\<forall>a \<in> set xs. \<not> P a) \<Longrightarrow> find P xs = None"
  by (simp add: find_None_iff)

text \<open>In a kernel thread the inode and the buffer come from the kernel's heap; the buffer goes back.\<close>

lemma inode_open_fresh:
  assumes lay: "layout_ok (parts s p)" and dk: "disk_ok s" and n: "unat no < 4096"
    and new: "\<forall>a \<in> set (open_inodes (parts s p)). i_no (inodes s a) \<noteq> no"
    and k: "in_kernel s" and h: "kheap s = a # b # h" and ab: "a \<noteq> 0" "b \<noteq> 0" "K_HEAP_START \<le> b" "b \<notin> set h"
  shows "inode_open p no s = Inr (a, upd_inode a (\<lambda>_. (disk_inode s p (unat no))\<lparr>i_open_cnts := 1\<rparr>)
    (upd_part p (\<lambda>q. q\<lparr>open_inodes := a # open_inodes q\<rparr>) (s\<lparr>kheap := h @ [b]\<rparr>)))"
proof -
  from read_slot [OF lay dk n] obtain buf where rd: "disk_read (my_disk (parts s p)) (sec_lba (pos_of s p (unat no)))
      (if two_sec (pos_of s p (unat no)) then 2 else 1) s = Inr buf"
    and sl: "take sizeof_inode (drop (unat (off_size (pos_of s p (unat no)))) buf) = slot s p (unat no)" by blast
  have ino: "bytes_inode (drop (unat (off_size (pos_of s p (unat no)))) buf) = disk_inode s p (unat no)"
    using bytes_inode_take sl by (metis disk_inode_def)
  have rd': "disk_read (my_disk (parts s p)) (sec_lba (pos_of s p (unat no)))
      (if two_sec (pos_of s p (unat no)) then 2 else 1) (set_heap h (s\<lparr>kheap := b # h\<rparr>)) = Inr buf"
    using rd by (simp add: disk_read_def)
  have f: "find (\<lambda>a. i_no (inodes s a) = no) (open_inodes (parts s p)) = None" using new by (rule find_none)
  have hp: "heap (s\<lparr>kheap := b # h\<rparr>) = b # h" using k by (simp add: heap_def in_kernel_def)
  show ?thesis
    using f h k hp rd' ab ino with_kernel_malloc [OF h]
    by (simp add: inode_open_def inode_locate_pos [OF n] fs_free_def heap_def in_kernel_def upd_inode_def upd_part_def
        set_heap_def Let_def cong: if_cong)
qed

lemma intr_disable_fields [simp]:
  "inodes (snd (intr_disable s)) = inodes s" "parts (snd (intr_disable s)) = parts s"
  "cur_part (snd (intr_disable s)) = cur_part s" "tasks (snd (intr_disable s)) = tasks s"
  "running_thread (snd (intr_disable s)) = running_thread s" "kheap (snd (intr_disable s)) = kheap s"
  "file_table (snd (intr_disable s)) = file_table s"
  by (simp_all add: intr_disable_def cli_def)

lemma inode_close_dec:
  assumes "i_open_cnts (inodes s a) \<noteq> 1"
  shows "inode_close a s = Inr (upd_inode a (\<lambda>i. i\<lparr>i_open_cnts := i_open_cnts i - 1\<rparr>) s)"
proof -
  let ?g = "upd_inode a (\<lambda>i. i\<lparr>i_open_cnts := i_open_cnts i - 1\<rparr>)"
  have "snd (intr_set_status (?g (snd (intr_disable s))) (fst (intr_disable s))) = ?g s"
    by (rule bracket_commute) (simp_all add: upd_inode_def)
  then show ?thesis using assms
    by (simp add: inode_close_def Let_def case_prod_beta upd_inode_def)
qed

lemma inode_close_last:
  assumes "i_open_cnts (inodes s a) = 1" and "a \<in> set (open_inodes (parts s (cur_part s)))"
    and "a \<noteq> 0" "K_HEAP_START \<le> a" "a \<notin> set (kheap s)"
  shows "inode_close a s = Inr ((upd_part (cur_part s) (\<lambda>q. q\<lparr>open_inodes := remove1 a (open_inodes q)\<rparr>)
    (upd_inode a (\<lambda>i. i\<lparr>i_open_cnts := 0\<rparr>) s))\<lparr>kheap := kheap s @ [a]\<rparr>)"
proof -
  let ?g = "\<lambda>s. (upd_part (cur_part s) (\<lambda>q. q\<lparr>open_inodes := remove1 a (open_inodes q)\<rparr>)
    (upd_inode a (\<lambda>i. i\<lparr>i_open_cnts := i_open_cnts i - 1\<rparr>) s))\<lparr>kheap := kheap s @ [a]\<rparr>"
  have "snd (intr_set_status (?g (snd (intr_disable s))) (fst (intr_disable s))) = ?g s"
    by (rule bracket_commute) (simp_all add: upd_inode_def upd_part_def)
  then show ?thesis using assms
    by (simp add: inode_close_def Let_def case_prod_beta with_kernel_free upd_inode_def upd_part_def)
qed

lemma find_hd: "P x \<Longrightarrow> find P (x # xs) = Some x"
  by simp

text \<open>C13: opening an inode twice gives one object, counted twice; after two closes the partition's list is
  as before and every block of the kernel's heap is free again.\<close>

theorem inode_open_shares:
  assumes "layout_ok (parts s p)" and "disk_ok s" and "unat no < 4096" and "cur_part s = p" and "in_kernel s"
    and "\<forall>a \<in> set (open_inodes (parts s p)). i_no (inodes s a) \<noteq> no"
    and "i_no (disk_inode s p (unat no)) = no"
    and "kheap s = a # b # h" and "distinct (kheap s)" and "\<forall>x \<in> set (kheap s). x \<noteq> 0 \<and> K_HEAP_START \<le> x"
  shows "\<exists>s1 s2 s3 s4. inode_open p no s = Inr (a, s1) \<and> inode_open p no s1 = Inr (a, s2) \<and>
    inodes s2 a = (disk_inode s p (unat no))\<lparr>i_open_cnts := 2\<rparr> \<and>
    inode_close a s2 = Inr s3 \<and> a \<in> set (open_inodes (parts s3 p)) \<and>
    inode_close a s3 = Inr s4 \<and> parts s4 = parts s \<and> set (kheap s4) = set (kheap s)"
proof -
  let ?i = "(disk_inode s p (unat no))\<lparr>i_open_cnts := 1\<rparr>"
  let ?s1 = "upd_inode a (\<lambda>_. ?i) (upd_part p (\<lambda>q. q\<lparr>open_inodes := a # open_inodes q\<rparr>) (s\<lparr>kheap := h @ [b]\<rparr>))"
  have ab: "a \<noteq> 0" "b \<noteq> 0" "K_HEAP_START \<le> b" "K_HEAP_START \<le> a" "b \<notin> set h" "a \<notin> set h" "a \<noteq> b"
    using assms(8-10) by auto
  have o1: "inode_open p no s = Inr (a, ?s1)"
    by (rule inode_open_fresh) (use assms ab in auto)
  let ?s2 = "upd_inode a (\<lambda>i. i\<lparr>i_open_cnts := i_open_cnts i + 1\<rparr>) ?s1"
  have o2: "inode_open p no ?s1 = Inr (a, ?s2)"
    using assms(7) by (simp add: inode_open_def upd_inode_def)
  let ?s3 = "upd_inode a (\<lambda>i. i\<lparr>i_open_cnts := i_open_cnts i - 1\<rparr>) ?s2"
  have c1: "inode_close a ?s2 = Inr ?s3" by (rule inode_close_dec) (simp add: upd_inode_def)
  let ?s4 = "(upd_part p (\<lambda>q. q\<lparr>open_inodes := remove1 a (open_inodes q)\<rparr>)
    (upd_inode a (\<lambda>i. i\<lparr>i_open_cnts := 0\<rparr>) ?s3))\<lparr>kheap := kheap ?s3 @ [a]\<rparr>"
  have cur: "cur_part ?s3 = p" using assms(4) by (simp add: upd_inode_def upd_part_def)
  have c2: "inode_close a ?s3 = Inr ?s4"
    using inode_close_last [of ?s3 a] ab assms(4) unfolding cur by (simp add: upd_inode_def upd_part_def)
  have i2: "inodes ?s2 a = (disk_inode s p (unat no))\<lparr>i_open_cnts := 2\<rparr>" by (simp add: upd_inode_def)
  have l3: "a \<in> set (open_inodes (parts ?s3 p))" by (simp add: upd_inode_def upd_part_def)
  have p4: "parts ?s4 = parts s" by (simp add: upd_inode_def upd_part_def)
  have k4: "set (kheap ?s4) = set (kheap s)" using assms(8) by (auto simp: upd_inode_def upd_part_def)
  show ?thesis using o1 o2 c1 c2 i2 l3 p4 k4 by blast
qed

text \<open>C14: an inode with a number below 256 that is synced and opened again comes back as it was, counted
  once and writable.\<close>

theorem inode_sync_open:
  assumes "layout_ok (parts s p)" and "disk_ok s" and "length (i_sectors inode) = 13" and "unat (i_no inode) < 256"
    and "in_kernel s" and "kheap s = a # b # h" and "distinct (kheap s)" and "\<forall>x \<in> set (kheap s). x \<noteq> 0 \<and> K_HEAP_START \<le> x"
    and "\<forall>a \<in> set (open_inodes (parts s p)). i_no (inodes s a) \<noteq> i_no inode"
  shows "\<exists>s1 s2. inode_sync p inode 1024 s = Inr s1 \<and> inode_open p (i_no inode) s1 = Inr (a, s2) \<and>
    inodes s2 a = inode\<lparr>i_open_cnts := 1, write_deny := 0\<rparr>"
proof -
  from inode_sync_step [OF assms(1-3) order_refl] obtain d' where
    d': "inode_sync p inode 1024 s = Inr (s\<lparr>disks := (disks s)(my_disk (parts s p) := d')\<rparr>)"
    "table_upd (parts s p) (unat (i_no inode) mod 256) (inode_bytes (pure inode)) (disks s (my_disk (parts s p))) d'"
    by blast
  let ?s1 = "s\<lparr>disks := (disks s)(my_disk (parts s p) := d')\<rparr>"
  have m: "unat (i_no inode) mod 256 = unat (i_no inode)" "unat (i_no inode) < 4096" using assms(4) by simp_all
  have len: "length (inode_bytes (pure inode)) = sizeof_inode" using assms(3) by (simp add: sizeof_inode_def pure_def)
  have di: "disk_inode ?s1 p (unat (i_no inode)) = pure inode"
    using slot_upd [OF assms(1) d'(2) len m(2)] bytes_inode_bytes [of "pure inode" "[]"] assms(3) m(1)
    by (simp add: disk_inode_def pure_def)
  have "disk_ok ?s1" using d'(2) assms(2) by (simp add: disk_ok_def table_upd_def)
  then have "inode_open p (i_no inode) ?s1 = Inr (a, upd_inode a (\<lambda>_. (disk_inode ?s1 p (unat (i_no inode)))\<lparr>i_open_cnts := 1\<rparr>)
    (upd_part p (\<lambda>q. q\<lparr>open_inodes := a # open_inodes q\<rparr>) (?s1\<lparr>kheap := h @ [b]\<rparr>)))"
    by (intro inode_open_fresh) (use assms m in \<open>auto simp: in_kernel_def\<close>)
  then show ?thesis using d'(1) di by (auto simp: upd_inode_def pure_def)
qed

lemma demo_kernel: "in_kernel demo_fs" "kheap demo_fs = [0xc0200400, 0xc0200800, 0xc0200c00, 0xc0201000]"
  by (simp_all add: in_kernel_def demo_fs_def demo_task_def zero_task_def)

lemma demo_heap: "distinct (kheap demo_fs)" "\<forall>x \<in> set (kheap demo_fs). x \<noteq> 0 \<and> K_HEAP_START \<le> x"
  by (simp_all add: demo_kernel K_HEAP_START_def word_le_nat_alt)

lemma demo_inodes [simp]: "inodes demo_fs a = demo_root\<lparr>i_open_cnts := 1\<rparr>" "i_no demo_root = 0"
  by (simp_all add: demo_fs_def demo_root_def)

lemma demo_root_slot: "disk_inode demo_fs (1, 0) 0 = demo_root"
proof -
  have len: "length (inode_bytes demo_root) = 76" by (simp add: demo_root_def)
  have "slot demo_fs (1, 0) 0 = inode_bytes demo_root"
  proof (rule nth_equalityI)
    fix i assume "i < length (slot demo_fs (1, 0) 0)"
    then have "i < 76" by (simp add: slot_def sizeof_inode_def)
    then show "slot demo_fs (1, 0) 0 ! i = inode_bytes demo_root ! i"
      using len by (simp add: slot_def sizeof_inode_def table_byte_def demo_sb_def demo_disk_def nth_append)
  qed (simp add: slot_def sizeof_inode_def len)
  then show ?thesis using bytes_inode_bytes [of demo_root "[]"] by (simp add: disk_inode_def demo_root_def)
qed

definition demo_closed :: fsys where
  "demo_closed = demo_fs\<lparr>parts := (\<lambda>_. demo_part\<lparr>open_inodes := []\<rparr>)\<rparr>"

theorem inode_open_shares_witness:
  "\<exists>s1 s2 s3 s4. inode_open (1, 0) 0 demo_closed = Inr (0xc0200400, s1) \<and> inode_open (1, 0) 0 s1 = Inr (0xc0200400, s2) \<and>
    inodes s2 0xc0200400 = demo_root\<lparr>i_open_cnts := 2\<rparr> \<and> inode_close 0xc0200400 s2 = Inr s3 \<and>
    inode_close 0xc0200400 s3 = Inr s4 \<and> parts s4 = parts demo_closed"
proof -
  have d: "disk_inode demo_closed (1, 0) 0 = demo_root"
    using demo_root_slot by (simp add: disk_inode_def slot_def table_byte_def demo_closed_def)
  have "layout_ok (parts demo_closed (1, 0))"
    by (simp add: demo_closed_def layout_ok_def demo_part_def demo_sb_def n_bits_def demo_bits_def word_le_nat_alt)
  moreover have "disk_ok demo_closed" using demo_disk_ok by (simp add: disk_ok_def demo_closed_def)
  moreover have "in_kernel demo_closed" "kheap demo_closed = [0xc0200400, 0xc0200800, 0xc0200c00, 0xc0201000]"
    "open_inodes (parts demo_closed (1, 0)) = []" "cur_part demo_closed = (1, 0)"
    using demo_kernel by (simp_all add: demo_closed_def in_kernel_def)
  ultimately show ?thesis
    using inode_open_shares [of demo_closed "(1, 0)" 0 "0xc0200400" "0xc0200800" "[0xc0200c00, 0xc0201000]"] d demo_heap
    by (auto simp: demo_closed_def demo_kernel)
qed

theorem inode_sync_open_witness:
  "\<exists>s1 s2. inode_sync (1, 0) (demo_root\<lparr>i_no := 5\<rparr>) 1024 demo_fs = Inr s1 \<and> inode_open (1, 0) 5 s1 = Inr (0xc0200400, s2) \<and>
    inodes s2 0xc0200400 = demo_root\<lparr>i_no := 5, i_open_cnts := 1, write_deny := 0\<rparr>"
proof -
  have "layout_ok (parts demo_fs (1, 0))" using demo_layout by simp
  moreover have "length (i_sectors (demo_root\<lparr>i_no := 5\<rparr>)) = 13" by (simp add: demo_root_def)
  ultimately show ?thesis
    using inode_sync_open [of demo_fs "(1, 0)" "demo_root\<lparr>i_no := 5\<rparr>" "0xc0200400" "0xc0200800" "[0xc0200c00, 0xc0201000]"]
      demo_disk_ok demo_kernel demo_heap by auto
qed

end
