(* ===== verification/Dir.thy ===== *)
theory Dir
  imports Inode
begin

text \<open>
  Directories (fs/dir.c): opening and closing, looking up an entry, writing, deleting and reading
  entries. A sector holds \<open>512 div dir_entry_size\<close> entries of 24 bytes; a directory has 12 direct
  blocks and the 128 blocks of an indirect table. \<open>entries\<close> sees the blocks of a directory as one
  list of entries.
\<close>

section \<open>The code\<close>

definition open_root_dir :: "part_id \<Rightarrow> 'a fsys_scheme \<Rightarrow> 'a fsys_scheme res" where
  "open_root_dir p s =
     bnd (inode_open p (root_inode_no (sb (parts s p))) s) (\<lambda>(a, s).
     Inr (upd_dir (root_dir s) (\<lambda>d. d\<lparr>dir_inode := a, dir_pos := 0\<rparr>) s))"

definition dir_open :: "part_id \<Rightarrow> u32 \<Rightarrow> 'a fsys_scheme \<Rightarrow> (u32 \<times> 'a fsys_scheme) res" where
  "dir_open p inode_no s =
     (let (pdir, s) = fs_malloc s in
      bnd (inode_open p inode_no s) (\<lambda>(a, s).
      bnd (defined (pdir \<noteq> 0)) (\<lambda>_.
      Inr (pdir, upd_dir pdir (\<lambda>_. \<lparr>dir_inode = a, dir_pos = 0, dir_buf = replicate 512 0\<rparr>) s))))"

text \<open>\<open>strcmp(buf, name) == 0\<close> for a C string \<open>name\<close> given without its NUL.\<close>

fun streq :: "bytes \<Rightarrow> bytes \<Rightarrow> bool res" where
  "streq [] name = Inl Fault"
| "streq (c # cs) [] = Inr (c = 0)"
| "streq (c # cs) (x # xs) = (if c = x then streq cs xs else Inr False)"

definition entry_at :: "bytes \<Rightarrow> nat \<Rightarrow> bytes" where
  "entry_at buf k = drop (sizeof_dir_entry * k) buf"

text \<open>The entries of a sector, \<open>n\<close> of them from number \<open>idx\<close> on: the one with the name is copied to \<open>dir_e\<close>.\<close>

fun find_entry :: "nat \<Rightarrow> bytes \<Rightarrow> bytes \<Rightarrow> bytes \<Rightarrow> nat \<Rightarrow> nat \<Rightarrow> bytes option res" where
  "find_entry dsz dir_e buf name idx 0 = Inr None"
| "find_entry dsz dir_e buf name idx (Suc n) =
     bnd (streq (entry_at buf idx) name) (\<lambda>eq.
     if eq then
       bnd (defined (dsz \<le> sizeof_dir_entry)) (\<lambda>_.
       Inr (Some (patch dir_e 0 (take dsz (entry_at buf idx)))))
     else find_entry dsz dir_e buf name (Suc idx) n)"

fun search_blocks :: "nat \<Rightarrow> nat \<Rightarrow> nat \<Rightarrow> u32 \<Rightarrow> bytes \<Rightarrow> bytes \<Rightarrow> u32 list \<Rightarrow> 'a fsys_scheme \<Rightarrow> bytes option res" where
  "search_blocks dk dsz cnt buf_ptr dir_e name [] s = Inr None"
| "search_blocks dk dsz cnt buf_ptr dir_e name (b # bs) s =
     (if b = 0 then search_blocks dk dsz cnt buf_ptr dir_e name bs s
      else
        bnd (disk_read dk b 1 s) (\<lambda>buf.
        bnd (defined (buf_ptr \<noteq> 0)) (\<lambda>_.
        bnd (find_entry dsz dir_e buf name 0 cnt) (\<lambda>r.
        case r of Some e \<Rightarrow> Inr (Some e) | None \<Rightarrow> search_blocks dk dsz cnt buf_ptr dir_e name bs s))))"

text \<open>The result is the content of \<open>*dir_e\<close> if an entry was found.\<close>

definition search_dir_entry :: "part_id \<Rightarrow> u32 \<Rightarrow> bytes \<Rightarrow> bytes \<Rightarrow> 'a fsys_scheme \<Rightarrow> (bytes option \<times> 'a fsys_scheme) res" where
  "search_dir_entry p pdir name dir_e s =
     (let (all_blocks, s) = fs_malloc s in
      if all_blocks = 0 then Inr (None, s)
      else
        let i = inodes s (dir_inode (dirs s pdir)); dk = my_disk (parts s p) in
        bnd (if i_sectors i ! 12 \<noteq> 0 then bnd (disk_read dk (i_sectors i ! 12) 1 s) (\<lambda>b. Inr (bytes_words 128 b))
             else Inr (replicate 128 0)) (\<lambda>indirect.
        let (buf, s) = fs_malloc s; dsz = dir_entry_size (sb (parts s p)) in
        bnd (defined (dsz \<noteq> 0)) (\<lambda>_.
        bnd (search_blocks dk (unat dsz) (unat (512 div dsz)) buf dir_e name (take 12 (i_sectors i) @ indirect) s) (\<lambda>r.
        bnd (fs_free buf s) (\<lambda>s.
        bnd (fs_free all_blocks s) (\<lambda>s.
        Inr (r, s)))))))"

definition dir_close :: "u32 \<Rightarrow> 'a fsys_scheme \<Rightarrow> 'a fsys_scheme res" where
  "dir_close d s =
     (if d = root_dir s then Inr s
      else bnd (inode_close (dir_inode (dirs s d)) s) (fs_free d))"

definition create_dir_entry :: "bytes \<Rightarrow> u32 \<Rightarrow> u8 \<Rightarrow> bytes \<Rightarrow> bytes res" where
  "create_dir_entry filename inode_no file_type p_de =
     bnd (ASSERT (length filename \<le> MAX_FILE_NAME_LEN)) (\<lambda>_.
     Inr (patch (patch (patch p_de 0 filename) 16 (le32 inode_no)) 20 (le32 (ucast file_type))))"

definition set_sector :: "u32 \<Rightarrow> nat \<Rightarrow> u32 \<Rightarrow> 'a fsys_scheme \<Rightarrow> 'a fsys_scheme" where
  "set_sector a k lba = upd_inode a (\<lambda>i. i\<lparr>i_sectors := (i_sectors i)[k := lba]\<rparr>)"

text \<open>A block for element \<open>idx\<close> of \<open>all_blocks\<close>, with the indirect table where it is needed; None when no
  block is free.\<close>

definition new_dir_block :: "u32 \<Rightarrow> nat \<Rightarrow> u32 list \<Rightarrow> 'a fsys_scheme \<Rightarrow> (u32 list option \<times> 'a fsys_scheme) res" where
  "new_dir_block a idx all_blocks s =
     (let p = cur_part s; dk = my_disk (parts s p); start = data_start_lba (sb (parts s p)) in
      bnd (block_bitmap_alloc p s) (\<lambda>(block_lba, s).
      if block_lba = - 1 then Inr (None, s)
      else
        bnd (ASSERT (block_lba - start \<noteq> - 1)) (\<lambda>_.
        bnd (bitmap_sync p (block_lba - start) BLOCK_BITMAP s) (\<lambda>s.
        if idx < 12 then Inr (Some (all_blocks[idx := block_lba]), set_sector a idx block_lba s)
        else if idx = 12 then
          let s = set_sector a 12 block_lba s in
          bnd (block_bitmap_alloc p s) (\<lambda>(block_lba2, s).
          if block_lba2 = - 1 then
            bnd (bitmap_set (block_bitmap (parts s p)) (i_sectors (inodes s a) ! 12 - start) 0) (\<lambda>b.
            Inr (None, set_sector a 12 0 (upd_part p (\<lambda>q. q\<lparr>block_bitmap := b\<rparr>) s)))
          else
            bnd (ASSERT (block_lba2 - start \<noteq> - 1)) (\<lambda>_.
            bnd (bitmap_sync p (block_lba2 - start) BLOCK_BITMAP s) (\<lambda>s.
            let all_blocks = all_blocks[12 := block_lba2] in
            bnd (disk_write dk (i_sectors (inodes s a) ! 12) (words_bytes (drop 12 all_blocks)) 1 s) (\<lambda>s.
            Inr (Some all_blocks, s)))))
        else
          let all_blocks = all_blocks[idx := block_lba] in
          bnd (disk_write dk (i_sectors (inodes s a) ! 12) (words_bytes (drop 12 all_blocks)) 1 s) (\<lambda>s.
          Inr (Some all_blocks, s))))))"

text \<open>The first unused entry of a sector.\<close>

fun free_entry :: "bytes \<Rightarrow> nat \<Rightarrow> nat \<Rightarrow> nat option res" where
  "free_entry buf idx 0 = Inr None"
| "free_entry buf idx (Suc n) =
     bnd (defined (sizeof_dir_entry * Suc idx \<le> length buf)) (\<lambda>_.
     if de_f_type (entry_at buf idx) = FT_UNKNOWN then Inr (Some idx) else free_entry buf (Suc idx) n)"

text \<open>The loop of \<open>sync_dir_entry\<close> from element \<open>idx\<close> of \<open>all_blocks\<close> on, with \<open>n\<close> elements left.\<close>

fun sync_dir_loop :: "u32 \<Rightarrow> bytes \<Rightarrow> u32 \<Rightarrow> nat \<Rightarrow> nat \<Rightarrow> u32 list \<Rightarrow> 'a fsys_scheme \<Rightarrow> (bool \<times> 'a fsys_scheme) res" where
  "sync_dir_loop a p_de dsz idx 0 all_blocks s = Inr (False, s)"
| "sync_dir_loop a p_de dsz idx (Suc n) all_blocks s =
     (let dk = my_disk (parts s (cur_part s)); entry = take (unat dsz) p_de;
          grow = upd_inode a (\<lambda>i. i\<lparr>i_size := i_size i + dsz\<rparr>) in
      if all_blocks ! idx = 0 then
        bnd (new_dir_block a idx all_blocks s) (\<lambda>(r, s).
        case r of None \<Rightarrow> Inr (False, s)
        | Some all_blocks \<Rightarrow>
            bnd (disk_write dk (all_blocks ! idx) (patch (replicate 512 0) 0 entry) 1 s) (\<lambda>s.
            Inr (True, grow s)))
      else
        bnd (disk_read dk (all_blocks ! idx) 1 s) (\<lambda>buf.
        bnd (free_entry buf 0 (unat (512 div dsz))) (\<lambda>r.
        case r of
          Some k \<Rightarrow>
            bnd (disk_write dk (all_blocks ! idx) (patch buf (sizeof_dir_entry * k) entry) 1 s) (\<lambda>s.
            Inr (True, grow s))
        | None \<Rightarrow> sync_dir_loop a p_de dsz (Suc idx) n all_blocks s)))"

definition sync_dir_entry :: "u32 \<Rightarrow> bytes \<Rightarrow> 'a fsys_scheme \<Rightarrow> (bool \<times> 'a fsys_scheme) res" where
  "sync_dir_entry parent_dir p_de s =
     (let a = dir_inode (dirs s parent_dir); dir_size = i_size (inodes s a);
          dsz = dir_entry_size (sb (parts s (cur_part s))) in
      bnd (defined (dsz \<noteq> 0 \<and> unat dsz \<le> length p_de)) (\<lambda>_.
      bnd (ASSERT (dir_size mod dsz = 0)) (\<lambda>_.
      sync_dir_loop a p_de dsz 0 140 (take 12 (i_sectors (inodes s a)) @ replicate 128 0) s)))"

text \<open>Scanning a sector for the entry to delete: whether it holds \<open>"."\<close>, the number of other entries, and the
  place of the entry. The counter is a \<open>uint8_t\<close>; a sector has at most 21 entries.\<close>

fun scan_sector :: "bytes \<Rightarrow> u32 \<Rightarrow> nat \<Rightarrow> nat \<Rightarrow> bool \<Rightarrow> u8 \<Rightarrow> nat option \<Rightarrow> (bool \<times> u8 \<times> nat option) res" where
  "scan_sector buf inode_no idx 0 first cnt found = Inr (first, cnt, found)"
| "scan_sector buf inode_no idx (Suc n) first cnt found =
     bnd (defined (sizeof_dir_entry * Suc idx \<le> length buf)) (\<lambda>_.
     let e = entry_at buf idx in
     if de_f_type e \<noteq> FT_UNKNOWN then
       bnd (streq e [46]) (\<lambda>dot.
       if dot then scan_sector buf inode_no (Suc idx) n True cnt found
       else
         bnd (streq e [46, 46]) (\<lambda>dotdot.
         if \<not> dotdot then
           if de_i_no e = inode_no then
             bnd (ASSERT (found = None)) (\<lambda>_.
             scan_sector buf inode_no (Suc idx) n first (cnt + 1) (Some idx))
           else scan_sector buf inode_no (Suc idx) n first (cnt + 1) found
         else scan_sector buf inode_no (Suc idx) n first cnt found))
     else scan_sector buf inode_no (Suc idx) n first cnt found)"

text \<open>\<open>while (indirect_blocks < 140) if (all_blocks[indirect_blocks_idx] != 0) indirect_blocks++;\<close> The index stays 12.\<close>

partial_function (option) count_indirect :: "u32 list \<Rightarrow> nat \<Rightarrow> nat option" where
  "count_indirect all_blocks n =
     (if n < 140 then count_indirect all_blocks (if all_blocks ! 12 \<noteq> 0 then Suc n else n) else Some n)"

definition drop_dir_block :: "part_id \<Rightarrow> u32 \<Rightarrow> nat \<Rightarrow> u32 list \<Rightarrow> 'a fsys_scheme \<Rightarrow> 'a fsys_scheme res" where
  "drop_dir_block p a idx all_blocks s =
     (let start = data_start_lba (sb (parts s p)) in
      bnd (clear_block p (all_blocks ! idx - start) s) (\<lambda>s.
      if idx < 12 then Inr (set_sector a idx 0 s)
      else
        bnd (of_opt Diverge (count_indirect all_blocks 0)) (\<lambda>indirect_blocks.
        bnd (ASSERT (indirect_blocks \<ge> 1)) (\<lambda>_.
        if indirect_blocks > 1 then
          disk_write (my_disk (parts s p)) (i_sectors (inodes s a) ! 12) (words_bytes (drop 12 (all_blocks[idx := 0]))) 1 s
        else
          bnd (clear_block p (i_sectors (inodes s a) ! 12 - start) s) (\<lambda>s.
          Inr (set_sector a 12 0 s))))))"

fun delete_dir_loop :: "part_id \<Rightarrow> u32 \<Rightarrow> u32 \<Rightarrow> u32 \<Rightarrow> nat \<Rightarrow> nat \<Rightarrow> u32 list \<Rightarrow> 'a fsys_scheme \<Rightarrow> (bool \<times> 'a fsys_scheme) res" where
  "delete_dir_loop p a inode_no dsz idx 0 all_blocks s = Inr (False, s)"
| "delete_dir_loop p a inode_no dsz idx (Suc n) all_blocks s =
     (if all_blocks ! idx = 0 then delete_dir_loop p a inode_no dsz (Suc idx) n all_blocks s
      else
        bnd (disk_read (my_disk (parts s p)) (all_blocks ! idx) 1 s) (\<lambda>buf.
        bnd (scan_sector buf inode_no 0 (unat (512 div dsz)) False 0 None) (\<lambda>(first, cnt, found).
        case found of None \<Rightarrow> delete_dir_loop p a inode_no dsz (Suc idx) n all_blocks s
        | Some k \<Rightarrow>
            bnd (ASSERT (cnt \<ge> 1)) (\<lambda>_.
            bnd (if cnt = 1 \<and> \<not> first then drop_dir_block p a idx all_blocks s
                 else disk_write (my_disk (parts s p)) (all_blocks ! idx)
                        (patch buf (sizeof_dir_entry * k) (replicate (unat dsz) 0)) 1 s) (\<lambda>s.
            bnd (ASSERT (i_size (inodes s a) \<ge> dsz)) (\<lambda>_.
            let s = upd_inode a (\<lambda>i. i\<lparr>i_size := i_size i - dsz\<rparr>) s in
            bnd (inode_sync p (inodes s a) 1024 s) (\<lambda>s.
            Inr (True, s))))))))"

definition delete_dir_entry :: "part_id \<Rightarrow> u32 \<Rightarrow> u32 \<Rightarrow> 'a fsys_scheme \<Rightarrow> (bool \<times> 'a fsys_scheme) res" where
  "delete_dir_entry p pdir inode_no s =
     (let a = dir_inode (dirs s pdir); i = inodes s a; dsz = dir_entry_size (sb (parts s p)) in
      bnd (if i_sectors i ! 12 \<noteq> 0 then
             bnd (disk_read (my_disk (parts s p)) (i_sectors i ! 12) 1 s) (\<lambda>b. Inr (bytes_words 128 b))
           else Inr (replicate 128 0)) (\<lambda>indirect.
      bnd (defined (dsz \<noteq> 0)) (\<lambda>_.
      delete_dir_loop p a inode_no dsz 0 140 (take 12 (i_sectors i) @ indirect) s)))"

text \<open>\<open>dir_read\<close> counts the used entries in \<open>cur\<close> until it reaches \<open>dir_pos\<close>.\<close>

fun read_entries :: "bytes \<Rightarrow> u32 \<Rightarrow> u32 \<Rightarrow> u32 \<Rightarrow> nat \<Rightarrow> nat \<Rightarrow> (nat option \<times> u32) res" where
  "read_entries buf dsz pos cur idx 0 = Inr (None, cur)"
| "read_entries buf dsz pos cur idx (Suc n) =
     bnd (defined (sizeof_dir_entry * Suc idx \<le> length buf)) (\<lambda>_.
     if de_f_type (entry_at buf idx) \<noteq> 0 then
       if cur < pos then read_entries buf dsz pos (cur + dsz) (Suc idx) n
       else bnd (ASSERT (cur = pos)) (\<lambda>_. Inr (Some idx, cur))
     else read_entries buf dsz pos cur (Suc idx) n)"

fun dir_read_loop :: "u32 \<Rightarrow> u32 \<Rightarrow> u32 list \<Rightarrow> u32 \<Rightarrow> 'a fsys_scheme \<Rightarrow> (nat option \<times> 'a fsys_scheme) res" where
  "dir_read_loop d dsz [] cur s =
     (if dir_pos (dirs s d) < i_size (inodes s (dir_inode (dirs s d))) then Inl Fault else Inr (None, s))"
| "dir_read_loop d dsz (b # bs) cur s =
     (if dir_pos (dirs s d) < i_size (inodes s (dir_inode (dirs s d))) then
        if b = 0 then dir_read_loop d dsz bs cur s
        else
          bnd (disk_read (my_disk (parts s (cur_part s))) b 1 s) (\<lambda>buf.
          let s = upd_dir d (\<lambda>x. x\<lparr>dir_buf := buf\<rparr>) s in
          bnd (read_entries buf dsz (dir_pos (dirs s d)) cur 0 (unat (512 div dsz))) (\<lambda>(r, cur).
          case r of Some k \<Rightarrow> Inr (Some k, upd_dir d (\<lambda>x. x\<lparr>dir_pos := dir_pos x + dsz\<rparr>) s)
          | None \<Rightarrow> dir_read_loop d dsz bs cur s))
      else Inr (None, s))"

text \<open>The result is the number of the entry in \<open>dir_buf\<close> that the pointer returned points to; reading on
  behind \<open>all_blocks\<close> is undefined.\<close>

definition dir_read :: "u32 \<Rightarrow> 'a fsys_scheme \<Rightarrow> (nat option \<times> 'a fsys_scheme) res" where
  "dir_read d s =
     (let p = cur_part s; i = inodes s (dir_inode (dirs s d)); dsz = dir_entry_size (sb (parts s p)) in
      bnd (if i_sectors i ! 12 \<noteq> 0 then
             bnd (disk_read (my_disk (parts s p)) (i_sectors i ! 12) 1 s) (\<lambda>b. Inr (bytes_words 128 b))
           else Inr (replicate 128 0)) (\<lambda>indirect.
      bnd (defined (dsz \<noteq> 0)) (\<lambda>_.
      dir_read_loop d dsz (take 12 (i_sectors i) @ indirect) 0 s)))"

definition dir_is_empty :: "u32 \<Rightarrow> 'a fsys_scheme \<Rightarrow> bool" where
  "dir_is_empty d s \<longleftrightarrow>
     i_size (inodes s (dir_inode (dirs s d))) = dir_entry_size (sb (parts s (cur_part s))) * 2"

definition dir_remove :: "u32 \<Rightarrow> u32 \<Rightarrow> 'a fsys_scheme \<Rightarrow> (u32 \<times> 'a fsys_scheme) res" where
  "dir_remove parent_dir child_dir s =
     (let child = inodes s (dir_inode (dirs s child_dir)) in
      bnd (ASSERT (\<forall>k \<in> {1..<13}. i_sectors child ! k = 0)) (\<lambda>_.
      let (io_buf, s) = fs_malloc s in
      if io_buf = 0 then Inr (- 1, s)
      else
        bnd (delete_dir_entry (cur_part s) parent_dir (i_no child) s) (\<lambda>(_, s).
        bnd (inode_release (cur_part s) (i_no child) s) (\<lambda>s.
        bnd (fs_free io_buf s) (\<lambda>s.
        Inr (0, s))))))"

section \<open>A directory as a list of entries\<close>

definition sector_entries :: "bytes \<Rightarrow> bytes list" where
  "sector_entries buf = map (\<lambda>k. take sizeof_dir_entry (entry_at buf k)) [0..<21]"

definition de_name :: "bytes \<Rightarrow> bytes" where
  "de_name e = takeWhile (\<lambda>c. c \<noteq> 0) e"

text \<open>The blocks of an inode: those of its 12 direct and, with a table, 128 indirect addresses that are not 0.\<close>

definition inode_blocks :: "'a fsys_scheme \<Rightarrow> part_id \<Rightarrow> inode \<Rightarrow> u32 list" where
  "inode_blocks s p i = filter (\<lambda>b. b \<noteq> 0) (take 12 (i_sectors i) @
     (if i_sectors i ! 12 \<noteq> 0 then bytes_words 128 (disks s (my_disk (parts s p)) (i_sectors i ! 12)) else []))"

definition dir_entries :: "'a fsys_scheme \<Rightarrow> part_id \<Rightarrow> inode \<Rightarrow> bytes list" where
  "dir_entries s p i = concat (map (\<lambda>b. sector_entries (disks s (my_disk (parts s p)) b)) (inode_blocks s p i))"

text \<open>Every used entry ends its name inside its 24 bytes.\<close>

definition entries_ok :: "'a fsys_scheme \<Rightarrow> part_id \<Rightarrow> inode \<Rightarrow> bool" where
  "entries_ok s p i \<longleftrightarrow> (\<forall>e \<in> set (dir_entries s p i). 0 \<in> set e)"

lemma streq_name: "0 \<in> set e \<Longrightarrow> 0 \<notin> set name \<Longrightarrow> streq (e @ xs) name = Inr (de_name e = name)"
proof (induction e arbitrary: name)
  case (Cons c e)
  then show ?case by (cases name) (auto simp: de_name_def)
qed simp

lemma entry_split:
  "entry_at buf k = take sizeof_dir_entry (entry_at buf k) @ drop sizeof_dir_entry (entry_at buf k)"
  by simp

lemma streq_entry:
  "0 \<in> set (take sizeof_dir_entry (entry_at buf k)) \<Longrightarrow> 0 \<notin> set name \<Longrightarrow>
   streq (entry_at buf k) name = Inr (de_name (take sizeof_dir_entry (entry_at buf k)) = name)"
  by (subst entry_split) (rule streq_name)

lemma upt_Suc_map: "map f [i..<Suc n + i] = f i # map f [Suc i..<n + Suc i]"
  by (simp add: upt_rec)

lemma find_entry_find:
  assumes "0 \<notin> set name" and "length dir_e = 24"
  shows "\<forall>k \<in> {idx..<n + idx}. 24 * k + 24 \<le> length buf \<and> 0 \<in> set (take sizeof_dir_entry (entry_at buf k)) \<Longrightarrow>
    find_entry 24 dir_e buf name idx n =
      Inr (find (\<lambda>e. de_name e = name) (map (\<lambda>k. take sizeof_dir_entry (entry_at buf k)) [idx..<n + idx]))"
proof (induction n arbitrary: idx)
  case (Suc n)
  have i: "24 * idx + 24 \<le> length buf" "0 \<in> set (take sizeof_dir_entry (entry_at buf idx))"
    using Suc.prems by auto
  have ih: "find_entry 24 dir_e buf name (Suc idx) n =
      Inr (find (\<lambda>e. de_name e = name) (map (\<lambda>k. take sizeof_dir_entry (entry_at buf k)) [Suc idx..<n + Suc idx]))"
    by (rule Suc.IH) (use Suc.prems in auto)
  have "patch dir_e 0 (take 24 (entry_at buf idx)) = take sizeof_dir_entry (entry_at buf idx)"
    using i(1) assms(2) by (simp add: patch_def sizeof_dir_entry_def entry_at_def)
  then show ?case
    using ih streq_entry [OF i(2) assms(1)] unfolding upt_Suc_map by (simp add: sizeof_dir_entry_def)
qed simp

lemma sector_entries_nul:
  assumes "length buf = 512" and "\<forall>e \<in> set (sector_entries buf). 0 \<in> set e" and "0 \<notin> set name" and "length dir_e = 24"
  shows "find_entry 24 dir_e buf name 0 21 = Inr (find (\<lambda>e. de_name e = name) (sector_entries buf))"
  using find_entry_find [OF assms(3,4), of 0 21 buf] assms(1,2) by (auto simp: sector_entries_def)

lemma find_append: "find P (xs @ ys) = (case find P xs of Some x \<Rightarrow> Some x | None \<Rightarrow> find P ys)"
  by (induction xs) auto

lemma search_blocks_find:
  assumes "disk_ok s" and "0 \<notin> set name" and "length dir_e = 24" and "buf_ptr \<noteq> 0"
  shows "\<forall>b \<in> set bs. b \<le> max_lba \<and> (b \<noteq> 0 \<longrightarrow> (\<forall>e \<in> set (sector_entries (disks s dk b)). 0 \<in> set e)) \<Longrightarrow>
    search_blocks dk 24 21 buf_ptr dir_e name bs s =
      Inr (find (\<lambda>e. de_name e = name) (concat (map (\<lambda>b. sector_entries (disks s dk b)) (filter (\<lambda>b. b \<noteq> 0) bs))))"
proof (induction bs)
  case (Cons b bs)
  have len: "length (disks s dk b) = 512" using assms(1) by (simp add: disk_ok_def)
  show ?case
  proof (cases "b = 0")
    case False
    then show ?thesis using Cons assms(4) sector_entries_nul [OF len _ assms(2,3)]
      by (simp add: find_append split: option.splits)
  qed (use Cons in simp)
qed simp

definition dir_ok :: "'a fsys_scheme \<Rightarrow> part_id \<Rightarrow> inode \<Rightarrow> bool" where
  "dir_ok s p i \<longleftrightarrow> length (i_sectors i) = 13 \<and> i_sectors i ! 12 \<le> max_lba \<and>
     (\<forall>b \<in> set (inode_blocks s p i). b \<le> max_lba) \<and> entries_ok s p i"

lemma search_dir_entry_find:
  assumes ok: "disk_ok s" "dir_ok s p i" "i = inodes s (dir_inode (dirs s d))" and dsz: "dir_entry_size (sb (parts s p)) = 24"
    and name: "0 \<notin> set name" "length dir_e = 24"
    and h: "heap s = x # y # h" "x \<noteq> 0" "y \<noteq> 0" "x \<notin> set (y # h)" "y \<notin> set h"
    and k: "in_kernel s \<longrightarrow> K_HEAP_START \<le> x \<and> K_HEAP_START \<le> y"
  shows "search_dir_entry p d name dir_e s =
    Inr (find (\<lambda>e. de_name e = name) (dir_entries s p i), set_heap (h @ [y, x]) s)"
proof -
  let ?dk = "my_disk (parts s p)"
  let ?ind = "if i_sectors i ! 12 \<noteq> 0 then bytes_words 128 (disks s ?dk (i_sectors i ! 12)) else replicate 128 0"
  let ?bs = "take 12 (i_sectors i) @ ?ind"
  have fl: "filter (\<lambda>b. b \<noteq> 0) ?bs = inode_blocks s p i" by (simp add: inode_blocks_def)
  have "\<forall>b \<in> set ?bs. b \<le> max_lba \<and> (b \<noteq> 0 \<longrightarrow> (\<forall>e \<in> set (sector_entries (disks s ?dk b)). 0 \<in> set e))"
  proof
    fix b assume b: "b \<in> set ?bs"
    show "b \<le> max_lba \<and> (b \<noteq> 0 \<longrightarrow> (\<forall>e \<in> set (sector_entries (disks s ?dk b)). 0 \<in> set e))"
    proof (cases "b = 0")
      case False
      then have "b \<in> set (inode_blocks s p i)" using b unfolding fl [symmetric] by simp
      then show ?thesis using ok(2) by (auto simp: dir_ok_def entries_ok_def dir_entries_def)
    qed (simp add: max_lba_def)
  qed
  then have sr: "search_blocks ?dk 24 21 y dir_e name ?bs (set_heap h s)
      = Inr (find (\<lambda>e. de_name e = name) (dir_entries s p i))"
    using search_blocks_find [of "set_heap h s" name dir_e y ?bs ?dk] ok(1) name h(3)
    unfolding fl by (simp add: disk_ok_def dir_entries_def)
  have rd: "i_sectors i ! 12 \<le> max_lba" using ok(2) by (simp add: dir_ok_def)
  show ?thesis
    by (cases "i_sectors i ! 12 = 0"; use sr rd h k dsz in
        \<open>simp add: search_dir_entry_def Let_def fs_free_def ok(3) [symmetric]\<close>)
qed

text \<open>C12: \<open>search_dir_entry\<close> returns the first entry with the name, over all blocks of the directory, direct
  and indirect, and None when there is none; both of its buffers are free again afterwards.\<close>

theorem search_dir_entry_finds:
  assumes "disk_ok s" and "dir_ok s p (inodes s (dir_inode (dirs s d)))" and "dir_entry_size (sb (parts s p)) = 24"
    and "0 \<notin> set name" and "length dir_e = 24"
    and "heap s = x # y # h" and "distinct (heap s)" and "0 \<notin> set (heap s)"
    and "in_kernel s \<longrightarrow> (\<forall>a \<in> set (heap s). K_HEAP_START \<le> a)"
  shows "search_dir_entry p d name dir_e s =
    Inr (find (\<lambda>e. de_name e = name) (dir_entries s p (inodes s (dir_inode (dirs s d)))), set_heap (h @ [y, x]) s)"
  by (rule search_dir_entry_find) (use assms in auto)

lemma demo_blocks:
  assumes "parts s = parts demo_fs" "disks s = disks demo_fs"
  shows "inode_blocks s (1, 0) (demo_root\<lparr>i_open_cnts := 1\<rparr>) = [675]"
    and "dir_entries s (1, 0) (demo_root\<lparr>i_open_cnts := 1\<rparr>) = sector_entries (demo_dots @ replicate 464 0)"
proof -
  have "take 12 (675 # replicate 12 (0 :: u32)) = 675 # replicate 11 0" "(675 # replicate 12 (0 :: u32)) ! 12 = 0"
    by (simp_all add: take_Cons' nth_Cons')
  then show b: "inode_blocks s (1, 0) (demo_root\<lparr>i_open_cnts := 1\<rparr>) = [675]"
    by (simp add: inode_blocks_def demo_root_def)
  show "dir_entries s (1, 0) (demo_root\<lparr>i_open_cnts := 1\<rparr>) = sector_entries (demo_dots @ replicate 464 0)"
    unfolding dir_entries_def b using assms by (simp add: demo_disk_def)
qed

lemma sector_entries_two:
  assumes "length a = 24" "length b = 24"
  shows "sector_entries (a @ b @ replicate 464 0) = [a, b] @ replicate 19 (replicate 24 0)"
proof -
  have "take 24 (drop (24 * k) (a @ b @ replicate 464 (0 :: u8))) = replicate 24 0" if "2 \<le> k" "k < 21" for k
  proof -
    have "drop (24 * k) (a @ b @ replicate 464 (0 :: u8)) = replicate (464 - (24 * k - 48)) 0"
      using that assms by simp
    moreover have "24 \<le> 464 - (24 * k - 48)" using that by linarith
    ultimately show ?thesis by (simp add: min_def)
  qed
  then have "map (\<lambda>k. take 24 (drop (24 * k) (a @ b @ replicate 464 0))) [2..<21] = map (\<lambda>_. replicate 24 (0 :: u8)) [2..<21]"
    by (intro map_cong [OF refl]) (simp only: set_upt atLeastLessThan_iff)
  also have "\<dots> = replicate 19 (replicate 24 0)" by (simp only: map_replicate_const length_upt) simp
  finally have "map (\<lambda>k. take 24 (drop (24 * k) (a @ b @ replicate 464 0))) [2..<21] = replicate 19 (replicate 24 (0 :: u8))" .
  moreover have "[0..<21] = 0 # 1 # [2..<21 :: nat]" by (simp add: upt_rec)
  ultimately show ?thesis using assms by (simp add: sector_entries_def entry_at_def sizeof_dir_entry_def)
qed

definition demo_dot :: bytes where
  "demo_dot = [46] @ replicate 15 0 @ le32 0 @ le32 FT_DIRECTORY"

definition demo_dotdot :: bytes where
  "demo_dotdot = [46, 46] @ replicate 14 0 @ le32 0 @ le32 FT_DIRECTORY"

lemma demo_entries: "sector_entries (demo_dots @ replicate 464 0) = [demo_dot, demo_dotdot] @ replicate 19 (replicate 24 0)"
proof -
  have "demo_dots @ replicate 464 0 = demo_dot @ demo_dotdot @ replicate 464 0"
    by (simp add: demo_dots_def demo_dot_def demo_dotdot_def)
  moreover have "length demo_dot = 24" "length demo_dotdot = 24" by (simp_all add: demo_dot_def demo_dotdot_def)
  ultimately show ?thesis using sector_entries_two by presburger
qed

lemma demo_dir_ok: "dir_ok demo_fs (1, 0) (demo_root\<lparr>i_open_cnts := 1\<rparr>)"
proof -
  have "\<forall>e \<in> set (dir_entries demo_fs (1, 0) (demo_root\<lparr>i_open_cnts := 1\<rparr>)). 0 \<in> set e"
    unfolding demo_blocks(2) [OF refl refl] demo_entries by (auto simp: demo_dot_def demo_dotdot_def)
  then show ?thesis
    unfolding dir_ok_def entries_ok_def demo_blocks(1) [OF refl refl]
    by (simp add: demo_root_def nth_Cons' word_le_nat_alt)
qed

theorem search_dir_entry_finds_witness:
  "search_dir_entry (1, 0) 0xc0006000 [46, 46] (replicate 24 0) demo_fs =
    Inr (Some demo_dotdot, set_heap [0xc0200c00, 0xc0201000, 0xc0200800, 0xc0200400] demo_fs)"
proof -
  have h: "heap demo_fs = [0xc0200400, 0xc0200800, 0xc0200c00, 0xc0201000]" using demo_kernel by (simp add: heap_def)
  have f: "find (\<lambda>e. de_name e = [46, 46]) ([demo_dot, demo_dotdot] @ replicate 19 (replicate 24 0)) = Some demo_dotdot"
    by (simp add: demo_dot_def demo_dotdot_def de_name_def)
  have "dir_entry_size (sb (parts demo_fs (1, 0))) = 24" by (simp add: demo_sb_def)
  moreover have "in_kernel demo_fs \<longrightarrow> (\<forall>a \<in> set (heap demo_fs). K_HEAP_START \<le> a)" "distinct (heap demo_fs)" "0 \<notin> set (heap demo_fs)"
    unfolding h by (simp_all add: K_HEAP_START_def word_le_nat_alt)
  ultimately show ?thesis
    using search_dir_entry_finds [of demo_fs "(1, 0)" "0xc0006000" "[46, 46]" "replicate 24 0"] demo_disk_ok demo_dir_ok
      h f demo_blocks(2) [OF refl refl] demo_entries by simp
qed

section \<open>Adding an entry\<close>

definition first_free :: "bytes \<Rightarrow> nat option" where
  "first_free buf = find (\<lambda>k. de_f_type (entry_at buf k) = FT_UNKNOWN) [0..<21]"

lemma free_entry_find:
  "24 * (n + idx) \<le> length buf \<Longrightarrow>
   free_entry buf idx n = Inr (find (\<lambda>k. de_f_type (entry_at buf k) = FT_UNKNOWN) [idx..<n + idx])"
proof (induction n arbitrary: idx)
  case (Suc n)
  have "[idx..<Suc n + idx] = idx # [Suc idx..<n + Suc idx]" by (simp add: upt_rec)
  then show ?case using Suc by (simp add: sizeof_dir_entry_def)
qed simp

lemma free_entry_first: "length buf = 512 \<Longrightarrow> free_entry buf 0 21 = Inr (first_free buf)"
  using free_entry_find [of 21 0 buf] by (simp add: first_free_def)

lemma first_free_Some: "first_free buf = Some k \<Longrightarrow> k < 21 \<and> de_f_type (entry_at buf k) = FT_UNKNOWN"
  by (auto simp: first_free_def find_Some_iff)

lemma sector_entries_patch:
  assumes len: "length buf = 512" and k: "k < 21" and e: "length e = 24"
  shows "sector_entries (patch buf (sizeof_dir_entry * k) e) = (sector_entries buf)[k := e]"
proof (rule nth_equalityI)
  fix m assume "m < length (sector_entries (patch buf (sizeof_dir_entry * k) e))"
  then have m: "m < 21" by (simp add: sector_entries_def)
  show "sector_entries (patch buf (sizeof_dir_entry * k) e) ! m = (sector_entries buf)[k := e] ! m"
  proof (cases "m = k")
    case True
    then show ?thesis using k e len patch_same [of "24 * k" e buf]
      by (simp add: sector_entries_def sizeof_dir_entry_def entry_at_def)
  next
    case False
    have "24 * m + 24 \<le> 24 * k \<or> 24 * k + 24 \<le> 24 * m" using False by linarith
    then show ?thesis
      using False k m e len take_drop_patch_other [of "24 * k" e buf "24 * m" 24]
      by (simp add: sector_entries_def sizeof_dir_entry_def entry_at_def)
  qed
qed (simp add: sector_entries_def)

lemma find_unique: "x \<in> set xs \<Longrightarrow> P x \<Longrightarrow> (\<forall>y \<in> set xs. P y \<longrightarrow> y = x) \<Longrightarrow> find P xs = Some x"
proof (induction xs)
  case (Cons a xs)
  show ?case
  proof (cases "P a")
    case True
    then have "a = x" using Cons.prems(3) by (meson list.set_intros(1))
    then show ?thesis using True by simp
  next
    case False
    then have "x \<in> set xs" using Cons.prems(1,2) by auto
    moreover have "\<forall>y \<in> set xs. P y \<longrightarrow> y = x" using Cons.prems(3) by (meson list.set_intros(2))
    ultimately have "find P xs = Some x" using Cons.IH Cons.prems(2) by blast
    then show ?thesis using False by simp
  qed
qed simp

text \<open>The loop goes past blocks whose entries are all used.\<close>

lemma sync_dir_loop_skip:
  assumes "disk_ok s"
  shows "j \<le> n \<Longrightarrow> \<forall>k. idx \<le> k \<and> k < idx + j \<longrightarrow> all ! k \<noteq> 0 \<and> all ! k \<le> max_lba \<and>
      first_free (disks s (my_disk (parts s (cur_part s))) (all ! k)) = None \<Longrightarrow>
    sync_dir_loop a p_de 24 idx n all s = sync_dir_loop a p_de 24 (idx + j) (n - j) all s"
proof (induction j arbitrary: idx n)
  case (Suc j)
  then obtain m where n: "n = Suc m" by (cases n) auto
  have "all ! idx \<noteq> 0 \<and> all ! idx \<le> max_lba \<and> first_free (disks s (my_disk (parts s (cur_part s))) (all ! idx)) = None"
    using Suc.prems(2) by auto
  then have "sync_dir_loop a p_de 24 idx n all s = sync_dir_loop a p_de 24 (Suc idx) m all s"
    using assms by (simp add: n Let_def free_entry_first disk_ok_def)
  also have "\<dots> = sync_dir_loop a p_de 24 (Suc idx + j) (m - j) all s"
    by (rule Suc.IH) (use Suc.prems n in auto)
  finally show ?case using n by simp
qed simp

text \<open>The file system's invariant about blocks: the free ones lie in the partition, those of a directory are
  marked as used.\<close>

definition blocks_ok :: "part_id \<Rightarrow> 'a fsys_scheme \<Rightarrow> bool" where
  "blocks_ok p s \<longleftrightarrow> layout_ok (parts s p) \<and> on_disk p s \<and> disk_ok s \<and>
     (\<forall>k < n_bits (block_bitmap (parts s p)). unat (data_start_lba (sb (parts s p))) + k \<le> 163839 \<or> is_set (block_bitmap (parts s p)) k)"

definition used_block :: "'a fsys_scheme \<Rightarrow> part_id \<Rightarrow> u32 \<Rightarrow> bool" where
  "used_block s p b \<longleftrightarrow> (\<exists>k < n_bits (block_bitmap (parts s p)).
     is_set (block_bitmap (parts s p)) k \<and> b = data_start_lba (sb (parts s p)) + of_nat k)"

definition inode_used :: "'a fsys_scheme \<Rightarrow> part_id \<Rightarrow> inode \<Rightarrow> bool" where
  "inode_used s p i \<longleftrightarrow> (\<forall>b \<in> set (inode_blocks s p i). used_block s p b) \<and>
     (i_sectors i ! 12 \<noteq> 0 \<longrightarrow> used_block s p (i_sectors i ! 12) \<and> i_sectors i ! 12 \<notin> set (inode_blocks s p i))"

lemma data_block_lba:
  assumes "layout_ok q" "k < n_bits (block_bitmap q)"
  shows "unat (data_start_lba (sb q) + of_nat k) = unat (data_start_lba (sb q)) + k"
proof -
  have "unat (data_start_lba (sb q)) \<le> 163839" "n_bits (block_bitmap q) = 4096 * unat (block_bitmap_sects (sb q))"
    "unat (block_bitmap_lba (sb q)) + unat (block_bitmap_sects (sb q)) \<le> unat (data_start_lba (sb q))"
    using assms(1) by (auto simp: layout_ok_def word_le_nat_alt)
  then show ?thesis using assms(2) by (subst unat_add_u32) simp_all
qed

lemma used_ne_bitmap:
  assumes "layout_ok (parts s p)" "used_block s p b" "i < n_bits (block_bitmap (parts s p))"
  shows "b \<noteq> block_bitmap_lba (sb (parts s p)) + of_nat (i div 4096)"
proof -
  let ?q = "parts s p"
  from assms(2) obtain k where k: "k < n_bits (block_bitmap ?q)" "b = data_start_lba (sb ?q) + of_nat k"
    by (auto simp: used_block_def)
  have sz: "n_bits (block_bitmap ?q) = 4096 * unat (sects_of BLOCK_BITMAP ?q)"
    using layout_bitmaps(2) [OF assms(1), of BLOCK_BITMAP] by (simp add: bm_of_def)
  have j: "i div 4096 < unat (sects_of BLOCK_BITMAP ?q)"
    using assms(3) sz by (simp add: less_mult_imp_div_less mult.commute)
  have l: "unat (lba_of BLOCK_BITMAP ?q + of_nat (i div 4096)) = unat (lba_of BLOCK_BITMAP ?q) + i div 4096"
    by (rule unat_lba_of_add [OF assms(1) j])
  have o: "unat (lba_of BLOCK_BITMAP ?q) + unat (sects_of BLOCK_BITMAP ?q) \<le> unat (data_start_lba (sb ?q))"
    using assms(1) by (simp add: layout_ok_def lba_of_def sects_of_def)
  have "unat b = unat (data_start_lba (sb ?q)) + k" unfolding k(2) by (rule data_block_lba [OF assms(1) k(1)])
  then have "b \<noteq> lba_of BLOCK_BITMAP ?q + of_nat (i div 4096)" using l o j by auto
  then show ?thesis by (simp add: lba_of_def)
qed

lemma set_dir_entries:
  "set (dir_entries s p i) = (\<Union>b \<in> set (inode_blocks s p i). set (sector_entries (disks s (my_disk (parts s p)) b)))"
  by (simp add: dir_entries_def)

lemma length_sector_entries [simp]: "length (sector_entries buf) = 21"
  by (simp add: sector_entries_def)

lemma set_inode_blocks:
  "set (inode_blocks s p i) = {b. b \<noteq> 0 \<and> (b \<in> set (take 12 (i_sectors i)) \<or>
     i_sectors i ! 12 \<noteq> 0 \<and> b \<in> set (bytes_words 128 (disks s (my_disk (parts s p)) (i_sectors i ! 12))))}"
  by (auto simp: inode_blocks_def)

lemma direct_block:
  "j < 12 \<Longrightarrow> length (i_sectors i) = 13 \<Longrightarrow> i_sectors i ! j \<noteq> 0 \<Longrightarrow> i_sectors i ! j \<in> set (inode_blocks s p i)"
  unfolding set_inode_blocks by (auto simp: in_set_conv_nth)

text \<open>What an added entry does to the entries of the directory: one of the blocks \<open>b\<close> now holds it, the other
  blocks are as before.\<close>

lemma entries_after_add:
  assumes blocks: "set (inode_blocks s' p i') \<subseteq> insert b (set (inode_blocks s p i))" "b \<in> set (inode_blocks s' p i')"
    and same: "\<forall>c \<in> set (inode_blocks s p i). c \<noteq> b \<longrightarrow> disks s' (my_disk (parts s' p)) c = disks s (my_disk (parts s p)) c"
    and new: "e \<in> set (sector_entries (disks s' (my_disk (parts s' p)) b))"
      "set (sector_entries (disks s' (my_disk (parts s' p)) b)) \<subseteq> insert e (insert (replicate 24 0) (set (dir_entries s p i)))"
  shows "e \<in> set (dir_entries s' p i')"
    and "set (dir_entries s' p i') \<subseteq> insert e (insert (replicate 24 0) (set (dir_entries s p i)))"
proof -
  show "e \<in> set (dir_entries s' p i')" unfolding set_dir_entries using blocks(2) new(1) by blast
  show "set (dir_entries s' p i') \<subseteq> insert e (insert (replicate 24 0) (set (dir_entries s p i)))"
  proof
    fix x assume "x \<in> set (dir_entries s' p i')"
    then obtain c where c: "c \<in> set (inode_blocks s' p i')" "x \<in> set (sector_entries (disks s' (my_disk (parts s' p)) c))"
      unfolding set_dir_entries by blast
    show "x \<in> insert e (insert (replicate 24 0) (set (dir_entries s p i)))"
    proof (cases "c = b")
      case True
      then show ?thesis using c(2) new(2) by blast
    next
      case False
      then have "c \<in> set (inode_blocks s p i)" using c(1) blocks(1) by blast
      then have "x \<in> set (dir_entries s p i)" using c(2) same False unfolding set_dir_entries by auto
      then show ?thesis by blast
    qed
  qed
qed

text \<open>The state in which an entry has been added.\<close>

definition entry_added :: "'a fsys_scheme \<Rightarrow> 'a fsys_scheme \<Rightarrow> part_id \<Rightarrow> u32 \<Rightarrow> bytes \<Rightarrow> bool" where
  "entry_added s s' p a e \<longleftrightarrow>
     (let i = inodes s a; i' = inodes s' a in
      i_size i' = i_size i + 24 \<and> i_no i' = i_no i \<and> e \<in> set (dir_entries s' p i') \<and>
      set (dir_entries s' p i') \<subseteq> insert e (insert (replicate 24 0) (set (dir_entries s p i))) \<and>
      length (i_sectors i') = 13 \<and> i_sectors i' ! 12 \<le> max_lba \<and> (\<forall>b \<in> set (inode_blocks s' p i'). b \<le> max_lba) \<and>
      disk_ok s' \<and> dirs s' = dirs s \<and> heap s' = heap s \<and> in_kernel s' = in_kernel s \<and> sb (parts s' p) = sb (parts s p))"

lemma add_in_block:
  assumes dir: "dir_ok s p i" and use: "inode_used s p i" and dk: "disk_ok s"
    and j: "j < 12" "i_sectors i ! j \<noteq> 0" and k: "k < 21" and e: "length e = 24" and i: "i = inodes s a" and p: "p = cur_part s"
  defines "b \<equiv> i_sectors i ! j" and "m \<equiv> my_disk (parts s p)"
  shows "entry_added s (upd_inode a (\<lambda>i. i\<lparr>i_size := i_size i + 24\<rparr>)
    (s\<lparr>disks := (disks s)(m := (disks s m)(b := patch (disks s m b) (sizeof_dir_entry * k) e))\<rparr>)) p a e"
    (is "entry_added s ?s' p a e")
proof -
  let ?i' = "inodes ?s' a"
  have len: "length (disks s m b) = 512" "length (i_sectors i) = 13" using dk dir by (simp_all add: disk_ok_def dir_ok_def)
  have b: "b \<in> set (inode_blocks s p i)" unfolding b_def by (rule direct_block [OF j(1) len(2) j(2)])
  have "i_sectors i ! 12 \<noteq> 0 \<Longrightarrow> i_sectors i ! 12 \<noteq> b" using use b by (auto simp: inode_used_def)
  then have bl: "inode_blocks ?s' p ?i' = inode_blocks s p i"
    using i by (auto simp: inode_blocks_def upd_inode_def m_def)
  have sec: "disks ?s' (my_disk (parts ?s' p)) b = patch (disks s m b) (sizeof_dir_entry * k) e"
    by (simp add: upd_inode_def m_def)
  have se: "sector_entries (patch (disks s m b) (sizeof_dir_entry * k) e) = (sector_entries (disks s m b))[k := e]"
    by (rule sector_entries_patch [OF len(1) k e])
  have old: "set (sector_entries (disks s m b)) \<subseteq> set (dir_entries s p i)" using b unfolding set_dir_entries m_def by blast
  have 1: "set (inode_blocks ?s' p ?i') \<subseteq> insert b (set (inode_blocks s p i))" "b \<in> set (inode_blocks ?s' p ?i')"
    unfolding bl using b by blast+
  have 2: "\<forall>c \<in> set (inode_blocks s p i). c \<noteq> b \<longrightarrow> disks ?s' (my_disk (parts ?s' p)) c = disks s (my_disk (parts s p)) c"
    by (simp add: upd_inode_def m_def)
  have 3: "e \<in> set (sector_entries (disks ?s' (my_disk (parts ?s' p)) b))"
    unfolding sec se by (rule set_update_memI) (use k in simp)
  have 4: "set (sector_entries (disks ?s' (my_disk (parts ?s' p)) b)) \<subseteq> insert e (insert (replicate 24 0) (set (dir_entries s p i)))"
    unfolding sec se using set_update_subset_insert [of "sector_entries (disks s m b)" k e] old by blast
  note added = entries_after_add [OF 1 2 3 4]
  have "disk_ok ?s'" using dk k e len by (auto simp: disk_ok_def upd_inode_def sizeof_dir_entry_def)
  moreover have "\<forall>b \<in> set (inode_blocks ?s' p ?i'). b \<le> max_lba" unfolding bl using dir by (simp add: dir_ok_def)
  ultimately show ?thesis using added i len dir
    by (simp add: entry_added_def Let_def dir_ok_def upd_inode_def heap_def in_kernel_def)
qed

lemma sector_entries_fresh:
  "length e = 24 \<Longrightarrow> sector_entries (patch (replicate 512 0) 0 e) = (replicate 21 (replicate 24 0))[0 := e]"
proof -
  assume e: "length e = 24"
  have "sector_entries (replicate 512 (0 :: u8)) = map (\<lambda>_. replicate 24 0) [0..<21]"
    unfolding sector_entries_def by (intro map_cong [OF refl]) (simp add: entry_at_def sizeof_dir_entry_def min_def del: upt_rec_numeral)
  also have "\<dots> = replicate 21 (replicate 24 0)" by (simp only: map_replicate_const length_upt) simp
  finally show ?thesis using sector_entries_patch [of "replicate 512 0" 0 e] e by (simp add: sizeof_dir_entry_def)
qed

lemma add_in_new_block:
  assumes ok: "blocks_ok p s" and dir: "dir_ok s p i" and use: "inode_used s p i"
    and j: "j < 12" "i_sectors i ! j = 0" and all: "all ! j = 0" "j < length all"
    and e: "length e = 24" and i: "i = inodes s a" and p: "p = cur_part s"
    and al: "block_bitmap_alloc p s = Inr (lba, s1)"
  shows "\<exists>s'. sync_dir_loop a e 24 j (Suc n) all s = Inr (True, s') \<and> entry_added s s' p a e"
proof -
  let ?m = "my_disk (parts s p)" and ?start = "data_start_lba (sb (parts s p))"
  have lay: "layout_ok (parts s p)" and on: "on_disk p s" and dk: "disk_ok s" using ok by (simp_all add: blocks_ok_def)
  from block_alloc_sync [OF lay on al] obtain f b s2 where f: "f < n_bits (block_bitmap (parts s p))"
    "\<not> is_set (block_bitmap (parts s p)) f" and lba: "lba = ?start + of_nat f"
    and s1: "s1 = set_bm BLOCK_BITMAP p b s" and sync: "bitmap_sync p (lba - ?start) BLOCK_BITMAP s1 = Inr s2"
    and s2: "s2 = s1\<lparr>disks := (disks s)(?m := (disks s ?m)
       (block_bitmap_lba (sb (parts s p)) + of_nat (f div 4096) := bitmap_bytes b (of_nat (512 * (f div 4096)))))\<rparr>" .
  let ?bb = "block_bitmap_lba (sb (parts s p)) + of_nat (f div 4096)"
  let ?s3 = "set_sector a j lba s2"
  define s' where "s' = upd_inode a (\<lambda>i. i\<lparr>i_size := i_size i + 24\<rparr>)
    (?s3\<lparr>disks := (disks ?s3)(?m := (disks ?s3 ?m)(lba := patch (replicate 512 0) 0 e))\<rparr>)"
  let ?i' = "inodes s' a"
  note st = s'_def set_sector_def upd_inode_def s2 s1 set_bm_def upd_part_def
  have ul: "unat lba = unat ?start + f" unfolding lba by (rule data_block_lba [OF lay f(1)])
  have le: "unat ?start + f \<le> 163839" using ok f by (auto simp: blocks_ok_def)
  have ne: "lba \<noteq> - 1" "lba - ?start \<noteq> - 1" "lba \<noteq> 0"
  proof -
    have "0 < unat ?start" using lay by (auto simp: layout_ok_def)
    then show "lba \<noteq> 0" using ul by auto
    show "lba \<noteq> - 1" using ul le by (auto simp: unsigned_minus_1_eq_mask mask_eq_exp_minus_1)
    have "f < 4294967295" using le by simp
    then show "lba - ?start \<noteq> - 1" unfolding lba
      by (simp add: word_unat_eq_iff unsigned_minus_1_eq_mask mask_eq_exp_minus_1)
  qed
  have lm: "lba \<le> max_lba" using ul le by (simp add: word_le_nat_alt)
  have other: "c \<noteq> lba \<and> c \<noteq> ?bb" if "used_block s p c" for c
  proof
    from that obtain k where k: "k < n_bits (block_bitmap (parts s p))" "is_set (block_bitmap (parts s p)) k" "c = ?start + of_nat k"
      by (auto simp: used_block_def)
    show "c \<noteq> lba" using data_block_lba [OF lay k(1)] ul f(2) k(2,3) by auto
    show "c \<noteq> ?bb" by (rule used_ne_bitmap [OF lay that f(1)])
  qed
  have p3: "my_disk (parts ?s3 p) = ?m" "sb (parts ?s3 p) = sb (parts s p)" "cur_part ?s3 = p"
    "my_disk (parts s1 p) = ?m" "cur_part s1 = p"
    using p by (simp_all add: set_sector_def upd_inode_def s2 s1)
  have step: "sync_dir_loop a e 24 j (Suc n) all s = Inr (True, s')"
    using all j(1) al sync ne lm e p lay unfolding s'_def
    by (simp add: new_dir_block_def Let_def layout_ok_def)
  have i': "?i' = i\<lparr>i_sectors := (i_sectors i)[j := lba], i_size := i_size i + 24\<rparr>"
    using i by (simp add: st)
  have len: "length (i_sectors i) = 13" using dir by (simp add: dir_ok_def)
  have d': "disks s' ?m c = (if c = lba then patch (replicate 512 0) 0 e else if c = ?bb then bitmap_bytes b (of_nat (512 * (f div 4096)))
      else disks s ?m c)" for c
    by (simp add: st)
  have m': "my_disk (parts s' p) = ?m" by (simp add: st)
  have tab: "i_sectors i ! 12 \<noteq> 0 \<Longrightarrow> disks s' ?m (i_sectors i ! 12) = disks s ?m (i_sectors i ! 12)"
    using other use unfolding d' by (auto simp: inode_used_def)
  have t12: "take 12 ((i_sectors i)[j := lba]) = (take 12 (i_sectors i))[j := lba]" by (simp add: take_update_swap)
  have s12: "set (take 12 ((i_sectors i)[j := lba])) \<subseteq> insert lba (set (take 12 (i_sectors i)))"
    unfolding t12 by (rule set_update_subset_insert)
  have in12: "lba \<in> set (take 12 ((i_sectors i)[j := lba]))"
    unfolding t12 by (rule set_update_memI) (use j(1) len in simp)
  have x12: "i_sectors ?i' ! 12 = i_sectors i ! 12" using j(1) by (simp add: i')
  have bl: "set (inode_blocks s' p ?i') = {b. b \<noteq> 0 \<and> (b \<in> set (take 12 ((i_sectors i)[j := lba])) \<or>
     i_sectors i ! 12 \<noteq> 0 \<and> b \<in> set (bytes_words 128 (disks s ?m (i_sectors i ! 12))))}"
    unfolding set_inode_blocks m' x12 using tab by (auto simp: i')
  have 1: "set (inode_blocks s' p ?i') \<subseteq> insert lba (set (inode_blocks s p i))" "lba \<in> set (inode_blocks s' p ?i')"
    unfolding bl set_inode_blocks [of s p i] using s12 in12 ne(3) by auto
  have 2: "\<forall>c \<in> set (inode_blocks s p i). c \<noteq> lba \<longrightarrow> disks s' (my_disk (parts s' p)) c = disks s ?m c"
    unfolding m' d' using other use by (auto simp: inode_used_def)
  have 3: "e \<in> set (sector_entries (disks s' (my_disk (parts s' p)) lba))"
    unfolding m' d' using sector_entries_fresh [OF e] set_update_memI [of 0 "replicate 21 (replicate 24 0)" e] by simp
  have 4: "set (sector_entries (disks s' (my_disk (parts s' p)) lba)) \<subseteq> insert e (insert (replicate 24 0) (set (dir_entries s p i)))"
    unfolding m' d' using sector_entries_fresh [OF e] set_update_subset_insert [of "replicate 21 (replicate 24 0)" 0 e] by auto
  note added = entries_after_add [OF 1 2 3 4]
  have "disks s' k = disks s k" if "k \<noteq> ?m" for k
    using that by (simp add: st)
  moreover have "length (disks s' ?m c) = 512" for c using dk e unfolding d' by (simp add: disk_ok_def)
  ultimately have "disk_ok s'" using dk unfolding disk_ok_def by metis
  moreover have "\<forall>b \<in> set (inode_blocks s' p ?i'). b \<le> max_lba"
    using 1(1) dir lm by (auto simp: dir_ok_def)
  moreover have "heap s' = heap s" "in_kernel s' = in_kernel s" "dirs s' = dirs s" "sb (parts s' p) = sb (parts s p)"
    using p3 by (simp_all add: st heap_def in_kernel_def)
  ultimately have "entry_added s s' p a e"
    using added len dir x12 unfolding entry_added_def Let_def i [symmetric] by (simp add: i' dir_ok_def)
  with step show ?thesis by blast
qed

text \<open>One of the direct blocks, the first that is not full, has room or is not there yet.\<close>

definition room_at :: "'a fsys_scheme \<Rightarrow> part_id \<Rightarrow> inode \<Rightarrow> nat \<Rightarrow> bool" where
  "room_at s p i j \<longleftrightarrow> j < 12 \<and>
     (\<forall>k < j. i_sectors i ! k \<noteq> 0 \<and> first_free (disks s (my_disk (parts s p)) (i_sectors i ! k)) = None) \<and>
     (i_sectors i ! j = 0 \<or> first_free (disks s (my_disk (parts s p)) (i_sectors i ! j)) \<noteq> None)"

text \<open>The walk to the block with room, and an entry written into a block the directory has.\<close>

lemma sync_dir_entry_at:
  assumes lay: "layout_ok (parts s p)" and dk: "disk_ok s" and p: "p = cur_part s" and i: "i = inodes s a" and a: "a = dir_inode (dirs s d)"
    and dir: "dir_ok s p i" and room: "room_at s p i j" and e: "length e = 24" and sz: "i_size i mod 24 = 0"
  shows "sync_dir_entry d e s = sync_dir_loop a e 24 j (Suc (139 - j)) (take 12 (i_sectors i) @ replicate 128 0) s"
proof -
  let ?m = "my_disk (parts s p)" and ?all = "take 12 (i_sectors i) @ replicate 128 0"
  have dsz: "dir_entry_size (sb (parts s p)) = 24" using lay by (simp add: layout_ok_def)
  have len: "length (i_sectors i) = 13" using dir by (simp add: dir_ok_def)
  have j: "j < 12" using room by (simp add: room_at_def)
  have "\<forall>k. 0 \<le> k \<and> k < 0 + j \<longrightarrow> ?all ! k \<noteq> 0 \<and> ?all ! k \<le> max_lba \<and>
      first_free (disks s (my_disk (parts s (cur_part s))) (?all ! k)) = None"
  proof (intro allI impI)
    fix k assume "0 \<le> k \<and> k < 0 + j"
    then have k: "k < j" "k < 12" using j by auto
    then have nz: "i_sectors i ! k \<noteq> 0" "first_free (disks s ?m (i_sectors i ! k)) = None" using room by (auto simp: room_at_def)
    have "i_sectors i ! k \<in> set (inode_blocks s p i)" by (rule direct_block [OF k(2) len nz(1)])
    then have "i_sectors i ! k \<le> max_lba" using dir by (simp add: dir_ok_def)
    then show "?all ! k \<noteq> 0 \<and> ?all ! k \<le> max_lba \<and> first_free (disks s (my_disk (parts s (cur_part s))) (?all ! k)) = None"
      using nz k(2) len p by (simp add: nth_append)
  qed
  note skip = sync_dir_loop_skip [OF dk _ this, of 140]
  have "140 - j = Suc (139 - j)" using j by simp
  with skip show ?thesis using dsz e p i a sz j by (simp add: sync_dir_entry_def Let_def del: sync_dir_loop.simps)
qed

lemma sync_dir_loop_in_block:
  assumes dk: "disk_ok s" and p: "p = cur_part s" and dir: "dir_ok s p i" and j: "j < 12" and nz: "i_sectors i ! j \<noteq> 0"
    and k: "first_free (disks s (my_disk (parts s p)) (i_sectors i ! j)) = Some k" and e: "length e = 24"
  shows "sync_dir_loop a e 24 j (Suc n) (take 12 (i_sectors i) @ replicate 128 0) s =
    Inr (True, upd_inode a (\<lambda>i. i\<lparr>i_size := i_size i + 24\<rparr>) (s\<lparr>disks := (disks s)(my_disk (parts s p) := (disks s (my_disk (parts s p)))
      (i_sectors i ! j := patch (disks s (my_disk (parts s p)) (i_sectors i ! j)) (sizeof_dir_entry * k) e))\<rparr>))"
proof -
  let ?b = "i_sectors i ! j" and ?m = "my_disk (parts s p)"
  have len: "length (i_sectors i) = 13" using dir by (simp add: dir_ok_def)
  have "?b \<le> max_lba" using direct_block [OF j len nz, of s p] dir by (simp add: dir_ok_def)
  moreover have l512: "length (disks s ?m ?b) = 512" using dk by (simp add: disk_ok_def)
  moreover have "free_entry (disks s ?m ?b) 0 21 = Inr (Some k)" using free_entry_first [OF l512] k by simp
  moreover have "k < 21" using first_free_Some [OF k] by simp
  ultimately show ?thesis using nz j p e len by (simp add: Let_def sizeof_dir_entry_def nth_append)
qed

lemma sync_dir_entry_adds:
  assumes ok: "blocks_ok p s" and p: "p = cur_part s" and i: "i = inodes s a" and a: "a = dir_inode (dirs s d)"
    and dir: "dir_ok s p i" and use: "inode_used s p i" and room: "room_at s p i j"
    and e: "length e = 24" and sy: "sync_dir_entry d e s = Inr (r, s')"
  shows "r \<and> entry_added s s' p a e"
proof -
  let ?all = "take 12 (i_sectors i) @ replicate 128 0"
  have lay: "layout_ok (parts s p)" and dk: "disk_ok s" using ok by (simp_all add: blocks_ok_def)
  have len: "length (i_sectors i) = 13" using dir by (simp add: dir_ok_def)
  have j: "j < 12" using room by (simp add: room_at_def)
  have "i_size i mod 24 = 0"
    using sy lay e p i a by (auto simp: sync_dir_entry_def layout_ok_def Let_def res_simps)
  note eq = sync_dir_entry_at [OF lay dk p i a dir room e this]
  show ?thesis
  proof (cases "i_sectors i ! j = 0")
    case True
    then have aj: "?all ! j = 0" "j < length ?all" using len j by (auto simp: nth_append)
    obtain lba s1 where al: "block_bitmap_alloc p s = Inr (lba, s1)"
    proof (cases "block_bitmap_alloc p s")
      case (Inl x)
      then have "sync_dir_entry d e s = Inl x" unfolding eq using aj(1) p by (simp add: new_dir_block_def Let_def)
      with sy show ?thesis by simp
    next
      case (Inr x)
      then show ?thesis using that by (cases x) auto
    qed
    from add_in_new_block [OF ok dir use j True aj e i p al, of "139 - j"] obtain t where
      "sync_dir_loop a e 24 j (Suc (139 - j)) ?all s = Inr (True, t)" "entry_added s t p a e" by blast
    then show ?thesis using eq sy by simp
  next
    case False
    then obtain k where k: "first_free (disks s (my_disk (parts s p)) (i_sectors i ! j)) = Some k" using room by (auto simp: room_at_def)
    have k21: "k < 21" using first_free_Some [OF k] by simp
    show ?thesis
      using sync_dir_loop_in_block [OF dk p dir j False k e, of a "139 - j"] add_in_block [OF dir use dk j False k21 e i p] eq sy by simp
  qed
qed

text \<open>C11: an entry written with \<open>sync_dir_entry\<close> into a directory with room among its direct blocks, in a block it
  has or in a new one, is found again by \<open>search_dir_entry\<close> under its name, and the directory has grown by one entry.\<close>

theorem sync_dir_entry_search:
  assumes "blocks_ok p s" and "p = cur_part s" and "i = inodes s (dir_inode (dirs s d))"
    and "dir_ok s p i" and "inode_used s p i" and "room_at s p i j"
    and "length e = 24" and "0 \<in> set e" and "de_name e \<noteq> []" and "\<forall>x \<in> set (dir_entries s p i). de_name x \<noteq> de_name e"
    and "heap s = x # y # h" and "distinct (heap s)" and "0 \<notin> set (heap s)"
    and "in_kernel s \<longrightarrow> (\<forall>a \<in> set (heap s). K_HEAP_START \<le> a)" and "length dir_e = 24"
    and "sync_dir_entry d e s = Inr (r, s')"
  shows "r \<and> i_size (inodes s' (dir_inode (dirs s' d))) = i_size i + 24 \<and>
    search_dir_entry p d (de_name e) dir_e s' = Inr (Some e, set_heap (h @ [y, x]) s')"
proof -
  let ?a = "dir_inode (dirs s d)"
  have ad: "r \<and> entry_added s s' p ?a e"
    by (rule sync_dir_entry_adds [OF assms(1-3) refl assms(4-7,16)])
  let ?i' = "inodes s' ?a"
  have en: "e \<in> set (dir_entries s' p ?i')" "set (dir_entries s' p ?i') \<subseteq> insert e (insert (replicate 24 0) (set (dir_entries s p i)))"
    "disk_ok s'" "dirs s' = dirs s" "heap s' = heap s" "in_kernel s' = in_kernel s" "i_size ?i' = i_size i + 24"
    "sb (parts s' p) = sb (parts s p)" "length (i_sectors ?i') = 13" "i_sectors ?i' ! 12 \<le> max_lba"
    "\<forall>b \<in> set (inode_blocks s' p ?i'). b \<le> max_lba"
    using ad assms(3) by (simp_all add: entry_added_def Let_def)
  have "\<forall>z \<in> set (dir_entries s' p ?i'). 0 \<in> set z"
    using en(2) assms(4,8) by (auto simp: dir_ok_def entries_ok_def)
  then have ok': "dir_ok s' p ?i'" using en by (simp add: dir_ok_def entries_ok_def)
  have z: "de_name (replicate 24 0) = []" by (simp add: de_name_def)
  have "find (\<lambda>z. de_name z = de_name e) (dir_entries s' p ?i') = Some e"
  proof (rule find_unique [OF en(1) refl], intro ballI impI)
    fix w assume "w \<in> set (dir_entries s' p ?i')" "de_name w = de_name e"
    then show "w = e" using en(2) assms(9,10) z by auto
  qed
  moreover have "search_dir_entry p d (de_name e) dir_e s' =
      Inr (find (\<lambda>z. de_name z = de_name e) (dir_entries s' p ?i'), set_heap (h @ [y, x]) s')"
  proof (rule search_dir_entry_find [OF en(3) ok'])
    show "?i' = inodes s' (dir_inode (dirs s' d))" using en(4) by simp
    show "dir_entry_size (sb (parts s' p)) = 24" using en(8) assms(1) by (simp add: blocks_ok_def layout_ok_def)
    show "0 \<notin> set (de_name e)" by (auto simp: de_name_def dest: set_takeWhileD)
    show "heap s' = x # y # h" "x \<noteq> 0" "y \<noteq> 0" "x \<notin> set (y # h)" "y \<notin> set h" "length dir_e = 24"
      using en(5) assms(11-13,15) by auto
    show "in_kernel s' \<longrightarrow> K_HEAP_START \<le> x \<and> K_HEAP_START \<le> y" using en(6) assms(11,14) by simp
  qed
  ultimately show ?thesis using ad en(4,7) by simp
qed

section \<open>Deleting from an indirect block\<close>

lemma count_indirect_Suc: "all ! 12 \<noteq> 0 \<Longrightarrow> k \<le> 140 \<Longrightarrow> count_indirect all (140 - k) = Some 140"
proof (induction k)
  case 0
  then show ?case by (simp add: count_indirect.simps)
next
  case (Suc k)
  define n where "n = 140 - Suc k"
  have n: "Suc n = 140 - k" "n < 140" using Suc.prems(2) by (simp_all add: n_def)
  then have "count_indirect all (Suc n) = Some 140" using Suc by simp
  then have "count_indirect all n = Some 140"
    using n(2) Suc.prems(1) by (simp add: count_indirect.simps [of all n])
  then show ?case by (simp add: n_def)
qed

lemma count_indirect_stuck:
  assumes "count_indirect all n = Some r"
  shows "all ! 12 = 0 \<longrightarrow> \<not> n < 140"
  by (rule count_indirect.raw_induct [OF _ assms]) (auto split: if_splits)

lemma count_indirect_0: "count_indirect all 0 = (if all ! 12 = 0 then None else Some 140)"
proof (cases "all ! 12 = 0")
  case True
  then show ?thesis using count_indirect_stuck [of all 0] by (cases "count_indirect all 0") auto
next
  case False
  then show ?thesis using count_indirect_Suc [of all 140] by simp
qed

text \<open>C34: when the block of a deleted entry is an indirect one that becomes empty, the deletion never returns if
  the first indirect block is gone (the counting loop does not advance its index); otherwise the table always
  stays, even when its last block goes, because the loop counts the first block 140 times.\<close>

theorem drop_indirect_block:
  assumes "clear_block p (all ! idx - data_start_lba (sb (parts s p))) s = Inr s1" and "12 \<le> idx"
  shows "drop_dir_block p a idx all s = (if all ! 12 = 0 then Inl Diverge
    else disk_write (my_disk (parts s1 p)) (i_sectors (inodes s1 a) ! 12) (words_bytes (drop 12 (all[idx := 0]))) 1 s1)"
  using assms by (simp add: drop_dir_block_def count_indirect_0 Let_def)

theorem drop_indirect_block_witness:
  "drop_dir_block (1, 0) 0xc0200000 13 ((replicate 140 0)[13 := 676]) demo_fs = Inl Diverge"
proof -
  have "\<exists>s1. clear_block (1, 0) 1 demo_fs = Inr s1"
    using clear_block_synced [of demo_fs "(1, 0)" 1] demo_layout demo_on_disk by (simp add: n_bits_def) blast
  then obtain s1 where "clear_block (1, 0) ((replicate 140 0)[13 := 676] ! 13 - data_start_lba (sb (parts demo_fs (1, 0)))) demo_fs = Inr s1"
    by (auto simp: demo_sb_def)
  from drop_indirect_block [OF this, of "0xc0200000"] show ?thesis by simp
qed

lemma demo_blocks_ok: "blocks_ok (1, 0) demo_fs"
  using demo_layout demo_on_disk demo_disk_ok by (simp add: blocks_ok_def n_bits_def demo_sb_def)

lemma demo_inode_used: "inode_used demo_fs (1, 0) (demo_root\<lparr>i_open_cnts := 1\<rparr>)"
proof -
  have "is_set demo_bits 0" by (simp add: demo_bits_bits)
  then have "used_block demo_fs (1, 0) 675" by (auto simp: used_block_def demo_sb_def n_bits_def intro!: exI [of _ 0])
  then show ?thesis unfolding inode_used_def demo_blocks(1) [OF refl refl] by (simp add: demo_root_def nth_Cons')
qed

lemma demo_room: "room_at demo_fs (1, 0) (demo_root\<lparr>i_open_cnts := 1\<rparr>) 0"
proof -
  have "de_f_type (entry_at (demo_dots @ replicate 464 0) 2) = FT_UNKNOWN"
    by (simp add: de_f_type_def entry_at_def sizeof_dir_entry_def demo_dots_def rd32_def word_of_bytes_def FT_UNKNOWN_def FT_DIRECTORY_def)
  moreover have "2 \<in> set [0..<21 :: nat]" by simp
  ultimately have "first_free (demo_dots @ replicate 464 0) \<noteq> None"
    unfolding first_free_def find_None_iff by blast
  then show ?thesis by (simp add: room_at_def demo_root_def demo_disk_def)
qed

definition demo_entry :: bytes where
  "demo_entry = [97] @ replicate 15 0 @ le32 5 @ le32 FT_REGULAR"

lemma demo_sync: "\<exists>s'. sync_dir_entry 0xc0006000 demo_entry demo_fs = Inr (True, s')"
proof -
  have l: "length demo_entry = 24" by (simp add: demo_entry_def)
  obtain k where k: "first_free (demo_dots @ replicate 464 0) = Some k" using demo_room by (auto simp: room_at_def demo_root_def demo_disk_def)
  have k21: "24 * k + 24 \<le> 512" using first_free_Some [OF k] by simp
  have l5: "length (demo_dots @ replicate 464 0) = 512" by (simp add: demo_dots_def)
  have fe: "free_entry (demo_disk 675) 0 21 = Inr (Some k)" using free_entry_first [OF l5] k by (simp add: demo_disk_def)
  have d: "dir_inode (dirs demo_fs 0xc0006000) = 0xc0200000" by (simp add: demo_fs_def)
  have all: "(take 12 (i_sectors demo_root) @ replicate 128 0) ! 0 = 675" by (simp add: demo_root_def)
  have len: "length (demo_disk 675) = 512" using l5 by (simp add: demo_disk_def)
  have n: "(140 :: nat) = Suc 139" by simp
  show ?thesis
    unfolding sync_dir_entry_def d n sync_dir_loop.simps Let_def
    using l fe all k21 len by (simp add: demo_sb_def demo_root_def [THEN arg_cong, of i_size] sizeof_dir_entry_def word_le_nat_alt)
qed

theorem sync_dir_entry_search_witness:
  "\<exists>s'. sync_dir_entry 0xc0006000 demo_entry demo_fs = Inr (True, s') \<and>
    search_dir_entry (1, 0) 0xc0006000 [97] (replicate 24 0) s' = Inr (Some demo_entry, set_heap [0xc0200c00, 0xc0201000, 0xc0200800, 0xc0200400] s')"
proof -
  obtain s' where sy: "sync_dir_entry 0xc0006000 demo_entry demo_fs = Inr (True, s')" using demo_sync by blast
  have h: "heap demo_fs = [0xc0200400, 0xc0200800, 0xc0200c00, 0xc0201000]" using demo_kernel by (simp add: heap_def)
  have d: "dir_inode (dirs demo_fs 0xc0006000) = 0xc0200000" by (simp add: demo_fs_def)
  have n: "de_name demo_entry = [97]" "length demo_entry = 24" "0 \<in> set demo_entry"
    by (simp_all add: demo_entry_def de_name_def)
  have fr: "\<forall>x \<in> set (dir_entries demo_fs (1, 0) (demo_root\<lparr>i_open_cnts := 1\<rparr>)). de_name x \<noteq> [97]"
    unfolding demo_blocks(2) [OF refl refl] demo_entries by (auto simp: demo_dot_def demo_dotdot_def de_name_def)
  have hs: "in_kernel demo_fs \<longrightarrow> (\<forall>a \<in> set (heap demo_fs). K_HEAP_START \<le> a)" "distinct (heap demo_fs)" "0 \<notin> set (heap demo_fs)"
    unfolding h by (simp_all add: K_HEAP_START_def word_le_nat_alt)
  have "search_dir_entry (1, 0) 0xc0006000 (de_name demo_entry) (replicate 24 0) s' =
      Inr (Some demo_entry, set_heap ([0xc0200c00, 0xc0201000] @ [0xc0200800, 0xc0200400]) s')"
    by (rule sync_dir_entry_search [THEN conjunct2, THEN conjunct2, OF demo_blocks_ok _ _ demo_dir_ok demo_inode_used demo_room _ _ _ _ h _ _ _ _ sy])
      (use n fr hs in simp_all)
  then show ?thesis using sy n by auto
qed

end
