(* ===== verification/File.thy ===== *)
theory File
  imports Dir
begin

text \<open>
  Files (fs/file.c): the table of open files, creating, opening, closing, writing and reading a
  file. A \<open>struct file *\<close> is the index of the entry in \<open>file_table\<close>, whose inode pointer 0 means
  that the entry is free. \<open>content\<close> is the sequence of bytes that a file holds.
\<close>

section \<open>The code\<close>

definition O_RDONLY :: u32 where "O_RDONLY = 0"
definition O_WRONLY :: u32 where "O_WRONLY = 1"
definition O_RDWR :: u32 where "O_RDWR = 2"
definition O_CREAT :: u32 where "O_CREAT = 4"
definition BLOCK_SIZE :: u32 where "BLOCK_SIZE = 512"

text \<open>The first index from 3 on with a free entry.\<close>

definition get_free_slot_in_global :: "'a fsys_scheme \<Rightarrow> u32" where
  "get_free_slot_in_global s =
     (case find (\<lambda>i. fd_inode (file_table s ! i) = 0) [3..<MAX_FILE_OPEN] of
        Some i \<Rightarrow> of_nat i | None \<Rightarrow> - 1)"

definition pcb_fd_install :: "u32 \<Rightarrow> 'a fsys_scheme \<Rightarrow> u32 \<times> 'a fsys_scheme" where
  "pcb_fd_install globa_fd_idx s =
     (let cur = running_thread s in
      case find (\<lambda>i. fd_table (tasks s cur) ! i = - 1) [3..<MAX_FILES_OPEN_PER_PROC] of
        Some i \<Rightarrow> (of_nat i, upd_task cur (\<lambda>t. t\<lparr>fd_table := (fd_table t)[i := globa_fd_idx]\<rparr>) s)
      | None \<Rightarrow> (- 1, s))"

text \<open>The steps of \<open>rollback\<close>, each falling through to the next: 3 frees the slot, 2 the inode, 1 its number.\<close>

definition rollback_create :: "nat \<Rightarrow> u32 \<Rightarrow> u32 \<Rightarrow> u32 \<Rightarrow> u32 \<Rightarrow> 'a fsys_scheme \<Rightarrow> (u32 \<times> 'a fsys_scheme) res" where
  "rollback_create step fd_idx a inode_no io_buf s =
     (let s = (if step = 3 then upd_file (unat fd_idx) (\<lambda>_. \<lparr>fd_pos = 0, fd_flag = 0, fd_inode = 0\<rparr>) s else s) in
      bnd (if step \<ge> 2 then fs_free a s else Inr s) (\<lambda>s.
      bnd (bitmap_set (inode_bitmap (parts s (cur_part s))) inode_no 0) (\<lambda>b.
      let s = upd_part (cur_part s) (\<lambda>q. q\<lparr>inode_bitmap := b\<rparr>) s in
      bnd (fs_free io_buf s) (\<lambda>s. Inr (- 1, s)))))"

definition file_create :: "u32 \<Rightarrow> bytes \<Rightarrow> u8 \<Rightarrow> 'a fsys_scheme \<Rightarrow> (u32 \<times> 'a fsys_scheme) res" where
  "file_create parent_dir filename flag s =
     (let (io_buf, s) = fs_malloc s; p = cur_part s in
      if io_buf = 0 then Inr (- 1, s)
      else
        bnd (inode_bitmap_alloc p s) (\<lambda>(inode_no, s).
        if inode_no = - 1 then Inr (- 1, s)
        else
          let (a, s) = fs_malloc s in
          if a = 0 then rollback_create 1 0 0 inode_no io_buf s
          else
            let s = upd_inode a (\<lambda>_. inode_init inode_no) s;
                fd_idx = get_free_slot_in_global s in
            if fd_idx = - 1 then rollback_create 2 0 a inode_no io_buf s
            else
              let s = upd_file (unat fd_idx) (\<lambda>_. \<lparr>fd_pos = 0, fd_flag = ucast flag, fd_inode = a\<rparr>) s;
                  s = upd_inode a (\<lambda>i. i\<lparr>write_deny := 0\<rparr>) s in
              bnd (create_dir_entry filename inode_no (ucast FT_REGULAR) (replicate sizeof_dir_entry 0)) (\<lambda>new_dir_entry.
              bnd (sync_dir_entry parent_dir new_dir_entry s) (\<lambda>(ok, s).
              if \<not> ok then rollback_create 3 fd_idx a inode_no io_buf s
              else
                bnd (inode_sync p (inodes s (dir_inode (dirs s parent_dir))) 1024 s) (\<lambda>s.
                bnd (inode_sync p (inodes s a) 1024 s) (\<lambda>s.
                bnd (bitmap_sync p inode_no INODE_BITMAP s) (\<lambda>s.
                let s = upd_part p (\<lambda>q. q\<lparr>open_inodes := a # open_inodes q\<rparr>) s;
                    s = upd_inode a (\<lambda>i. i\<lparr>i_open_cnts := 1\<rparr>) s in
                bnd (fs_free io_buf s) (\<lambda>s.
                Inr (pcb_fd_install fd_idx s)))))))))"

definition file_open :: "u32 \<Rightarrow> u8 \<Rightarrow> 'a fsys_scheme \<Rightarrow> (u32 \<times> 'a fsys_scheme) res" where
  "file_open inode_no flag s =
     (let fd_idx = get_free_slot_in_global s; flags = ucast flag :: u32 in
      if fd_idx = - 1 then Inr (- 1, s)
      else
        bnd (inode_open (cur_part s) inode_no s) (\<lambda>(a, s).
        let s = upd_file (unat fd_idx) (\<lambda>_. \<lparr>fd_pos = 0, fd_flag = flags, fd_inode = a\<rparr>) s in
        if flags AND O_WRONLY \<noteq> 0 \<or> flags AND O_RDWR \<noteq> 0 then
          let (old_status, s) = intr_disable s in
          if write_deny (inodes s a) = 0 then
            let s = upd_inode a (\<lambda>i. i\<lparr>write_deny := 1\<rparr>) s;
                s = snd (intr_set_status s old_status)
            in Inr (pcb_fd_install fd_idx s)
          else Inr (- 1, snd (intr_set_status s old_status))
        else Inr (pcb_fd_install fd_idx s)))"

text \<open>The argument is None for a NULL pointer.\<close>

definition file_close :: "nat option \<Rightarrow> 'a fsys_scheme \<Rightarrow> (u32 \<times> 'a fsys_scheme) res" where
  "file_close f s =
     (case f of None \<Rightarrow> Inr (- 1, s)
      | Some k \<Rightarrow>
          let a = fd_inode (file_table s ! k);
              s = upd_inode a (\<lambda>i. i\<lparr>write_deny := 0\<rparr>) s in
          bnd (defined (a \<noteq> 0)) (\<lambda>_.
          bnd (inode_close a s) (\<lambda>s.
          Inr (0, upd_file k (\<lambda>x. x\<lparr>fd_inode := 0\<rparr>) s))))"

section \<open>Writing\<close>

text \<open>A new block for a file, marked on the disk; None when no block is free.\<close>

definition record_direct :: "u32 \<Rightarrow> nat \<Rightarrow> u32 \<Rightarrow> u32 list \<Rightarrow> 'a fsys_scheme \<Rightarrow> (u32 list \<times> 'a fsys_scheme) res" where
  "record_direct a idx lba all_blocks s =
     bnd (ASSERT (i_sectors (inodes s a) ! idx = 0)) (\<lambda>_.
     Inr (all_blocks[idx := lba], set_sector a idx lba s))"

text \<open>How the three situations of \<open>file_write\<close> record the address of the new block number \<open>idx\<close>: the second one
  forgets it from number 12 on.\<close>

datatype situation = Direct | Crossing | Indirect

definition record_block :: "situation \<Rightarrow> u32 \<Rightarrow> nat \<Rightarrow> u32 \<Rightarrow> u32 list \<Rightarrow> 'a fsys_scheme \<Rightarrow> (u32 list \<times> 'a fsys_scheme) res" where
  "record_block sit a idx lba all_blocks s =
     (case sit of
        Direct \<Rightarrow> record_direct a idx lba all_blocks s
      | Crossing \<Rightarrow> if idx < 12 then record_direct a idx lba all_blocks s else Inr (all_blocks, s)
      | Indirect \<Rightarrow> Inr (all_blocks[idx := lba], s))"

text \<open>The loops that allocate the blocks from number \<open>idx\<close> on, \<open>n\<close> of them.\<close>

fun grow_loop :: "situation \<Rightarrow> u32 \<Rightarrow> nat \<Rightarrow> nat \<Rightarrow> u32 list \<Rightarrow> 'a fsys_scheme \<Rightarrow> (u32 list option \<times> 'a fsys_scheme) res" where
  "grow_loop sit a idx 0 all_blocks s = Inr (Some all_blocks, s)"
| "grow_loop sit a idx (Suc n) all_blocks s =
     bnd (block_bitmap_alloc (cur_part s) s) (\<lambda>(block_lba, s).
     if block_lba = - 1 then Inr (None, s)
     else
       bnd (record_block sit a idx block_lba all_blocks s) (\<lambda>(all_blocks, s).
       bnd (bitmap_sync (cur_part s) (block_lba - data_start_lba (sb (parts s (cur_part s)))) BLOCK_BITMAP s) (\<lambda>s.
       grow_loop sit a (Suc idx) n all_blocks s)))"

text \<open>The first block of a file that has none.\<close>

definition first_block :: "u32 \<Rightarrow> 'a fsys_scheme \<Rightarrow> (bool \<times> 'a fsys_scheme) res" where
  "first_block a s =
     (if i_sectors (inodes s a) ! 0 = 0 then
        bnd (block_bitmap_alloc (cur_part s) s) (\<lambda>(block_lba, s).
        if block_lba = - 1 then Inr (False, s)
        else
          let s = set_sector a 0 block_lba s;
              idx = block_lba - data_start_lba (sb (parts s (cur_part s))) in
          bnd (ASSERT (idx \<noteq> 0)) (\<lambda>_.
          bnd (bitmap_sync (cur_part s) idx BLOCK_BITMAP s) (\<lambda>s. Inr (True, s))))
      else Inr (True, s))"

definition read_table :: "u32 \<Rightarrow> u32 list \<Rightarrow> 'a fsys_scheme \<Rightarrow> u32 list res" where
  "read_table table all_blocks s =
     bnd (disk_read (my_disk (parts s (cur_part s))) table 1 s) (\<lambda>b.
     Inr (take 12 all_blocks @ bytes_words 128 b))"

definition write_table :: "u32 \<Rightarrow> u32 list \<Rightarrow> 'a fsys_scheme \<Rightarrow> 'a fsys_scheme res" where
  "write_table table all_blocks s =
     disk_write (my_disk (parts s (cur_part s))) table (words_bytes (drop 12 all_blocks)) 1 s"

text \<open>Collecting the addresses of the blocks that are written, with the new blocks.\<close>

definition collect_blocks :: "u32 \<Rightarrow> nat \<Rightarrow> nat \<Rightarrow> 'a fsys_scheme \<Rightarrow> (u32 list option \<times> 'a fsys_scheme) res" where
  "collect_blocks a has will s =
     (let all_blocks = replicate 140 0; sects = i_sectors (inodes s a) in
      if will = has then
        if will \<le> 12 then Inr (Some (all_blocks[has - 1 := sects ! (has - 1)]), s)
        else
          bnd (ASSERT (sects ! 12 \<noteq> 0)) (\<lambda>_.
          bnd (read_table (sects ! 12) all_blocks s) (\<lambda>all_blocks. Inr (Some all_blocks, s)))
      else if will \<le> 12 then
        bnd (ASSERT (sects ! (has - 1) \<noteq> 0)) (\<lambda>_.
        grow_loop Direct a has (will - has) (all_blocks[has - 1 := sects ! (has - 1)]) s)
      else if has \<le> 12 then
        let all_blocks = all_blocks[has - 1 := sects ! (has - 1)] in
        bnd (block_bitmap_alloc (cur_part s) s) (\<lambda>(table, s).
        if table = - 1 then Inr (None, s)
        else
          bnd (ASSERT (i_sectors (inodes s a) ! 12 = 0)) (\<lambda>_.
          bnd (grow_loop Crossing a has (will - has) all_blocks (set_sector a 12 table s)) (\<lambda>(r, s).
          case r of None \<Rightarrow> Inr (None, s)
          | Some all_blocks \<Rightarrow> bnd (write_table table all_blocks s) (\<lambda>s. Inr (Some all_blocks, s)))))
      else
        bnd (ASSERT (sects ! 12 \<noteq> 0)) (\<lambda>_.
        bnd (read_table (sects ! 12) all_blocks s) (\<lambda>all_blocks.
        bnd (grow_loop Indirect a has (will - has) all_blocks s) (\<lambda>(r, s).
        case r of None \<Rightarrow> Inr (None, s)
        | Some all_blocks \<Rightarrow> bnd (write_table (sects ! 12) all_blocks s) (\<lambda>s. Inr (Some all_blocks, s))))))"

text \<open>The loop that writes \<open>src\<close>; the first sector is read before it is written.\<close>

function write_loop :: "u32 \<Rightarrow> u32 list \<Rightarrow> bool \<Rightarrow> bytes \<Rightarrow> 'a fsys_scheme \<Rightarrow> 'a fsys_scheme res" where
  "write_loop a all_blocks first_write src s =
     (if src = [] then Inr s
      else
        let size_now = unat (i_size (inodes s a));
            sec_idx = size_now div 512;
            sec_off_bytes = size_now mod 512;
            sec_left_bytes = 512 - sec_off_bytes;
            chunk_size = min (length src) sec_left_bytes;
            dk = my_disk (parts s (cur_part s)) in
        bnd (defined (sec_idx < length all_blocks)) (\<lambda>_.
        let sec_lba = all_blocks ! sec_idx in
        bnd (if first_write then disk_read dk sec_lba 1 s else Inr (replicate 512 0)) (\<lambda>io_buf.
        bnd (disk_write dk sec_lba (patch io_buf sec_off_bytes (take chunk_size src)) 1 s) (\<lambda>s.
        write_loop a all_blocks False (drop chunk_size src)
          (upd_inode a (\<lambda>i. i\<lparr>i_size := i_size i + of_nat chunk_size\<rparr>) s)))))"
  by pat_completeness auto
termination
  by (relation "measure (\<lambda>(a, all_blocks, first_write, src, s). length src)") (auto simp: min_def)

declare write_loop.simps [simp del]

definition file_write :: "nat \<Rightarrow> bytes \<Rightarrow> u32 \<Rightarrow> 'a fsys_scheme \<Rightarrow> (u32 \<times> 'a fsys_scheme) res" where
  "file_write f buf count s =
     (let a = fd_inode (file_table s ! f) in
      bnd (defined (a \<noteq> 0)) (\<lambda>_.
      if i_size (inodes s a) + count > BLOCK_SIZE * 140 then Inr (- 1, s)
      else
        let (io_buf, s) = fs_malloc s in
        if io_buf = 0 then Inr (- 1, s)
        else
          let (all_blocks_ptr, s) = fs_malloc s in
          if all_blocks_ptr = 0 then Inr (- 1, s)
          else
            bnd (first_block a s) (\<lambda>(ok, s).
            if \<not> ok then Inr (- 1, s)
            else
              let has = unat (i_size (inodes s a) div BLOCK_SIZE + 1);
                  will = unat ((i_size (inodes s a) + count) div BLOCK_SIZE + 1) in
              bnd (ASSERT (will \<le> 140)) (\<lambda>_.
              bnd (collect_blocks a has will s) (\<lambda>(r, s).
              case r of None \<Rightarrow> Inr (- 1, s)
              | Some all_blocks \<Rightarrow>
                  let s = upd_file f (\<lambda>x. x\<lparr>fd_pos := i_size (inodes s a) - 1\<rparr>) s in
                  bnd (defined (unat count \<le> length buf)) (\<lambda>_.
                  bnd (write_loop a all_blocks True (take (unat count) buf) s) (\<lambda>s.
                  bnd (inode_sync (cur_part s) (inodes s a) 512 s) (\<lambda>s.
                  bnd (fs_free all_blocks_ptr s) (\<lambda>s.
                  bnd (fs_free io_buf s) (\<lambda>s.
                  Inr (count, s)))))))))))"

section \<open>Reading\<close>

text \<open>\<open>all_blocks[k] = i_sectors[k]\<close> for the indices from \<open>lo\<close> below \<open>hi\<close>.\<close>

definition fill_direct :: "u32 list \<Rightarrow> nat \<Rightarrow> nat \<Rightarrow> u32 list \<Rightarrow> u32 list" where
  "fill_direct sects lo hi all_blocks = fold (\<lambda>k xs. xs[k := sects ! k]) [lo..<hi] all_blocks"

definition read_blocks :: "u32 \<Rightarrow> nat \<Rightarrow> nat \<Rightarrow> 'a fsys_scheme \<Rightarrow> u32 list res" where
  "read_blocks a start final s =
     (let all_blocks = replicate 140 0; sects = i_sectors (inodes s a) in
      if start = final then
        if final < 12 then Inr (all_blocks[final := sects ! final])
        else read_table (sects ! 12) all_blocks s
      else if final < 12 then Inr (fill_direct sects start (Suc final) all_blocks)
      else if start < 12 then
        bnd (ASSERT (sects ! 12 \<noteq> 0)) (\<lambda>_. read_table (sects ! 12) (fill_direct sects start 12 all_blocks) s)
      else
        bnd (ASSERT (sects ! 12 \<noteq> 0)) (\<lambda>_. read_table (sects ! 12) all_blocks s))"

text \<open>The loop that reads \<open>n\<close> bytes; \<open>memset\<close> panics when \<open>io_buf\<close> is NULL.\<close>

function read_loop :: "nat \<Rightarrow> u32 \<Rightarrow> u32 list \<Rightarrow> nat \<Rightarrow> 'a fsys_scheme \<Rightarrow> (bytes \<times> 'a fsys_scheme) res" where
  "read_loop f io_buf all_blocks n s =
     (if n = 0 then Inr ([], s)
      else
        let pos = unat (fd_pos (file_table s ! f));
            sec_idx = pos div 512;
            sec_off_bytes = pos mod 512;
            sec_left_bytes = 512 - sec_off_bytes;
            chunk_size = min n sec_left_bytes in
        bnd (ASSERT (io_buf \<noteq> 0)) (\<lambda>_.
        bnd (defined (sec_idx < length all_blocks)) (\<lambda>_.
        bnd (disk_read (my_disk (parts s (cur_part s))) (all_blocks ! sec_idx) 1 s) (\<lambda>buf.
        bnd (read_loop f io_buf all_blocks (n - chunk_size) (upd_file f (\<lambda>x. x\<lparr>fd_pos := fd_pos x + of_nat chunk_size\<rparr>) s)) (\<lambda>(out, s).
        Inr (take chunk_size (drop sec_off_bytes buf) @ out, s))))))"
  by pat_completeness auto
termination
  by (relation "measure (\<lambda>(f, io_buf, all_blocks, n, s). n)") (auto simp: min_def)

declare read_loop.simps [simp del]

text \<open>The result is the value returned and what was put into \<open>buf\<close>.\<close>

definition file_read :: "nat \<Rightarrow> u32 \<Rightarrow> 'a fsys_scheme \<Rightarrow> (u32 \<times> bytes \<times> 'a fsys_scheme) res" where
  "file_read f count s =
     (let x = file_table s ! f; a = fd_inode x; len = i_size (inodes s a);
          size_left = (if fd_pos x + count > len then len - fd_pos x else count) in
      bnd (defined (a \<noteq> 0)) (\<lambda>_.
      if fd_pos x + count > len \<and> size_left = 0 then Inr (- 1, [], s)
      else
        let (io_buf, s) = fs_malloc s;
            (all_blocks_ptr, s) = fs_malloc s in
        if all_blocks_ptr = 0 then Inr (- 1, [], s)
        else
          let start = unat (fd_pos x div BLOCK_SIZE); final = unat ((fd_pos x + size_left) div BLOCK_SIZE) in
          bnd (ASSERT (start < 139 \<and> final < 139)) (\<lambda>_.
          bnd (read_blocks a start final s) (\<lambda>all_blocks.
          bnd (read_loop f io_buf all_blocks (unat size_left) s) (\<lambda>(out, s).
          bnd (fs_free all_blocks_ptr s) (\<lambda>s.
          bnd (fs_free io_buf s) (\<lambda>s.
          Inr (of_nat (length out), out, s))))))))"

end
