(* ===== verification/Fs.thy ===== *)
theory Fs
  imports File
begin

text \<open>
  The file system's calls (fs/fs.c): paths, looking up a path, the system calls on files and
  directories, and formatting, mounting and starting the file system. A path is the list of its
  bytes without the NUL; a buffer of a name has 16 bytes. \<open>47\<close> is the character \<open>'/'\<close>, \<open>46\<close> is \<open>'.'\<close>.
\<close>

section \<open>Paths\<close>

text \<open>\<open>path_parse\<close> copies one component into the buffer, which it neither bounds nor ends with a NUL, and
  returns the rest of the path, None at its end.\<close>

definition path_parse :: "bytes \<Rightarrow> bytes \<Rightarrow> (bytes option \<times> bytes) res" where
  "path_parse pathname name_store =
     (let p = dropWhile (\<lambda>c. c = 47) pathname;
          name = takeWhile (\<lambda>c. c \<noteq> 47) p;
          rest = dropWhile (\<lambda>c. c \<noteq> 47) p in
      bnd (defined (length name \<le> length name_store)) (\<lambda>_.
      Inr (if rest = [] then None else Some rest, patch name_store 0 name)))"

lemma bnd_cong [fundef_cong]: "r = r' \<Longrightarrow> (\<And>x. r' = Inr x \<Longrightarrow> f x = g x) \<Longrightarrow> bnd r f = bnd r' g"
  by (cases r') auto

lemma path_parse_shorter:
  assumes "path_parse q name = Inr (Some r, name')"
  shows "length r < length q"
proof -
  let ?p = "dropWhile (\<lambda>c. c = 47) q"
  have "(if dropWhile (\<lambda>c. c \<noteq> 47) ?p = [] then None else Some (dropWhile (\<lambda>c. c \<noteq> 47) ?p)) = Some r"
    using assms unfolding path_parse_def Let_def bnd_eq_Inr sum.inject prod.inject by blast
  then have r: "r = dropWhile (\<lambda>c. c \<noteq> 47) ?p" "dropWhile (\<lambda>c. c \<noteq> 47) ?p \<noteq> []"
    by (metis option.distinct(1) option.inject)+
  show ?thesis
  proof (cases ?p)
    case Nil
    have "dropWhile (\<lambda>c. c \<noteq> 47) ([] :: bytes) \<noteq> []" using r(2) unfolding Nil .
    then show ?thesis by simp
  next
    case (Cons c cs)
    have "c \<noteq> 47" using hd_dropWhile [of "\<lambda>c. c = 47" q] Cons by simp
    then have "length r \<le> length cs" using r(1) length_dropWhile_le [of "\<lambda>c. c \<noteq> 47" cs] unfolding Cons by simp
    then show ?thesis using length_dropWhile_le [of "\<lambda>c. c = 47" q] unfolding Cons by simp
  qed
qed

text \<open>After the last component the name stays empty and the loop ends.\<close>

function depth_loop :: "bytes option \<Rightarrow> bytes \<Rightarrow> u32 \<Rightarrow> u32 res" where
  "depth_loop p name depth =
     (if name ! 0 = 0 then Inr depth
      else case p of
        None \<Rightarrow> Inr (depth + 1)
      | Some q \<Rightarrow>
          bnd (path_parse q (replicate MAX_FILE_NAME_LEN 0)) (\<lambda>r. depth_loop (fst r) (snd r) (depth + 1)))"
  by pat_completeness auto
termination
proof (relation "measure (\<lambda>(p, name, depth). case p of None \<Rightarrow> 0 | Some q \<Rightarrow> Suc (length q))")
  fix p and name :: bytes and depth :: u32 and q x
  assume "p = Some q" "path_parse q (replicate MAX_FILE_NAME_LEN 0) = Inr x"
  then show "((fst x, snd x, depth + 1), p, name, depth) \<in> measure (\<lambda>(p, name, depth). case p of None \<Rightarrow> 0 | Some q \<Rightarrow> Suc (length q))"
    using path_parse_shorter [of q "replicate MAX_FILE_NAME_LEN 0" _ "snd x"]
    by (cases x; cases "fst x") auto
qed simp

declare depth_loop.simps [simp del]

text \<open>\<open>name\<close> is not initialised: \<open>g\<close> is what the stack holds.\<close>

definition path_depth_cnt :: "bytes \<Rightarrow> bytes \<Rightarrow> u32 res" where
  "path_depth_cnt g pathname =
     bnd (path_parse pathname (take MAX_FILE_NAME_LEN g)) (\<lambda>(p, name). depth_loop p name 0)"

record path_search_record =
  searched_path :: bytes
  parent_dir :: u32
  file_type :: u32

definition no_search :: path_search_record where
  "no_search = \<lparr>searched_path = [], parent_dir = 0, file_type = FT_UNKNOWN\<rparr>"

text \<open>The loop of \<open>search_file\<close>; the part after it is \<open>found_dir\<close>.\<close>

definition found_dir :: "u32 \<Rightarrow> bytes \<Rightarrow> path_search_record \<Rightarrow> 'a fsys_scheme \<Rightarrow> (u32 \<times> path_search_record \<times> 'a fsys_scheme) res" where
  "found_dir parent_inode_no dir_e r s =
     bnd (dir_close (parent_dir r) s) (\<lambda>s.
     bnd (dir_open (cur_part s) parent_inode_no s) (\<lambda>(d, s).
     Inr (de_i_no dir_e, r\<lparr>parent_dir := d, file_type := FT_DIRECTORY\<rparr>, s)))"

definition next_name :: "bytes option \<Rightarrow> (bytes option \<times> bytes) res" where
  "next_name sub_path =
     (case sub_path of None \<Rightarrow> Inr (None, replicate MAX_FILE_NAME_LEN 0)
      | Some q \<Rightarrow> path_parse q (replicate MAX_FILE_NAME_LEN 0))"

definition name_rank :: "bytes option \<Rightarrow> bytes \<Rightarrow> nat" where
  "name_rank sub_path name = (case sub_path of None \<Rightarrow> if name ! 0 = 0 then 0 else 1 | Some q \<Rightarrow> length q + 2)"

lemma next_name_rank:
  assumes "next_name sub = Inr x" and "name ! 0 \<noteq> 0"
  shows "name_rank (fst x) (snd x) < name_rank sub name"
proof (cases sub)
  case None
  then have "x = (None, replicate 16 0)" using assms(1) by (simp add: next_name_def MAX_FILE_NAME_LEN_def)
  then show ?thesis using None assms(2) by (simp add: name_rank_def)
next
  case (Some q)
  then have "path_parse q (replicate MAX_FILE_NAME_LEN 0) = Inr (fst x, snd x)" using assms(1) by (simp add: next_name_def)
  then show ?thesis using Some path_parse_shorter [of q] by (cases "fst x") (auto simp: name_rank_def)
qed

function search_loop :: "bytes option \<Rightarrow> bytes \<Rightarrow> u32 \<Rightarrow> u32 \<Rightarrow> bytes \<Rightarrow> path_search_record \<Rightarrow> 'a fsys_scheme \<Rightarrow>
    (u32 \<times> path_search_record \<times> 'a fsys_scheme) res" where
  "search_loop sub_path name dir parent_inode_no dir_e r s =
     (if name ! 0 = 0 then found_dir parent_inode_no dir_e r s
      else
        bnd (ASSERT (length (searched_path r) < 512)) (\<lambda>_.
        bnd (cstr_of name) (\<lambda>str.
        let r = r\<lparr>searched_path := searched_path r @ 47 # str\<rparr> in
        bnd (defined (length (searched_path r) < MAX_PATH_LEN)) (\<lambda>_.
        bnd (search_dir_entry (cur_part s) dir str dir_e s) (\<lambda>y.
        case fst y of
          None \<Rightarrow> Inr (- 1, r, snd y)
        | Some e \<Rightarrow>
            bnd (next_name sub_path) (\<lambda>z.
            if de_f_type e = FT_DIRECTORY then
              let s = snd y; parent_inode_no = i_no (inodes s (dir_inode (dirs s dir))) in
              bnd (dir_close dir s) (\<lambda>s.
              bnd (dir_open (cur_part s) (de_i_no e) s) (\<lambda>w.
              search_loop (fst z) (snd z) (fst w) parent_inode_no e (r\<lparr>parent_dir := fst w\<rparr>) (snd w)))
            else if de_f_type e = FT_REGULAR then Inr (de_i_no e, r\<lparr>file_type := FT_REGULAR\<rparr>, snd y)
            else search_loop (fst z) (snd z) dir parent_inode_no e r (snd y)))))))"
  by pat_completeness auto
termination
  by (relation "measure (\<lambda>(sub_path, name, dir, parent_inode_no, dir_e, r, s). name_rank sub_path name)")
    (auto intro: next_name_rank)

declare search_loop.simps [simp del]

text \<open>\<open>"/"\<close>, \<open>"/."\<close> and \<open>"/.."\<close> are the root directory; \<open>dir_e\<close> is not initialised.\<close>

definition search_file :: "bytes \<Rightarrow> path_search_record \<Rightarrow> 'a fsys_scheme \<Rightarrow> (u32 \<times> path_search_record \<times> 'a fsys_scheme) res" where
  "search_file pathname r s =
     (if pathname = [47] \<or> pathname = [47, 46] \<or> pathname = [47, 46, 46] then
        Inr (0, r\<lparr>parent_dir := root_dir s, file_type := FT_DIRECTORY, searched_path := []\<rparr>, s)
      else
        bnd (ASSERT (pathname \<noteq> [] \<and> hd pathname = 47 \<and> length pathname > 1 \<and> length pathname < MAX_PATH_LEN)) (\<lambda>_.
        bnd (path_parse pathname (replicate MAX_FILE_NAME_LEN 0)) (\<lambda>(sub_path, name).
        search_loop sub_path name (root_dir s) 0 (take sizeof_dir_entry (junk s))
          (r\<lparr>parent_dir := root_dir s, file_type := FT_UNKNOWN\<rparr>) s)))"

text \<open>\<open>strrchr(p, '/') + 1\<close>.\<close>

definition after_slash :: "bytes \<Rightarrow> bytes" where
  "after_slash p = rev (takeWhile (\<lambda>c. c \<noteq> 47) (rev p))"

section \<open>Calls on files\<close>

definition sys_open :: "bytes \<Rightarrow> u8 \<Rightarrow> 'a fsys_scheme \<Rightarrow> (u32 \<times> 'a fsys_scheme) res" where
  "sys_open pathname flags s =
     bnd (defined (pathname \<noteq> [])) (\<lambda>_.
     if last pathname = 47 then Inr (- 1, s)
     else
       bnd (ASSERT (flags \<le> 7)) (\<lambda>_.
       bnd (path_depth_cnt (junk s) pathname) (\<lambda>pathname_depth.
       bnd (search_file pathname no_search s) (\<lambda>(inode_no, r, s).
       let found = inode_no \<noteq> - 1; creat = ucast flags AND O_CREAT \<noteq> 0 in
       if file_type r = FT_DIRECTORY then bnd (dir_close (parent_dir r) s) (\<lambda>s. Inr (- 1, s))
       else
         bnd (path_depth_cnt (junk s) (searched_path r)) (\<lambda>path_searched_depth.
         if pathname_depth \<noteq> path_searched_depth then bnd (dir_close (parent_dir r) s) (\<lambda>s. Inr (- 1, s))
         else if \<not> found \<and> \<not> creat then bnd (dir_close (parent_dir r) s) (\<lambda>s. Inr (- 1, s))
         else if found \<and> creat then bnd (dir_close (parent_dir r) s) (\<lambda>s. Inr (- 1, s))
         else if creat then
           bnd (file_create (parent_dir r) (after_slash pathname) flags s) (\<lambda>(fd, s).
           bnd (dir_close (parent_dir r) s) (\<lambda>s. Inr (fd, s)))
         else file_open inode_no flags s)))))"

definition fd_local2global :: "u32 \<Rightarrow> 'a fsys_scheme \<Rightarrow> nat res" where
  "fd_local2global local_fd s =
     bnd (defined (unat local_fd < MAX_FILES_OPEN_PER_PROC)) (\<lambda>_.
     let global_fd = fd_table (tasks s (running_thread s)) ! unat local_fd in
     bnd (ASSERT (sint global_fd \<ge> 0 \<and> sint global_fd < int MAX_FILE_OPEN)) (\<lambda>_.
     Inr (unat global_fd)))"

definition sys_close :: "u32 \<Rightarrow> 'a fsys_scheme \<Rightarrow> (u32 \<times> 'a fsys_scheme) res" where
  "sys_close fd s =
     (if sint fd > 2 then
        bnd (fd_local2global fd s) (\<lambda>g.
        bnd (file_close (Some g) s) (\<lambda>(ret, s).
        Inr (ret, upd_task (running_thread s) (\<lambda>t. t\<lparr>fd_table := (fd_table t)[unat fd := - 1]\<rparr>) s)))
      else Inr (- 1, s))"

text \<open>Standard output is copied through an array of 1024 bytes that is not bounded, and printed as a string; the
  message for a file that is not open for writing goes to the console too.\<close>

definition not_allowed :: bytes where
  "not_allowed = map of_char ''sys_write: not allowed to write file without flag O_RDWR or O_WRONLY'' @ [10]"

definition sys_write :: "u32 \<Rightarrow> bytes \<Rightarrow> u32 \<Rightarrow> 'a fsys_scheme \<Rightarrow> (u32 \<times> 'a fsys_scheme) res" where
  "sys_write fd buf count s =
     (if sint fd < 0 then Inr (- 1, s)
      else if fd = 1 then
        bnd (defined (unat count \<le> 1024 \<and> unat count \<le> length buf)) (\<lambda>_.
        bnd (cstr_of (patch (replicate 1024 0) 0 (take (unat count) buf))) (\<lambda>str.
        Inr (count, s\<lparr>console_out := console_out s @ str\<rparr>)))
      else
        bnd (fd_local2global fd s) (\<lambda>g.
        let flag = fd_flag (file_table s ! g) in
        if flag AND O_WRONLY \<noteq> 0 \<or> flag AND O_RDWR \<noteq> 0 then file_write g buf count s
        else Inr (- 1, s\<lparr>console_out := console_out s @ not_allowed\<rparr>)))"

text \<open>The buffer is not NULL.\<close>

definition sys_read :: "u32 \<Rightarrow> u32 \<Rightarrow> 'a fsys_scheme \<Rightarrow> (u32 \<times> bytes \<times> 'a fsys_scheme) res" where
  "sys_read fd count s =
     (if sint fd < 0 then Inr (- 1, [], s)
      else bnd (fd_local2global fd s) (\<lambda>g. file_read g count s))"

definition sys_lseek :: "u32 \<Rightarrow> u32 \<Rightarrow> u8 \<Rightarrow> 'a fsys_scheme \<Rightarrow> (u32 \<times> 'a fsys_scheme) res" where
  "sys_lseek fd offset whence s =
     (if sint fd < 0 then Inr (- 1, s)
      else
        bnd (ASSERT (whence > 0 \<and> whence < 4)) (\<lambda>_.
        bnd (fd_local2global fd s) (\<lambda>g.
        let pf = file_table s ! g; file_size = i_size (inodes s (fd_inode pf)) in
        bnd (defined (fd_inode pf \<noteq> 0)) (\<lambda>_.
        let new_pos = (if whence = 1 then offset else if whence = 2 then fd_pos pf + offset else file_size + offset) in
        if sint new_pos < 0 \<or> sint new_pos > sint (file_size - 1) then Inr (- 1, s)
        else Inr (new_pos, upd_file g (\<lambda>x. x\<lparr>fd_pos := new_pos\<rparr>) s)))))"

definition sys_unlink :: "bytes \<Rightarrow> 'a fsys_scheme \<Rightarrow> (u32 \<times> 'a fsys_scheme) res" where
  "sys_unlink pathname s =
     bnd (ASSERT (length pathname < MAX_PATH_LEN)) (\<lambda>_.
     bnd (search_file pathname no_search s) (\<lambda>(inode_no, r, s).
     bnd (ASSERT (inode_no \<noteq> 0)) (\<lambda>_.
     let fail = bnd (dir_close (parent_dir r) s) (\<lambda>s. Inr (- 1, s)) in
     if inode_no = - 1 then fail
     else if file_type r = FT_DIRECTORY then fail
     else if \<exists>k \<in> {0..<MAX_FILE_OPEN}. fd_inode (file_table s ! k) \<noteq> 0 \<and>
               inode_no = i_no (inodes s (fd_inode (file_table s ! k))) then fail
     else
       let (io_buf, s) = fs_malloc s in
       if io_buf = 0 then bnd (dir_close (parent_dir r) s) (\<lambda>s. Inr (- 1, s))
       else
         bnd (delete_dir_entry (cur_part s) (parent_dir r) inode_no s) (\<lambda>(_, s).
         bnd (inode_release (cur_part s) inode_no s) (\<lambda>s.
         bnd (fs_free io_buf s) (\<lambda>s.
         bnd (dir_close (parent_dir r) s) (\<lambda>s.
         Inr (0, s))))))))"

section \<open>Calls on directories\<close>

text \<open>\<open>rollback\<close> of \<open>sys_mkdir\<close>: step 2 gives the number of the inode back, then as step 1.\<close>

definition rollback_mkdir :: "nat \<Rightarrow> u32 \<Rightarrow> u32 \<Rightarrow> u32 \<Rightarrow> 'a fsys_scheme \<Rightarrow> (u32 \<times> 'a fsys_scheme) res" where
  "rollback_mkdir step parent inode_no io_buf s =
     bnd (if step = 2 then
            bnd (bitmap_set (inode_bitmap (parts s (cur_part s))) inode_no 0) (\<lambda>b.
            Inr (upd_part (cur_part s) (\<lambda>q. q\<lparr>inode_bitmap := b\<rparr>) s))
          else Inr s) (\<lambda>s.
     bnd (dir_close parent s) (\<lambda>s.
     bnd (fs_free io_buf s) (\<lambda>s. Inr (- 1, s))))"

text \<open>The entries \<open>"."\<close> and \<open>".."\<close> at the start of a zeroed buffer of \<open>n\<close> bytes.\<close>

definition dot_entries :: "u32 \<Rightarrow> u32 \<Rightarrow> nat \<Rightarrow> bytes" where
  "dot_entries self parent n =
     (let buf = replicate n 0;
          buf = patch (patch (patch buf 0 [46]) 16 (le32 self)) 20 (le32 FT_DIRECTORY);
          buf = patch (patch (patch buf 24 [46, 46]) 40 (le32 parent)) 44 (le32 FT_DIRECTORY)
      in buf)"

definition sys_mkdir :: "bytes \<Rightarrow> 'a fsys_scheme \<Rightarrow> (u32 \<times> 'a fsys_scheme) res" where
  "sys_mkdir pathname s =
     (let (io_buf, s) = fs_malloc s in
      if io_buf = 0 then Inr (- 1, s)
      else
        bnd (search_file pathname no_search s) (\<lambda>(inode_no, r, s).
        if inode_no \<noteq> - 1 then rollback_mkdir 1 (parent_dir r) 0 io_buf s
        else
          bnd (path_depth_cnt (junk s) pathname) (\<lambda>pathname_depth.
          bnd (path_depth_cnt (junk s) (searched_path r)) (\<lambda>path_searched_depth.
          if pathname_depth \<noteq> path_searched_depth then rollback_mkdir 1 (parent_dir r) 0 io_buf s
          else
            let parent = parent_dir r; dirname = after_slash (searched_path r); p = cur_part s in
            bnd (inode_bitmap_alloc p s) (\<lambda>(inode_no, s).
            if inode_no = - 1 then rollback_mkdir 1 parent 0 io_buf s
            else
              bnd (block_bitmap_alloc p s) (\<lambda>(block_lba, s).
              if block_lba = - 1 then rollback_mkdir 2 parent inode_no io_buf s
              else
                let block_bitmap_idx = block_lba - data_start_lba (sb (parts s p)) in
                bnd (ASSERT (block_bitmap_idx \<noteq> 0)) (\<lambda>_.
                bnd (bitmap_sync p block_bitmap_idx BLOCK_BITMAP s) (\<lambda>s.
                let parent_no = i_no (inodes s (dir_inode (dirs s parent)));
                    buf = dot_entries inode_no parent_no 1024 in
                bnd (disk_write (my_disk (parts s p)) block_lba buf 1 s) (\<lambda>s.
                let new_dir_inode = (inode_init inode_no)\<lparr>i_sectors := (replicate 13 0)[0 := block_lba],
                      i_size := 2 * dir_entry_size (sb (parts s p))\<rparr> in
                bnd (create_dir_entry dirname inode_no (ucast FT_DIRECTORY) (replicate sizeof_dir_entry 0)) (\<lambda>new_dir_entry.
                bnd (sync_dir_entry parent new_dir_entry s) (\<lambda>(ok, s).
                if \<not> ok then rollback_mkdir 2 parent inode_no io_buf s
                else
                  bnd (inode_sync p (inodes s (dir_inode (dirs s parent))) 1024 s) (\<lambda>s.
                  bnd (inode_sync p new_dir_inode 1024 s) (\<lambda>s.
                  bnd (bitmap_sync p inode_no INODE_BITMAP s) (\<lambda>s.
                  bnd (fs_free io_buf s) (\<lambda>s.
                  bnd (dir_close parent s) (\<lambda>s.
                  Inr (0, s)))))))))))))))))"

text \<open>The test for the root compares \<open>name[0]\<close>, not \<open>name[1]\<close>, with \<open>'.'\<close>, so it only knows \<open>"/"\<close>.\<close>

definition sys_opendir :: "bytes \<Rightarrow> 'a fsys_scheme \<Rightarrow> (u32 \<times> 'a fsys_scheme) res" where
  "sys_opendir name s =
     bnd (ASSERT (length name < MAX_PATH_LEN)) (\<lambda>_.
     if name \<noteq> [] \<and> hd name = 47 \<and> (length name = 1 \<or> hd name = 46) then Inr (root_dir s, s)
     else
       bnd (search_file name no_search s) (\<lambda>(inode_no, r, s).
       bnd (if inode_no = - 1 then Inr (0, s)
            else if file_type r = FT_REGULAR then Inr (0, s)
            else if file_type r = FT_DIRECTORY then dir_open (cur_part s) inode_no s
            else Inr (0, s)) (\<lambda>(ret, s).
       bnd (dir_close (parent_dir r) s) (\<lambda>s. Inr (ret, s)))))"

definition sys_closedir :: "u32 \<Rightarrow> 'a fsys_scheme \<Rightarrow> (u32 \<times> 'a fsys_scheme) res" where
  "sys_closedir d s = (if d \<noteq> 0 then bnd (dir_close d s) (\<lambda>s. Inr (0, s)) else Inr (- 1, s))"

definition sys_readdir :: "u32 \<Rightarrow> 'a fsys_scheme \<Rightarrow> (nat option \<times> 'a fsys_scheme) res" where
  "sys_readdir d s = bnd (ASSERT (d \<noteq> 0)) (\<lambda>_. dir_read d s)"

definition sys_rewinddir :: "u32 \<Rightarrow> 'a fsys_scheme \<Rightarrow> 'a fsys_scheme" where
  "sys_rewinddir d = upd_dir d (\<lambda>x. x\<lparr>dir_pos := 0\<rparr>)"

definition sys_rmdir :: "bytes \<Rightarrow> 'a fsys_scheme \<Rightarrow> (u32 \<times> 'a fsys_scheme) res" where
  "sys_rmdir pathname s =
     bnd (search_file pathname no_search s) (\<lambda>(inode_no, r, s).
     bnd (ASSERT (inode_no \<noteq> 0)) (\<lambda>_.
     bnd (if inode_no = - 1 then Inr (- 1, s)
          else
            bnd (dir_open (cur_part s) inode_no s) (\<lambda>(d, s).
            bnd (if \<not> dir_is_empty d s then Inr (- 1, s)
                 else bnd (dir_remove (parent_dir r) d s) (\<lambda>(x, s). Inr (if x = 0 then 0 else - 1, s))) (\<lambda>(ret, s).
            bnd (dir_close d s) (\<lambda>s. Inr (ret, s))))) (\<lambda>(ret, s).
     bnd (dir_close (parent_dir r) s) (\<lambda>s. Inr (ret, s)))))"

definition get_parent_dir_inode_nr :: "u32 \<Rightarrow> 'a fsys_scheme \<Rightarrow> (u32 \<times> 'a fsys_scheme) res" where
  "get_parent_dir_inode_nr child_inode_nr s =
     (let p = cur_part s in
      bnd (inode_open p child_inode_nr s) (\<lambda>(a, s).
      let block_lba = i_sectors (inodes s a) ! 0 in
      bnd (ASSERT (block_lba \<ge> data_start_lba (sb (parts s p)))) (\<lambda>_.
      bnd (inode_close a s) (\<lambda>s.
      bnd (disk_read (my_disk (parts s p)) block_lba 1 s) (\<lambda>io_buf.
      let e = entry_at io_buf 1 in
      bnd (ASSERT (de_i_no e < 4096 \<and> de_f_type e = FT_DIRECTORY)) (\<lambda>_.
      Inr (de_i_no e, s)))))))"

fun name_in_sector :: "bytes \<Rightarrow> u32 \<Rightarrow> nat \<Rightarrow> nat \<Rightarrow> bytes option res" where
  "name_in_sector buf inode_nr idx 0 = Inr None"
| "name_in_sector buf inode_nr idx (Suc n) =
     bnd (defined (sizeof_dir_entry * Suc idx \<le> length buf)) (\<lambda>_.
     if de_i_no (entry_at buf idx) = inode_nr then
       bnd (cstr_of (entry_at buf idx)) (\<lambda>name. Inr (Some name))
     else name_in_sector buf inode_nr (Suc idx) n)"

fun name_in_blocks :: "nat \<Rightarrow> nat \<Rightarrow> u32 \<Rightarrow> u32 list \<Rightarrow> 'a fsys_scheme \<Rightarrow> bytes option res" where
  "name_in_blocks dk cnt inode_nr [] s = Inr None"
| "name_in_blocks dk cnt inode_nr (b # bs) s =
     (if b = 0 then name_in_blocks dk cnt inode_nr bs s
      else
        bnd (disk_read dk b 1 s) (\<lambda>buf.
        bnd (name_in_sector buf inode_nr 0 cnt) (\<lambda>r.
        case r of Some name \<Rightarrow> Inr (Some name) | None \<Rightarrow> name_in_blocks dk cnt inode_nr bs s)))"

text \<open>The result is the new content of \<open>path\<close>, a string in a buffer of 512 bytes; None stands for the result -1.\<close>

definition get_child_dir_name :: "u32 \<Rightarrow> u32 \<Rightarrow> bytes \<Rightarrow> 'a fsys_scheme \<Rightarrow> (bytes option \<times> 'a fsys_scheme) res" where
  "get_child_dir_name p_inode_nr c_inode_nr path s =
     (let p = cur_part s; dk = my_disk (parts s p); dsz = dir_entry_size (sb (parts s p)) in
      bnd (inode_open p p_inode_nr s) (\<lambda>(a, s).
      let sects = i_sectors (inodes s a) in
      bnd (if sects ! 12 \<noteq> 0 then bnd (disk_read dk (sects ! 12) 1 s) (\<lambda>b. Inr (bytes_words 128 b)) else Inr []) (\<lambda>indirect.
      bnd (inode_close a s) (\<lambda>s.
      bnd (defined (dsz \<noteq> 0)) (\<lambda>_.
      bnd (name_in_blocks dk (unat (512 div dsz)) c_inode_nr (take 12 sects @ indirect) s) (\<lambda>r.
      case r of None \<Rightarrow> Inr (None, s)
      | Some name \<Rightarrow>
          bnd (defined (length (path @ 47 # name) < MAX_PATH_LEN)) (\<lambda>_.
          Inr (Some (path @ 47 # name), s))))))))"

text \<open>From the directory up to the root; a cycle of parents is followed for ever.\<close>

partial_function (option) cwd_loop :: "u32 \<Rightarrow> bytes \<Rightarrow> 'a fsys_scheme \<Rightarrow> (bytes option \<times> 'a fsys_scheme) res option" where
  "cwd_loop child path s =
     (if child = 0 then Some (Inr (Some path, s))
      else
        case bnd (get_parent_dir_inode_nr child s) (\<lambda>(parent, s).
             bnd (get_child_dir_name parent child path s) (\<lambda>(r, s). Inr (parent, r, s))) of
          Inl e \<Rightarrow> Some (Inl e)
        | Inr x \<Rightarrow>
            (case fst (snd x) of None \<Rightarrow> Some (Inr (None, snd (snd x)))
             | Some path \<Rightarrow> cwd_loop (fst x) path (snd (snd x))))"

text \<open>The components of the path are appended in the opposite order; \<open>size\<close> bytes are there.\<close>

function reverse_path :: "nat \<Rightarrow> bytes \<Rightarrow> bytes \<Rightarrow> bytes res" where
  "reverse_path sz full buf =
     (if 47 \<in> set full then
        let suffix = after_slash full in
        bnd (defined (length buf + 1 + length suffix < sz)) (\<lambda>_.
        reverse_path sz (take (length full - 1 - length suffix) full) (buf @ 47 # suffix))
      else Inr buf)"
  by pat_completeness auto
termination
  by (relation "measure (\<lambda>(sz, full, buf). length full)") (auto simp: neq_Nil_conv dest: length_pos_if_in_set)

declare reverse_path.simps [simp del]

text \<open>The result is the string written to the buffer of \<open>sz\<close> bytes, None for NULL.\<close>

definition sys_getcwd :: "u32 \<Rightarrow> 'a fsys_scheme \<Rightarrow> (bytes option \<times> 'a fsys_scheme) res" where
  "sys_getcwd sz s =
     (let (io_buf, s) = fs_malloc s in
      if io_buf = 0 then Inr (None, s)
      else
        let child = cwd_inode_nr (tasks s (running_thread s)) in
        bnd (ASSERT (sint child \<ge> 0 \<and> sint child < 4096)) (\<lambda>_.
        if child = 0 then bnd (defined (2 \<le> unat sz)) (\<lambda>_. Inr (Some [47], s))
        else
          case cwd_loop child [] s of None \<Rightarrow> Inl Diverge
          | Some x \<Rightarrow>
              bnd x (\<lambda>(r, s).
              case r of None \<Rightarrow> bnd (fs_free io_buf s) (\<lambda>s. Inr (None, s))
              | Some full \<Rightarrow>
                  bnd (ASSERT (length full \<le> unat sz)) (\<lambda>_.
                  bnd (reverse_path (unat sz) full []) (\<lambda>buf.
                  bnd (fs_free io_buf s) (\<lambda>s.
                  Inr (Some buf, s)))))))"

definition sys_chdir :: "bytes \<Rightarrow> 'a fsys_scheme \<Rightarrow> (u32 \<times> 'a fsys_scheme) res" where
  "sys_chdir path s =
     bnd (search_file path no_search s) (\<lambda>(inode_no, r, s).
     let (ret, s) =
       (if inode_no \<noteq> - 1 \<and> file_type r = FT_DIRECTORY
        then (0, upd_task (running_thread s) (\<lambda>t. t\<lparr>cwd_inode_nr := inode_no\<rparr>) s) else (- 1, s)) in
     bnd (dir_close (parent_dir r) s) (\<lambda>s. Inr (ret, s)))"

record stat =
  st_ino :: u32
  st_size :: u32
  st_filetype :: u32

definition sys_stat :: "bytes \<Rightarrow> stat \<Rightarrow> 'a fsys_scheme \<Rightarrow> (u32 \<times> stat \<times> 'a fsys_scheme) res" where
  "sys_stat path buf s =
     (if path = [47] \<or> path = [47, 46] \<or> path = [47, 46, 46] then
        Inr (0, \<lparr>st_ino = 0, st_size = i_size (inodes s (dir_inode (dirs s (root_dir s)))), st_filetype = FT_DIRECTORY\<rparr>, s)
      else
        bnd (search_file path no_search s) (\<lambda>(inode_no, r, s).
        bnd (if inode_no \<noteq> - 1 then
               bnd (inode_open (cur_part s) inode_no s) (\<lambda>(a, s).
               Inr (0, \<lparr>st_ino = inode_no, st_size = i_size (inodes s a), st_filetype = file_type r\<rparr>, s))
             else Inr (- 1, buf, s)) (\<lambda>(ret, buf, s).
        bnd (dir_close (parent_dir r) s) (\<lambda>s. Inr (ret, buf, s)))))"

section \<open>Formatting, mounting, starting\<close>

definition MAX_FILES_PER_PART :: u32 where "MAX_FILES_PER_PART = 4096"
definition BITS_PER_SECTOR :: u32 where "BITS_PER_SECTOR = 4096"

text \<open>The super block that \<open>partition_format\<close> computes, with the number of usable blocks.\<close>

definition format_sizes :: "partition \<Rightarrow> u32 \<times> super_block" where
  "format_sizes part =
     (let boot_sector_sects = 1; super_block_sects = 1;
          ib_sects = DIV_ROUND_UP MAX_FILES_PER_PART BITS_PER_SECTOR;
          it_sects = DIV_ROUND_UP (of_nat sizeof_inode * MAX_FILES_PER_PART) 512;
          used_sects = boot_sector_sects + super_block_sects + ib_sects + it_sects;
          free_sects = sec_cnt part - used_sects;
          bb_sects = DIV_ROUND_UP free_sects BITS_PER_SECTOR;
          bit_len = free_sects - bb_sects;
          bb_sects = DIV_ROUND_UP bit_len BITS_PER_SECTOR;
          bb_lba = start_lba part + 2; ib_lba = bb_lba + bb_sects; it_lba = ib_lba + ib_sects
      in (bit_len,
          \<lparr>magic = 0x19590318, sb_sec_cnt = sec_cnt part, inode_cnt = MAX_FILES_PER_PART, part_lba_base = start_lba part,
           block_bitmap_lba = bb_lba, block_bitmap_sects = bb_sects, inode_bitmap_lba = ib_lba, inode_bitmap_sects = ib_sects,
           inode_table_lba = it_lba, inode_table_sects = it_sects, data_start_lba = it_lba + it_sects, root_inode_no = 0,
           dir_entry_size = of_nat sizeof_dir_entry\<rparr>))"

text \<open>The buffer with the block bitmap: the bits behind \<open>bit_len\<close> in their sector set, then bits 0 to
  \<open>bit_len mod 8\<close>, inclusive, of the last byte cleared.\<close>

definition format_bitmap :: "u32 \<Rightarrow> bytes \<Rightarrow> bytes res" where
  "format_bitmap bit_len buf =
     (let buf = buf[0 := buf ! 0 OR 1];
          last_byte = unat (bit_len div 8); last_bit = unat (bit_len mod 8);
          last_size = 512 - last_byte mod 512 in
      bnd (defined (last_byte + last_size \<le> length buf)) (\<lambda>_.
      let buf = patch buf last_byte (replicate last_size 0xff)
      in Inr (fold (\<lambda>bit_idx buf. buf[last_byte := buf ! last_byte AND NOT (push_bit bit_idx 1)]) [0..<Suc last_bit] buf)))"

text \<open>The padding of the super block is what the stack holds.\<close>

definition partition_format :: "part_id \<Rightarrow> 'a fsys_scheme \<Rightarrow> 'a fsys_scheme res" where
  "partition_format p s =
     (let part = parts s p; dk = my_disk part; (bit_len, b) = format_sizes part in
      bnd (disk_write dk (start_lba part + 1) (sb_bytes b @ take 460 (junk s)) 1 s) (\<lambda>s.
      let sects = max (max (block_bitmap_sects b) (inode_bitmap_sects b)) (inode_table_sects b);
          buf_size = unat (sects * 512);
          (buf, s) = fs_malloc s; zero = replicate buf_size (0 :: u8) in
      bnd (defined (buf \<noteq> 0)) (\<lambda>_.
      bnd (format_bitmap bit_len zero) (\<lambda>map.
      bnd (disk_write dk (block_bitmap_lba b) map (block_bitmap_sects b) s) (\<lambda>s.
      bnd (disk_write dk (inode_bitmap_lba b) (zero[0 := 1]) (inode_bitmap_sects b) s) (\<lambda>s.
      let root = \<lparr>i_no = 0, i_size = dir_entry_size b * 2, i_open_cnts = 0, write_deny = 0,
            i_sectors = (replicate 13 0)[0 := data_start_lba b]\<rparr> in
      bnd (disk_write dk (inode_table_lba b) (patch zero 0 (inode_bytes root)) (inode_table_sects b) s) (\<lambda>s.
      bnd (disk_write dk (data_start_lba b) (dot_entries 0 0 buf_size) 1 s) (\<lambda>s.
      fs_free buf s))))))))"

text \<open>A bitmap read from the disk; the rest of its pages is zero.\<close>

definition bitmap_of :: "u32 \<Rightarrow> bytes \<Rightarrow> bitmap" where
  "bitmap_of sects bs =
     \<lparr>btmp_bytes_len = sects * 512, bits = (\<lambda>i. if unat i < length bs then bs ! unat i else 0)\<rparr>"

text \<open>The block for \<open>n\<close> bytes must not be NULL; \<open>sys_malloc(0)\<close> is.\<close>

definition malloc_or_panic :: "u32 \<Rightarrow> 'a fsys_scheme \<Rightarrow> 'a fsys_scheme res" where
  "malloc_or_panic n s = (let (a, s) = fs_malloc s in bnd (ASSERT (n \<noteq> 0 \<and> a \<noteq> 0)) (\<lambda>_. Inr s))"

definition mount_partition :: "part_id \<Rightarrow> bytes \<Rightarrow> 'a fsys_scheme \<Rightarrow> (bool \<times> 'a fsys_scheme) res" where
  "mount_partition p name s =
     (let part = parts s p; dk = my_disk part in
      bnd (cstr_of (part_name part)) (\<lambda>pname.
      if pname = name then
        let s = s\<lparr>cur_part := p\<rparr>; (sb_buf, s) = fs_malloc s in
        bnd (malloc_or_panic 512 s) (\<lambda>s.
        bnd (ASSERT (sb_buf \<noteq> 0)) (\<lambda>_.
        bnd (disk_read dk (start_lba part + 1) 1 s) (\<lambda>buf.
        let b = bytes_sb buf; s = upd_part p (\<lambda>q. q\<lparr>sb := b\<rparr>) s in
        bnd (malloc_or_panic (block_bitmap_sects b * 512) s) (\<lambda>s.
        bnd (disk_read dk (block_bitmap_lba b) (block_bitmap_sects b) s) (\<lambda>bb.
        let s = upd_part p (\<lambda>q. q\<lparr>block_bitmap := bitmap_of (block_bitmap_sects b) bb\<rparr>) s in
        bnd (malloc_or_panic (inode_bitmap_sects b * 512) s) (\<lambda>s.
        bnd (disk_read dk (inode_bitmap_lba b) (inode_bitmap_sects b) s) (\<lambda>ib.
        let s = upd_part p (\<lambda>q. q\<lparr>inode_bitmap := bitmap_of (inode_bitmap_sects b) ib, open_inodes := []\<rparr>) s in
        Inr (True, s))))))))
      else Inr (False, s)))"

text \<open>\<open>list_traversal(&partition_list, mount_partition, name)\<close>; without a match \<open>cur_part\<close> stays NULL.\<close>

fun mount_first :: "part_id list \<Rightarrow> bytes \<Rightarrow> 'a fsys_scheme \<Rightarrow> 'a fsys_scheme res" where
  "mount_first [] name s = Inl Fault"
| "mount_first (p # ps) name s =
     bnd (mount_partition p name s) (\<lambda>(found, s). if found then Inr s else mount_first ps name s)"

text \<open>The partitions of a disk from number \<open>12 - n\<close> on; both branches of the test for the magic number format.\<close>

fun format_disk :: "nat \<Rightarrow> nat \<Rightarrow> 'a fsys_scheme \<Rightarrow> 'a fsys_scheme res" where
  "format_disk dk 0 s = Inr s"
| "format_disk dk (Suc n) s =
     (let p = (dk, 12 - Suc n) in
      bnd (if sec_cnt (parts s p) \<noteq> 0 then
             bnd (disk_read dk (start_lba (parts s p) + 1) 1 s) (\<lambda>buf.
             if magic (bytes_sb buf) = 0x19590318 then partition_format p s else partition_format p s)
           else Inr s) (format_disk dk n))"

text \<open>The channels from \<open>channel_no\<close> on, device 1 of each; \<open>part_idx\<close> is not reset, so only the first disk is formatted.\<close>

fun format_channels :: "nat \<Rightarrow> nat \<Rightarrow> nat \<Rightarrow> 'a fsys_scheme \<Rightarrow> 'a fsys_scheme res" where
  "format_channels channel_no part_idx 0 s = Inr s"
| "format_channels channel_no part_idx (Suc n) s =
     bnd (format_disk (2 * channel_no + 1) (12 - part_idx) s) (format_channels (Suc channel_no) 12 n)"

definition filesys_init :: "nat \<Rightarrow> 'a fsys_scheme \<Rightarrow> 'a fsys_scheme res" where
  "filesys_init channel_cnt s =
     (let (sb_buf, s) = fs_malloc s in
      bnd (ASSERT (sb_buf \<noteq> 0)) (\<lambda>_.
      bnd (format_channels 0 0 channel_cnt s) (\<lambda>s.
      bnd (fs_free sb_buf s) (\<lambda>s.
      bnd (mount_first (partition_list s) [115, 100, 98, 49] s) (\<lambda>s.
      bnd (open_root_dir (cur_part s) s) (\<lambda>s.
      Inr (s\<lparr>file_table := map (\<lambda>x. x\<lparr>fd_inode := 0\<rparr>) (file_table s)\<rparr>)))))))"

end
