(* ===== verification/Content.thy ===== *)
theory Content
  imports File
begin

text \<open>
  What a file holds. \<open>content\<close> is the abstract file, the sequence of the bytes below its size in
  the blocks of its inode; \<open>file_read\<close> returns the part of it at the file's position, and
  \<open>file_write\<close> puts the bytes it is given behind it.
\<close>

section \<open>The abstract file\<close>

definition byte_at :: "'a fsys_scheme \<Rightarrow> u32 list \<Rightarrow> nat \<Rightarrow> u8" where
  "byte_at s bs x = disks s (my_disk (parts s (cur_part s))) (bs ! (x div 512)) ! (x mod 512)"

text \<open>The 140 addresses of an inode: 12 direct ones and those in its table.\<close>

definition file_blocks :: "'a fsys_scheme \<Rightarrow> u32 \<Rightarrow> u32 list" where
  "file_blocks s a = take 12 (i_sectors (inodes s a)) @
     bytes_words 128 (disks s (my_disk (parts s (cur_part s))) (i_sectors (inodes s a) ! 12))"

definition content :: "'a fsys_scheme \<Rightarrow> u32 \<Rightarrow> bytes" where
  "content s a = map (byte_at s (file_blocks s a)) [0..<unat (i_size (inodes s a))]"

lemma length_content [simp]: "length (content s a) = unat (i_size (inodes s a))"
  by (simp add: content_def)

lemma slice_content:
  "n \<le> unat (i_size (inodes s a)) - pos \<Longrightarrow>
   take n (drop pos (content s a)) = map (byte_at s (file_blocks s a)) [pos..<pos + n]"
  by (cases "pos \<le> unat (i_size (inodes s a))") (simp_all add: content_def drop_map take_map)

lemma map_byte_at_cong:
  "(\<And>x. pos \<le> x \<Longrightarrow> x < pos + n \<Longrightarrow> bs ! (x div 512) = bs' ! (x div 512)) \<Longrightarrow>
   map (byte_at s bs) [pos..<pos + n] = map (byte_at s bs') [pos..<pos + n]"
  by (simp add: byte_at_def)

text \<open>The part of a sector that one round of the loops reads.\<close>

lemma sector_slice:
  assumes "disk_ok s" "c \<le> 512 - pos mod 512"
  shows "take c (drop (pos mod 512) (disks s (my_disk (parts s (cur_part s))) (bs ! (pos div 512)))) =
    map (byte_at s bs) [pos..<pos + c]"
proof (rule nth_equalityI)
  show "length (take c (drop (pos mod 512) (disks s (my_disk (parts s (cur_part s))) (bs ! (pos div 512))))) =
    length (map (byte_at s bs) [pos..<pos + c])" using assms by (simp add: disk_ok_def)
next
  fix i assume "i < length (take c (drop (pos mod 512) (disks s (my_disk (parts s (cur_part s))) (bs ! (pos div 512)))))"
  then have i: "i < c" "pos mod 512 + i < 512" using assms by (auto simp: disk_ok_def)
  have "(pos + i) div 512 = pos div 512" "(pos + i) mod 512 = pos mod 512 + i"
    using div_mod_512 [OF i(2), of "pos div 512"] mult_div_mod_eq [of 512 pos] by (simp_all only: add.assoc [symmetric])
  then show "take c (drop (pos mod 512) (disks s (my_disk (parts s (cur_part s))) (bs ! (pos div 512)))) ! i =
    map (byte_at s bs) [pos..<pos + c] ! i" using i assms by (simp add: byte_at_def disk_ok_def)
qed

section \<open>Reading\<close>

lemma upd_file_fields [simp]:
  "disks (upd_file f g s) = disks s" "parts (upd_file f g s) = parts s" "cur_part (upd_file f g s) = cur_part s"
  "inodes (upd_file f g s) = inodes s" "heap (upd_file f g s) = heap s" "in_kernel (upd_file f g s) = in_kernel s"
  "length (file_table (upd_file f g s)) = length (file_table s)" "tasks (upd_file f g s) = tasks s"
  "running_thread (upd_file f g s) = running_thread s"
  by (simp_all add: upd_file_def heap_def in_kernel_def)

lemma file_table_upd_file [simp]: "f < length (file_table s) \<Longrightarrow> file_table (upd_file f g s) ! f = g (file_table s ! f)"
  by (simp add: upd_file_def)

lemma upd_file_upd_file: "f < length (file_table s) \<Longrightarrow> upd_file f g (upd_file f h s) = upd_file f (\<lambda>x. g (h x)) s"
  by (simp add: upd_file_def)

lemma byte_at_upd_file [simp]: "byte_at (upd_file f g s) = byte_at s"
  by (intro ext) (simp add: byte_at_def)

lemma disk_ok_upd_file [simp]: "disk_ok (upd_file f g s) = disk_ok s"
  by (simp add: disk_ok_def)

definition advance :: "nat \<Rightarrow> nat \<Rightarrow> 'a fsys_scheme \<Rightarrow> 'a fsys_scheme" where
  "advance f n = upd_file f (\<lambda>x. x\<lparr>fd_pos := fd_pos x + of_nat n\<rparr>)"

lemma advance_advance: "f < length (file_table s) \<Longrightarrow> advance f n (advance f m s) = advance f (m + n) s"
  by (simp add: advance_def upd_file_upd_file add.assoc)

lemma advance_0 [simp]: "advance f 0 s = s"
  by (simp add: advance_def upd_file_def)

lemma read_loop_slice:
  assumes "disk_ok s" "f < length (file_table s)" "io_buf \<noteq> 0" "pos = unat (fd_pos (file_table s ! f))"
    and "pos + n < 4294967296" "\<forall>x. pos \<le> x \<and> x < pos + n \<longrightarrow> x div 512 < length bs \<and> bs ! (x div 512) \<le> max_lba"
  shows "read_loop f io_buf bs n s = Inr (map (byte_at s bs) [pos..<pos + n], advance f n s)"
  using assms
proof (induction n arbitrary: s pos rule: less_induct)
  case (less n)
  show ?case
  proof (cases "n = 0")
    case True
    then show ?thesis by (simp add: read_loop.simps)
  next
    case False
    define c where "c = min n (512 - pos mod 512)"
    have c: "0 < c" "c \<le> n" "c \<le> 512 - pos mod 512" using False by (simp_all add: c_def)
    have pos: "pos div 512 < length bs" "bs ! (pos div 512) \<le> max_lba" using less.prems(6) False by auto
    define s' where "s' = advance f c s"
    have s': "disk_ok s'" "f < length (file_table s')" "byte_at s' = byte_at s"
      using less.prems(1,2) by (simp_all add: s'_def advance_def)
    have "unat (fd_pos (file_table s' ! f)) = pos + c"
      using less.prems(2,4,5) c(2) by (simp add: s'_def advance_def unat_add_u32)
    then have rec: "read_loop f io_buf bs (n - c) s' = Inr (map (byte_at s bs) [pos + c..<pos + n], advance f (n - c) s')"
      using less.IH [of "n - c" s' "pos + c"] s' c less.prems(3,5,6) False by simp
    have all: "map (byte_at s bs) [pos..<pos + c] @ map (byte_at s bs) [pos + c..<pos + n] = map (byte_at s bs) [pos..<pos + n]"
      using c(2) upt_add_eq_append [of pos "pos + c" "n - c"] by (simp flip: map_append)
    have "read_loop f io_buf bs n s = Inr (map (byte_at s bs) [pos..<pos + c] @ map (byte_at s bs) [pos + c..<pos + n], advance f (n - c) s')"
      using rec pos less.prems(1,3) sector_slice [OF less.prems(1) c(3), of bs] False
      by (subst read_loop.simps) (simp add: Let_def c_def [symmetric] less.prems(4) [symmetric] s'_def advance_def)
    also have "advance f (n - c) s' = advance f n s" using c(2) less.prems(2) by (simp add: s'_def advance_advance)
    finally show ?thesis unfolding all .
  qed
qed

text \<open>A file whose blocks can be read: its addresses are on the disk, and it has a table when a read may
  ask for one.\<close>

definition readable :: "'a fsys_scheme \<Rightarrow> u32 \<Rightarrow> bool" where
  "readable s a \<longleftrightarrow> length (i_sectors (inodes s a)) = 13 \<and> unat (i_size (inodes s a)) < 139 * 512 \<and>
     (\<forall>x < unat (i_size (inodes s a)). file_blocks s a ! (x div 512) \<le> max_lba) \<and>
     (12 * 512 \<le> unat (i_size (inodes s a)) \<longrightarrow> i_sectors (inodes s a) ! 12 \<noteq> 0 \<and> i_sectors (inodes s a) ! 12 \<le> max_lba)"

lemma file_blocks_direct:
  "length (i_sectors (inodes s a)) = 13 \<Longrightarrow> k < 12 \<Longrightarrow> file_blocks s a ! k = i_sectors (inodes s a) ! k"
  by (simp add: file_blocks_def nth_append)

lemma file_blocks_indirect:
  assumes "length (i_sectors (inodes s a)) = 13" "length bs \<ge> 12" "12 \<le> k"
  shows "(take 12 bs @ bytes_words 128 (disks s (my_disk (parts s (cur_part s))) (i_sectors (inodes s a) ! 12))) ! k
    = file_blocks s a ! k"
  using assms by (simp add: file_blocks_def nth_append)

lemma fill_direct_nth:
  assumes "hi \<le> length bs"
  shows "length (fill_direct sects lo hi bs) = length bs"
    and "k < length bs \<Longrightarrow> fill_direct sects lo hi bs ! k = (if lo \<le> k \<and> k < hi then sects ! k else bs ! k)"
proof -
  have "length (fold (\<lambda>k xs. xs[k := sects ! k]) ks bs) = length bs \<and>
     (k < length bs \<longrightarrow> fold (\<lambda>k xs. xs[k := sects ! k]) ks bs ! k = (if k \<in> set ks then sects ! k else bs ! k))" for ks k
    by (induction ks arbitrary: bs) (auto simp: nth_list_update)
  then show "length (fill_direct sects lo hi bs) = length bs"
    and "k < length bs \<Longrightarrow> fill_direct sects lo hi bs ! k = (if lo \<le> k \<and> k < hi then sects ! k else bs ! k)"
    by (simp_all add: fill_direct_def)
qed

lemma read_blocks_agree:
  assumes r: "readable s a" and k: "start \<le> final" "512 * final \<le> unat (i_size (inodes s a))"
  shows "\<exists>bs. read_blocks a start final s = Inr bs \<and> length bs = 140 \<and>
    (\<forall>k. start \<le> k \<and> k \<le> final \<longrightarrow> bs ! k = file_blocks s a ! k)"
proof -
  let ?se = "i_sectors (inodes s a)"
  have len: "length ?se = 13" and f: "final < 139" using r k(2) by (auto simp: readable_def)
  have tab: "12 \<le> final \<Longrightarrow> ?se ! 12 \<noteq> 0 \<and> ?se ! 12 \<le> max_lba" using r k(2) by (auto simp: readable_def)
  consider "start = final" "final < 12" | "start < final" "final < 12" | "start < 12" "12 \<le> final" | "12 \<le> start"
    using k(1) by linarith
  then show ?thesis
  proof cases
    case 3
    then show ?thesis using tab len f fill_direct_nth(1) [of 12 "replicate 140 0" ?se start] fill_direct_nth(2) [of 12 "replicate 140 0" _ ?se start]
      by (auto simp: read_blocks_def Let_def read_table_def file_blocks_def nth_append)
  qed (use k(1) tab len f fill_direct_nth(1) [of "Suc final" "replicate 140 0" ?se start] fill_direct_nth(2) [of "Suc final" "replicate 140 0" _ ?se start] in
    \<open>auto simp: read_blocks_def Let_def read_table_def file_blocks_def nth_append\<close>)
qed

lemma fs_free_ok:
  "p \<noteq> 0 \<Longrightarrow> (in_kernel s \<Longrightarrow> K_HEAP_START \<le> p) \<Longrightarrow> p \<notin> set (heap s) \<Longrightarrow> fs_free p s = Inr (set_heap (heap s @ [p]) s)"
  by (simp add: fs_free_def)

text \<open>Two blocks for buffers, and the rest of the heap.\<close>

definition two_buffers :: "'a fsys_scheme \<Rightarrow> u32 \<Rightarrow> u32 \<Rightarrow> u32 list \<Rightarrow> bool" where
  "two_buffers s x y h \<longleftrightarrow> heap s = x # y # h \<and> distinct (heap s) \<and> 0 \<notin> set (heap s) \<and>
     (in_kernel s \<longrightarrow> (\<forall>b \<in> set (heap s). K_HEAP_START \<le> b))"

lemma heap_upds [simp]:
  "heap (s\<lparr>disks := d\<rparr>) = heap s" "in_kernel (s\<lparr>disks := d\<rparr>) = in_kernel s"
  "heap (upd_inode a g s) = heap s" "in_kernel (upd_inode a g s) = in_kernel s"
  by (simp_all add: heap_def in_kernel_def upd_inode_def)

lemma upd_file_set_heap: "upd_file f g (set_heap h s) = set_heap h (upd_file f g s)"
  by (simp add: upd_file_def set_heap_def in_kernel_def)

lemma file_read_slice:
  assumes dk: "disk_ok s" and f: "f < length (file_table s)" and a: "a = fd_inode (file_table s ! f)" "a \<noteq> 0" and r: "readable s a"
    and pos: "pos = unat (fd_pos (file_table s ! f))" "pos \<le> unat (i_size (inodes s a))" "pos + unat count < 4294967296"
    and b: "two_buffers s x y h"
  defines "n \<equiv> min (unat count) (unat (i_size (inodes s a)) - pos)"
  assumes n: "n = 0 \<longrightarrow> count = 0"
  shows "file_read f count s = Inr (of_nat n, take (unat count) (drop pos (content s a)), set_heap (h @ [y, x]) (advance f n s))"
proof -
  let ?len = "i_size (inodes s a)" and ?p = "fd_pos (file_table s ! f)"
  have up: "unat (?p + count) = pos + unat count" using pos by (simp add: unat_add_u32)
  have gt: "?p + count > ?len \<longleftrightarrow> pos + unat count > unat ?len" by (simp add: word_less_nat_alt up)
  define size_left where "size_left = (if ?p + count > ?len then ?len - ?p else count)"
  have sl: "unat size_left = n"
    using pos by (auto simp: size_left_def n_def gt unat_sub word_le_nat_alt)
  then have nz: "\<not> (?p + count > ?len \<and> size_left = 0)" using n gt pos(2) by (auto simp: pos(1) word_less_nat_alt)
  have pn: "pos + n \<le> unat ?len" using pos by (simp add: n_def)
  have len: "unat ?len < 71168" using r by (simp add: readable_def)
  have start: "unat (?p div 512) = pos div 512" by (simp add: unat_div pos)
  have final: "unat ((?p + size_left) div 512) = (pos + n) div 512"
    using pn len pos(1) sl by (simp add: unat_div unat_add_u32)
  have ix: "pos div 512 < 139" "(pos + n) div 512 < 139" using pn len by simp_all
  obtain bs where bs: "read_blocks a (pos div 512) ((pos + n) div 512) (set_heap h s) = Inr bs" "length bs = 140"
    "\<forall>k. pos div 512 \<le> k \<and> k \<le> (pos + n) div 512 \<longrightarrow> bs ! k = file_blocks s a ! k"
  proof -
    have "512 * ((pos + n) div 512) \<le> unat ?len" using pn times_div_less_eq_dividend [of 512 "pos + n"] by linarith
    moreover have "readable (set_heap h s) a" "\<And>k. file_blocks (set_heap h s) a ! k = file_blocks s a ! k"
      using r by (simp_all add: readable_def file_blocks_def)
    moreover have "pos div 512 \<le> (pos + n) div 512" by (simp add: div_le_mono)
    ultimately show ?thesis using read_blocks_agree [of "set_heap h s" a "pos div 512" "(pos + n) div 512"] that by auto
  qed
  have k: "bs ! (i div 512) = file_blocks s a ! (i div 512)" "i div 512 < 139" "file_blocks s a ! (i div 512) \<le> max_lba"
    if "pos \<le> i" "i < pos + n" for i
    using that bs(3) r pn len by (simp_all add: div_le_mono readable_def)
  have heap: "x \<noteq> 0" "y \<noteq> 0" "heap s = x # y # h" "y \<notin> set h" "x \<notin> set (h @ [y])"
    "in_kernel s \<longrightarrow> K_HEAP_START \<le> x \<and> K_HEAP_START \<le> y" using b by (auto simp: two_buffers_def)
  have "read_loop f x bs n (set_heap h s) = Inr (map (byte_at (set_heap h s) bs) [pos..<pos + n], advance f n (set_heap h s))"
    by (rule read_loop_slice) (use dk f heap pos pn len k bs(2) in \<open>auto simp: disk_ok_def\<close>)
  moreover have "map (byte_at (set_heap h s) bs) [pos..<pos + n] = map (byte_at s (file_blocks s a)) [pos..<pos + n]"
    using k by (simp add: byte_at_def)
  moreover have "map (byte_at s (file_blocks s a)) [pos..<pos + n] = take (unat count) (drop pos (content s a))"
  proof -
    have "take n (drop pos (content s a)) = take (unat count) (drop pos (content s a))"
      by (simp add: n_def min_def)
    then show ?thesis using slice_content [of n s a pos] pn by simp
  qed
  ultimately have loop: "read_loop f x bs n (set_heap h s) = Inr (take (unat count) (drop pos (content s a)), set_heap h (advance f n s))"
    by (simp add: advance_def upd_file_set_heap)
  have out: "length (take (unat count) (drop pos (content s a))) = n" by (simp add: n_def min.commute)
  have "in_kernel (advance f n s) = in_kernel s" by (simp add: advance_def)
  then have free: "fs_free y (set_heap h (advance f n s)) = Inr (set_heap (h @ [y]) (advance f n s))"
    "fs_free x (set_heap (h @ [y]) (advance f n s)) = Inr (set_heap (h @ [y, x]) (advance f n s))"
    using heap by (auto simp: fs_free_def)
  have ok: "\<not> (a = 0)" "\<not> (x = 0)" "\<not> (y = 0)" using a(2) heap by simp_all
  show ?thesis
    unfolding file_read_def Let_def BLOCK_SIZE_def a(1) [symmetric] size_left_def [symmetric]
    by (simp only: nz heap(3) ok ix start final bs(1) loop out sl free fs_malloc_Cons heap_set_heap set_heap_set_heap
        defined_True ASSERT_True bnd_Inr simp_thms if_False prod.case fs_malloc_Cons [of "set_heap (y # h) s" y h])
qed

section \<open>Taking blocks\<close>

definition free_blocks :: "'a fsys_scheme \<Rightarrow> part_id \<Rightarrow> nat" where
  "free_blocks s p = card (fs_units.free_units BLOCK_BITMAP p s)"

definition dsk :: "'a fsys_scheme \<Rightarrow> u32 \<Rightarrow> bytes" where
  "dsk s = disks s (my_disk (parts s (cur_part s)))"

text \<open>What stays when a file gets more blocks: everything but the bitmap and the addresses of the inode; blocks
  in use keep their bytes.\<close>

definition grown :: "u32 \<Rightarrow> 'a fsys_scheme \<Rightarrow> 'a fsys_scheme \<Rightarrow> bool" where
  "grown a s s' \<longleftrightarrow> cur_part s' = cur_part s \<and> blocks_ok (cur_part s) s' \<and> heap s' = heap s \<and> in_kernel s' = in_kernel s \<and>
     file_table s' = file_table s \<and> tasks s' = tasks s \<and> running_thread s' = running_thread s \<and>
     my_disk (parts s' (cur_part s)) = my_disk (parts s (cur_part s)) \<and>
     sb (parts s' (cur_part s)) = sb (parts s (cur_part s)) \<and>
     i_size (inodes s' a) = i_size (inodes s a) \<and> i_no (inodes s' a) = i_no (inodes s a) \<and>
     (\<forall>b. used_block s (cur_part s) b \<longrightarrow> used_block s' (cur_part s) b \<and> dsk s' b = dsk s b)"

lemma grown_refl: "blocks_ok (cur_part s) s \<Longrightarrow> grown a s s"
  by (simp add: grown_def)

lemma grown_trans: "grown a s s' \<Longrightarrow> grown a s' s'' \<Longrightarrow> grown a s s''"
  unfolding grown_def by simp

lemma set_sector_fields [simp]:
  "disks (set_sector a k b s) = disks s" "parts (set_sector a k b s) = parts s" "cur_part (set_sector a k b s) = cur_part s"
  "heap (set_sector a k b s) = heap s" "in_kernel (set_sector a k b s) = in_kernel s"
  "file_table (set_sector a k b s) = file_table s" "tasks (set_sector a k b s) = tasks s" "running_thread (set_sector a k b s) = running_thread s"
  "inodes (set_sector a k b s) a = (inodes s a)\<lparr>i_sectors := (i_sectors (inodes s a))[k := b]\<rparr>"
  by (simp_all add: set_sector_def upd_inode_def heap_def in_kernel_def)

lemma set_sector_blocks [simp]:
  "blocks_ok p (set_sector a k b s) = blocks_ok p s" "used_block (set_sector a k b s) p = used_block s p"
  "free_blocks (set_sector a k b s) p = free_blocks s p" "dsk (set_sector a k b s) = dsk s"
  by (simp_all add: blocks_ok_def on_disk_def disk_ok_def used_block_def free_blocks_def fs_units.free_units_def dsk_def fun_eq_iff)

lemma grown_set_sector [simp]: "grown a s (set_sector a k b s') = grown a s s'"
  by (simp add: grown_def)

lemma layout_ok_block_bitmap: "n_bits b = n_bits (block_bitmap q) \<Longrightarrow> layout_ok (q\<lparr>block_bitmap := b\<rparr>) = layout_ok q"
  by (simp add: layout_ok_def)

lemma disk_write_set_sector:
  "disk_write dk l buf n (set_sector a k x s) = bnd (disk_write dk l buf n s) (\<lambda>s. Inr (set_sector a k x s))"
  by (simp add: disk_write_def ASSERT_def defined_def) (simp add: set_sector_def upd_inode_def)

lemma take_block:
  assumes ok: "blocks_ok (cur_part s) s" and free: "0 < free_blocks s (cur_part s)"
  obtains lba s1 s2 where "block_bitmap_alloc (cur_part s) s = Inr (lba, s1)" "lba \<noteq> - 1" "lba \<noteq> 0" "lba \<le> max_lba"
    "\<not> used_block s (cur_part s) lba" "\<And>k. bitmap_sync (cur_part s) (lba - data_start_lba (sb (parts s (cur_part s)))) BLOCK_BITMAP
        (set_sector a k lba s1) = Inr (set_sector a k lba s2)"
    "cur_part s1 = cur_part s" "sb (parts s1 (cur_part s)) = sb (parts s (cur_part s))"
    "inodes s1 = inodes s" "inodes s2 = inodes s" "grown a s s2" "used_block s2 (cur_part s) lba" "Suc (free_blocks s2 (cur_part s)) = free_blocks s (cur_part s)"
    "is_set (block_bitmap (parts s (cur_part s))) 0 \<Longrightarrow> lba - data_start_lba (sb (parts s (cur_part s))) \<noteq> 0"
proof -
  let ?p = "cur_part s" and ?q = "parts s (cur_part s)"
  let ?start = "data_start_lba (sb ?q)"
  have lay: "layout_ok ?q" and on: "on_disk ?p s" and dk: "disk_ok s" using ok by (simp_all add: blocks_ok_def)
  have wf: "maps_ok ?p s" by (rule layout_maps_ok [OF lay])
  have "fs_units.free_units BLOCK_BITMAP ?p s \<noteq> {}" using free unfolding free_blocks_def by auto
  then obtain i0 s1 where au: "alloc_unit BLOCK_BITMAP ?p s = Inr (i0, s1)" using fs_units.alloc_iff_free [OF wf] by blast
  then obtain lba where al: "block_bitmap_alloc ?p s = Inr (lba, s1)" by (auto simp: alloc_unit_def res_simps)
  from block_alloc_sync [OF lay on al] obtain f b s2 where f: "f < n_bits (block_bitmap ?q)" "\<not> is_set (block_bitmap ?q) f"
    and lba: "lba = ?start + of_nat f" and b: "bitmap_set (block_bitmap ?q) (of_nat f) 1 = Inr b"
    and s1: "s1 = set_bm BLOCK_BITMAP ?p b s" and sync: "bitmap_sync ?p (lba - ?start) BLOCK_BITMAP s1 = Inr s2"
    and s2: "s2 = s1\<lparr>disks := (disks s)(my_disk ?q := (disks s (my_disk ?q))
       (block_bitmap_lba (sb ?q) + of_nat (f div 4096) := bitmap_bytes b (of_nat (512 * (f div 4096)))))\<rparr>"
    and on2: "on_disk ?p s2" .
  note st = s2 s1 set_bm_def upd_part_def
  have ul: "unat lba = unat ?start + f" unfolding lba by (rule data_block_lba [OF lay f(1)])
  have le: "unat ?start + f \<le> 163839" using ok f by (auto simp: blocks_ok_def)
  have f32: "f < 4294967296" using le by simp
  have nb: "n_bits b = n_bits (block_bitmap ?q)"
    "\<And>k. k < 4294967296 \<Longrightarrow> is_set b k \<longleftrightarrow> k = f \<or> is_set (block_bitmap ?q) k"
    using is_set_bitmap_set [OF b] n_bits_bitmap_set [OF b] f32 by auto
  have big: "n_bits (block_bitmap ?q) \<le> 4294967296" using wf by (simp add: maps_ok_def small_def)
  have nz: "lba \<noteq> - 1" "lba \<noteq> 0"
    using ul le lay by (auto simp: unsigned_minus_1_eq_mask mask_eq_exp_minus_1 layout_ok_def)
  have lm: "lba \<le> max_lba" using ul le by (simp add: word_le_nat_alt)
  have unused: "\<not> used_block s ?p lba"
  proof
    assume "used_block s ?p lba"
    then obtain k where k: "k < n_bits (block_bitmap ?q)" "is_set (block_bitmap ?q) k" "lba = ?start + of_nat k"
      by (auto simp: used_block_def)
    then show False using data_block_lba [OF lay k(1)] ul f(2) by auto
  qed
  have sync': "bitmap_sync ?p (lba - ?start) BLOCK_BITMAP (set_sector a k lba s1) = Inr (set_sector a k lba s2)" for k
  proof -
    have "bitmap_sync ?p (lba - ?start) BLOCK_BITMAP (set_sector a k lba s1) =
      bnd (bitmap_sync ?p (lba - ?start) BLOCK_BITMAP s1) (\<lambda>s. Inr (set_sector a k lba s))"
      by (simp add: bitmap_sync_eq disk_write_set_sector)
    then show ?thesis using sync by simp
  qed
  have parts2: "parts s2 ?p = ?q\<lparr>block_bitmap := b\<rparr>" by (simp add: st)
  have bit: "is_set b k" if "k < n_bits (block_bitmap ?q)" "is_set (block_bitmap ?q) k" for k
    using that nb(2) [of k] big by simp
  have ok2: "blocks_ok ?p s2"
  proof -
    have "layout_ok (parts s2 ?p)" using lay nb(1) unfolding parts2 by (simp add: layout_ok_block_bitmap)
    moreover have "disk_ok s2" using dk by (auto simp: disk_ok_def st)
    ultimately show ?thesis using ok on2 bit nb(1) unfolding blocks_ok_def parts2 by auto
  qed
  have used2: "used_block s2 ?p c" if "used_block s ?p c" for c
    using that bit nb(1) unfolding used_block_def parts2 by auto
  have same: "dsk s2 c = dsk s c" if "used_block s ?p c" for c
    using used_ne_bitmap [OF lay that f(1)] by (simp add: dsk_def st)
  have "grown a s s2"
    using ok2 used2 same by (simp add: grown_def parts2) (simp add: st heap_def in_kernel_def)
  moreover have "used_block s2 ?p lba"
    using f nb f32 lba unfolding used_block_def parts2 by auto
  moreover have "Suc (free_blocks s2 ?p) = free_blocks s ?p"
  proof -
    have "card (fs_units.free_units BLOCK_BITMAP ?p s) = Suc (card (fs_units.free_units BLOCK_BITMAP ?p s1))"
      by (rule fs_units.alloc_card [OF wf au])
    moreover have "fs_units.free_units BLOCK_BITMAP ?p s1 = fs_units.free_units BLOCK_BITMAP ?p s2"
      by (simp add: fs_units.free_units_def s2)
    ultimately show ?thesis by (simp add: free_blocks_def)
  qed
  moreover have "inodes s1 = inodes s" "inodes s2 = inodes s" "cur_part s1 = ?p" "sb (parts s1 ?p) = sb ?q" by (simp_all add: st)
  moreover have "lba - ?start \<noteq> 0" if "is_set (block_bitmap ?q) 0"
  proof -
    have "f \<noteq> 0" using that f(2) by metis
    then show ?thesis using lba f32 by (auto simp: word_of_nat_eq_0_iff dest: dvd_imp_le)
  qed
  ultimately show thesis using that al nz lm unused sync' by blast
qed

text \<open>An inode that has exactly its first \<open>n\<close> direct blocks.\<close>

definition direct_blocks :: "'a fsys_scheme \<Rightarrow> u32 \<Rightarrow> nat \<Rightarrow> bool" where
  "direct_blocks s a n \<longleftrightarrow> (let se = i_sectors (inodes s a) in
     length se = 13 \<and> n \<le> 12 \<and> (\<forall>k < 13. se ! k \<noteq> 0 \<longleftrightarrow> k < n) \<and>
     (\<forall>k < n. used_block s (cur_part s) (se ! k) \<and> se ! k \<le> max_lba) \<and> inj_on (\<lambda>k. se ! k) {..<n})"

lemma direct_blocks_zero: "direct_blocks s a n \<Longrightarrow> k < 13 \<Longrightarrow> i_sectors (inodes s a) ! k = 0 \<longleftrightarrow> n \<le> k"
  unfolding direct_blocks_def Let_def by (metis linorder_not_less)

lemma direct_blocks_len: "direct_blocks s a n \<Longrightarrow> length (i_sectors (inodes s a)) = 13"
  by (simp add: direct_blocks_def Let_def)

lemma direct_blocks_Suc:
  assumes d: "direct_blocks s a n" and n: "n < 12" and g: "grown a s s2" "inodes s2 = inodes s" and l: "lba \<noteq> 0" "lba \<le> max_lba"
    "\<not> used_block s (cur_part s) lba" "used_block s2 (cur_part s) lba"
  shows "direct_blocks (set_sector a n lba s2) a (Suc n)"
proof -
  let ?se = "i_sectors (inodes s a)"
  have len: "length ?se = 13" and old: "\<forall>k < 13. ?se ! k \<noteq> 0 \<longleftrightarrow> k < n" "\<forall>k < n. used_block s (cur_part s) (?se ! k) \<and> ?se ! k \<le> max_lba"
    "inj_on (\<lambda>k. ?se ! k) {..<n}" using d by (auto simp: direct_blocks_def Let_def)
  have nth: "?se[n := lba] ! k = (if k = n then lba else ?se ! k)" if "k < 13" for k
    using that len n by (simp add: nth_list_update)
  have "inj_on (\<lambda>k. ?se[n := lba] ! k) {..<Suc n}"
  proof (rule inj_onI)
    fix i j assume ij: "i \<in> {..<Suc n}" "j \<in> {..<Suc n}" "?se[n := lba] ! i = ?se[n := lba] ! j"
    then show "i = j" using nth [of i] nth [of j] n old(2) l(3) inj_onD [OF old(3), of i j] by (auto split: if_splits simp: less_Suc_eq)
  qed
  moreover have "used_block s2 (cur_part s) (?se ! k)" if "k < n" for k
    using that old(2) g(1) by (auto simp: grown_def)
  moreover have "cur_part s2 = cur_part s" using g by (simp add: grown_def)
  ultimately show ?thesis
    using len old(1,2) nth n l(1,2,4) g(2) by (auto simp: direct_blocks_def Let_def less_Suc_eq)
qed

lemma grow_direct:
  assumes "blocks_ok (cur_part s) s" "direct_blocks s a n" "n + m \<le> 12" "m \<le> free_blocks s (cur_part s)" "length bs = 140"
  shows "\<exists>bs' s'. grow_loop Direct a n m bs s = Inr (Some bs', s') \<and> grown a s s' \<and> direct_blocks s' a (n + m) \<and>
     length bs' = 140 \<and> (\<forall>k < n. bs' ! k = bs ! k \<and> i_sectors (inodes s' a) ! k = i_sectors (inodes s a) ! k) \<and>
     (\<forall>k. n \<le> k \<and> k < n + m \<longrightarrow> bs' ! k = i_sectors (inodes s' a) ! k \<and> \<not> used_block s (cur_part s) (i_sectors (inodes s' a) ! k))"
  using assms
proof (induction m arbitrary: n bs s)
  case 0
  then show ?case by (auto simp: grown_refl)
next
  case (Suc m)
  have "0 < free_blocks s (cur_part s)" using Suc.prems(4) by simp
  then obtain lba s1 s2 where
    al: "block_bitmap_alloc (cur_part s) s = Inr (lba, s1)" and l: "lba \<noteq> - 1" "lba \<noteq> 0" "lba \<le> max_lba" "\<not> used_block s (cur_part s) lba"
    and sync: "\<And>k. bitmap_sync (cur_part s) (lba - data_start_lba (sb (parts s (cur_part s)))) BLOCK_BITMAP
        (set_sector a k lba s1) = Inr (set_sector a k lba s2)"
    and s1: "cur_part s1 = cur_part s" "sb (parts s1 (cur_part s)) = sb (parts s (cur_part s))" "inodes s1 = inodes s" "inodes s2 = inodes s"
    and g: "grown a s s2" and u2: "used_block s2 (cur_part s) lba" and fr: "Suc (free_blocks s2 (cur_part s)) = free_blocks s (cur_part s)"
    by (rule take_block [OF Suc.prems(1), of a]) (rule that)
  let ?s3 = "set_sector a n lba s2" and ?bs = "bs[n := lba]"
  have n: "n < 12" using Suc.prems(3) by simp
  have z: "i_sectors (inodes s a) ! n = 0" and len: "length (i_sectors (inodes s a)) = 13"
    using direct_blocks_zero [OF Suc.prems(2), of n] direct_blocks_len [OF Suc.prems(2)] n by simp_all
  have step: "grow_loop Direct a n (Suc m) bs s = grow_loop Direct a (Suc n) m ?bs ?s3"
    using al l(1) sync z s1 by (simp add: record_block_def record_direct_def)
  have c: "cur_part s2 = cur_part s" using g by (simp add: grown_def)
  have d3: "direct_blocks ?s3 a (Suc n)"
    by (rule direct_blocks_Suc [OF Suc.prems(2) n g s1(4) l(2,3,4) u2])
  have pre: "blocks_ok (cur_part ?s3) ?s3" "Suc n + m \<le> 12" "m \<le> free_blocks ?s3 (cur_part ?s3)" "length ?bs = 140"
    using g Suc.prems(3-5) fr c by (simp_all add: grown_def)
  from Suc.IH [OF pre(1) d3 pre(2-4)] obtain bs' s' where r: "grow_loop Direct a (Suc n) m ?bs ?s3 = Inr (Some bs', s')"
    "grown a ?s3 s'" "direct_blocks s' a (Suc n + m)" "length bs' = 140"
    "\<forall>k < Suc n. bs' ! k = ?bs ! k \<and> i_sectors (inodes s' a) ! k = i_sectors (inodes ?s3 a) ! k"
    "\<forall>k. Suc n \<le> k \<and> k < Suc n + m \<longrightarrow> bs' ! k = i_sectors (inodes s' a) ! k \<and>
       \<not> used_block ?s3 (cur_part ?s3) (i_sectors (inodes s' a) ! k)" by blast
  have "grown a s s'" by (rule grown_trans [of _ _ ?s3]) (use g r(2) in simp_all)
  moreover have "bs' ! k = bs ! k \<and> i_sectors (inodes s' a) ! k = i_sectors (inodes s a) ! k" if "k < n" for k
    using r(5) that s1(4) len by simp
  moreover have "bs' ! k = i_sectors (inodes s' a) ! k \<and> \<not> used_block s (cur_part s) (i_sectors (inodes s' a) ! k)"
    if "n \<le> k" "k < n + Suc m" for k
  proof (cases "k = n")
    case True
    then show ?thesis using r(5) Suc.prems(5) n s1(4) len l(4) by simp
  next
    case False
    then show ?thesis using r(6) that c g by (auto simp: grown_def)
  qed
  ultimately show ?case using step r(1,3,4) by auto
qed

section \<open>Writing\<close>

text \<open>The bytes in front of \<open>pos\<close> in its block stay, those of \<open>src\<close> are in the blocks from there on, and other
  blocks stay.\<close>

definition written :: "(u32 \<Rightarrow> bytes) \<Rightarrow> u32 list \<Rightarrow> nat \<Rightarrow> bytes \<Rightarrow> (u32 \<Rightarrow> bytes) \<Rightarrow> bool" where
  "written d bs pos src d' \<longleftrightarrow> (\<forall>l. length (d' l) = 512) \<and>
     (\<forall>l. (\<forall>x. pos \<le> x \<and> x < pos + length src \<longrightarrow> bs ! (x div 512) \<noteq> l) \<longrightarrow> d' l = d l) \<and>
     (\<forall>j < pos mod 512. d' (bs ! (pos div 512)) ! j = d (bs ! (pos div 512)) ! j) \<and>
     (\<forall>i < length src. d' (bs ! ((pos + i) div 512)) ! ((pos + i) mod 512) = src ! i)"

text \<open>The addresses that a write at \<open>pos\<close> goes to are different and on the disk.\<close>

definition targets :: "u32 list \<Rightarrow> nat \<Rightarrow> nat \<Rightarrow> bool" where
  "targets bs pos n \<longleftrightarrow> (\<forall>x. pos \<le> x \<and> x < pos + n \<longrightarrow> x div 512 < length bs \<and> bs ! (x div 512) \<le> max_lba) \<and>
     (\<forall>x y. pos \<le> x \<and> x < pos + n \<and> pos \<le> y \<and> y < pos + n \<and> bs ! (x div 512) = bs ! (y div 512) \<longrightarrow> x div 512 = y div 512)"

lemma written_step:
  assumes len: "\<forall>l. length (d l) = 512" and c: "c = min (length src) (512 - pos mod 512)" "src \<noteq> []"
    and t: "targets bs pos (length src)" and buf: "length buf = 512" "\<forall>j < pos mod 512. buf ! j = d (bs ! (pos div 512)) ! j"
    and w: "written (d(bs ! (pos div 512) := patch buf (pos mod 512) (take c src))) bs (pos + c) (drop c src) d'"
  shows "written d bs pos src d'"
proof -
  let ?b = "bs ! (pos div 512)" and ?r = "pos mod 512"
  let ?d = "d(?b := patch buf ?r (take c src))"
  have cl: "0 < c" "c \<le> length src" "?r + c \<le> 512" using c by (auto simp: min_def)
  have pc: "c < length src \<Longrightarrow> ?r + c = 512" using c by (auto simp: min_def)
  have in_b: "(pos + i) div 512 = pos div 512 \<and> (pos + i) mod 512 = ?r + i" if "i < c" for i
    using that cl(3) div_mod_512 [of "?r + i" "pos div 512"] mult_div_mod_eq [of 512 pos] by (simp add: add.assoc [symmetric])
  have later: "bs ! (x div 512) \<noteq> ?b" if "pos + c \<le> x" "x < pos + length src" for x
  proof -
    have "?r + c = 512" using that pc by simp
    then have "512 * Suc (pos div 512) = pos + c" unfolding mult_Suc_right by (metis add.assoc add.commute mult_div_mod_eq)
    then have "512 * Suc (pos div 512) \<le> x" using that(1) by simp
    then have "pos div 512 \<noteq> x div 512" using div_le_mono [of "512 * Suc (pos div 512)" x 512] by simp
    moreover have "pos \<le> x" "0 < length src" using that(1) c(2) by simp_all
    ultimately show ?thesis using t [unfolded targets_def, THEN conjunct2, rule_format, of x pos] that(2) by auto
  qed
  have len2: "length src - c + (pos + c) = pos + length src" using cl(2) by simp
  have w1: "\<forall>l. (\<forall>x. pos + c \<le> x \<and> x < pos + length src \<longrightarrow> bs ! (x div 512) \<noteq> l) \<longrightarrow> d' l = ?d l"
    using w cl(2) by (simp add: written_def)
  have b: "d' ?b = patch buf ?r (take c src)" using w1 [rule_format, of ?b] later by simp
  have "d' l = d l" if "\<forall>x. pos \<le> x \<and> x < pos + length src \<longrightarrow> bs ! (x div 512) \<noteq> l" for l
  proof -
    have "l \<noteq> ?b" using that c(2) by auto
    moreover have "d' l = ?d l" using w1 that by simp
    ultimately show ?thesis by simp
  qed
  moreover have "d' ?b ! j = d ?b ! j" if "j < ?r" for j
    using b that buf cl(3) by (simp add: nth_patch)
  moreover have "d' (bs ! ((pos + i) div 512)) ! ((pos + i) mod 512) = src ! i" if i: "i < length src" for i
  proof (cases "i < c")
    case True
    then show ?thesis using in_b [OF True] b cl(2,3) buf(1) by (simp add: nth_patch min_def)
  next
    case False
    then have "d' (bs ! ((pos + c + (i - c)) div 512)) ! ((pos + c + (i - c)) mod 512) = drop c src ! (i - c)"
      using w i unfolding written_def by (metis diff_less_mono leI length_drop)
    then show ?thesis using False cl(2) by simp
  qed
  ultimately show ?thesis using w unfolding written_def by blast
qed

lemma write_loop_written:
  assumes "disk_ok s" "pos = unat (i_size (inodes s a))" "pos + length src < 4294967296"
    and "targets bs pos (length src)" "fw \<or> pos mod 512 = 0"
  shows "\<exists>d'. write_loop a bs fw src s = Inr (upd_inode a (\<lambda>i. i\<lparr>i_size := i_size i + of_nat (length src)\<rparr>)
      (s\<lparr>disks := (disks s)(my_disk (parts s (cur_part s)) := d')\<rparr>)) \<and> written (dsk s) bs pos src d'"
  using assms
proof (induction "length src" arbitrary: s pos src fw rule: less_induct)
  case less
  let ?m = "my_disk (parts s (cur_part s))" and ?r = "pos mod 512" and ?b = "bs ! (pos div 512)"
  have len: "\<forall>l. length (dsk s l) = 512" using less.prems(1) by (simp add: disk_ok_def dsk_def)
  show ?case
  proof (cases "src = []")
    case True
    then show ?thesis using len
      by (intro exI [of _ "dsk s"]) (simp add: write_loop.simps written_def dsk_def upd_inode_def)
  next
    case False
    define c where "c = min (length src) (512 - ?r)"
    have c: "0 < c" "c \<le> length src" "?r + c \<le> 512" using False by (auto simp: c_def min_def)
    have b: "pos div 512 < length bs" "?b \<le> max_lba" using less.prems(4) False by (auto simp: targets_def)
    define buf where "buf = (if fw then dsk s ?b else replicate 512 0)"
    have buf: "length buf = 512" "\<forall>j < ?r. buf ! j = dsk s ?b ! j" using len less.prems(5) by (auto simp: buf_def)
    define s' where "s' = upd_inode a (\<lambda>i. i\<lparr>i_size := i_size i + of_nat c\<rparr>)
      (s\<lparr>disks := (disks s)(?m := (dsk s)(?b := patch buf ?r (take c src)))\<rparr>)"
    have dk: "dsk s' = (dsk s)(?b := patch buf ?r (take c src))" by (simp add: s'_def dsk_def upd_inode_def)
    have pl: "length (patch buf ?r (take c src)) = 512" using buf(1) c by simp
    have step: "write_loop a bs fw src s = write_loop a bs False (drop c src) s'"
    proof -
      have rd: "(if fw then disk_read ?m ?b 1 s else Inr (replicate 512 0)) = Inr buf"
        using b(2) by (simp add: buf_def dsk_def)
      have wr: "disk_write ?m ?b (patch buf ?r (take c src)) 1 s =
          Inr (s\<lparr>disks := (disks s)(?m := (dsk s)(?b := patch buf ?r (take c src)))\<rparr>)"
        using b(2) pl by (simp add: dsk_def)
      show ?thesis
        unfolding write_loop.simps [of a bs fw src s] Let_def less.prems(2) [symmetric] c_def [symmetric] rd
        using False b(1) wr by (simp add: s'_def)
    qed
    have pre: "disk_ok s'" using less.prems(1) pl by (auto simp: disk_ok_def s'_def upd_inode_def dsk_def)
    have pos': "pos + c = unat (i_size (inodes s' a))"
      using less.prems(2,3) c(2) by (simp add: s'_def upd_inode_def unat_add_u32)
    have tg: "targets bs (pos + c) (length (drop c src))"
      using less.prems(4) c(2) unfolding targets_def by auto
    have al: "(pos + c) mod 512 = 0 \<or> drop c src = []"
    proof (cases "c = length src")
      case False
      then have "?r + c = 512" by (auto simp: c_def min_def split: if_splits)
      then have "pos + c = 512 * Suc (pos div 512)" unfolding mult_Suc_right by (metis add.assoc add.commute mult_div_mod_eq)
      then show ?thesis by (metis mod_mult_self1_is_0)
    qed simp
    have "\<exists>d'. write_loop a bs False (drop c src) s' = Inr (upd_inode a (\<lambda>i. i\<lparr>i_size := i_size i + of_nat (length (drop c src))\<rparr>)
      (s'\<lparr>disks := (disks s')(my_disk (parts s' (cur_part s')) := d')\<rparr>)) \<and> written (dsk s') bs (pos + c) (drop c src) d'"
    proof (cases "drop c src = []")
      case True
      then show ?thesis using pre
        by (intro exI [of _ "dsk s'"]) (simp add: write_loop.simps written_def dsk_def upd_inode_def disk_ok_def)
    next
      case nn: False
      have lt: "length (drop c src) < length src" "pos + c + length (drop c src) < 4294967296" using c less.prems(3) by simp_all
      show ?thesis by (rule less.hyps [OF lt(1) pre pos' lt(2) tg]) (use al nn in simp)
    qed
    then obtain d' where d': "write_loop a bs False (drop c src) s' = Inr (upd_inode a (\<lambda>i. i\<lparr>i_size := i_size i + of_nat (length (drop c src))\<rparr>)
      (s'\<lparr>disks := (disks s')(my_disk (parts s' (cur_part s')) := d')\<rparr>))" "written (dsk s') bs (pos + c) (drop c src) d'" by blast
    have "written (dsk s) bs pos src d'"
      by (rule written_step [OF len c_def False less.prems(4) buf]) (use d'(2) dk in simp)
    moreover have "upd_inode a (\<lambda>i. i\<lparr>i_size := i_size i + of_nat (length (drop c src))\<rparr>)
      (s'\<lparr>disks := (disks s')(my_disk (parts s' (cur_part s')) := d')\<rparr>) = upd_inode a (\<lambda>i. i\<lparr>i_size := i_size i + of_nat (length src)\<rparr>)
      (s\<lparr>disks := (disks s)(?m := d')\<rparr>)"
      using c(2) by (simp add: s'_def upd_inode_def of_nat_diff)
    ultimately show ?thesis using step d'(1) by auto
  qed
qed

section \<open>\<open>file_write\<close> appends\<close>

lemma first_block_ok:
  assumes ok: "blocks_ok (cur_part s) s" and root: "is_set (block_bitmap (parts s (cur_part s))) 0"
    and d: "direct_blocks s a n" and free: "n = 0 \<Longrightarrow> 0 < free_blocks s (cur_part s)"
  shows "\<exists>s'. first_block a s = Inr (True, s') \<and> grown a s s' \<and> direct_blocks s' a (max n 1) \<and>
    free_blocks s' (cur_part s) = free_blocks s (cur_part s) - (1 - n) \<and>
    (\<forall>k < n. i_sectors (inodes s' a) ! k = i_sectors (inodes s a) ! k) \<and>
    (n = 0 \<longrightarrow> \<not> used_block s (cur_part s) (i_sectors (inodes s' a) ! 0))"
proof (cases "n = 0")
  case False
  then have "i_sectors (inodes s a) ! 0 \<noteq> 0" using direct_blocks_zero [OF d, of 0] by simp
  moreover have "max n 1 = n" using False by simp
  ultimately show ?thesis using False ok d by (simp add: first_block_def grown_refl)
next
  case True
  then have fr: "0 < free_blocks s (cur_part s)" by (rule free)
  then obtain lba s1 s2 where
    al: "block_bitmap_alloc (cur_part s) s = Inr (lba, s1)" and l: "lba \<noteq> - 1" "lba \<noteq> 0" "lba \<le> max_lba" "\<not> used_block s (cur_part s) lba"
    and sync: "\<And>k. bitmap_sync (cur_part s) (lba - data_start_lba (sb (parts s (cur_part s)))) BLOCK_BITMAP
        (set_sector a k lba s1) = Inr (set_sector a k lba s2)"
    and s1: "cur_part s1 = cur_part s" "sb (parts s1 (cur_part s)) = sb (parts s (cur_part s))" "inodes s1 = inodes s" "inodes s2 = inodes s"
    and g: "grown a s s2" and u2: "used_block s2 (cur_part s) lba" and fr': "Suc (free_blocks s2 (cur_part s)) = free_blocks s (cur_part s)"
    and nz: "is_set (block_bitmap (parts s (cur_part s))) 0 \<Longrightarrow> lba - data_start_lba (sb (parts s (cur_part s))) \<noteq> 0"
    by (rule take_block [OF ok, of a]) (rule that)
  have "i_sectors (inodes s a) ! 0 = 0" using direct_blocks_zero [OF d, of 0] True by simp
  then have "first_block a s = Inr (True, set_sector a 0 lba s2)"
    using al l(1) sync s1(1,2) nz root by (simp add: first_block_def Let_def)
  moreover have "direct_blocks (set_sector a 0 lba s2) a 1"
    using direct_blocks_Suc [OF d _ g s1(4) l(2,3,4) u2] True by simp
  ultimately show ?thesis using g fr' True s1(4) l(4) direct_blocks_len [OF d] by simp
qed

lemma collect_blocks_ok:
  assumes ok: "blocks_ok (cur_part s) s" and d: "direct_blocks s a has" and h: "1 \<le> has" "has \<le> will" "will \<le> 12"
    and free: "will - has \<le> free_blocks s (cur_part s)"
  shows "\<exists>bs s'. collect_blocks a has will s = Inr (Some bs, s') \<and> grown a s s' \<and> direct_blocks s' a will \<and> length bs = 140 \<and>
     (\<forall>k. has \<le> Suc k \<and> k < will \<longrightarrow> bs ! k = i_sectors (inodes s' a) ! k) \<and>
     (\<forall>k < has. i_sectors (inodes s' a) ! k = i_sectors (inodes s a) ! k) \<and>
     (\<forall>k. has \<le> k \<and> k < will \<longrightarrow> \<not> used_block s (cur_part s) (i_sectors (inodes s' a) ! k))"
proof (cases "will = has")
  case True
  have "(replicate 140 0)[has - 1 := i_sectors (inodes s a) ! (has - 1)] ! k = i_sectors (inodes s a) ! k"
    if "has \<le> Suc k" "k < will" for k
  proof -
    have "k = has - 1" using that True by simp
    then show ?thesis using h by simp
  qed
  then show ?thesis using True ok d h by (simp add: collect_blocks_def Let_def grown_refl) auto
next
  case False
  let ?bs = "(replicate 140 0)[has - 1 := i_sectors (inodes s a) ! (has - 1)]"
  have "i_sectors (inodes s a) ! (has - 1) \<noteq> 0" using direct_blocks_zero [OF d, of "has - 1"] h by simp
  then have "collect_blocks a has will s = grow_loop Direct a has (will - has) ?bs s"
    using False h by (simp add: collect_blocks_def Let_def)
  moreover obtain bs' s' where "grow_loop Direct a has (will - has) ?bs s = Inr (Some bs', s')" "grown a s s'"
    "direct_blocks s' a (has + (will - has))" "length bs' = 140"
    "\<forall>k < has. bs' ! k = ?bs ! k \<and> i_sectors (inodes s' a) ! k = i_sectors (inodes s a) ! k"
    "\<forall>k. has \<le> k \<and> k < has + (will - has) \<longrightarrow> bs' ! k = i_sectors (inodes s' a) ! k \<and>
       \<not> used_block s (cur_part s) (i_sectors (inodes s' a) ! k)"
    using grow_direct [OF ok d, of "will - has" ?bs] h free by auto
  moreover have "bs' ! k = i_sectors (inodes s' a) ! k" if "has \<le> Suc k" "k < will" for k
  proof (cases "k < has")
    case True
    then have "k = has - 1" using that by simp
    then show ?thesis using calculation(6) True h by simp
  qed (use calculation(7) that in simp)
  ultimately show ?thesis using h by auto
qed

lemma used_above_table:
  assumes "layout_ok (parts s p)" "used_block s p b"
  shows "\<not> in_table (parts s p) b"
proof -
  obtain k where "k < n_bits (block_bitmap (parts s p))" "b = data_start_lba (sb (parts s p)) + of_nat k"
    using assms(2) by (auto simp: used_block_def)
  then have "unat b = unat (data_start_lba (sb (parts s p))) + k" using data_block_lba [OF assms(1)] by simp
  then show ?thesis using assms(1) by (simp add: in_table_def layout_ok_def)
qed

text \<open>A file that fits the direct blocks: its block count, and what an open of it for \<open>file_write\<close> needs.\<close>

definition block_count :: "nat \<Rightarrow> nat \<Rightarrow> bool" where
  "block_count sz n \<longleftrightarrow> n = sz div 512 + 1 \<or> sz = 0 \<and> n = 0"

lemma set_heap_blocks [simp]:
  "blocks_ok p (set_heap h s) = blocks_ok p s" "used_block (set_heap h s) p = used_block s p"
  "free_blocks (set_heap h s) p = free_blocks s p" "dsk (set_heap h s) = dsk s" "direct_blocks (set_heap h s) a n = direct_blocks s a n"
  by (simp_all add: blocks_ok_def on_disk_def disk_ok_def used_block_def free_blocks_def fs_units.free_units_def dsk_def
      direct_blocks_def fun_eq_iff Let_def)

text \<open>The blocks that are ready when the loop starts.\<close>

lemma write_prepared:
  assumes ok: "blocks_ok (cur_part s) s" and root: "is_set (block_bitmap (parts s (cur_part s))) 0"
    and d: "direct_blocks s a n" and n: "block_count (unat (i_size (inodes s a))) n"
    and sz: "unat (i_size (inodes s a)) + cnt < 6144" and free: "(unat (i_size (inodes s a)) + cnt) div 512 + 1 \<le> free_blocks s (cur_part s) + n"
  defines "has \<equiv> unat (i_size (inodes s a)) div 512 + 1" and "will \<equiv> (unat (i_size (inodes s a)) + cnt) div 512 + 1"
  obtains s1 bs s2 where "first_block a s = Inr (True, s1)" "collect_blocks a has will s1 = Inr (Some bs, s2)" "grown a s s1" "grown a s s2"
    "direct_blocks s2 a will" "targets bs (unat (i_size (inodes s a))) cnt"
    "\<And>k. has \<le> Suc k \<Longrightarrow> k < will \<Longrightarrow> bs ! k = i_sectors (inodes s2 a) ! k"
    "\<And>k. k < n \<Longrightarrow> i_sectors (inodes s2 a) ! k = i_sectors (inodes s a) ! k"
    "\<And>k. n \<le> k \<Longrightarrow> k < will \<Longrightarrow> \<not> used_block s (cur_part s) (i_sectors (inodes s2 a) ! k)"
proof -
  let ?sz = "unat (i_size (inodes s a))"
  have w: "has \<le> will" "will \<le> 12" using sz by (simp_all add: has_def will_def div_le_mono)
  have mx: "max n 1 = has" using n by (auto simp: block_count_def has_def)
  have "n = 0 \<Longrightarrow> 0 < free_blocks s (cur_part s)" using free by simp
  from first_block_ok [OF ok root d this] obtain s1 where s1: "first_block a s = Inr (True, s1)" "grown a s s1" "direct_blocks s1 a has"
    "free_blocks s1 (cur_part s) = free_blocks s (cur_part s) - (1 - n)" "\<forall>k < n. i_sectors (inodes s1 a) ! k = i_sectors (inodes s a) ! k"
    "n = 0 \<longrightarrow> \<not> used_block s (cur_part s) (i_sectors (inodes s1 a) ! 0)"
    unfolding mx by blast
  have c1: "cur_part s1 = cur_part s" "blocks_ok (cur_part s1) s1" using s1(2) by (simp_all add: grown_def)
  have fr: "will - has \<le> free_blocks s1 (cur_part s1)"
    using free s1(4) n c1(1) by (auto simp: block_count_def has_def will_def)
  have "1 \<le> has" by (simp add: has_def)
  from collect_blocks_ok [OF c1(2) s1(3) this w fr] obtain bs s2 where s2: "collect_blocks a has will s1 = Inr (Some bs, s2)" "grown a s1 s2"
    "direct_blocks s2 a will" "length bs = 140" "\<forall>k. has \<le> Suc k \<and> k < will \<longrightarrow> bs ! k = i_sectors (inodes s2 a) ! k"
    "\<forall>k < has. i_sectors (inodes s2 a) ! k = i_sectors (inodes s1 a) ! k"
    "\<forall>k. has \<le> k \<and> k < will \<longrightarrow> \<not> used_block s1 (cur_part s1) (i_sectors (inodes s2 a) ! k)" by blast
  have n_has: "n \<le> has" using mx by simp
  have ix: "has \<le> Suc (x div 512) \<and> x div 512 < will" if "?sz \<le> x" "x < ?sz + cnt" for x
    using that div_le_mono [of ?sz x 512] div_le_mono [of x "?sz + cnt" 512] by (simp add: has_def will_def)
  have se: "i_sectors (inodes s2 a) ! k \<le> max_lba" if "k < will" for k
    using s2(3) that by (simp add: direct_blocks_def Let_def)
  have inj: "inj_on (\<lambda>k. i_sectors (inodes s2 a) ! k) {..<will}" using s2(3) by (simp add: direct_blocks_def Let_def)
  have "targets bs ?sz cnt"
    unfolding targets_def
  proof (intro conjI allI impI)
    fix x assume "?sz \<le> x \<and> x < ?sz + cnt"
    then have "has \<le> Suc (x div 512)" "x div 512 < will" using ix by auto
    then show "x div 512 < length bs" "bs ! (x div 512) \<le> max_lba" using w(2) s2(4,5) se by simp_all
  next
    fix x y assume *: "?sz \<le> x \<and> x < ?sz + cnt \<and> ?sz \<le> y \<and> y < ?sz + cnt \<and> bs ! (x div 512) = bs ! (y div 512)"
    then have "has \<le> Suc (x div 512)" "x div 512 < will" "has \<le> Suc (y div 512)" "y div 512 < will" using ix by auto
    then show "x div 512 = y div 512" using * s2(5) inj_onD [OF inj] by simp
  qed
  moreover have "\<not> used_block s (cur_part s) (i_sectors (inodes s2 a) ! k)" if k: "n \<le> k" "k < will" for k
  proof (cases "k < has")
    case True
    then have "n = 0 \<and> k = 0" using k(1) n by (auto simp: block_count_def has_def)
    then show ?thesis using s1(6) s2(6) True by simp
  next
    case False
    then have "\<not> used_block s1 (cur_part s) (i_sectors (inodes s2 a) ! k)" using s2(7) k(2) c1(1) by simp
    then show ?thesis using s1(2) by (auto simp: grown_def)
  qed
  ultimately show thesis using that [OF s1(1) s2(1) s1(2) grown_trans [OF s1(2) s2(2)] s2(3)] s2(5,6) s1(5) n_has by simp
qed

text \<open>What an append leaves: the content is longer by \<open>src\<close>, other blocks in use are unchanged.\<close>

definition appended :: "'a fsys_scheme \<Rightarrow> 'a fsys_scheme \<Rightarrow> u32 \<Rightarrow> bytes \<Rightarrow> bool" where
  "appended s s' a src \<longleftrightarrow> content s' a = content s a @ src \<and> disk_ok s' \<and> cur_part s' = cur_part s \<and> in_kernel s' = in_kernel s \<and>
     length (i_sectors (inodes s' a)) = 13 \<and> (\<forall>k < unat (i_size (inodes s' a)). i_sectors (inodes s' a) ! (k div 512) \<le> max_lba) \<and>
     (\<forall>b. used_block s (cur_part s) b \<and> b \<notin> set (i_sectors (inodes s a)) \<longrightarrow> dsk s' b = dsk s b)"

lemma appended_blocks:
  assumes ok: "blocks_ok (cur_part s) s" and d: "direct_blocks s a n" and n: "block_count (unat (i_size (inodes s a))) n"
    and sz: "unat (i_size (inodes s a)) + length src < 6144"
    and g: "grown a s s2" and d2: "direct_blocks s2 a ((unat (i_size (inodes s a)) + length src) div 512 + 1)"
    and bs: "\<And>k. unat (i_size (inodes s a)) div 512 + 1 \<le> Suc k \<Longrightarrow> k < (unat (i_size (inodes s a)) + length src) div 512 + 1 \<Longrightarrow>
      bs ! k = i_sectors (inodes s2 a) ! k"
    and old: "\<And>k. k < n \<Longrightarrow> i_sectors (inodes s2 a) ! k = i_sectors (inodes s a) ! k"
    and fresh: "\<And>k. n \<le> k \<Longrightarrow> k < (unat (i_size (inodes s a)) + length src) div 512 + 1 \<Longrightarrow> \<not> used_block s (cur_part s) (i_sectors (inodes s2 a) ! k)"
    and w: "written (dsk s2) bs (unat (i_size (inodes s a))) src d1"
    and t: "table_upd (parts s4 (cur_part s)) m ib d1 d2" "sb (parts s4 (cur_part s)) = sb (parts s (cur_part s))"
    and s': "disks s' = (disks s4)(my_disk (parts s4 (cur_part s)) := d2)" "parts s' = parts s4" "cur_part s' = cur_part s"
    and i': "inodes s' a = (inodes s2 a)\<lparr>i_size := i_size (inodes s a) + of_nat (length src)\<rparr>"
    and k: "in_kernel s' = in_kernel s" and dk4: "disk_ok s4"
  shows "appended s s' a src"
proof -
  let ?sz = "unat (i_size (inodes s a))" and ?will = "(unat (i_size (inodes s a)) + length src) div 512 + 1"
  let ?se = "i_sectors (inodes s2 a)"
  have sz': "unat (i_size (inodes s' a)) = ?sz + length src" using sz by (simp add: i' unat_add_u32)
  have lay: "layout_ok (parts s (cur_part s))" using ok by (simp add: blocks_ok_def)
  have tab: "in_table (parts s4 (cur_part s)) = in_table (parts s (cur_part s))" using t(2) by (simp add: in_table_def fun_eq_iff)
  have g2: "layout_ok (parts s2 (cur_part s))" "sb (parts s2 (cur_part s)) = sb (parts s (cur_part s))" "cur_part s2 = cur_part s"
    using g by (simp_all add: grown_def blocks_ok_def)
  have d2': "d2 b = d1 b" if "used_block s2 (cur_part s) b" for b
  proof -
    have "\<not> in_table (parts s2 (cur_part s)) b" by (rule used_above_table [OF g2(1) that])
    then show ?thesis using t(1) tab g2(2) by (simp add: table_upd_def in_table_def)
  qed
  have dsk': "dsk s' = d2" by (simp add: dsk_def s')
  have len: "length ?se = 13" and u: "\<And>k. k < ?will \<Longrightarrow> used_block s2 (cur_part s) (?se ! k) \<and> ?se ! k \<le> max_lba"
    and inj: "inj_on (\<lambda>k. ?se ! k) {..<?will}" using d2 g2(3) by (simp_all add: direct_blocks_def Let_def)
  have ix: "x div 512 < ?will" "x div 512 < 12" if "x < ?sz + length src" for x
    using that sz div_le_mono [of x "?sz + length src" 512] by auto
  have fb: "file_blocks s' a ! (x div 512) = ?se ! (x div 512)" if "x < ?sz + length src" for x
    using file_blocks_direct [of s' a "x div 512"] len ix(2) [OF that] i' by simp
  have fb0: "file_blocks s a ! (x div 512) = ?se ! (x div 512)" "used_block s (cur_part s) (?se ! (x div 512))" if "x < ?sz" for x
  proof -
    have "x div 512 < n" using that n div_le_mono [of x ?sz 512] by (auto simp: block_count_def)
    moreover have "length (i_sectors (inodes s a)) = 13" "\<forall>k < n. used_block s (cur_part s) (i_sectors (inodes s a) ! k)"
      using d by (simp_all add: direct_blocks_def Let_def)
    ultimately show "file_blocks s a ! (x div 512) = ?se ! (x div 512)" "used_block s (cur_part s) (?se ! (x div 512))"
      using file_blocks_direct [of s a "x div 512"] ix(2) [of x] that old [of "x div 512"] by simp_all
  qed
  have new: "byte_at s' (file_blocks s' a) (?sz + i) = src ! i" if i: "i < length src" for i
  proof -
    have x: "?sz + i < ?sz + length src" using i by simp
    have "?sz div 512 + 1 \<le> Suc ((?sz + i) div 512)" by (simp add: div_le_mono)
    then have b: "bs ! ((?sz + i) div 512) = ?se ! ((?sz + i) div 512)" using bs ix(1) [OF x] by simp
    have "d1 (bs ! ((?sz + i) div 512)) ! ((?sz + i) mod 512) = src ! i" using w i by (simp add: written_def)
    then show ?thesis unfolding byte_at_def fb [OF x] dsk_def [of s', symmetric] dsk' using d2' u [OF ix(1) [OF x]] b by simp
  qed
  have kept: "byte_at s' (file_blocks s' a) x = byte_at s (file_blocks s a) x" if x: "x < ?sz" for x
  proof -
    have x': "x < ?sz + length src" using x by simp
    have "d1 (?se ! (x div 512)) ! (x mod 512) = dsk s2 (?se ! (x div 512)) ! (x mod 512)"
    proof (cases "x div 512 = ?sz div 512")
      case True
      then have "x mod 512 < ?sz mod 512" using x by (metis div_mult_mod_eq nat_add_left_cancel_less)
      moreover have "bs ! (?sz div 512) = ?se ! (?sz div 512)" using bs ix(1) [OF x'] True by simp
      ultimately show ?thesis using w True by (simp add: written_def)
    next
      case False
      have "bs ! (y div 512) \<noteq> ?se ! (x div 512)" if y: "?sz \<le> y" "y < ?sz + length src" for y
      proof -
        have le: "?sz div 512 + 1 \<le> Suc (y div 512)" using y by (simp add: div_le_mono)
        have "x div 512 < y div 512" using False div_le_mono [of x ?sz 512] x le by simp
        then show ?thesis using bs [OF le ix(1) [OF y(2)]] inj_onD [OF inj, of "x div 512" "y div 512"] ix(1) [OF x'] ix(1) [OF y(2)] by auto
      qed
      then show ?thesis using w by (simp add: written_def)
    qed
    also have "dsk s2 (?se ! (x div 512)) = dsk s (?se ! (x div 512))" using g fb0(2) [OF x] by (simp add: grown_def)
    finally show ?thesis
      unfolding byte_at_def fb [OF x'] dsk_def [of s', symmetric] dsk' fb0(1) [OF x] dsk_def [of s, symmetric]
      using d2' u [OF ix(1) [OF x']] by simp
  qed
  have "content s' a = content s a @ src"
  proof (rule nth_equalityI)
    fix x assume "x < length (content s' a)"
    then have x: "x < ?sz + length src" by (simp add: sz')
    show "content s' a ! x = (content s a @ src) ! x"
      using x new [of "x - ?sz"] kept [of x] sz' by (auto simp: content_def nth_append)
  qed (simp add: sz')
  moreover have "dsk s' b = dsk s b" if b: "used_block s (cur_part s) b" "b \<notin> set (i_sectors (inodes s a))" for b
  proof -
    have "bs ! (x div 512) \<noteq> b" if x: "?sz \<le> x" "x < ?sz + length src" for x
    proof -
      have eq: "bs ! (x div 512) = ?se ! (x div 512)" using bs ix(1) [OF x(2)] x by (simp add: div_le_mono)
      show ?thesis
      proof (cases "x div 512 < n")
        case True
        then have "?se ! (x div 512) \<in> set (i_sectors (inodes s a))"
          using old [OF True] d ix(2) [OF x(2)] by (simp add: direct_blocks_def Let_def)
        then show ?thesis using b(2) eq by metis
      next
        case False
        then show ?thesis using fresh [of "x div 512"] ix(1) [OF x(2)] b(1) eq by auto
      qed
    qed
    then have "d1 b = dsk s2 b" using w by (simp add: written_def)
    moreover have "used_block s2 (cur_part s) b" "dsk s2 b = dsk s b" using g b(1) by (simp_all add: grown_def)
    ultimately show ?thesis using d2' dsk' by simp
  qed
  moreover have "disk_ok s'" using dk4 t(1) by (auto simp: disk_ok_def s' table_upd_def)
  ultimately show ?thesis
    using s'(3) k len u ix(1) i' sz' by (simp add: appended_def)
qed

lemma file_write_eq:
  assumes ok: "blocks_ok (cur_part s) s" and root: "is_set (block_bitmap (parts s (cur_part s))) 0"
    and a: "a = fd_inode (file_table s ! f)" "a \<noteq> 0" and d: "direct_blocks s a n" and n: "block_count (unat (i_size (inodes s a))) n"
    and sz: "unat (i_size (inodes s a)) + unat count < 6144" "unat count \<le> length buf"
    and free: "(unat (i_size (inodes s a)) + unat count) div 512 + 1 \<le> free_blocks s (cur_part s) + n"
    and b: "two_buffers s x y h"
  shows "if straddles (unat (i_no (inodes s a)) mod 256) then file_write f buf count s = Inl Fault
    else \<exists>s'. file_write f buf count s = Inr (count, s') \<and> appended s s' a (take (unat count) buf) \<and>
      heap s' = h @ [y, x] \<and> tasks s' = tasks s \<and> running_thread s' = running_thread s \<and> file_table s' = (file_table s)[f := (file_table s ! f)\<lparr>fd_pos := i_size (inodes s a) - 1\<rparr>]"
proof -
  let ?size = "i_size (inodes s a)" and ?src = "take (unat count) buf" and ?p = "cur_part s"
  define t0 where "t0 = set_heap h s"
  have t0: "blocks_ok (cur_part t0) t0" "is_set (block_bitmap (parts t0 (cur_part t0))) 0" "direct_blocks t0 a n"
    "block_count (unat (i_size (inodes t0 a))) n" "unat (i_size (inodes t0 a)) + unat count < 6144"
    "(unat (i_size (inodes t0 a)) + unat count) div 512 + 1 \<le> free_blocks t0 (cur_part t0) + n"
    using ok root d n sz(1) free by (simp_all add: t0_def)
  have len: "length ?src = unat count" using sz(2) by simp
  obtain s1 bs s2 where p: "first_block a t0 = Inr (True, s1)" "collect_blocks a (unat (i_size (inodes t0 a)) div 512 + 1)
      ((unat (i_size (inodes t0 a)) + unat count) div 512 + 1) s1 = Inr (Some bs, s2)" "grown a t0 s1" "grown a t0 s2"
    "direct_blocks s2 a ((unat (i_size (inodes t0 a)) + unat count) div 512 + 1)" "targets bs (unat (i_size (inodes t0 a))) (unat count)"
    "\<And>k. unat (i_size (inodes t0 a)) div 512 + 1 \<le> Suc k \<Longrightarrow> k < (unat (i_size (inodes t0 a)) + unat count) div 512 + 1 \<Longrightarrow>
       bs ! k = i_sectors (inodes s2 a) ! k"
    "\<And>k. k < n \<Longrightarrow> i_sectors (inodes s2 a) ! k = i_sectors (inodes t0 a) ! k"
    "\<And>k. n \<le> k \<Longrightarrow> k < (unat (i_size (inodes t0 a)) + unat count) div 512 + 1 \<Longrightarrow>
       \<not> used_block t0 (cur_part t0) (i_sectors (inodes s2 a) ! k)"
    by (rule write_prepared [OF t0]) (rule that)
  have t: "inodes t0 = inodes s" "cur_part t0 = ?p" "used_block t0 q = used_block s q" "file_table t0 = file_table s" "heap t0 = h"
    "in_kernel t0 = in_kernel s" "parts t0 = parts s" "tasks t0 = tasks s" "running_thread t0 = running_thread s" for q by (simp_all add: t0_def)
  note p = p [unfolded t]
  define s3 where "s3 = upd_file f (\<lambda>x. x\<lparr>fd_pos := ?size - 1\<rparr>) s2"
  have g2: "cur_part s2 = ?p" "i_size (inodes s2 a) = ?size" "i_no (inodes s2 a) = i_no (inodes s a)" "heap s2 = h"
    "in_kernel s2 = in_kernel s" "file_table s2 = file_table s" "disk_ok s2" "layout_ok (parts s2 ?p)"
    "sb (parts s2 ?p) = sb (parts s ?p)" "tasks s2 = tasks s" "running_thread s2 = running_thread s"
    using p(4) by (simp_all add: grown_def blocks_ok_def t)
  have g1: "i_size (inodes s1 a) = ?size" using p(3) by (simp add: grown_def t)
  have d3: "disk_ok s3" "dsk s3 = dsk s2" "cur_part s3 = ?p" "parts s3 = parts s2" "inodes s3 = inodes s2"
    using g2 by (simp_all add: s3_def dsk_def disk_ok_def)
  obtain d1 where d1: "write_loop a bs True ?src s3 = Inr (upd_inode a (\<lambda>i. i\<lparr>i_size := i_size i + of_nat (length ?src)\<rparr>)
      (s3\<lparr>disks := (disks s3)(my_disk (parts s2 ?p) := d1)\<rparr>))" "written (dsk s2) bs (unat ?size) ?src d1"
    using write_loop_written [of s3 "unat ?size" a ?src bs True] d3 g2(2) sz p(6) len by auto
  define s4 where "s4 = upd_inode a (\<lambda>i. i\<lparr>i_size := i_size i + count\<rparr>) (s3\<lparr>disks := (disks s3)(my_disk (parts s2 ?p) := d1)\<rparr>)"
  have loop: "write_loop a bs True ?src s3 = Inr s4" using d1(1) sz(2) by (simp add: s4_def min_def)
  have s4: "parts s4 = parts s2" "cur_part s4 = ?p" "inodes s4 a = (inodes s2 a)\<lparr>i_size := ?size + count\<rparr>"
    "disks s4 (my_disk (parts s2 ?p)) = d1" "heap s4 = h" "in_kernel s4 = in_kernel s" "i_no (inodes s4 a) = i_no (inodes s a)"
    using d3 g2 by (simp_all add: s4_def s3_def) (simp_all add: upd_inode_def)
  have dk4: "disk_ok s4" using d3(1) d1(2) by (auto simp: disk_ok_def s4_def upd_inode_def written_def)
  have hx: "x \<noteq> 0" "y \<noteq> 0" "heap s = x # y # h" "y \<notin> set h" "x \<notin> set h" "x \<noteq> y"
    "in_kernel s \<longrightarrow> K_HEAP_START \<le> x \<and> K_HEAP_START \<le> y" using b by (auto simp: two_buffers_def)
  have div1: "unat (?size div 512 + 1) = unat ?size div 512 + 1" "unat ((?size + count) div 512 + 1) = (unat ?size + unat count) div 512 + 1"
    "(unat ?size + unat count) div 512 + 1 \<le> 140" "\<not> ?size + count > 512 * 140"
  proof -
    have sum: "unat (?size + count) = unat ?size + unat count" using sz by (simp add: unat_add_u32)
    then show "\<not> ?size + count > 512 * 140" using sz by (simp add: word_less_nat_alt)
    have "unat ?size div 512 < 4294967295" "(unat ?size + unat count) div 512 < 4294967295"
      using div_le_dividend [of "unat ?size + unat count" 512] div_le_dividend [of "unat ?size" 512] sz by linarith+
    then show "unat (?size div 512 + 1) = unat ?size div 512 + 1" "unat ((?size + count) div 512 + 1) = (unat ?size + unat count) div 512 + 1"
      by (simp_all add: unat_add_u32 unat_div sum)
    show "(unat ?size + unat count) div 512 + 1 \<le> 140" using sz by simp
  qed
  have start: "file_write f buf count s = bnd (inode_sync ?p (inodes s4 a) 512 s4) (\<lambda>s. bnd (fs_free y s) (\<lambda>s. bnd (fs_free x s) (\<lambda>s. Inr (count, s))))"
  proof -
    have m: "fs_malloc s = (x, set_heap (y # h) s)" "fs_malloc (set_heap (y # h) s) = (y, t0)"
      using hx(3) by (simp_all add: t0_def)
    have ne: "\<not> x = 0" "\<not> y = 0" "(a \<noteq> 0) = True" using hx a(2) by simp_all
    have leb: "(unat count \<le> length buf) = True" using sz(2) by simp
    have q: "i_size (inodes (set_heap (y # h) s) a) = ?size" "(\<not> True) = False" by simp_all
    show ?thesis
      unfolding file_write_def Let_def BLOCK_SIZE_def a(1) [symmetric]
      by (simp only: m prod.case ne defined_True bnd_Inr if_False p(1,2) q div1 ASSERT_True option.case g1 g2(2) s3_def [symmetric]
          loop s4(2) leb not_True_eq_False simp_thms t)
  qed
  show ?thesis
  proof (cases "straddles (unat (i_no (inodes s a)) mod 256)")
    case True
    have "inode_sync ?p (inodes s4 a) 512 s4 = Inl Fault"
      by (rule inode_sync_overrun) (use True g2(8) s4(1,7) in simp_all)
    then show ?thesis using True start by simp
  next
    case False
    have "length (i_sectors (inodes s4 a)) = 13" using direct_blocks_len [OF p(5)] s4(3) by simp
    then obtain d2 where d2: "inode_sync ?p (inodes s4 a) 512 s4 = Inr (s4\<lparr>disks := (disks s4)(my_disk (parts s4 ?p) := d2)\<rparr>)"
      "table_upd (parts s4 ?p) (unat (i_no (inodes s4 a)) mod 256) (inode_bytes (pure (inodes s4 a))) d1 d2"
      using inode_sync_fits [of s4 ?p "inodes s4 a" 512] False g2(8) s4 dk4 by auto
    define s5 where "s5 = s4\<lparr>disks := (disks s4)(my_disk (parts s4 ?p) := d2)\<rparr>"
    have s5: "heap s5 = h" "in_kernel s5 = in_kernel s" using s4 by (simp_all add: s5_def)
    define s' where "s' = set_heap (h @ [y, x]) s5"
    have "file_write f buf count s = Inr (count, s')"
      unfolding start d2(1) s5_def [symmetric] using hx s5 by (auto simp: fs_free_def s'_def)
    moreover have "appended t0 s' a ?src"
      by (rule appended_blocks [where ?s2.0 = s2 and ?s4.0 = s4 and bs = bs and ?d1.0 = d1 and ?d2.0 = d2 and n = n, OF t0(1,3,4)])
        (use p d1(2) d2(2) len sz s4 g2 dk4 s5 in \<open>simp_all add: s'_def t\<close>, simp_all add: s5_def s4)
    then have "appended s s' a ?src"
      by (simp add: appended_def t) (simp add: t0_def content_def byte_at_def file_blocks_def)
    moreover have "file_table s' = (file_table s)[f := (file_table s ! f)\<lparr>fd_pos := ?size - 1\<rparr>]"
      "tasks s' = tasks s" "running_thread s' = running_thread s"
      using g2(6,10,11) by (simp_all add: s'_def s5_def s4_def s3_def upd_inode_def upd_file_def)
    ultimately show ?thesis using False by (simp add: s'_def)
  qed
qed

section \<open>Properties\<close>

text \<open>C2: reading a file returns the bytes of its content from its position on, as many as asked for or left,
  through direct and indirect blocks; the position moves behind them, no block, inode or buffer changes.\<close>

theorem file_read_content:
  assumes "disk_ok s" and "f < length (file_table s)" and "a = fd_inode (file_table s ! f)" and "a \<noteq> 0" and "readable s a"
    and "pos = unat (fd_pos (file_table s ! f))" and "pos \<le> unat (i_size (inodes s a))" and "pos + unat count < 4294967296"
    and "two_buffers s x y h" and "n = min (unat count) (unat (i_size (inodes s a)) - pos)" and "n = 0 \<longrightarrow> count = 0"
  shows "\<exists>s'. file_read f count s = Inr (of_nat n, take (unat count) (drop pos (content s a)), s') \<and>
    unat (fd_pos (file_table s' ! f)) = pos + n \<and> disks s' = disks s \<and> inodes s' = inodes s \<and> set (heap s') = set (heap s)"
proof -
  have "pos + n < 4294967296" using assms(8,10) by linarith
  then have "unat (fd_pos (file_table s ! f) + of_nat n) = pos + n" using assms(6) by (simp add: unat_add_u32)
  then have "unat (fd_pos (file_table (advance f n s) ! f)) = pos + n" using assms(2) by (simp add: advance_def)
  moreover have "set (h @ [y, x]) = set (heap s)" using assms(9) by (auto simp: two_buffers_def)
  moreover have "file_read f count s = Inr (of_nat n, take (unat count) (drop pos (content s a)), set_heap (h @ [y, x]) (advance f n s))"
    unfolding assms(10) by (rule file_read_slice [OF assms(1-9)]) (use assms(10,11) in simp)
  ultimately show ?thesis
    by (intro exI [of _ "set_heap (h @ [y, x]) (advance f n s)"]) (simp add: advance_def)
qed

text \<open>C1: \<open>file_write\<close> appends: on a file that stays within its direct blocks, whatever its position, the content
  becomes longer by the bytes given, blocks being taken as needed; no other block in use changes. But when the
  inode lies in two sectors of the table the buffer of one sector overflows, and the position is left one byte
  before the old end.\<close>

theorem file_write_appends:
  assumes "blocks_ok (cur_part s) s" and "is_set (block_bitmap (parts s (cur_part s))) 0"
    and "a = fd_inode (file_table s ! f)" and "a \<noteq> 0" and "f < length (file_table s)"
    and "direct_blocks s a n" and "block_count (unat (i_size (inodes s a))) n"
    and "unat (i_size (inodes s a)) + unat count < 6144" and "unat count \<le> length buf"
    and "(unat (i_size (inodes s a)) + unat count) div 512 + 1 \<le> free_blocks s (cur_part s) + n"
    and "two_buffers s x y h"
  shows "if straddles (unat (i_no (inodes s a)) mod 256) then file_write f buf count s = Inl Fault
    else \<exists>s'. file_write f buf count s = Inr (count, s') \<and> content s' a = content s a @ take (unat count) buf \<and>
      fd_pos (file_table s' ! f) = i_size (inodes s a) - 1 \<and>
      (\<forall>b. used_block s (cur_part s) b \<and> b \<notin> set (i_sectors (inodes s a)) \<longrightarrow> dsk s' b = dsk s b)"
  using file_write_eq [OF assms(1-4,6-11)] assms(5) by (auto simp: appended_def split: if_splits)

section \<open>A file on the example disk\<close>

definition demo_open :: "u32 \<Rightarrow> fsys" where
  "demo_open no = demo_fs\<lparr>file_table := (replicate 32 \<lparr>fd_pos = 0, fd_flag = 0, fd_inode = 0\<rparr>)[3 := \<lparr>fd_pos = 0, fd_flag = 2, fd_inode = 0xc0300000\<rparr>],
     inodes := (inodes demo_fs)(0xc0300000 := inode_init no)\<rparr>"

lemma demo_open_simps [simp]:
  "parts (demo_open no) = parts demo_fs" "cur_part (demo_open no) = (1, 0)" "disks (demo_open no) = disks demo_fs"
  "file_table (demo_open no) ! 3 = \<lparr>fd_pos = 0, fd_flag = 2, fd_inode = 0xc0300000\<rparr>" "length (file_table (demo_open no)) = 32"
  "inodes (demo_open no) 0xc0300000 = inode_init no" "heap (demo_open no) = kheap demo_fs" "in_kernel (demo_open no)"
  using demo_kernel by (simp_all add: demo_open_def heap_def in_kernel_def)

lemma demo_open_blocks: "blocks_ok (1, 0) (demo_open no)" "is_set demo_bits 0" "0 < free_blocks (demo_open no) (1, 0)"
proof -
  show "blocks_ok (1, 0) (demo_open no)" using demo_blocks_ok by (simp add: blocks_ok_def on_disk_def disk_ok_def)
  show "is_set demo_bits 0" by (simp add: demo_bits_bits)
  have "1 \<in> fs_units.free_units BLOCK_BITMAP (1, 0) (demo_open no)"
    unfolding fs_units.free_units_def by (simp add: bm_of_def demo_bits_bits n_bits_def)
  then show "0 < free_blocks (demo_open no) (1, 0)" unfolding free_blocks_def by (metis card_gt_0_iff empty_iff fs_units.finite_free_units)
qed

lemma demo_open_file:
  "direct_blocks (demo_open no) 0xc0300000 0" "block_count (unat (i_size (inodes (demo_open no) 0xc0300000))) 0"
  "two_buffers (demo_open no) 0xc0200400 0xc0200800 [0xc0200c00, 0xc0201000]"
  using demo_heap by (simp_all add: direct_blocks_def inode_init_def block_count_def two_buffers_def demo_kernel(2) K_HEAP_START_def word_le_nat_alt)

theorem file_write_appends_witness:
  "(\<exists>s'. file_write 3 [104, 105] 2 (demo_open 5) = Inr (2, s') \<and> content s' 0xc0300000 = [104, 105] \<and>
      fd_pos (file_table s' ! 3) = 0xffffffff) \<and>
   file_write 3 [104, 105] 2 (demo_open 6) = Inl Fault"
proof -
  have w: "if straddles (unat (i_no (inodes (demo_open no) 0xc0300000)) mod 256) then file_write 3 [104, 105] 2 (demo_open no) = Inl Fault
    else \<exists>s'. file_write 3 [104, 105] 2 (demo_open no) = Inr (2, s') \<and>
      content s' 0xc0300000 = content (demo_open no) 0xc0300000 @ take (unat (2 :: u32)) [104, 105] \<and>
      fd_pos (file_table s' ! 3) = i_size (inodes (demo_open no) 0xc0300000) - 1 \<and>
      (\<forall>b. used_block (demo_open no) (cur_part (demo_open no)) b \<and> b \<notin> set (i_sectors (inodes (demo_open no) 0xc0300000)) \<longrightarrow>
         dsk s' b = dsk (demo_open no) b)" for no
    by (rule file_write_appends [OF _ _ _ _ _ demo_open_file(1,2) _ _ _ demo_open_file(3)])
      (use demo_open_blocks(1,3) [of no] demo_open_blocks(2) in \<open>simp_all add: inode_init_def\<close>)
  have "content (demo_open no) 0xc0300000 = []" for no by (simp add: content_def inode_init_def)
  then show ?thesis
    using w [of 5] w [of 6] by (auto simp: straddles_def sizeof_inode_def inode_init_def)
qed

lemma demo_root_readable: "readable demo_fs a"
  by (simp add: readable_def demo_root_def file_blocks_def nth_append word_le_nat_alt)

definition demo_reader :: fsys where
  "demo_reader = demo_fs\<lparr>file_table := (replicate 32 \<lparr>fd_pos = 0, fd_flag = 0, fd_inode = 0\<rparr>)[3 := \<lparr>fd_pos = 24, fd_flag = 0, fd_inode = 0xc0300000\<rparr>]\<rparr>"

theorem file_read_content_witness:
  "\<exists>s'. file_read 3 2 demo_reader = Inr (2, [46, 46], s') \<and> unat (fd_pos (file_table s' ! 3)) = 26"
proof -
  have d: "disk_ok demo_reader" using demo_disk_ok by (simp add: disk_ok_def demo_reader_def)
  have f: "file_table demo_reader ! 3 = \<lparr>fd_pos = 24, fd_flag = 0, fd_inode = 0xc0300000\<rparr>" "3 < length (file_table demo_reader)"
    by (simp_all add: demo_reader_def)
  have i: "inodes demo_reader = inodes demo_fs" "heap demo_reader = heap demo_fs" "in_kernel demo_reader = in_kernel demo_fs"
    "disks demo_reader = disks demo_fs" "parts demo_reader = parts demo_fs" "cur_part demo_reader = (1, 0)"
    by (simp_all add: demo_reader_def heap_def in_kernel_def)
  have h: "heap demo_fs = kheap demo_fs" using demo_kernel(1) by (simp add: heap_def)
  have r: "readable demo_reader 0xc0300000" using demo_root_readable [of "0xc0300000"] i by (simp add: readable_def file_blocks_def)
  have b: "two_buffers demo_reader 0xc0200400 0xc0200800 [0xc0200c00, 0xc0201000]"
    using demo_heap demo_kernel by (simp add: two_buffers_def i h K_HEAP_START_def word_le_nat_alt)
  have fb: "file_blocks demo_reader 0xc0300000 ! 0 = 675"
    by (simp add: file_blocks_def i demo_root_def)
  have c: "take 2 (drop 24 (content demo_reader 0xc0300000)) = [46, 46]"
    by (simp add: content_def drop_map take_map i demo_root_def byte_at_def fb upt_rec demo_disk_def demo_dots_def nth_append nth_Cons')
  have "\<exists>s'. file_read 3 2 demo_reader = Inr (of_nat 2, take (unat (2 :: u32)) (drop 24 (content demo_reader 0xc0300000)), s') \<and>
    unat (fd_pos (file_table s' ! 3)) = 24 + 2 \<and> disks s' = disks demo_reader \<and> inodes s' = inodes demo_reader \<and> set (heap s') = set (heap demo_reader)"
    by (rule file_read_content [OF d f(2) _ _ r _ _ _ b]) (simp_all add: f i demo_root_def)
  then show ?thesis using c by auto
qed

end
