(* ===== verification/Calls.thy ===== *)
theory Calls
  imports Fs Content
begin

text \<open>
  Properties of the file system's calls (fs/fs.c): counting the components of a path, and writing, seeking
  and reading through file descriptors.
\<close>

section \<open>Paths\<close>

text \<open>The components of a path: the non-empty strings between slashes.\<close>

fun pieces :: "bytes \<Rightarrow> bytes list" where
  "pieces [] = [[]]"
| "pieces (c # cs) = (if c = 47 then [] # pieces cs else (c # hd (pieces cs)) # tl (pieces cs))"

definition components :: "bytes \<Rightarrow> bytes list" where
  "components p = filter (\<lambda>x. x \<noteq> []) (pieces p)"

lemma pieces_ne [simp]: "pieces p \<noteq> []"
  by (cases p) auto

lemma components_slash [simp]: "components (47 # p) = components p"
  by (simp add: components_def)

lemma components_dropWhile: "components (dropWhile (\<lambda>c. c = 47) p) = components p"
  by (induction p) auto

lemma pieces_name:
  assumes "47 \<notin> set n"
  shows "pieces (n @ 47 # p) = n # pieces p" and "pieces n = [n]"
  using assms by (induction n) auto

lemma components_split:
  fixes p :: bytes
  defines "q \<equiv> dropWhile (\<lambda>c. c = 47) p"
  shows "components p = (if q = [] then [] else takeWhile (\<lambda>c. c \<noteq> 47) q # components (dropWhile (\<lambda>c. c \<noteq> 47) q))"
proof (cases "q = []")
  case True
  have "components p = components q" unfolding q_def by (simp only: components_dropWhile)
  then show ?thesis using True by (simp add: components_def)
next
  case False
  let ?n = "takeWhile (\<lambda>c. c \<noteq> 47) q" and ?r = "dropWhile (\<lambda>c. c \<noteq> 47) q"
  have n: "47 \<notin> set ?n" by (auto dest: set_takeWhileD)
  have "hd q \<noteq> 47" using hd_dropWhile [of "\<lambda>c. c = 47" p] False unfolding q_def by simp
  then have ne: "?n \<noteq> []" using False by (cases q) auto
  have q: "q = ?n @ ?r" by simp
  have "components q = ?n # components ?r"
  proof (cases ?r)
    case Nil
    have "q = ?n" by (rule q [unfolded Nil append_Nil2])
    then have "components q = components ?n" by simp
    also have "\<dots> = [?n]" unfolding components_def pieces_name(2) [OF n] using ne by simp
    finally show ?thesis unfolding Nil by (simp add: components_def)
  next
    case (Cons c cs)
    then have "c = 47" using hd_dropWhile [of "\<lambda>c. c \<noteq> 47" q] by auto
    then have "q = ?n @ 47 # cs" using q Cons by simp
    then have "components q = components (?n @ 47 # cs)" by simp
    also have "\<dots> = ?n # components cs" unfolding components_def pieces_name(1) [OF n] using ne by simp
    finally have "components q = ?n # components cs" .
    then show ?thesis unfolding Cons using \<open>c = 47\<close> by simp
  qed
  then show ?thesis using False components_dropWhile [of p] unfolding q_def by simp
qed

definition rest_path :: "bytes option \<Rightarrow> bytes" where
  "rest_path r = (case r of None \<Rightarrow> [] | Some q \<Rightarrow> q)"

lemma path_parse_components:
  assumes "\<forall>x \<in> set (components p). length x \<le> length store" "store \<noteq> []"
  shows "\<exists>r store'. path_parse p store = Inr (r, store') \<and> length store' = length store \<and>
    (case components p of [] \<Rightarrow> r = None \<and> store' = store
     | x # xs \<Rightarrow> store' ! 0 = hd x \<and> x \<noteq> [] \<and> components (rest_path r) = xs)"
proof -
  let ?q = "dropWhile (\<lambda>c. c = 47) p"
  let ?n = "takeWhile (\<lambda>c. c \<noteq> 47) ?q" and ?r = "dropWhile (\<lambda>c. c \<noteq> 47) ?q"
  show ?thesis
  proof (cases "?q = []")
    case True
    then have "components p = []" using components_split [of p] by simp
    moreover have "path_parse p store = Inr (None, store)" unfolding path_parse_def Let_def True by (simp add: patch_def)
    ultimately show ?thesis by simp
  next
    case False
    define n where "n = ?n"
    define t where "t = ?r"
    have c: "components p = n # components t" using components_split [of p] False by (simp only: n_def t_def if_False)
    have le: "length n \<le> length store" using assms(1) c by simp
    have "hd ?q \<noteq> 47" using hd_dropWhile [of "\<lambda>c. c = 47" p] False by simp
    then have ne: "n \<noteq> []" unfolding n_def using False by (cases ?q) auto
    then have hd: "patch store 0 n ! 0 = hd n" by (simp add: patch_def nth_append hd_conv_nth)
    have "path_parse p store = Inr (if t = [] then None else Some t, patch store 0 n)"
      using le unfolding path_parse_def Let_def n_def [symmetric] t_def [symmetric] by simp
    moreover have "components (rest_path (if t = [] then None else Some t)) = components t" by (simp add: rest_path_def components_def)
    ultimately show ?thesis unfolding c list.case using hd ne le
      by (intro exI [of _ "if t = [] then None else Some t"] exI [of _ "patch store 0 n"]) simp
  qed
qed

lemma components_char: "x \<in> set (components p) \<Longrightarrow> c \<in> set x \<Longrightarrow> c \<in> set p"
proof -
  assume a: "x \<in> set (components p)" "c \<in> set x"
  have "\<forall>y \<in> set (pieces p). set y \<subseteq> set p"
  proof (induction p)
    case (Cons b p)
    have "hd (pieces p) \<in> set (pieces p)" "set (tl (pieces p)) \<subseteq> set (pieces p)" by (simp_all add: list.set_sel(2) subsetI)
    then show ?case using Cons by auto
  qed simp
  then show ?thesis using a by (auto simp: components_def)
qed

lemma depth_loop_count:
  assumes "\<forall>x \<in> set (components (rest_path r)). length x \<le> 16 \<and> 0 \<notin> set x"
  shows "depth_loop r name d = Inr (if name ! 0 = 0 then d else d + 1 + of_nat (length (components (rest_path r))))"
  using assms
proof (induction "case r of None \<Rightarrow> 0 | Some q \<Rightarrow> Suc (length q)" arbitrary: r name d rule: less_induct)
  case less
  show ?case
  proof (cases "name ! 0 = 0 \<or> r = None")
    case True
    then show ?thesis by (subst depth_loop.simps) (auto simp: rest_path_def components_def)
  next
    case False
    then obtain q where r: "r = Some q" by auto
    from path_parse_components [of q "replicate MAX_FILE_NAME_LEN 0"] less.prems obtain r' st where
      pp: "path_parse q (replicate MAX_FILE_NAME_LEN 0) = Inr (r', st)"
        "case components q of [] \<Rightarrow> r' = None \<and> st = replicate MAX_FILE_NAME_LEN 0
         | x # xs \<Rightarrow> st ! 0 = hd x \<and> x \<noteq> [] \<and> components (rest_path r') = xs"
      by (auto simp: r rest_path_def [of "Some q"] MAX_FILE_NAME_LEN_def)
    have lt: "(case r' of None \<Rightarrow> 0 | Some q \<Rightarrow> Suc (length q)) < (case r of None \<Rightarrow> 0 | Some q \<Rightarrow> Suc (length q))"
      using path_parse_shorter [of q _ _ st] pp(1) by (cases r') (auto simp: r)
    have step: "depth_loop r name d = depth_loop r' st (d + 1)"
      using False pp(1) by (subst depth_loop.simps) (simp add: r)
    show ?thesis
    proof (cases "components q")
      case Nil
      then have z: "r' = None" "st ! 0 = 0" using pp(2) by (simp_all add: MAX_FILE_NAME_LEN_def)
      then show ?thesis using step False Nil by (simp add: r rest_path_def depth_loop.simps)
    next
      case (Cons x xs)
      then have x: "st ! 0 = hd x" "x \<noteq> []" "components (rest_path r') = xs" using pp(2) by simp_all
      have "0 \<notin> set x" using less.prems Cons by (simp add: r rest_path_def)
      then have "st ! 0 \<noteq> 0" using x(1,2) hd_in_set by metis
      moreover have "depth_loop r' st (d + 1) = Inr (if st ! 0 = 0 then d + 1 else d + 1 + 1 + of_nat (length (components (rest_path r'))))"
        by (rule less.hyps [OF lt]) (use less.prems Cons x(3) in \<open>simp add: r rest_path_def\<close>)
      ultimately show ?thesis using step False Cons x(3) by (simp add: r rest_path_def)
    qed
  qed
qed

text \<open>C33: \<open>path_depth_cnt\<close> counts the components of a path, whatever slashes are repeated or trail, when none is
  longer than 16 bytes; for a path without a component the result depends on the byte the stack holds.\<close>

theorem path_depth_cnt_components:
  assumes "\<forall>x \<in> set (components p). length x \<le> 16" and "0 \<notin> set p" and "16 \<le> length g"
  shows "path_depth_cnt g p = Inr (if components p = [] then (if g ! 0 = 0 then 0 else 1) else of_nat (length (components p)))"
proof -
  have z: "\<forall>x \<in> set (components p). 0 \<notin> set x" using components_char assms(2) by blast
  have st: "length (take MAX_FILE_NAME_LEN g) = 16" "take MAX_FILE_NAME_LEN g \<noteq> []"
    using assms(3) by (auto simp: MAX_FILE_NAME_LEN_def)
  have "\<forall>x \<in> set (components p). length x \<le> length (take MAX_FILE_NAME_LEN g)" using assms(1) st(1) by simp
  from path_parse_components [OF this st(2)] obtain r store where
    pp: "path_parse p (take MAX_FILE_NAME_LEN g) = Inr (r, store)"
      "case components p of [] \<Rightarrow> r = None \<and> store = take MAX_FILE_NAME_LEN g
       | x # xs \<Rightarrow> store ! 0 = hd x \<and> x \<noteq> [] \<and> components (rest_path r) = xs"
    by blast
  show ?thesis
  proof (cases "components p")
    case Nil
    then have "r = None" "store ! 0 = g ! 0" using pp(2) assms(3) by (simp_all add: MAX_FILE_NAME_LEN_def)
    then show ?thesis using pp(1) Nil by (simp add: path_depth_cnt_def depth_loop.simps)
  next
    case (Cons x xs)
    then have x: "store ! 0 = hd x" "x \<noteq> []" "components (rest_path r) = xs" using pp(2) by simp_all
    have "store ! 0 \<noteq> 0" using x(1,2) z Cons hd_in_set by (metis list.set_intros(1))
    moreover have "depth_loop r store 0 = Inr (if store ! 0 = 0 then 0 else 0 + 1 + of_nat (length (components (rest_path r))))"
      by (rule depth_loop_count) (use assms(1) z Cons x(3) in simp)
    ultimately show ?thesis using pp(1) Cons x(3) by (simp add: path_depth_cnt_def)
  qed
qed

theorem path_depth_cnt_components_witness:
  "path_depth_cnt (replicate 16 0xcc) [47, 97, 47, 47, 98, 47] = Inr 2 \<and> path_depth_cnt (replicate 16 0xcc) [47] = Inr 1"
  using path_depth_cnt_components [of "[47, 97, 47, 47, 98, 47]" "replicate 16 0xcc"]
    path_depth_cnt_components [of "[47]" "replicate 16 0xcc"]
  by (simp add: components_def)

section \<open>Writing, seeking, reading\<close>

lemma two_buffers_again:
  assumes "two_buffers s x y h" "heap s' = h @ [y, x]" "in_kernel s' = in_kernel s"
  shows "\<exists>x' y' h'. two_buffers s' x' y' h'"
proof -
  obtain x' y' h' where e: "h @ [y, x] = x' # y' # h'"
  proof (cases h)
    case (Cons b bs)
    then show thesis using that by (cases bs) auto
  qed (use that in auto)
  have set: "set (heap s') = set (heap s)" and d: "distinct (heap s')"
    unfolding assms(2) using assms(1) by (auto simp: two_buffers_def)
  have "two_buffers s' x' y' h'"
    unfolding two_buffers_def set using d assms e by (auto simp: two_buffers_def)
  then show ?thesis by blast
qed

lemma sint_small: "unat (w :: u32) < 2147483648 \<Longrightarrow> sint w = int (unat w)"
proof -
  assume "unat w < 2147483648"
  then have "int (unat w) < int 2147483648" by (simp only: of_nat_less_iff)
  then have "signed_take_bit 31 (uint w) = uint w"
    by (intro signed_take_bit_int_eq_self order_trans [OF _ uint_ge_0]) simp_all
  then show ?thesis by (simp add: sint_uint)
qed

lemma fd_local2global_ok:
  "unat fd < 8 \<Longrightarrow> fd_table (tasks s (running_thread s)) ! unat fd = of_nat g \<Longrightarrow> g < 32 \<Longrightarrow> fd_local2global fd s = Inr g"
  by (simp add: fd_local2global_def MAX_FILES_OPEN_PER_PROC_def MAX_FILE_OPEN_def sint_small)

text \<open>\<open>SEEK_SET\<close> to a place inside the file.\<close>

lemma sys_lseek_set:
  assumes "unat fd < 8" and "fd_local2global fd s = Inr g" and "fd_inode (file_table s ! g) = a" and "a \<noteq> 0"
    and "unat pos < unat (i_size (inodes s a))" and "unat (i_size (inodes s a)) < 2147483648"
  shows "sys_lseek fd pos 1 s = Inr (pos, upd_file g (\<lambda>x. x\<lparr>fd_pos := pos\<rparr>) s)"
proof -
  have "unat (i_size (inodes s a) - 1) = unat (i_size (inodes s a)) - 1"
    using assms(5) by (subst unat_sub) (simp_all add: word_le_nat_alt)
  then have "sint (i_size (inodes s a) - 1) = int (unat (i_size (inodes s a)) - 1)" "sint pos = int (unat pos)"
    using assms(5,6) sint_small [of "i_size (inodes s a) - 1"] sint_small [of pos] by (simp_all only: )
  then have "\<not> sint pos > sint (i_size (inodes s a) - 1)" "\<not> sint pos < 0" using assms(5) by linarith+
  moreover have "\<not> sint fd < 0" using assms(1) by (simp add: sint_small)
  ultimately show ?thesis using assms(2-4) by (simp add: sys_lseek_def Let_def)
qed

lemma direct_readable:
  assumes "length (i_sectors (inodes s a)) = 13" and "unat (i_size (inodes s a)) < 6144"
    and "\<forall>k < unat (i_size (inodes s a)). i_sectors (inodes s a) ! (k div 512) \<le> max_lba"
  shows "readable s a"
proof -
  have "file_blocks s a ! (k div 512) \<le> max_lba" if "k < unat (i_size (inodes s a))" for k
  proof -
    have "k div 512 < 12" using that assms(2) by simp
    then show ?thesis using file_blocks_direct [of s a "k div 512"] assms(1,3) that by simp
  qed
  then show ?thesis using assms(1,2) by (simp add: readable_def)
qed

text \<open>C3: what is written through a file descriptor is read back: after \<open>write\<close>, \<open>lseek\<close> to the old end and \<open>read\<close>
  return the bytes, when the file stays in its direct blocks and its inode in one sector.\<close>

theorem write_seek_read:
  assumes "blocks_ok (cur_part s) s" and "is_set (block_bitmap (parts s (cur_part s))) 0"
    and "fd \<noteq> 1" and "unat fd < 8" and "fd_table (tasks s (running_thread s)) ! unat fd = of_nat g" and "g < 32" and "length (file_table s) = 32"
    and "a = fd_inode (file_table s ! g)" and "a \<noteq> 0" and "fd_flag (file_table s ! g) AND O_RDWR \<noteq> 0"
    and "direct_blocks s a n" and "block_count (unat (i_size (inodes s a))) n" and "\<not> straddles (unat (i_no (inodes s a)) mod 256)"
    and "unat (i_size (inodes s a)) + unat count < 6144" and "unat count \<le> length buf" and "0 < count"
    and "(unat (i_size (inodes s a)) + unat count) div 512 + 1 \<le> free_blocks s (cur_part s) + n" and "two_buffers s x y h"
  shows "\<exists>s1 s2 s3. sys_write fd buf count s = Inr (count, s1) \<and>
    sys_lseek fd (i_size (inodes s a)) 1 s1 = Inr (i_size (inodes s a), s2) \<and>
    sys_read fd count s2 = Inr (count, take (unat count) buf, s3)"
proof -
  let ?size = "i_size (inodes s a)"
  have sfd: "\<not> sint fd < 0" using assms(4) by (simp add: sint_small)
  obtain s1 where s1: "file_write g buf count s = Inr (count, s1)" "appended s s1 a (take (unat count) buf)" "heap s1 = h @ [y, x]"
    "tasks s1 = tasks s" "running_thread s1 = running_thread s"
    "file_table s1 = (file_table s)[g := (file_table s ! g)\<lparr>fd_pos := ?size - 1\<rparr>]"
    using file_write_eq [OF assms(1,2,8,9,11,12,14,15,17,18)] assms(13) by auto
  have w: "sys_write fd buf count s = Inr (count, s1)"
    using sfd assms(3,10) fd_local2global_ok [OF assms(4-6)] s1(1) by (simp add: sys_write_def Let_def)
  have len: "length (take (unat count) buf) = unat count" using assms(15) by simp
  have ap: "content s1 a = content s a @ take (unat count) buf" "disk_ok s1" "cur_part s1 = cur_part s" "in_kernel s1 = in_kernel s"
    "length (i_sectors (inodes s1 a)) = 13" "\<forall>k < unat (i_size (inodes s1 a)). i_sectors (inodes s1 a) ! (k div 512) \<le> max_lba"
    using s1(2) by (simp_all add: appended_def)
  have "length (content s1 a) = unat ?size + unat count" using ap(1) len by simp
  then have sz: "unat (i_size (inodes s1 a)) = unat ?size + unat count" by simp
  have ft: "file_table s1 ! g = (file_table s ! g)\<lparr>fd_pos := ?size - 1\<rparr>" "fd_inode (file_table s1 ! g) = a" "length (file_table s1) = 32"
    using s1(6) assms(6,7,8) by simp_all
  have fdg: "fd_local2global fd s' = Inr g" if "tasks s' = tasks s" "running_thread s' = running_thread s" for s'
    by (rule fd_local2global_ok) (use that assms(4-6) in simp_all)
  define s2 where "s2 = upd_file g (\<lambda>x. x\<lparr>fd_pos := ?size\<rparr>) s1"
  have l: "sys_lseek fd ?size 1 s1 = Inr (?size, s2)"
    unfolding s2_def
    by (rule sys_lseek_set [OF assms(4) fdg [OF s1(4,5)] ft(2) assms(9)]) (use sz assms(14,16) in \<open>simp_all add: word_less_nat_alt\<close>)
  have s2: "disk_ok s2" "inodes s2 = inodes s1" "fd_inode (file_table s2 ! g) = a" "unat (fd_pos (file_table s2 ! g)) = unat ?size"
    "content s2 a = content s1 a" "g < length (file_table s2)" "tasks s2 = tasks s" "running_thread s2 = running_thread s"
    "heap s2 = h @ [y, x]" "in_kernel s2 = in_kernel s"
    using ap ft s1(3-5) assms(6) by (simp_all add: s2_def content_def file_blocks_def)
  have rd: "readable s2 a" by (rule direct_readable) (use ap(5,6) sz assms(14) s2(2) in simp_all)
  obtain x' y' h' where tb: "two_buffers s2 x' y' h'" using two_buffers_again [OF assms(18) s2(9,10)] by blast
  have mn: "min (unat count) (unat (i_size (inodes s2 a)) - unat ?size) = unat count" using sz s2(2) by simp
  have "file_read g count s2 = Inr (of_nat (min (unat count) (unat (i_size (inodes s2 a)) - unat ?size)),
      take (unat count) (drop (unat ?size) (content s2 a)),
      set_heap (h' @ [y', x']) (advance g (min (unat count) (unat (i_size (inodes s2 a)) - unat ?size)) s2))"
    by (rule file_read_slice [OF s2(1,6) s2(3) [symmetric] assms(9) rd s2(4) [symmetric] _ _ tb])
      (use sz s2(2) assms(14) mn in \<open>auto simp: unsigned_eq_0_iff\<close>)
  then have "file_read g count s2 = Inr (count, take (unat count) buf, set_heap (h' @ [y', x']) (advance g (unat count) s2))"
    unfolding mn s2(5) ap(1) using assms(15) by simp
  then have "sys_read fd count s2 = Inr (count, take (unat count) buf, set_heap (h' @ [y', x']) (advance g (unat count) s2))"
    using sfd fdg [OF s2(7,8)] by (simp add: sys_read_def)
  with w l show ?thesis by blast
qed

definition demo_user :: fsys where
  "demo_user = (demo_open 5)\<lparr>tasks := (\<lambda>_. demo_task\<lparr>fd_table := [0, 1, 2, 3, - 1, - 1, - 1, - 1]\<rparr>)\<rparr>"

theorem write_seek_read_witness:
  "\<exists>s1 s2 s3. sys_write 3 [104, 105] 2 demo_user = Inr (2, s1) \<and> sys_lseek 3 0 1 s1 = Inr (0, s2) \<and>
    sys_read 3 2 s2 = Inr (2, [104, 105], s3)"
proof -
  have p: "parts demo_user = parts (demo_open 5)" "disks demo_user = disks (demo_open 5)" "cur_part demo_user = (1, 0)"
    "inodes demo_user = inodes (demo_open 5)" "file_table demo_user = file_table (demo_open 5)" "heap demo_user = heap (demo_open 5)"
    "in_kernel demo_user" "fd_table (tasks demo_user (running_thread demo_user)) ! 3 = of_nat 3"
    using demo_kernel(1) by (simp_all add: demo_user_def heap_def in_kernel_def demo_open_def demo_fs_def demo_task_def)
  have b: "blocks_ok (cur_part demo_user) demo_user" "is_set (block_bitmap (parts demo_user (cur_part demo_user))) 0"
    "0 < free_blocks demo_user (1, 0)" "direct_blocks demo_user 0xc0300000 0"
    "two_buffers demo_user 0xc0200400 0xc0200800 [0xc0200c00, 0xc0201000]"
    using demo_open_blocks(1,3) [of 5] demo_open_blocks(2) demo_open_file(1,3) [of 5] p
    by (simp_all add: blocks_ok_def on_disk_def disk_ok_def free_blocks_def fs_units.free_units_def direct_blocks_def two_buffers_def Let_def)
  have "\<exists>s1 s2 s3. sys_write 3 [104, 105] 2 demo_user = Inr (2, s1) \<and>
    sys_lseek 3 (i_size (inodes demo_user 0xc0300000)) 1 s1 = Inr (i_size (inodes demo_user 0xc0300000), s2) \<and>
    sys_read 3 2 s2 = Inr (2, take (unat (2 :: u32)) [104, 105], s3)"
    by (rule write_seek_read [OF b(1,2) _ _ _ _ _ _ _ _ b(4) _ _ _ _ _ _ b(5), of _ 3])
      (use p b(3) in \<open>simp_all add: inode_init_def block_count_def straddles_def sizeof_inode_def O_RDWR_def demo_open_def\<close>)
  then show ?thesis using p by (simp add: inode_init_def)
qed

end
