(* ===== verification/Create.thy ===== *)
theory Create
  imports Calls
begin

text \<open>
  Creating a file (\<open>file_create\<close> of fs/file.c), all its steps together: the number of the inode, the entry of the
  directory, the two inodes and the bitmap on the disk, the table of open files and the descriptor.
\<close>

section \<open>What the steps leave alone\<close>

text \<open>Blocks that are in use lie behind the bitmaps and the table of inodes.\<close>

definition in_data :: "partition \<Rightarrow> u32 \<Rightarrow> bool" where
  "in_data q c \<longleftrightarrow> unat (data_start_lba (sb q)) \<le> unat c"

lemma used_in_data: "layout_ok (parts s p) \<Longrightarrow> used_block s p c \<Longrightarrow> in_data (parts s p) c"
  by (auto simp: used_block_def in_data_def data_block_lba)

lemma in_data_not_table: "layout_ok q \<Longrightarrow> in_data q c \<Longrightarrow> \<not> in_table q c"
  by (auto simp: in_data_def in_table_def layout_ok_def)

lemma bitmap_sector_region:
  assumes "layout_ok q" and "k < unat (sects_of t q)"
  shows "\<not> in_data q (lba_of t q + of_nat k)" and "\<not> in_table q (lba_of t q + of_nat k)"
  using assms(1,2) unat_lba_of_add [OF assms]
  by (cases t; auto simp: in_data_def in_table_def layout_ok_def lba_of_def sects_of_def)+

lemma inode_blocks_cong:
  assumes "my_disk (parts s' p) = my_disk (parts s p)" and "i_sectors i' = i_sectors i"
    and "i_sectors i ! 12 \<noteq> 0 \<longrightarrow> disks s' (my_disk (parts s p)) (i_sectors i ! 12) = disks s (my_disk (parts s p)) (i_sectors i ! 12)"
  shows "inode_blocks s' p i' = inode_blocks s p i"
  using assms by (auto simp: inode_blocks_def)

lemma dir_entries_cong:
  assumes "my_disk (parts s' p) = my_disk (parts s p)" and "inode_blocks s' p i' = inode_blocks s p i"
    and "\<forall>c \<in> set (inode_blocks s p i). disks s' (my_disk (parts s p)) c = disks s (my_disk (parts s p)) c"
  shows "dir_entries s' p i' = dir_entries s p i"
  using assms by (auto simp: dir_entries_def intro!: arg_cong [where f = concat])

lemma disk_inode_cong:
  assumes lay: "layout_ok (parts s p)" and q: "my_disk (parts s' p) = my_disk (parts s p)" "sb (parts s' p) = sb (parts s p)"
    and d: "\<forall>l. in_table (parts s p) l \<longrightarrow> disks s' (my_disk (parts s p)) l = disks s (my_disk (parts s p)) l" and m: "m < 4096"
  shows "disk_inode s' p m = disk_inode s p m"
proof -
  have "table_byte s' p (sizeof_inode * m + j) = table_byte s p (sizeof_inode * m + j)" if "j < sizeof_inode" for j
  proof -
    have "sizeof_inode * m + j < 608 * 512" using that m by (simp add: sizeof_inode_def)
    then have "(sizeof_inode * m + j) div 512 < 608" by (simp add: less_mult_imp_div_less)
    then have "in_table (parts s p) (inode_table_lba (sb (parts s p)) + of_nat ((sizeof_inode * m + j) div 512))"
      by (rule in_table_sector [OF lay])
    then show ?thesis using q d by (simp add: table_byte_def)
  qed
  then have "map (\<lambda>j. table_byte s' p (sizeof_inode * m + j)) [0..<sizeof_inode] = map (\<lambda>j. table_byte s p (sizeof_inode * m + j)) [0..<sizeof_inode]"
    by (intro map_cong [OF refl]) (simp only: set_upt atLeastLessThan_iff)
  then show ?thesis by (simp only: disk_inode_def slot_def)
qed

lemma get_free_slot_cong: "file_table s' = file_table s \<Longrightarrow> get_free_slot_in_global s' = get_free_slot_in_global s"
  by (simp add: get_free_slot_in_global_def)

lemma find_upt: "m \<le> f \<Longrightarrow> f < n \<Longrightarrow> P f \<Longrightarrow> \<forall>k \<in> {m..<f}. \<not> P k \<Longrightarrow> find P [m..<n] = Some f"
  unfolding find_Some_iff by (intro exI [of _ "f - m"]) auto

lemma pcb_fd_install_at:
  assumes "f < 8" and "3 \<le> f" and "fd_table (tasks s (running_thread s)) ! f = - 1"
    and "\<forall>k \<in> {3..<f}. fd_table (tasks s (running_thread s)) ! k \<noteq> - 1"
  shows "pcb_fd_install g s = (of_nat f, upd_task (running_thread s) (\<lambda>t. t\<lparr>fd_table := (fd_table t)[f := g]\<rparr>) s)"
proof -
  have "find (\<lambda>k. fd_table (tasks s (running_thread s)) ! k = - 1) [3..<8] = Some f"
    by (rule find_upt) (use assms in auto)
  then show ?thesis by (simp add: pcb_fd_install_def MAX_FILES_OPEN_PER_PROC_def)
qed

text \<open>The entry that \<open>create_dir_entry\<close> makes for a name of at most 15 characters.\<close>

definition file_entry :: "bytes \<Rightarrow> u32 \<Rightarrow> bytes" where
  "file_entry name no = name @ replicate (16 - length name) 0 @ le32 no @ le32 FT_REGULAR"

lemma create_file_entry:
  "length name < 16 \<Longrightarrow> create_dir_entry name no (ucast FT_REGULAR) (replicate sizeof_dir_entry 0) = Inr (file_entry name no)"
  by (simp add: create_dir_entry_def MAX_FILE_NAME_LEN_def sizeof_dir_entry_def patch_def file_entry_def FT_REGULAR_def)

lemma file_entry_fields:
  assumes "length name < 16" and "0 \<notin> set name"
  shows "length (file_entry name no) = 24" and "de_name (file_entry name no) = name" and "0 \<in> set (file_entry name no)"
    and "de_i_no (file_entry name no) = no" and "de_f_type (file_entry name no) = FT_REGULAR"
proof -
  show "length (file_entry name no) = 24" using assms(1) by (simp add: file_entry_def)
  obtain n where "16 - length name = Suc n" using assms(1) by (cases "16 - length name") auto
  moreover have t: "takeWhile (\<lambda>c. c \<noteq> 0) (name @ 0 # zs) = name" for zs
    using assms(2) by (induction name) auto
  ultimately show "0 \<in> set (file_entry name no)" "de_name (file_entry name no) = name"
    using t by (auto simp: file_entry_def de_name_def)
  have l: "length (name @ replicate (16 - length name) 0) = 16" using assms(1) by simp
  show "de_i_no (file_entry name no) = no"
    using rd32_append2 [of "name @ replicate (16 - length name) 0" 16 "le32 no @ le32 FT_REGULAR"] l
    by (simp add: de_i_no_def file_entry_def)
  show "de_f_type (file_entry name no) = FT_REGULAR"
    using rd32_append2 [of "name @ replicate (16 - length name) 0 @ le32 no" 20 "le32 FT_REGULAR"] l rd32_le32 [of FT_REGULAR "[]"]
    by (simp add: de_f_type_def file_entry_def)
qed

section \<open>The steps\<close>

lemma heap_upd_file [simp]:
  "heap (upd_file k f s) = heap s" "in_kernel (upd_file k f s) = in_kernel s"
  by (simp_all add: heap_def in_kernel_def upd_file_def)

lemma in_kernel_upd_part [simp]: "in_kernel (upd_part p g s) = in_kernel s"
  by (simp add: in_kernel_def)

lemma created_file_fields [simp]:
  "disks (upd_file k f s) = disks s" "parts (upd_file k f s) = parts s" "inodes (upd_file k f s) = inodes s" "dirs (upd_file k f s) = dirs s"
  "cur_part (upd_file k f s) = cur_part s" "tasks (upd_file k f s) = tasks s" "running_thread (upd_file k f s) = running_thread s"
  "file_table (upd_file k f s) = (file_table s)[k := f (file_table s ! k)]"
  by (simp_all add: upd_file_def)

lemma upd_inode_more [simp]:
  "disks (upd_inode a f s) = disks s" "parts (upd_inode a f s) = parts s" "dirs (upd_inode a f s) = dirs s"
  "cur_part (upd_inode a f s) = cur_part s" "tasks (upd_inode a f s) = tasks s" "running_thread (upd_inode a f s) = running_thread s"
  "file_table (upd_inode a f s) = file_table s" "inodes (upd_inode a f s) = (inodes s)(a := f (inodes s a))"
  by (simp_all add: upd_inode_def)

text \<open>The state before the entry is written.\<close>

definition prepared :: "part_id \<Rightarrow> u32 \<Rightarrow> u32 \<Rightarrow> nat \<Rightarrow> u8 \<Rightarrow> bitmap \<Rightarrow> u32 list \<Rightarrow> 'a fsys_scheme \<Rightarrow> 'a fsys_scheme" where
  "prepared p a no g flag b h s = upd_inode a (\<lambda>i. i\<lparr>write_deny := 0\<rparr>) (upd_file g (\<lambda>_. \<lparr>fd_pos = 0, fd_flag = ucast flag, fd_inode = a\<rparr>)
     (upd_inode a (\<lambda>_. inode_init no) (set_heap h (upd_part p (\<lambda>q. q\<lparr>inode_bitmap := b\<rparr>) (set_heap (a # h) s)))))"

lemma prepared_fields [simp]:
  "disks (prepared p a no g flag b h s) = disks s" "dirs (prepared p a no g flag b h s) = dirs s"
  "cur_part (prepared p a no g flag b h s) = cur_part s" "tasks (prepared p a no g flag b h s) = tasks s"
  "running_thread (prepared p a no g flag b h s) = running_thread s" "heap (prepared p a no g flag b h s) = h"
  "in_kernel (prepared p a no g flag b h s) = in_kernel s"
  "inodes (prepared p a no g flag b h s) = (inodes s)(a := inode_init no)"
  "file_table (prepared p a no g flag b h s) = (file_table s)[g := \<lparr>fd_pos = 0, fd_flag = ucast flag, fd_inode = a\<rparr>]"
  "parts (prepared p a no g flag b h s) = (parts s)(p := (parts s p)\<lparr>inode_bitmap := b\<rparr>)"
  by (simp_all add: prepared_def inode_init_def fun_eq_iff)

definition finish :: "part_id \<Rightarrow> u32 \<Rightarrow> u32 \<Rightarrow> u32 \<Rightarrow> 'a fsys_scheme \<Rightarrow> (u32 \<times> 'a fsys_scheme) res" where
  "finish p a io_buf fd_idx s =
     (let s = upd_part p (\<lambda>q. q\<lparr>open_inodes := a # open_inodes q\<rparr>) s; s = upd_inode a (\<lambda>i. i\<lparr>i_open_cnts := 1\<rparr>) s in
      bnd (fs_free io_buf s) (\<lambda>s. Inr (pcb_fd_install fd_idx s)))"

lemma file_create_steps:
  assumes "heap s = x # a # h" and "x \<noteq> 0" and "a \<noteq> 0" and "p = cur_part s" and "length name < 16"
    and "bitmap_scan (inode_bitmap (parts s p)) 1 = Inr no" and "no \<noteq> - 1" and "bitmap_set (inode_bitmap (parts s p)) no 1 = Inr b"
    and "get_free_slot_in_global s = of_nat g" and "g < 32"
    and "sync_dir_entry d (file_entry name no) (prepared p a no g flag b h s) = Inr (True, t)"
  shows "file_create d name flag s =
    bnd (inode_sync p (inodes t (dir_inode (dirs t d))) 1024 t) (\<lambda>s.
    bnd (inode_sync p (inodes s a) 1024 s) (\<lambda>s.
    bnd (bitmap_sync p no INODE_BITMAP s) (finish p a x (of_nat g))))"
proof -
  have g: "(of_nat g :: u32) \<noteq> - 1"
  proof
    assume "(of_nat g :: u32) = - 1"
    then have "unat (of_nat g :: u32) = unat (- 1 :: u32)" by simp
    then show False using assms(10) by (simp add: unsigned_minus_1_eq_mask mask_eq_exp_minus_1)
  qed
  have "get_free_slot_in_global (upd_inode a (\<lambda>_. inode_init no) (set_heap h (upd_part p (\<lambda>q. q\<lparr>inode_bitmap := b\<rparr>) (set_heap (a # h) s)))) = of_nat g"
    by (rule trans [OF get_free_slot_cong [of _ s] assms(9)]) simp
  moreover have "fs_malloc s = (x, set_heap (a # h) s)" using assms(1) by simp
  moreover have "inode_bitmap_alloc p (set_heap (a # h) s) = Inr (no, upd_part p (\<lambda>q. q\<lparr>inode_bitmap := b\<rparr>) (set_heap (a # h) s))"
    using assms(6-8) by (simp add: inode_bitmap_alloc_def)
  moreover have "fs_malloc (upd_part p (\<lambda>q. q\<lparr>inode_bitmap := b\<rparr>) (set_heap (a # h) s)) =
      (a, set_heap h (upd_part p (\<lambda>q. q\<lparr>inode_bitmap := b\<rparr>) (set_heap (a # h) s)))" by simp
  moreover note create_file_entry [OF assms(5), of no] assms(2,3,7) assms(11)[unfolded prepared_def]
  moreover have "cur_part s = p" "unat (of_nat g :: u32) = g" using assms(4,10) by simp_all
  ultimately show ?thesis
    by (simp add: file_create_def finish_def [abs_def] g)
qed

text \<open>The hypotheses of a creation that succeeds: a sound partition, a directory \<open>d\<close> with room in a block it has and without
  the name, three buffers, a number, an entry of the table of open files and a descriptor.\<close>

definition can_create :: "'a fsys_scheme \<Rightarrow> u32 \<Rightarrow> bytes \<Rightarrow> u32 \<Rightarrow> u32 \<Rightarrow> u32 list \<Rightarrow> nat \<Rightarrow> nat \<Rightarrow> nat \<Rightarrow> bool" where
  "can_create s d name x a h n g f \<longleftrightarrow>
     (let p = cur_part s; di = dir_inode (dirs s d); i = inodes s di; fds = fd_table (tasks s (running_thread s)) in
      layout_ok (parts s p) \<and> on_disk p s \<and> disk_ok s \<and>
      dir_ok s p i \<and> inode_used s p i \<and> i_size i mod 24 = 0 \<and> unat (i_no i) < 256 \<and> is_set (inode_bitmap (parts s p)) (unat (i_no i)) \<and>
      (\<exists>j. room_at s p i j \<and> i_sectors i ! j \<noteq> 0) \<and>
      name \<noteq> [] \<and> length name < 16 \<and> 0 \<notin> set name \<and> (\<forall>z \<in> set (dir_entries s p i). de_name z \<noteq> name) \<and>
      heap s = x # a # h \<and> h \<noteq> [] \<and> distinct (heap s) \<and> 0 \<notin> set (heap s) \<and> (in_kernel s \<longrightarrow> (\<forall>c \<in> set (heap s). K_HEAP_START \<le> c)) \<and>
      di \<notin> set (heap s) \<and>
      n < 256 \<and> \<not> is_set (inode_bitmap (parts s p)) n \<and> (\<forall>k < n. is_set (inode_bitmap (parts s p)) k) \<and>
      get_free_slot_in_global s = of_nat g \<and> g < 32 \<and> length (file_table s) = 32 \<and>
      3 \<le> f \<and> f < 8 \<and> length fds = 8 \<and> fds ! f = - 1 \<and> (\<forall>k \<in> {3..<f}. fds ! k \<noteq> - 1))"

text \<open>The sectors after it: the entry \<open>e\<close> at place \<open>k\<close> of block \<open>b0\<close>, the two inodes, the bitmap.\<close>

definition created_sectors :: "partition \<Rightarrow> u32 \<Rightarrow> nat \<Rightarrow> bytes \<Rightarrow> inode \<Rightarrow> inode \<Rightarrow> bitmap \<Rightarrow> (u32 \<Rightarrow> bytes) \<Rightarrow> (u32 \<Rightarrow> bytes) \<Rightarrow> bool" where
  "created_sectors q b0 k e i i' b D D' \<longleftrightarrow> (\<exists>D2 D3.
     table_upd q (unat (i_no i)) (inode_bytes (pure i)) (D(b0 := patch (D b0) (sizeof_dir_entry * k) e)) D2 \<and>
     table_upd q (unat (i_no i')) (inode_bytes (pure i')) D2 D3 \<and> D' = D3(inode_bitmap_lba (sb q) := bitmap_bytes b 0))"

lemma sync_created:
  assumes lay: "layout_ok (parts t p)" and dk: "disk_ok t"
    and i: "length (i_sectors i) = 13" "unat (i_no i) < 256"
    and i': "length (i_sectors (inodes t a)) = 13" "i_no (inodes t a) = no" "unat no < 256"
  defines "q \<equiv> parts t p" and "m \<equiv> my_disk (parts t p)"
  obtains D2 D3 where
    "bnd (inode_sync p i 1024 t) (\<lambda>s. bnd (inode_sync p (inodes s a) 1024 s) (\<lambda>s. bnd (bitmap_sync p no INODE_BITMAP s) F)) =
       F (t\<lparr>disks := (disks t)(m := D3(inode_bitmap_lba (sb q) := bitmap_bytes (inode_bitmap q) 0))\<rparr>)"
    "table_upd q (unat (i_no i)) (inode_bytes (pure i)) (disks t m) D2"
    "table_upd q (unat no) (inode_bytes (pure (inodes t a))) D2 D3"
proof -
  obtain D2 where D2: "inode_sync p i 1024 t = Inr (t\<lparr>disks := (disks t)(m := D2)\<rparr>)"
    "table_upd q (unat (i_no i)) (inode_bytes (pure i)) (disks t m) D2"
    using inode_sync_step [OF lay dk i(1), of 1024] i(2) by (auto simp: m_def q_def)
  define t2 where "t2 = t\<lparr>disks := (disks t)(m := D2)\<rparr>"
  have t2: "parts t2 p = q" "inodes t2 a = inodes t a" "disks t2 m = D2" by (simp_all add: t2_def q_def)
  have dk2: "disk_ok t2" using D2(2) dk by (simp add: disk_ok_def table_upd_def t2_def)
  obtain D3 where D3: "inode_sync p (inodes t a) 1024 t2 = Inr (t2\<lparr>disks := (disks t2)(m := D3)\<rparr>)"
    "table_upd q (unat no) (inode_bytes (pure (inodes t a))) D2 D3"
    using inode_sync_step [OF _ dk2 i'(1), of p 1024] lay t2 i'(2,3) by (auto simp: m_def q_def)
  have "unat (no div 4096) = 0" using i'(3) by (simp add: unat_div)
  then have "no div 4096 = 0" by (simp only: unsigned_eq_0_iff)
  moreover have "inode_bitmap_lba (sb q) \<le> max_lba" using lay by (auto simp: q_def layout_ok_def word_le_nat_alt)
  ultimately have "bitmap_sync p no INODE_BITMAP (t2\<lparr>disks := (disks t2)(m := D3)\<rparr>) =
      Inr (t\<lparr>disks := (disks t)(m := D3(inode_bitmap_lba (sb q) := bitmap_bytes (inode_bitmap q) 0))\<rparr>)"
    by (simp add: bitmap_sync_eq lba_of_def bm_of_def t2_def m_def q_def)
  with D2 D3 t2(2) show thesis by (intro that [of D3 D2]) (simp_all add: t2_def [symmetric])
qed

lemma finish_ok:
  assumes "x \<noteq> 0" and "x \<notin> set (heap t)" and "in_kernel t \<longrightarrow> K_HEAP_START \<le> x" and "running_thread t = cur"
    and "3 \<le> f" and "f < 8" and "length (fd_table (tasks t cur)) = 8" and "fd_table (tasks t cur) ! f = - 1"
    and "\<forall>k \<in> {3..<f}. fd_table (tasks t cur) ! k \<noteq> - 1"
  obtains s' where "finish p a x g t = Inr (of_nat f, s')"
    "parts s' = (parts t)(p := (parts t p)\<lparr>open_inodes := a # open_inodes (parts t p)\<rparr>)" "disks s' = disks t" "dirs s' = dirs t"
    "inodes s' = (inodes t)(a := (inodes t a)\<lparr>i_open_cnts := 1\<rparr>)" "cur_part s' = cur_part t" "file_table s' = file_table t"
    "running_thread s' = cur" "in_kernel s' = in_kernel t" "heap s' = heap t @ [x]" "fd_table (tasks s' cur) ! f = g"
proof -
  define t5 where "t5 = upd_inode a (\<lambda>i. i\<lparr>i_open_cnts := 1\<rparr>) (upd_part p (\<lambda>q. q\<lparr>open_inodes := a # open_inodes q\<rparr>) t)"
  have t5: "heap t5 = heap t" "in_kernel t5 = in_kernel t" "tasks t5 = tasks t" "running_thread t5 = cur" using assms(4) by (simp_all add: t5_def)
  have free: "fs_free x t5 = Inr (set_heap (heap t @ [x]) t5)" using fs_free_ok [of x t5] t5 assms(1-3) by simp
  define t6 where "t6 = set_heap (heap t @ [x]) t5"
  have t6: "tasks t6 = tasks t" "running_thread t6 = cur" using t5 by (simp_all add: t6_def)
  have inst: "pcb_fd_install g t6 = (of_nat f, upd_task cur (\<lambda>t. t\<lparr>fd_table := (fd_table t)[f := g]\<rparr>) t6)"
    using pcb_fd_install_at [of f t6 g] assms(5-9) t6 by simp
  let ?s' = "upd_task cur (\<lambda>t. t\<lparr>fd_table := (fd_table t)[f := g]\<rparr>) t6"
  have fin: "finish p a x g t = Inr (of_nat f, ?s')"
    using free inst by (simp add: finish_def t5_def [symmetric] t6_def [symmetric])
  show thesis
    by (rule that [OF fin])
      (use assms(4,6,7) in \<open>simp_all add: t6_def t5_def upd_task_def upd_part_def upd_inode_def set_heap_def heap_def in_kernel_def\<close>)
qed

text \<open>The entry is written into the block \<open>b0\<close>, which the directory has.\<close>

lemma create_entry_written:
  assumes can: "can_create s d name x a h n g f"
  defines "p \<equiv> cur_part s" and "di \<equiv> dir_inode (dirs s d)" and "no \<equiv> of_nat n :: u32"
  defines "i1 \<equiv> (inodes s di)\<lparr>i_size := i_size (inodes s di) + 24\<rparr>" and "D \<equiv> disks s (my_disk (parts s p))"
  obtains t b b0 k where "file_create d name flag s = bnd (inode_sync p i1 1024 t) (\<lambda>s.
      bnd (inode_sync p (inodes s a) 1024 s) (\<lambda>s. bnd (bitmap_sync p no INODE_BITMAP s) (finish p a x (of_nat g))))"
    "bitmap_set (inode_bitmap (parts s p)) no 1 = Inr b" "k < 21" "b0 \<in> set (inode_blocks s p (inodes s di))"
    "parts t = (parts s)(p := (parts s p)\<lparr>inode_bitmap := b\<rparr>)"
    "disks t = (disks s)(my_disk (parts s p) := D(b0 := patch (D b0) (sizeof_dir_entry * k) (file_entry name no)))"
    "inodes t di = i1" "inodes t a = inode_init no" "dirs t = dirs s" "heap t = h" "in_kernel t = in_kernel s" "cur_part t = p"
    "running_thread t = running_thread s" "tasks t = tasks s" "file_table t ! g = \<lparr>fd_pos = 0, fd_flag = ucast flag, fd_inode = a\<rparr>"
    "disk_ok t" "layout_ok (parts t p)"
proof -
  note c = can[unfolded can_create_def Let_def, folded p_def di_def]
  let ?q = "parts s p" and ?m = "my_disk (parts s p)" and ?i = "inodes s di"
  have lay: "layout_ok ?q" and dk: "disk_ok s" using c by blast+
  obtain j where room: "room_at s p ?i j" and nz: "i_sectors ?i ! j \<noteq> 0" using c by blast
  have len: "length (i_sectors ?i) = 13" using c by (simp add: dir_ok_def)
  have j: "j < 12" using room by (simp add: room_at_def)
  define b0 where "b0 = i_sectors ?i ! j"
  have b0: "b0 \<in> set (inode_blocks s p ?i)" using direct_block [OF j len nz] by (simp add: b0_def)
  obtain k where k: "first_free (D b0) = Some k" using room nz by (auto simp: room_at_def b0_def D_def)
  have k21: "k < 21" using first_free_Some [OF k] by simp
  obtain b where b: "bitmap_set (inode_bitmap ?q) no 1 = Inr b" using bitmap_set_ok by blast
  have lay1: "layout_ok (?q\<lparr>inode_bitmap := b\<rparr>)" using lay n_bits_bitmap_set [OF b] by (auto simp: layout_ok_def)
  have un: "unat no = n" using c by (simp add: no_def)
  have nm: "no \<noteq> - 1" using c un by (auto simp: unsigned_minus_1_eq_mask mask_eq_exp_minus_1)
  have sm: "small (inode_bitmap ?q)" using layout_bitmaps(3) [OF lay, of INODE_BITMAP] by (simp add: bm_of_def)
  have scan: "bitmap_scan (inode_bitmap ?q) 1 = Inr no"
    unfolding bitmap_scan_one [OF sm] no_def using c lay by (intro exI [of _ n]) (auto simp: layout_ok_def)
  have e24: "length (file_entry name no) = 24" using c file_entry_fields(1) by simp
  define t0 where "t0 = prepared p a no g flag b h s"
  have t0: "parts t0 = (parts s)(p := ?q\<lparr>inode_bitmap := b\<rparr>)" "disks t0 = disks s" "dirs t0 = dirs s" "cur_part t0 = p" "inodes t0 di = ?i"
    using c by (auto simp: t0_def p_def)
  have dk0: "disk_ok t0" using dk t0 by (simp add: disk_ok_def)
  have dir0: "dir_ok t0 p ?i" using c t0 by (simp add: dir_ok_def entries_ok_def dir_entries_def inode_blocks_def)
  have room0: "room_at t0 p ?i j" using room t0 by (simp add: room_at_def)
  define D1 where "D1 = D(b0 := patch (D b0) (sizeof_dir_entry * k) (file_entry name no))"
  define t1 where "t1 = upd_inode di (\<lambda>i. i\<lparr>i_size := i_size i + 24\<rparr>) (t0\<lparr>disks := (disks s)(?m := D1)\<rparr>)"
  have "sync_dir_entry d (file_entry name no) t0 =
      sync_dir_loop di (file_entry name no) 24 j (Suc (139 - j)) (take 12 (i_sectors ?i) @ replicate 128 0) t0"
    by (rule sync_dir_entry_at [OF _ dk0 _ t0(5) [symmetric] _ dir0 room0 e24]) (use c lay1 t0 in \<open>simp_all add: di_def\<close>)
  also have "\<dots> = Inr (True, t1)"
    using sync_dir_loop_in_block [OF dk0 t0(4) [symmetric] dir0 j nz _ e24, of k di "139 - j"] k t0
    by (simp add: t1_def D1_def b0_def D_def)
  finally have sync: "sync_dir_entry d (file_entry name no) (prepared p a no g flag b h s) = Inr (True, t1)" by (simp add: t0_def)
  have "file_create d name flag s = bnd (inode_sync p (inodes t1 (dir_inode (dirs t1 d))) 1024 t1) (\<lambda>s.
      bnd (inode_sync p (inodes s a) 1024 s) (\<lambda>s. bnd (bitmap_sync p no INODE_BITMAP s) (finish p a x (of_nat g))))"
    by (rule file_create_steps [OF _ _ _ p_def [THEN meta_eq_to_obj_eq] _ scan nm b _ _ sync]) (use c in \<open>auto simp: p_def\<close>)
  moreover have t1: "inodes t1 di = i1" "inodes t1 a = inode_init no" "dir_inode (dirs t1 d) = di" "disks t1 = (disks s)(?m := D1)"
    "parts t1 = (parts s)(p := ?q\<lparr>inode_bitmap := b\<rparr>)"
    using t0 c by (auto simp: t1_def i1_def t0_def di_def)
  ultimately have fc: "file_create d name flag s = bnd (inode_sync p i1 1024 t1) (\<lambda>s.
      bnd (inode_sync p (inodes s a) 1024 s) (\<lambda>s. bnd (bitmap_sync p no INODE_BITMAP s) (finish p a x (of_nat g))))" by simp
  have "\<forall>l. length (D1 l) = 512" using dk k21 e24 by (auto simp: D1_def D_def disk_ok_def sizeof_dir_entry_def)
  then have dk1: "disk_ok t1" using dk t1(4) by (simp add: disk_ok_def)
  show thesis
    by (rule that [OF fc b k21 b0 t1(5) _ t1(1,2)])
      (use t1 lay1 dk1 c in \<open>auto simp: t1_def t0_def p_def D1_def D_def layout_ok_def\<close>)
qed

lemma file_create_result:
  assumes can: "can_create s d name x a h n g f"
  defines "p \<equiv> cur_part s" and "di \<equiv> dir_inode (dirs s d)" and "cur \<equiv> running_thread s" and "no \<equiv> of_nat n :: u32"
  defines "i1 \<equiv> (inodes s di)\<lparr>i_size := i_size (inodes s di) + 24\<rparr>"
  obtains s' b b0 k D' where "file_create d name flag s = Inr (of_nat f, s')"
    "bitmap_set (inode_bitmap (parts s p)) no 1 = Inr b"
    "parts s' = (parts s)(p := (parts s p)\<lparr>inode_bitmap := b, open_inodes := a # open_inodes (parts s p)\<rparr>)"
    "disks s' = (disks s)(my_disk (parts s p) := D')"
    "created_sectors (parts s p) b0 k (file_entry name no) i1 (inode_init no) b (disks s (my_disk (parts s p))) D'"
    "k < 21" "b0 \<in> set (inode_blocks s p (inodes s di))"
    "inodes s' di = i1" "inodes s' a = (inode_init no)\<lparr>i_open_cnts := 1\<rparr>" "dirs s' = dirs s" "heap s' = h @ [x]" "in_kernel s' = in_kernel s"
    "cur_part s' = p" "running_thread s' = cur" "file_table s' ! g = \<lparr>fd_pos = 0, fd_flag = ucast flag, fd_inode = a\<rparr>"
    "fd_table (tasks s' cur) ! f = of_nat g"
proof -
  note c = can[unfolded can_create_def Let_def, folded p_def di_def]
  let ?q = "parts s p" and ?m = "my_disk (parts s p)" and ?D = "disks s (my_disk (parts s p))"
  obtain t b b0 k where fc: "file_create d name flag s = bnd (inode_sync p i1 1024 t) (\<lambda>s.
      bnd (inode_sync p (inodes s a) 1024 s) (\<lambda>s. bnd (bitmap_sync p no INODE_BITMAP s) (finish p a x (of_nat g))))"
    and b: "bitmap_set (inode_bitmap ?q) no 1 = Inr b" and k: "k < 21" and b0: "b0 \<in> set (inode_blocks s p (inodes s di))"
    and t: "parts t = (parts s)(p := ?q\<lparr>inode_bitmap := b\<rparr>)"
      "disks t = (disks s)(?m := ?D(b0 := patch (?D b0) (sizeof_dir_entry * k) (file_entry name no)))"
      "inodes t di = i1" "inodes t a = inode_init no" "dirs t = dirs s" "heap t = h" "in_kernel t = in_kernel s" "cur_part t = p"
      "running_thread t = running_thread s" "tasks t = tasks s" "file_table t ! g = \<lparr>fd_pos = 0, fd_flag = ucast flag, fd_inode = a\<rparr>"
      "disk_ok t" "layout_ok (parts t p)"
    by (rule create_entry_written [OF can, folded p_def di_def no_def, folded i1_def])
  have no: "i_no (inode_init no) = no" by (simp add: inode_init_def)
  have un: "unat no < 256" using c by (simp add: no_def)
  have "length (i_sectors i1) = 13" "unat (i_no i1) < 256" "length (i_sectors (inodes t a)) = 13" "i_no (inodes t a) = no"
    using c t(4) by (simp_all add: i1_def dir_ok_def inode_init_def)
  then obtain D2 D3 where D: "bnd (inode_sync p i1 1024 t) (\<lambda>s. bnd (inode_sync p (inodes s a) 1024 s) (\<lambda>s. bnd (bitmap_sync p no INODE_BITMAP s)
        (finish p a x (of_nat g)))) = finish p a x (of_nat g)
        (t\<lparr>disks := (disks t)(my_disk (parts t p) := D3(inode_bitmap_lba (sb (parts t p)) := bitmap_bytes (inode_bitmap (parts t p)) 0))\<rparr>)"
    "table_upd (parts t p) (unat (i_no i1)) (inode_bytes (pure i1)) (disks t (my_disk (parts t p))) D2"
    "table_upd (parts t p) (unat no) (inode_bytes (pure (inodes t a))) D2 D3"
    by (rule sync_created [OF t(13,12) _ _ _ _ un])
  define D4 where "D4 = D3(inode_bitmap_lba (sb ?q) := bitmap_bytes b 0)"
  have "sb (parts t p) = sb ?q" using t(1) by simp
  then have tu: "table_upd (parts t p) = table_upd ?q" by (simp add: fun_eq_iff table_upd_def in_table_def)
  have "table_upd ?q (unat (i_no i1)) (inode_bytes (pure i1)) (?D(b0 := patch (?D b0) (sizeof_dir_entry * k) (file_entry name no))) D2 \<and>
      table_upd ?q (unat (i_no (inode_init no))) (inode_bytes (pure (inode_init no))) D2 D3"
    using D(2,3) t(1,2,4) no tu by simp
  then have cr: "created_sectors ?q b0 k (file_entry name no) i1 (inode_init no) b ?D D4"
    unfolding created_sectors_def D4_def by blast
  define t4 where "t4 = t\<lparr>disks := (disks s)(?m := D4)\<rparr>"
  have run: "file_create d name flag s = finish p a x (of_nat g) t4"
    using fc D(1) t(1,2) by (simp add: t4_def D4_def)
  have pre: "x \<noteq> 0" "x \<notin> set (heap t4)" "in_kernel t4 \<longrightarrow> K_HEAP_START \<le> x" "running_thread t4 = cur" "3 \<le> f" "f < 8"
    "length (fd_table (tasks t4 cur)) = 8" "fd_table (tasks t4 cur) ! f = - 1" "\<forall>k \<in> {3..<f}. fd_table (tasks t4 cur) ! k \<noteq> - 1"
    using c t(6,7,9,10) by (auto simp: t4_def cur_def)
  show thesis
  proof (rule finish_ok [OF pre, of p a "of_nat g"])
    fix s' assume "finish p a x (of_nat g) t4 = Inr (of_nat f, s')"
      and s': "parts s' = (parts t4)(p := (parts t4 p)\<lparr>open_inodes := a # open_inodes (parts t4 p)\<rparr>)" "disks s' = disks t4" "dirs s' = dirs t4"
        "inodes s' = (inodes t4)(a := (inodes t4 a)\<lparr>i_open_cnts := 1\<rparr>)" "cur_part s' = cur_part t4" "file_table s' = file_table t4"
        "running_thread s' = cur" "in_kernel s' = in_kernel t4" "heap s' = heap t4 @ [x]" "fd_table (tasks s' cur) ! f = of_nat g"
    then have "file_create d name flag s = Inr (of_nat f, s')" using run by simp
    then show thesis
      by (rule that [OF _ b _ _ cr k b0]) (use s' t c in \<open>auto simp: t4_def\<close>)
  qed
qed

section \<open>What is on the disk afterwards\<close>

lemma disk_inode_upd:
  assumes "layout_ok (parts s p)" and "table_upd (parts s p) n (inode_bytes i) (disks s (my_disk (parts s p))) d'"
    and "length (i_sectors i) = 13" and "m < 4096"
  shows "disk_inode (s\<lparr>disks := (disks s)(my_disk (parts s p) := d')\<rparr>) p m = (if m = n then i else disk_inode s p m)"
  using slot_upd [OF assms(1,2) _ assms(4)] bytes_inode_bytes [of i "[]"] assms(3)
  by (simp add: disk_inode_def sizeof_inode_def)

lemma created_disk_inode:
  assumes lay: "layout_ok (parts s p)" and cr: "created_sectors (parts s p) b0 k e i i' b (disks s (my_disk (parts s p))) D'"
    and b0: "in_data (parts s p) b0" and len: "length (i_sectors i) = 13" "length (i_sectors i') = 13"
    and q: "my_disk (parts s' p) = my_disk (parts s p)" "sb (parts s' p) = sb (parts s p)" "disks s' (my_disk (parts s p)) = D'"
    and m: "m < 4096"
  shows "disk_inode s' p m = (if m = unat (i_no i') then pure i' else if m = unat (i_no i) then pure i else disk_inode s p m)"
proof -
  let ?q = "parts s p" and ?D = "disks s (my_disk (parts s p))"
  from cr obtain D2 D3 where D: "table_upd ?q (unat (i_no i)) (inode_bytes (pure i)) (?D(b0 := patch (?D b0) (sizeof_dir_entry * k) e)) D2"
    "table_upd ?q (unat (i_no i')) (inode_bytes (pure i')) D2 D3" "D' = D3(inode_bitmap_lba (sb ?q) := bitmap_bytes b 0)"
    by (auto simp: created_sectors_def)
  define u1 where "u1 = s\<lparr>disks := (disks s)(my_disk ?q := ?D(b0 := patch (?D b0) (sizeof_dir_entry * k) e))\<rparr>"
  define u2 where "u2 = u1\<lparr>disks := (disks u1)(my_disk (parts u1 p) := D2)\<rparr>"
  define u3 where "u3 = u2\<lparr>disks := (disks u2)(my_disk (parts u2 p) := D3)\<rparr>"
  have pl: "length (i_sectors (pure i)) = 13" "length (i_sectors (pure i')) = 13" using len by (simp_all add: pure_def)
  have b0t: "\<not> in_table ?q b0" by (rule in_data_not_table [OF lay b0])
  have "disk_inode u1 p m = disk_inode s p m"
    by (rule disk_inode_cong [OF lay _ _ _ m]) (use b0t in \<open>auto simp: u1_def\<close>)
  moreover have "disk_inode u2 p m = (if m = unat (i_no i) then pure i else disk_inode u1 p m)"
    unfolding u2_def by (rule disk_inode_upd [OF _ _ pl(1) m]) (use lay D(1) in \<open>simp_all add: u1_def\<close>)
  moreover have "disk_inode u3 p m = (if m = unat (i_no i') then pure i' else disk_inode u2 p m)"
    unfolding u3_def by (rule disk_inode_upd [OF _ _ pl(2) m]) (use lay D(2) in \<open>simp_all add: u1_def u2_def\<close>)
  moreover have "disk_inode s' p m = disk_inode u3 p m"
  proof (rule disk_inode_cong [OF _ _ _ _ m])
    have "\<not> in_table ?q (inode_bitmap_lba (sb ?q))"
      using lay by (auto simp: in_table_def layout_ok_def)
    then show "\<forall>l. in_table (parts u3 p) l \<longrightarrow> disks s' (my_disk (parts u3 p)) l = disks u3 (my_disk (parts u3 p)) l"
      using q D(3) by (auto simp: u1_def u2_def u3_def)
  qed (use lay q in \<open>simp_all add: u1_def u2_def u3_def\<close>)
  ultimately show ?thesis by simp
qed

lemma created_data:
  assumes lay: "layout_ok q" and cr: "created_sectors q b0 k e i i' b D D'" and b0: "in_data q b0"
  shows "in_data q c \<Longrightarrow> D' c = (if c = b0 then patch (D b0) (sizeof_dir_entry * k) e else D c)"
    and "n < unat (block_bitmap_sects (sb q)) \<Longrightarrow> D' (block_bitmap_lba (sb q) + of_nat n) = D (block_bitmap_lba (sb q) + of_nat n)"
    and "D' (inode_bitmap_lba (sb q)) = bitmap_bytes b 0" and "length (D' c) = 512"
proof -
  from cr obtain D2 D3 where D: "table_upd q (unat (i_no i)) (inode_bytes (pure i)) (D(b0 := patch (D b0) (sizeof_dir_entry * k) e)) D2"
    "table_upd q (unat (i_no i')) (inode_bytes (pure i')) D2 D3" "D' = D3(inode_bitmap_lba (sb q) := bitmap_bytes b 0)"
    by (auto simp: created_sectors_def)
  show "D' (inode_bitmap_lba (sb q)) = bitmap_bytes b 0" "length (D' c) = 512" using D by (auto simp: table_upd_def)
  have out: "l \<noteq> inode_bitmap_lba (sb q) \<Longrightarrow> \<not> in_table q l \<Longrightarrow> D' l = (D(b0 := patch (D b0) (sizeof_dir_entry * k) e)) l" for l
    using D by (simp add: table_upd_def)
  have ib: "0 < unat (sects_of INODE_BITMAP q)" using lay by (simp add: layout_ok_def sects_of_def)
  have ind: "\<not> in_data q (inode_bitmap_lba (sb q))" using bitmap_sector_region(1) [OF lay ib] by (simp add: lba_of_def)
  show "D' c = (if c = b0 then patch (D b0) (sizeof_dir_entry * k) e else D c)" if c: "in_data q c"
  proof -
    have "c \<noteq> inode_bitmap_lba (sb q)" using ind c by blast
    then show ?thesis using out [of c] in_data_not_table [OF lay c] by simp
  qed
  show "D' (block_bitmap_lba (sb q) + of_nat n) = D (block_bitmap_lba (sb q) + of_nat n)" if n: "n < unat (block_bitmap_sects (sb q))"
  proof -
    let ?l = "block_bitmap_lba (sb q) + of_nat n"
    have n': "n < unat (sects_of BLOCK_BITMAP q)" using n by (simp add: sects_of_def)
    have "?l \<noteq> b0" "\<not> in_table q ?l" using bitmap_sector_region [OF lay n'] b0 by (auto simp: lba_of_def)
    moreover have "?l \<noteq> inode_bitmap_lba (sb q)" using lba_of_inject [OF lay n' ib] by (auto simp: lba_of_def)
    ultimately show ?thesis using out [of ?l] by simp
  qed
qed

lemma created_on_disk:
  assumes lay: "layout_ok (parts s p)" and on: "on_disk p s" and m: "my_disk (parts s p) = m"
    and cr: "created_sectors (parts s p) b0 k e i i' b (disks s m) D'" and b0: "in_data (parts s p) b0"
    and s': "parts s' p = (parts s p)\<lparr>inode_bitmap := b, open_inodes := os\<rparr>" "disks s' m = D'"
  shows "on_disk p s'"
  unfolding on_disk_def
proof (intro allI impI)
  fix t k assume k: "k < unat (sects_of t (parts s' p))"
  note d = created_data [OF lay cr b0]
  show "disks s' (my_disk (parts s' p)) (lba_of t (parts s' p) + of_nat k) = bitmap_bytes (bm_of t (parts s' p)) (of_nat (512 * k))"
  proof (cases t)
    case INODE_BITMAP
    then have "k = 0" using k s' lay by (simp add: sects_of_def layout_ok_def)
    then show ?thesis using d(3) s' m INODE_BITMAP by (simp add: lba_of_def bm_of_def)
  next
    case BLOCK_BITMAP
    then have k': "k < unat (sects_of BLOCK_BITMAP (parts s p))" "k < unat (block_bitmap_sects (sb (parts s p)))"
      using k s' by (simp_all add: sects_of_def)
    have "disks s m (lba_of BLOCK_BITMAP (parts s p) + of_nat k) = bitmap_bytes (bm_of BLOCK_BITMAP (parts s p)) (of_nat (512 * k))"
      using on k'(1) m by (simp add: on_disk_def)
    then show ?thesis using d(2) [OF k'(2)] s' m BLOCK_BITMAP by (simp add: lba_of_def bm_of_def)
  qed
qed

lemma created_entries:
  assumes lay: "layout_ok (parts s p)" and dk: "disk_ok s" and use: "inode_used s p i" and b0: "b0 \<in> set (inode_blocks s p i)"
    and cr: "created_sectors (parts s p) b0 k e j j' b (disks s (my_disk (parts s p))) D'" and k: "k < 21" and e: "length e = 24"
    and s': "my_disk (parts s' p) = my_disk (parts s p)" "disks s' (my_disk (parts s p)) = D'" and i': "i_sectors i' = i_sectors i"
  shows "inode_blocks s' p i' = inode_blocks s p i" and "e \<in> set (dir_entries s' p i')"
    and "set (dir_entries s' p i') \<subseteq> insert e (insert (replicate 24 0) (set (dir_entries s p i)))"
proof -
  let ?m = "my_disk (parts s p)"
  have used: "in_data (parts s p) c" if "c \<in> set (inode_blocks s p i)" for c
    using used_in_data [OF lay] use that by (auto simp: inode_used_def)
  note dat = created_data(1) [OF lay cr used [OF b0]]
  have "D' (i_sectors i ! 12) = disks s ?m (i_sectors i ! 12)" if "i_sectors i ! 12 \<noteq> 0"
    using dat [of "i_sectors i ! 12"] used_in_data [OF lay] use that b0 by (auto simp: inode_used_def)
  then show bl: "inode_blocks s' p i' = inode_blocks s p i"
    by (intro inode_blocks_cong) (use s' i' in auto)
  have se: "sector_entries (D' b0) = (sector_entries (disks s ?m b0))[k := e]"
    using dat [OF used [OF b0]] sector_entries_patch [OF _ k e, of "disks s ?m b0"] dk by (simp add: disk_ok_def)
  have 1: "set (inode_blocks s' p i') \<subseteq> insert b0 (set (inode_blocks s p i))" "b0 \<in> set (inode_blocks s' p i')"
    using bl b0 by auto
  have 2: "\<forall>c \<in> set (inode_blocks s p i). c \<noteq> b0 \<longrightarrow> disks s' (my_disk (parts s' p)) c = disks s ?m c"
    using dat used s' by auto
  have 3: "e \<in> set (sector_entries (disks s' (my_disk (parts s' p)) b0))"
    using se k s' by (simp add: set_update_memI)
  have "set (sector_entries (disks s ?m b0)) \<subseteq> set (dir_entries s p i)" unfolding set_dir_entries using b0 by blast
  then have 4: "set (sector_entries (disks s' (my_disk (parts s' p)) b0)) \<subseteq> insert e (insert (replicate 24 0) (set (dir_entries s p i)))"
    using se s' set_update_subset_insert [of "sector_entries (disks s ?m b0)" k e] by auto
  show "e \<in> set (dir_entries s' p i')"
    and "set (dir_entries s' p i') \<subseteq> insert e (insert (replicate 24 0) (set (dir_entries s p i)))"
    by (rule entries_after_add [OF 1 2 3 4])+
qed

lemma find_new_name:
  assumes "e \<in> set es'" and "set es' \<subseteq> insert e (insert (replicate 24 0) (set es))" and "de_name e = name" and "name \<noteq> []"
    and "\<forall>z \<in> set es. de_name z \<noteq> name"
  shows "find (\<lambda>z. de_name z = name) es' = Some e"
proof (rule find_unique [OF assms(1), where P = "\<lambda>z. de_name z = name", OF assms(3)], intro ballI impI)
  fix w assume w: "w \<in> set es'" "de_name w = name"
  have "de_name (replicate 24 0) = []" by (simp add: de_name_def)
  then show "w = e" using w assms(2,4,5) by auto
qed

lemma created_search:
  assumes can: "can_create s d name x a h n g f" and p: "p = cur_part s" and i: "i = inodes s (dir_inode (dirs s d))"
    and s': "parts s' = (parts s)(p := (parts s p)\<lparr>inode_bitmap := b, open_inodes := os\<rparr>)" "disks s' = (disks s)(my_disk (parts s p) := D')"
      "dirs s' = dirs s" "heap s' = h @ [x]" "in_kernel s' = in_kernel s" "inodes s' (dir_inode (dirs s d)) = i'" "i_sectors i' = i_sectors i"
    and cr: "created_sectors (parts s p) b0 k (file_entry name no) j j' b (disks s (my_disk (parts s p))) D'" and k: "k < 21"
    and b0: "b0 \<in> set (inode_blocks s p i)" and de: "length dir_e = 24"
  shows "\<exists>t. search_dir_entry p d name dir_e s' = Inr (Some (file_entry name no), t)"
proof -
  note c = can[unfolded can_create_def Let_def, folded p i]
  have lay: "layout_ok (parts s p)" and dk: "disk_ok s" and use: "inode_used s p i" and dir: "dir_ok s p i" using c by blast+
  have nm: "length name < 16" "0 \<notin> set name" "name \<noteq> []" "\<forall>z \<in> set (dir_entries s p i). de_name z \<noteq> name" using c by blast+
  note fe = file_entry_fields [OF nm(1,2)]
  note en = created_entries [OF lay dk use b0 cr k fe(1) _ _ s'(7), of s']
  have my: "my_disk (parts s' p) = my_disk (parts s p)" "disks s' (my_disk (parts s p)) = D'" using s' by simp_all
  note en = en [OF my]
  have "in_data (parts s p) b0" using used_in_data [OF lay] use b0 by (simp add: inode_used_def)
  then have "\<forall>l. length (D' l) = 512" using created_data(4) [OF lay cr] by blast
  then have dk': "disk_ok s'" using dk s'(2) by (simp add: disk_ok_def)
  have "\<forall>z \<in> set (dir_entries s' p i'). 0 \<in> set z" using en(3) fe(3) dir by (auto simp: dir_ok_def entries_ok_def)
  then have dir': "dir_ok s' p i'" using dir en(1) s'(7) by (simp add: dir_ok_def entries_ok_def)
  obtain y z h' where h: "h @ [x] = y # z # h'" 
  proof -
    obtain y hs where "h = y # hs" using c by (cases h) blast+
    moreover obtain z h' where "hs @ [x] = z # h'" by (cases hs) auto
    ultimately show ?thesis using that by simp
  qed
  have hp: "y \<noteq> 0" "z \<noteq> 0" "y \<notin> set (z # h')" "z \<notin> set h'" "in_kernel s' \<longrightarrow> K_HEAP_START \<le> y \<and> K_HEAP_START \<le> z"
  proof -
    have "distinct (h @ [x])" "0 \<notin> set (h @ [x])" "in_kernel s \<longrightarrow> (\<forall>v \<in> set (h @ [x]). K_HEAP_START \<le> v)" using c by auto
    then show "y \<noteq> 0" "z \<noteq> 0" "y \<notin> set (z # h')" "z \<notin> set h'" "in_kernel s' \<longrightarrow> K_HEAP_START \<le> y \<and> K_HEAP_START \<le> z"
      unfolding h s'(5) by auto
  qed
  have "search_dir_entry p d name dir_e s' = Inr (find (\<lambda>z. de_name z = name) (dir_entries s' p i'), set_heap (h' @ [z, y]) s')"
    by (rule search_dir_entry_find [OF dk' dir' _ _ nm(2) de _ hp]) (use s' h lay in \<open>simp_all add: layout_ok_def\<close>)
  then show ?thesis using find_new_name [OF en(2,3) fe(2) nm(3,4)] by simp
qed

lemma file_create_effect:
  assumes can: "can_create s d name x a h n g f" and de: "length dir_e = 24"
  defines "p \<equiv> cur_part s" and "i \<equiv> inodes s (dir_inode (dirs s d))"
  shows "\<exists>s'. file_create d name flag s = Inr (of_nat f, s') \<and>
    (\<exists>t. search_dir_entry p d name dir_e s' = Inr (Some (file_entry name (of_nat n)), t)) \<and>
    inodes s' (dir_inode (dirs s' d)) = i\<lparr>i_size := i_size i + 24\<rparr> \<and>
    on_disk p s' \<and> (\<forall>k < 4096. is_set (inode_bitmap (parts s' p)) k \<longleftrightarrow> k = n \<or> is_set (inode_bitmap (parts s p)) k) \<and>
    (\<forall>m < 4096. disk_inode s' p m = (if m = n then inode_init (of_nat n)
       else if m = unat (i_no i) then pure (i\<lparr>i_size := i_size i + 24\<rparr>) else disk_inode s p m)) \<and>
    open_inodes (parts s' p) = a # open_inodes (parts s p) \<and> inodes s' a = (inode_init (of_nat n))\<lparr>i_open_cnts := 1\<rparr> \<and>
    fd_table (tasks s' (running_thread s')) ! f = of_nat g \<and>
    file_table s' ! g = \<lparr>fd_pos = 0, fd_flag = ucast flag, fd_inode = a\<rparr>"
proof -
  note c = can[unfolded can_create_def Let_def, folded p_def i_def]
  have lay: "layout_ok (parts s p)" and on: "on_disk p s" and use: "inode_used s p i" and dir: "dir_ok s p i" and n: "n < 256" using c by blast+
  let ?no = "of_nat n :: u32" and ?i' = "i\<lparr>i_size := i_size i + 24\<rparr>"
  have un: "unat ?no = n" using n by simp
  obtain s' b b0 k D' where s': "file_create d name flag s = Inr (of_nat f, s')"
    "bitmap_set (inode_bitmap (parts s p)) ?no 1 = Inr b"
    "parts s' = (parts s)(p := (parts s p)\<lparr>inode_bitmap := b, open_inodes := a # open_inodes (parts s p)\<rparr>)"
    "disks s' = (disks s)(my_disk (parts s p) := D')"
    "created_sectors (parts s p) b0 k (file_entry name ?no) ?i' (inode_init ?no) b (disks s (my_disk (parts s p))) D'"
    "k < 21" "b0 \<in> set (inode_blocks s p i)" "inodes s' (dir_inode (dirs s d)) = ?i'" "inodes s' a = (inode_init ?no)\<lparr>i_open_cnts := 1\<rparr>"
    "dirs s' = dirs s" "heap s' = h @ [x]" "in_kernel s' = in_kernel s" "running_thread s' = running_thread s"
    "file_table s' ! g = \<lparr>fd_pos = 0, fd_flag = ucast flag, fd_inode = a\<rparr>" "fd_table (tasks s' (running_thread s)) ! f = of_nat g"
    using file_create_result [OF can, of flag] unfolding p_def i_def by metis
  have b0: "in_data (parts s p) b0" using used_in_data [OF lay] use s'(7) by (simp add: inode_used_def)
  have my: "my_disk (parts s' p) = my_disk (parts s p)" "sb (parts s' p) = sb (parts s p)" "disks s' (my_disk (parts s p)) = D'"
    "parts s' p = (parts s p)\<lparr>inode_bitmap := b, open_inodes := a # open_inodes (parts s p)\<rparr>"
    using s'(3,4) by simp_all
  have se: "\<exists>t. search_dir_entry p d name dir_e s' = Inr (Some (file_entry name ?no), t)"
    by (rule created_search [OF can p_def [THEN meta_eq_to_obj_eq] i_def [THEN meta_eq_to_obj_eq] s'(3,4,10,11,12,8) _ s'(5,6,7) de]) simp
  have od: "on_disk p s'" by (rule created_on_disk [OF lay on refl s'(5) b0 my(4,3)])
  have len: "length (i_sectors ?i') = 13" "length (i_sectors (inode_init ?no)) = 13" using dir by (simp_all add: dir_ok_def inode_init_def)
  have pi: "pure (inode_init ?no) = inode_init ?no" "i_no (inode_init ?no) = ?no" by (simp_all add: pure_def inode_init_def)
  have di: "disk_inode s' p m = (if m = n then inode_init ?no else if m = unat (i_no i) then pure ?i' else disk_inode s p m)" if "m < 4096" for m
    using created_disk_inode [OF lay s'(5) b0 len my(1,2,3) that] pi un by simp
  have sm: "small (inode_bitmap (parts s p))" using layout_bitmaps(3) [OF lay, of INODE_BITMAP] by (simp add: bm_of_def)
  have "n_bits (inode_bitmap (parts s p)) = 4096" using lay by (simp add: layout_ok_def)
  then have bits: "\<forall>k < 4096. is_set b k \<longleftrightarrow> k = n \<or> is_set (inode_bitmap (parts s p)) k"
    using is_set_bitmap_set [OF s'(2)] sm un by (auto simp: small_def)
  show ?thesis
    using s'(1) se od di bits my(4) s'(8,9,10,13,14,15) by (intro exI [of _ s']) simp
qed

text \<open>C4: a file that is created where there is room (\<open>can_create\<close>) is there: \<open>file_create\<close> returns the first free
  descriptor, \<open>search_dir_entry\<close> finds the entry of the name with the number of the inode, the directory has grown by one entry,
  in memory and on the disk, the bitmap of the inodes has exactly the bit of the new one more, on the disk too, whose slot holds
  an empty inode while every other slot is as before, and the descriptor leads to the inode, open once, at position 0.\<close>

theorem file_create_found:
  assumes "can_create s d name x a h n g f" and "length dir_e = 24"
  shows "\<exists>s'. file_create d name flag s = Inr (of_nat f, s') \<and>
    (\<exists>t. search_dir_entry (cur_part s) d name dir_e s' = Inr (Some (file_entry name (of_nat n)), t)) \<and>
    (let p = cur_part s; i = inodes s (dir_inode (dirs s d)) in
     inodes s' (dir_inode (dirs s' d)) = i\<lparr>i_size := i_size i + 24\<rparr> \<and>
     on_disk p s' \<and> (\<forall>k < 4096. is_set (inode_bitmap (parts s' p)) k \<longleftrightarrow> k = n \<or> is_set (inode_bitmap (parts s p)) k) \<and>
     (\<forall>m < 4096. disk_inode s' p m = (if m = n then inode_init (of_nat n)
        else if m = unat (i_no i) then pure (i\<lparr>i_size := i_size i + 24\<rparr>) else disk_inode s p m)) \<and>
     open_inodes (parts s' p) = a # open_inodes (parts s p) \<and> inodes s' a = (inode_init (of_nat n))\<lparr>i_open_cnts := 1\<rparr> \<and>
     fd_table (tasks s' (running_thread s')) ! f = of_nat g \<and>
     file_table s' ! g = \<lparr>fd_pos = 0, fd_flag = ucast flag, fd_inode = a\<rparr>)"
  using file_create_effect [OF assms, of flag] by (simp only: Let_def)

lemma demo_can_create:
  "can_create demo_fs 0xc0006000 [102] 0xc0200400 0xc0200800 [0xc0200c00, 0xc0201000] 1 3 3"
proof -
  have h: "heap demo_fs = [0xc0200400, 0xc0200800, 0xc0200c00, 0xc0201000]" using demo_kernel by (simp add: heap_def)
  have r: "inodes demo_fs (dir_inode (dirs demo_fs 0xc0006000)) = demo_root\<lparr>i_open_cnts := 1\<rparr>"
    "dir_inode (dirs demo_fs 0xc0006000) = 0xc0200000" by (simp_all add: demo_fs_def)
  have fr: "\<forall>x \<in> set (dir_entries demo_fs (1, 0) (demo_root\<lparr>i_open_cnts := 1\<rparr>)). de_name x \<noteq> [102]"
    unfolding demo_blocks(2) [OF refl refl] demo_entries by (auto simp: demo_dot_def demo_dotdot_def de_name_def)
  have hs: "in_kernel demo_fs \<longrightarrow> (\<forall>a \<in> set (heap demo_fs). K_HEAP_START \<le> a)" "distinct (heap demo_fs)" "0 \<notin> set (heap demo_fs)"
    "0xc0200000 \<notin> set (heap demo_fs)"
    unfolding h by (simp_all add: K_HEAP_START_def word_le_nat_alt)
  have room: "\<exists>j. room_at demo_fs (1, 0) (demo_root\<lparr>i_open_cnts := 1\<rparr>) j \<and> i_sectors (demo_root\<lparr>i_open_cnts := 1\<rparr>) ! j \<noteq> 0"
    using demo_room by (intro exI [of _ 0]) (simp add: demo_root_def)
  have bits: "\<not> is_set demo_bits 1" "\<forall>k < 1. is_set demo_bits k" "is_set demo_bits 0" by (simp_all add: demo_bits_bits)
  have slot: "get_free_slot_in_global demo_fs = of_nat 3" "length (file_table demo_fs) = 32"
    by (simp_all add: get_free_slot_in_global_def MAX_FILE_OPEN_def demo_fs_def upt_rec [of 3])
  have fds: "fd_table (tasks demo_fs (running_thread demo_fs)) = [0, 1, 2, - 1, - 1, - 1, - 1, - 1]" by (simp add: demo_fs_def demo_task_def)
  show ?thesis
    unfolding can_create_def Let_def r
    using demo_layout demo_on_disk demo_disk_ok demo_dir_ok demo_inode_used room fr hs bits slot fds h
    by (simp add: demo_root_def)
qed

theorem file_create_found_witness:
  "\<exists>s' t. file_create 0xc0006000 [102] 2 demo_fs = Inr (3, s') \<and>
    search_dir_entry (1, 0) 0xc0006000 [102] (replicate 24 0) s' = Inr (Some (file_entry [102] 1), t) \<and>
    disk_inode s' (1, 0) 1 = inode_init 1"
  using file_create_found [OF demo_can_create, of "replicate 24 0" 2] by (auto simp: Let_def)

end
