(* ===== verification/Mount.thy ===== *)
theory Mount
  imports Calls
begin

text \<open>
  Formatting and mounting (fs/fs.c): what \<open>partition_format\<close> writes is a partition whose regions follow one
  another inside it, and \<open>mount_partition\<close> reads back the super block and both bitmaps.
\<close>

section \<open>The sizes\<close>

definition usable :: "partition \<Rightarrow> nat" where
  "usable q = unat (sec_cnt q) - 611 - (unat (sec_cnt q) - 611 + 4095) div 4096"

text \<open>A partition on the disk that has room for the tables and a few blocks.\<close>

definition big_enough :: "partition \<Rightarrow> bool" where
  "big_enough q \<longleftrightarrow> 640 \<le> unat (sec_cnt q) \<and> unat (start_lba q) + unat (sec_cnt q) \<le> 163840"

lemma DIV_ROUND_UP_nat:
  "unat x + 4095 < 4294967296 \<Longrightarrow> unat (DIV_ROUND_UP x 4096) = (unat x + 4095) div 4096"
proof -
  assume "unat x + 4095 < 4294967296"
  then have "unat (x + 4095) = unat x + 4095" by (subst unat_add_u32) simp_all
  moreover have e: "x + 4096 - 1 = x + 4095" by simp
  ultimately have "unat (x + 4096 - 1) = unat x + 4095" by (simp only: e)
  then show ?thesis by (simp add: DIV_ROUND_UP_def unat_div)
qed

lemma format_sizes_nat:
  assumes "big_enough q"
  defines "b \<equiv> snd (format_sizes q)"
  shows "unat (fst (format_sizes q)) = usable q" and "unat (block_bitmap_sects b) = (usable q + 4095) div 4096"
    and "unat (block_bitmap_lba b) = unat (start_lba q) + 2"
    and "unat (inode_bitmap_lba b) = unat (block_bitmap_lba b) + unat (block_bitmap_sects b)" and "inode_bitmap_sects b = 1"
    and "unat (inode_table_lba b) = unat (inode_bitmap_lba b) + 1" and "inode_table_sects b = 608"
    and "unat (data_start_lba b) = unat (inode_table_lba b) + 608" and "dir_entry_size b = 24"
    and "unat (data_start_lba b) + usable q \<le> unat (start_lba q) + unat (sec_cnt q)" and "8 \<le> usable q"
    and "1 \<le> unat (block_bitmap_sects b)" and "unat (block_bitmap_sects b) \<le> 40"
proof -
  let ?F = "unat (sec_cnt q) - 611"
  let ?bb0 = "(?F + 4095) div 4096"
  have S: "640 \<le> unat (sec_cnt q)" "unat (start_lba q) + unat (sec_cnt q) \<le> 163840" using assms by (simp_all add: big_enough_def)
  have c: "DIV_ROUND_UP MAX_FILES_PER_PART BITS_PER_SECTOR = 1" "DIV_ROUND_UP (of_nat sizeof_inode * MAX_FILES_PER_PART) 512 = 608"
    by (simp_all add: DIV_ROUND_UP_def MAX_FILES_PER_PART_def BITS_PER_SECTOR_def sizeof_inode_def)
  define fr where "fr = sec_cnt q - 611"
  have fr: "unat fr = ?F" using S by (simp add: fr_def unat_sub word_le_nat_alt)
  have bb0: "?bb0 \<le> ?F" "?bb0 \<le> 40" "1 \<le> ?bb0" using S by linarith+
  define bl where "bl = fr - DIV_ROUND_UP fr 4096"
  have d0: "unat (DIV_ROUND_UP fr 4096) = ?bb0" using DIV_ROUND_UP_nat [of fr] fr S by simp
  have bl: "unat bl = usable q" using d0 fr bb0 by (simp add: bl_def usable_def unat_sub word_le_nat_alt)
  have us: "usable q = ?F - ?bb0" by (simp add: usable_def)
  define bb where "bb = DIV_ROUND_UP bl 4096"
  have bb: "unat bb = (usable q + 4095) div 4096" using DIV_ROUND_UP_nat [of bl] bl us S by (simp add: bb_def)
  have le: "unat bb \<le> ?bb0" unfolding bb us by (rule div_le_mono) simp
  have f: "format_sizes q = (bl, \<lparr>magic = 0x19590318, sb_sec_cnt = sec_cnt q, inode_cnt = 4096, part_lba_base = start_lba q,
           block_bitmap_lba = start_lba q + 2, block_bitmap_sects = bb, inode_bitmap_lba = start_lba q + 2 + bb, inode_bitmap_sects = 1,
           inode_table_lba = start_lba q + 2 + bb + 1, inode_table_sects = 608, data_start_lba = start_lba q + 2 + bb + 1 + 608, root_inode_no = 0,
           dir_entry_size = 24\<rparr>)"
    unfolding format_sizes_def Let_def c by (simp add: fr_def bl_def bb_def MAX_FILES_PER_PART_def BITS_PER_SECTOR_def sizeof_dir_entry_def)
  have small: "unat (start_lba q) + 2 + unat bb + 1 + 608 < 4294967296" using S le bb0 by linarith
  have n1: "unat (start_lba q + 2) = unat (start_lba q) + 2" using S by (simp add: unat_add_u32)
  have n2: "unat (start_lba q + 2 + bb) = unat (start_lba q) + 2 + unat bb" using small n1 by (simp add: unat_add_u32)
  have n3: "unat (start_lba q + 2 + bb + 1) = unat (start_lba q) + 2 + unat bb + 1" using small n2 by (simp add: unat_add_u32)
  have n4: "unat (start_lba q + 2 + bb + 1 + 608) = unat (start_lba q) + 2 + unat bb + 1 + 608" using small n3 by (simp add: unat_add_u32)
  show "unat (fst (format_sizes q)) = usable q" "unat (block_bitmap_sects b) = (usable q + 4095) div 4096"
    "unat (block_bitmap_lba b) = unat (start_lba q) + 2"
    "unat (inode_bitmap_lba b) = unat (block_bitmap_lba b) + unat (block_bitmap_sects b)" "inode_bitmap_sects b = 1"
    "unat (inode_table_lba b) = unat (inode_bitmap_lba b) + 1" "inode_table_sects b = 608"
    "unat (data_start_lba b) = unat (inode_table_lba b) + 608" "dir_entry_size b = 24"
    using bl bb n1 n2 n3 n4 unfolding b_def f by simp_all
  show "unat (data_start_lba b) + usable q \<le> unat (start_lba q) + unat (sec_cnt q)"
    unfolding b_def f using n4 le us bb0 S by simp
  show "8 \<le> usable q" unfolding us using S by linarith
  have "1 \<le> (usable q + 4095) div 4096" using \<open>8 \<le> usable q\<close> by linarith
  then show "1 \<le> unat (block_bitmap_sects b)" "unat (block_bitmap_sects b) \<le> 40"
    using bb le bb0(2) unfolding b_def f by simp_all
qed

section \<open>Regions of the disk\<close>

lemma lbas_ok_region: "unat lba + unat n \<le> 163840 \<Longrightarrow> lbas_ok lba n"
proof -
  assume a: "unat lba + unat n \<le> 163840"
  have "lba + of_nat (256 * k) \<le> max_lba" if "k < (unat n + 255) div 256" for k
  proof -
    have "256 * k + 1 \<le> unat n" using that by linarith
    then have "unat (of_nat (256 * k) :: u32) = 256 * k" "unat lba + 256 * k \<le> 163839" using a by (simp_all del: of_nat_mult)
    then have "unat (lba + of_nat (256 * k)) = unat lba + 256 * k" by (subst unat_add_u32) simp_all
    then show ?thesis using \<open>unat lba + 256 * k \<le> 163839\<close> by (simp add: word_le_nat_alt del: of_nat_mult)
  qed
  then show ?thesis by (simp add: lbas_ok_def list_all_iff)
qed

lemma disk_write_region:
  assumes "0 < unat n" "unat lba + unat n \<le> 163840" "512 * unat n \<le> length buf"
  shows "disk_write dk lba buf n s = Inr (s\<lparr>disks := (disks s)(dk := put_sectors lba (unat n) buf (disks s dk))\<rparr>)"
proof -
  have "lba \<le> max_lba" "n > 0" using assms by (simp_all add: word_le_nat_alt word_less_nat_alt)
  then show ?thesis using lbas_ok_region [OF assms(2)] assms(3) by (simp add: disk_write_def)
qed

lemma disk_read_region:
  assumes "0 < unat n" "unat lba + unat n \<le> 163840"
  shows "disk_read dk lba n s = Inr (concat (map (\<lambda>i. disks s dk (lba + of_nat i)) [0..<unat n]))"
proof -
  have "lba \<le> max_lba" "n > 0" using assms by (simp_all add: word_le_nat_alt word_less_nat_alt)
  then show ?thesis using lbas_ok_region [OF assms(2)] by (simp add: disk_read_def)
qed

lemma put_sectors_in:
  assumes "i < n" "unat lba + n \<le> 163840"
  shows "put_sectors lba n buf d (lba + of_nat i) = take 512 (drop (512 * i) buf)"
  using assms by (simp add: put_sectors_def)

lemma put_sectors_out:
  assumes "unat l < unat lba \<or> unat lba + n \<le> unat l" "unat lba + n \<le> 163840"
  shows "put_sectors lba n buf d l = d l"
proof -
  have "\<not> unat (l - lba) < n"
  proof (cases "unat l < unat lba")
    case True
    then have "unat (l - lba) = 4294967296 + unat l - unat lba" 
      using unat_sub_if_size [of l lba] by (simp add: word_size)
    then show ?thesis using assms(2) True by simp
  next
    case False
    then have "unat (l - lba) = unat l - unat lba" by (simp add: unat_sub word_le_nat_alt)
    then show ?thesis using assms(1) False by simp
  qed
  then show ?thesis by (simp add: put_sectors_def)
qed

text \<open>A region read back as it was written.\<close>

lemma concat_sectors:
  "512 * n \<le> length buf \<Longrightarrow> concat (map (\<lambda>i. take 512 (drop (512 * i) buf)) [0..<n]) = take (512 * n) buf"
proof (induction n)
  case (Suc n)
  then show ?case by (simp add: take_add [symmetric] add.commute)
qed simp

section \<open>The block bitmap of a new file system\<close>

lemma fold_length: "length (fold (\<lambda>i b. b[k := g i (b ! k)]) is b) = length b"
  by (induction "is" arbitrary: b) simp_all

text \<open>Clearing the bits 0 to \<open>n - 1\<close> of a byte.\<close>

lemma clear_bits:
  fixes buf :: bytes
  assumes "k < length buf" "n \<le> 8"
  defines "r \<equiv> fold (\<lambda>bit_idx buf. buf[k := buf ! k AND NOT (push_bit bit_idx 1)]) [0..<n] buf"
  shows "length r = length buf" and "j \<noteq> k \<Longrightarrow> r ! j = buf ! j" and "i < 8 \<Longrightarrow> bit (r ! k) i \<longleftrightarrow> n \<le> i \<and> bit (buf ! k) i"
proof -
  have "length r = length buf \<and> (j \<noteq> k \<longrightarrow> r ! j = buf ! j) \<and> (\<forall>i < 8. bit (r ! k) i \<longleftrightarrow> n \<le> i \<and> bit (buf ! k) i)"
    unfolding r_def
  proof (induction n)
    case (Suc n)
    let ?r = "fold (\<lambda>bit_idx buf. buf[k := buf ! k AND NOT (push_bit bit_idx 1)]) [0..<n] buf"
    have "bit (?r ! k AND NOT (push_bit n 1)) i \<longleftrightarrow> Suc n \<le> i \<and> bit (buf ! k) i" if "i < 8" for i
      using Suc that by (auto simp: bit_simps)
    then show ?case using Suc assms(1) by simp
  qed simp
  then show "length r = length buf" "j \<noteq> k \<Longrightarrow> r ! j = buf ! j" "i < 8 \<Longrightarrow> bit (r ! k) i \<longleftrightarrow> n \<le> i \<and> bit (buf ! k) i" by auto
qed

lemma below_next_512:
  fixes a b :: nat
  assumes "a div 512 \<le> b div 512"
  shows "a < b + (512 - b mod 512)"
proof -
  obtain q r where a: "a = 512 * q + r" "r < 512" by (metis mult_div_mod_eq mod_less_divisor zero_less_numeral)
  obtain q' r' where b: "b = 512 * q' + r'" "r' < 512" by (metis mult_div_mod_eq mod_less_divisor zero_less_numeral)
  have "q \<le> q'" using assms a b by simp
  then show ?thesis using a b by simp
qed

lemma format_bitmap_bits:
  assumes "8 \<le> unat bl" "unat bl div 8 + 512 \<le> n"
  shows "\<exists>m. format_bitmap bl (replicate n 0) = Inr m \<and> length m = n \<and>
    (\<forall>k < 4096 * ((unat bl + 4095) div 4096). k div 8 < n \<longrightarrow> bit (m ! (k div 8)) (k mod 8) \<longleftrightarrow> k = 0 \<or> unat bl < k)"
proof -
  let ?B = "unat bl div 8" and ?b = "unat bl mod 8"
  let ?ls = "512 - ?B mod 512"
  define z where "z = (replicate n (0 :: u8))[0 := replicate n 0 ! 0 OR 1]"
  define m1 where "m1 = patch z ?B (replicate ?ls 0xff)"
  define m where "m = fold (\<lambda>bit_idx buf. buf[?B := buf ! ?B AND NOT (push_bit bit_idx 1)]) [0..<Suc ?b] m1"
  have u: "unat (bl div 8) = ?B" "unat (bl mod 8) = ?b" by (simp_all add: unat_div unat_mod)
  have le: "?B + ?ls \<le> n" using assms(2) by simp
  have lz: "length z = n" by (simp add: z_def)
  then have l1: "length m1 = n" using le by (simp add: m1_def)
  have B0: "1 \<le> ?B" using assms(1) by linarith
  have Bn: "?B < length m1" using l1 assms(2) by simp
  have b8: "Suc ?b \<le> 8" by simp
  note cb = clear_bits [OF Bn b8, folded m_def]
  have e: "format_bitmap bl (replicate n 0) = Inr m"
    using le lz unfolding format_bitmap_def Let_def u z_def [symmetric] m1_def [symmetric] m_def by simp
  have z: "z ! j = (if j = 0 then 1 else 0)" if "j < n" for j using that by (cases j) (simp_all add: z_def)
  have bits: "bit (m ! (k div 8)) (k mod 8) \<longleftrightarrow> k = 0 \<or> unat bl < k"
    if k: "k < 4096 * ((unat bl + 4095) div 4096)" "k div 8 < n" for k
  proof -
    have m1: "m1 ! (k div 8) = (if ?B \<le> k div 8 \<and> k div 8 < ?B + ?ls then 0xff else z ! (k div 8))"
    proof (cases "?B \<le> k div 8 \<and> k div 8 < ?B + ?ls")
      case True
      then have "k div 8 - ?B < ?ls" by linarith
      then have "replicate ?ls (0xff :: u8) ! (k div 8 - ?B) = 0xff" by (rule nth_replicate)
      then show ?thesis using le lz k(2) True by (simp only: m1_def nth_patch length_replicate if_True)
    next
      case False
      then show ?thesis using le lz k(2) by (simp only: m1_def nth_patch length_replicate if_False)
    qed
    have range: "k div 8 < ?B + ?ls"
    proof -
      have "k div 4096 < (unat bl + 4095) div 4096" using k(1) less_mult_imp_div_less [of k _ 4096] by (simp add: mult.commute)
      moreover have "(unat bl + 4095) div 4096 \<le> unat bl div 4096 + 1"
        using div_le_mono [of "unat bl + 4095" "unat bl + 4096" 4096] by simp
      ultimately have "k div 4096 \<le> unat bl div 4096" by simp
      then have "k div 8 div 512 \<le> ?B div 512" by (simp flip: div_mult2_eq)
      then show ?thesis by (rule below_next_512)
    qed
    have ff: "bit (0xff :: u8) i" if "i < 8" for i
    proof -
      have "(0xff :: u8) = - 1" by simp
      then show ?thesis using that by (simp only: bit_minus_1_iff) simp
    qed
    consider "k div 8 < ?B" | "k div 8 = ?B" | "?B < k div 8" by linarith
    then show ?thesis
    proof cases
      case 1
      then have "\<not> unat bl < k" using div_le_mono [of "unat bl" k 8] by linarith
      moreover have "m ! (k div 8) = (if k div 8 = 0 then 1 else 0)" using 1 cb(2) [of "k div 8"] m1 z [OF k(2)] by simp
      ultimately show ?thesis by (auto simp: bit_1_iff)
    next
      case 2
      have "bit (m ! ?B) (k mod 8) \<longleftrightarrow> Suc ?b \<le> k mod 8" using cb(3) [of "k mod 8"] m1 2 range ff by simp
      moreover have "unat bl < k \<longleftrightarrow> ?b < k mod 8"
        using 2 mult_div_mod_eq [of 8 k] mult_div_mod_eq [of 8 "unat bl"] by linarith
      moreover have "k \<noteq> 0" using 2 B0 by auto
      ultimately show ?thesis using 2 by auto
    next
      case 3
      then have "unat bl < k" "k \<noteq> 0" using div_le_mono [of k "unat bl" 8] by (linarith, auto)
      then show ?thesis using 3 cb(2) [of "k div 8"] m1 range ff by simp
    qed
  qed
  show ?thesis using e bits cb(1) l1 by auto
qed

lemma is_set_bitmap_of:
  "k div 8 < length bs \<Longrightarrow> k < 4294967296 \<Longrightarrow> is_set (bitmap_of n bs) k \<longleftrightarrow> bit (bs ! (k div 8)) (k mod 8)"
proof -
  assume a: "k div 8 < length bs" "k < 4294967296"
  have "k div 8 < 4294967296" using a(2) by linarith
  then show ?thesis using a by (simp add: is_set_def bitmap_of_def)
qed

lemma bitmap_bytes_of:
  assumes "512 * k + 512 \<le> length bs" "length bs < 4294967296"
  shows "bitmap_bytes (bitmap_of n bs) (of_nat (512 * k)) = take 512 (drop (512 * k) bs)"
proof (rule nth_equalityI)
  fix i assume "i < length (bitmap_bytes (bitmap_of n bs) (of_nat (512 * k)))"
  then have i: "i < 512" by simp
  have "(of_nat (512 * k) :: u32) + of_nat i = of_nat (512 * k + i)" by simp
  then have "unat ((of_nat (512 * k) :: u32) + of_nat i) = 512 * k + i" using assms i by (simp only: unat_of_nat_u32)
  then show "bitmap_bytes (bitmap_of n bs) (of_nat (512 * k)) ! i = take 512 (drop (512 * k) bs) ! i"
    using i assms(1) by (simp add: bitmap_bytes_def bitmap_of_def del: of_nat_mult)
qed (use assms in simp)

section \<open>Format, then mount\<close>

text \<open>What a disk holds that has been formatted.\<close>

definition formatted :: "partition \<Rightarrow> (u32 \<Rightarrow> bytes) \<Rightarrow> bool" where
  "formatted q d \<longleftrightarrow> (let b = snd (format_sizes q) in
     take 52 (d (start_lba q + 1)) = sb_bytes b \<and>
     (\<exists>m. 512 * unat (block_bitmap_sects b) \<le> length m \<and>
        (\<forall>i < unat (block_bitmap_sects b). d (block_bitmap_lba b + of_nat i) = take 512 (drop (512 * i) m)) \<and>
        (\<forall>k < 4096 * unat (block_bitmap_sects b). bit (m ! (k div 8)) (k mod 8) \<longleftrightarrow> k = 0 \<or> usable q < k)) \<and>
     d (inode_bitmap_lba b) = (replicate 512 0)[0 := 1] \<and>
     take 76 (d (inode_table_lba b)) =
       inode_bytes \<lparr>i_no = 0, i_size = 48, i_open_cnts = 0, write_deny = 0, i_sectors = data_start_lba b # replicate 12 0\<rparr> \<and>
     d (data_start_lba b) = dot_entries 0 0 512)"

lemma patch_append: "off + length zs \<le> length xs \<Longrightarrow> patch (xs @ ys) off zs = patch xs off zs @ ys"
  by (simp add: patch_def)

lemma dot_entries_48: "48 \<le> n \<Longrightarrow> dot_entries a b n = dot_entries a b 48 @ replicate (n - 48) 0"
proof -
  assume "48 \<le> n"
  then have "replicate n (0 :: u8) = replicate 48 0 @ replicate (n - 48) 0"
    by (simp only: replicate_add [symmetric] le_add_diff_inverse)
  then show ?thesis
    by (simp only: dot_entries_def Let_def) (simp add: patch_append)
qed

lemma take_dot_entries: "48 \<le> n \<Longrightarrow> n \<le> m \<Longrightarrow> take n (dot_entries 0 0 m) = dot_entries 0 0 n"
proof -
  assume a: "48 \<le> n" "n \<le> m"
  have "length (dot_entries 0 0 48) = 48" by (simp add: dot_entries_def)
  then show ?thesis using a dot_entries_48 [of n 0 0] dot_entries_48 [of m 0 0] by simp
qed

lemma partition_format_ok:
  assumes big: "big_enough (parts s p)" and junk: "460 \<le> length (junk s)" and h: "heap s = x # h" "x \<noteq> 0" "x \<notin> set h"
    and k: "in_kernel s \<longrightarrow> K_HEAP_START \<le> x"
  shows "\<exists>d. partition_format p s = Inr (set_heap (h @ [x]) (s\<lparr>disks := (disks s)(my_disk (parts s p) := d)\<rparr>)) \<and>
    formatted (parts s p) d \<and> (disk_ok s \<longrightarrow> (\<forall>l. length (d l) = 512))"
proof -
  let ?q = "parts s p" and ?dk = "my_disk (parts s p)"
  define bl where "bl = fst (format_sizes ?q)"
  define b where "b = snd (format_sizes ?q)"
  note z = format_sizes_nat [OF big, folded bl_def b_def]
  have fs: "format_sizes ?q = (bl, b)" by (simp add: bl_def b_def)
  have S: "unat (start_lba ?q) + unat (sec_cnt ?q) \<le> 163840" using big by (simp add: big_enough_def)
  have top: "unat (data_start_lba b) + 1 \<le> 163840" using z(10,11) S by linarith
  have sects: "max (max (block_bitmap_sects b) (inode_bitmap_sects b)) (inode_table_sects b) = 608"
    using z(5,7,13) by (simp add: max_def word_le_nat_alt)
  define n where "n = 608 * (512 :: nat)"
  have n: "unat (608 * 512 :: u32) = n" by (simp add: n_def)
  have sbb: "unat (start_lba ?q + 1) = unat (start_lba ?q) + 1" using S by (subst unat_add_u32) simp_all
  obtain m where m: "format_bitmap bl (replicate n 0) = Inr m" "length m = n"
    "\<forall>k < 4096 * ((unat bl + 4095) div 4096). k div 8 < n \<longrightarrow> bit (m ! (k div 8)) (k mod 8) \<longleftrightarrow> k = 0 \<or> unat bl < k"
  proof -
    have "unat bl div 8 + 512 \<le> n" using z(1,10) S by (simp add: n_def)
    then show thesis using format_bitmap_bits [of bl n] z(1,11) that by auto
  qed
  define sbuf where "sbuf = sb_bytes b @ take 460 (junk s)"
  have sbuf: "length sbuf = 512" using junk by (simp add: sbuf_def)
  define root where "root = \<lparr>i_no = 0, i_size = dir_entry_size b * 2, i_open_cnts = 0, write_deny = 0, i_sectors = (replicate 13 0)[0 := data_start_lba b]\<rparr>"
  define ibuf where "ibuf = (replicate n (0 :: u8))[0 := 1]"
  define tbuf where "tbuf = patch (replicate n 0) 0 (inode_bytes root)"
  have lr: "length (inode_bytes root) = 76" by (simp add: root_def)
  have lt: "length tbuf = n" using lr by (simp add: tbuf_def n_def)
  have li: "length ibuf = n" by (simp add: ibuf_def)
  define ebuf where "ebuf = dot_entries 0 0 n"
  have le: "length ebuf = n" by (simp add: ebuf_def dot_entries_def n_def)
  define d1 where "d1 = put_sectors (start_lba ?q + 1) 1 sbuf (disks s ?dk)"
  define d2 where "d2 = put_sectors (block_bitmap_lba b) (unat (block_bitmap_sects b)) m d1"
  define d3 where "d3 = put_sectors (inode_bitmap_lba b) 1 ibuf d2"
  define d4 where "d4 = put_sectors (inode_table_lba b) 608 tbuf d3"
  define d5 where "d5 = put_sectors (data_start_lba b) 1 ebuf d4"
  define t where "t d = set_heap h (s\<lparr>disks := (disks s)(?dk := d)\<rparr>)" for d
  have t_disk: "disks (t d) = (disks s)(?dk := d)" for d by (simp add: t_def)
  have t_upd: "(t d)\<lparr>disks := (disks s)(?dk := d')\<rparr> = t d'" for d d'
    by (simp add: t_def set_heap_def in_kernel_def)
  have w: "disk_write ?dk lba buf nn (t d) = Inr (t (put_sectors lba (unat nn) buf d))"
    if "0 < unat nn" "unat lba + unat nn \<le> 163840" "512 * unat nn \<le> length buf" for lba buf nn d
    using disk_write_region [OF that, of ?dk "t d"] t_upd by (simp add: t_disk)
  have w1: "disk_write ?dk (start_lba ?q + 1) sbuf 1 s = Inr (s\<lparr>disks := (disks s)(?dk := d1)\<rparr>)"
    using disk_write_region [of 1 "start_lba ?q + 1" sbuf ?dk s] sbuf sbb S z(10,11,8,6,4,3) by (simp add: d1_def)
  have mal: "fs_malloc (s\<lparr>disks := (disks s)(?dk := d1)\<rparr>) = (x, t d1)" using h(1) by (simp add: t_def)
  have w2: "disk_write ?dk (block_bitmap_lba b) m (block_bitmap_sects b) (t d1) = Inr (t d2)"
    using w [of "block_bitmap_sects b" "block_bitmap_lba b" m d1] z top m(2) by (simp add: d2_def n_def)
  have w3: "disk_write ?dk (inode_bitmap_lba b) ibuf (inode_bitmap_sects b) (t d2) = Inr (t d3)"
    using w [of 1 "inode_bitmap_lba b" ibuf d2] z(5,6,8) top li by (simp add: d3_def n_def)
  have w4: "disk_write ?dk (inode_table_lba b) tbuf (inode_table_sects b) (t d3) = Inr (t d4)"
    using w [of 608 "inode_table_lba b" tbuf d3] z(7,8) top lt by (simp add: d4_def n_def)
  have w5: "disk_write ?dk (data_start_lba b) ebuf 1 (t d4) = Inr (t d5)"
    using w [of 1 "data_start_lba b" ebuf d4] top le by (simp add: d5_def n_def)
  have fr: "fs_free x (t d5) = Inr (set_heap (h @ [x]) (s\<lparr>disks := (disks s)(?dk := d5)\<rparr>))"
    using h k by (simp add: fs_free_def t_def)
  have xz: "(x \<noteq> 0) = True" using h(2) by simp
  have run: "partition_format p s = Inr (set_heap (h @ [x]) (s\<lparr>disks := (disks s)(?dk := d5)\<rparr>))"
    unfolding partition_format_def Let_def fs prod.case sects n root_def [symmetric]
    unfolding ibuf_def [symmetric] tbuf_def [symmetric] ebuf_def [symmetric] sbuf_def [symmetric]
    by (simp only: w1 bnd_Inr mal prod.case xz defined_True m(1) w2 w3 w4 w5 fr)
  have out: "put_sectors lba nn buf d l = d l" if "unat l < unat lba \<or> unat lba + nn \<le> unat l" "unat lba + nn \<le> 163840" for lba nn buf d l
    by (rule put_sectors_out [OF that])
  have r1: "d5 (start_lba ?q + 1) = sbuf"
    unfolding d5_def d4_def d3_def d2_def d1_def using z top sbb sbuf put_sectors_in [of 0 1 "start_lba ?q + 1" sbuf] by (simp add: out)
  have r2: "d5 (block_bitmap_lba b + of_nat i) = take 512 (drop (512 * i) m)" if i: "i < unat (block_bitmap_sects b)" for i
  proof -
    have "unat (block_bitmap_lba b + of_nat i) = unat (block_bitmap_lba b) + i" using i z top by (subst unat_add_u32) simp_all
    then show ?thesis
      unfolding d5_def d4_def d3_def d2_def using z top i put_sectors_in [OF i, of "block_bitmap_lba b" m] by (simp add: out)
  qed
  have r3: "d5 (inode_bitmap_lba b) = take 512 ibuf"
    unfolding d5_def d4_def d3_def using z top put_sectors_in [of 0 1 "inode_bitmap_lba b" ibuf] by (simp add: out)
  have r4: "d5 (inode_table_lba b) = take 512 tbuf"
    unfolding d5_def d4_def using z top put_sectors_in [of 0 608 "inode_table_lba b" tbuf] by (simp add: out)
  have r5: "d5 (data_start_lba b) = take 512 ebuf"
    unfolding d5_def using top put_sectors_in [of 0 1 "data_start_lba b" ebuf] by simp
  have "formatted ?q d5"
    unfolding formatted_def Let_def b_def [symmetric]
  proof (intro conjI exI [of _ m] allI impI)
    show "take 52 (d5 (start_lba ?q + 1)) = sb_bytes b" unfolding r1 sbuf_def by simp
    show "512 * unat (block_bitmap_sects b) \<le> length m" using z(13) m(2) by (simp add: n_def)
    show "d5 (inode_bitmap_lba b) = (replicate 512 0)[0 := 1]" unfolding r3 ibuf_def by (simp add: take_update_swap n_def)
    show "take 76 (d5 (inode_table_lba b)) =
       inode_bytes \<lparr>i_no = 0, i_size = 48, i_open_cnts = 0, write_deny = 0, i_sectors = data_start_lba b # replicate 12 0\<rparr>"
    proof -
      have "take 76 (take 512 tbuf) = inode_bytes root" unfolding tbuf_def patch_def using lr by simp
      moreover have "(replicate 13 0)[0 := data_start_lba b] = data_start_lba b # replicate 12 0" by (simp add: numeral_eq_Suc)
      ultimately show ?thesis unfolding r4 root_def using z(9) by simp
    qed
    show "d5 (data_start_lba b) = dot_entries 0 0 512" unfolding r5 ebuf_def by (rule take_dot_entries) (simp_all add: n_def)
  next
    fix i assume "i < unat (block_bitmap_sects b)"
    then show "d5 (block_bitmap_lba b + of_nat i) = take 512 (drop (512 * i) m)" by (rule r2)
  next
    fix j assume j: "j < 4096 * unat (block_bitmap_sects b)"
    then have "j div 8 < n" using z(13) by (simp add: n_def)
    then show "bit (m ! (j div 8)) (j mod 8) \<longleftrightarrow> j = 0 \<or> usable ?q < j" using m(3) j z(1,2) by simp
  qed
  moreover have "length (d5 l) = 512" if dk: "disk_ok s" for l
  proof -
    have put: "length (put_sectors lba nn buf d l) = 512" if "\<forall>l. length (d l) = 512" "512 * nn \<le> length buf" for lba nn buf d l
      using that by (auto simp: put_sectors_def)
    have "\<forall>l. length (d1 l) = 512" unfolding d1_def using put dk sbuf by (simp add: disk_ok_def)
    then have "\<forall>l. length (d2 l) = 512" unfolding d2_def using put m(2) z(13) by (simp add: n_def)
    then have "\<forall>l. length (d3 l) = 512" unfolding d3_def using put li by (simp add: n_def)
    then have "\<forall>l. length (d4 l) = 512" unfolding d4_def using put lt by (simp add: n_def)
    then show ?thesis unfolding d5_def using put le by (simp add: n_def)
  qed
  ultimately show ?thesis using run by blast
qed

definition mounted_part :: "partition \<Rightarrow> bytes \<Rightarrow> bytes \<Rightarrow> partition" where
  "mounted_part q bb ib = (let b = snd (format_sizes q) in
     q\<lparr>sb := b, block_bitmap := bitmap_of (block_bitmap_sects b) bb, inode_bitmap := bitmap_of 1 ib, open_inodes := []\<rparr>)"

lemma malloc_or_panic_Cons: "heap s = x # h \<Longrightarrow> x \<noteq> 0 \<Longrightarrow> n \<noteq> 0 \<Longrightarrow> malloc_or_panic n s = Inr (set_heap h s)"
  by (simp add: malloc_or_panic_def)

lemma set_heap_upd_part: "set_heap h (upd_part p f s) = upd_part p f (set_heap h s)"
  by (simp add: set_heap_def upd_part_def in_kernel_def)

lemma upd_part_upd_part: "upd_part p f (upd_part p g s) = upd_part p (\<lambda>q. f (g q)) s"
  by (simp add: upd_part_def)

lemma mount_partition_ok:
  assumes big: "big_enough (parts s p)" and fm: "formatted (parts s p) (disks s (my_disk (parts s p)))"
    and nm: "cstr_of (part_name (parts s p)) = Inr name"
    and h: "heap s = x1 # x2 # x3 # x4 # h" "x1 \<noteq> 0" "x2 \<noteq> 0" "x3 \<noteq> 0" "x4 \<noteq> 0"
  shows "\<exists>m. mount_partition p name s = Inr (True, upd_part p (\<lambda>q. mounted_part q (take (512 * ((usable (parts s p) + 4095) div 4096)) m) ((replicate 512 0)[0 := 1]))
      (set_heap h (s\<lparr>cur_part := p\<rparr>))) \<and>
    512 * ((usable (parts s p) + 4095) div 4096) \<le> length m \<and>
    (\<forall>i < (usable (parts s p) + 4095) div 4096. disks s (my_disk (parts s p)) (block_bitmap_lba (snd (format_sizes (parts s p))) + of_nat i)
       = take 512 (drop (512 * i) m)) \<and>
    (\<forall>k < 4096 * ((usable (parts s p) + 4095) div 4096). bit (m ! (k div 8)) (k mod 8) \<longleftrightarrow> k = 0 \<or> usable (parts s p) < k)"
proof -
  let ?q = "parts s p" and ?dk = "my_disk (parts s p)"
  define b where "b = snd (format_sizes ?q)"
  note z = format_sizes_nat [OF big, folded b_def]
  define n where "n = unat (block_bitmap_sects b)"
  have nn: "(usable ?q + 4095) div 4096 = n" using z(2) by (simp add: n_def)
  have S: "unat (start_lba ?q) + unat (sec_cnt ?q) \<le> 163840" using big by (simp add: big_enough_def)
  have top: "unat (data_start_lba b) + 1 \<le> 163840" using z(10,11) S by linarith
  from fm obtain m where m: "512 * n \<le> length m" "\<forall>i < n. disks s ?dk (block_bitmap_lba b + of_nat i) = take 512 (drop (512 * i) m)"
    "\<forall>k < 4096 * n. bit (m ! (k div 8)) (k mod 8) \<longleftrightarrow> k = 0 \<or> usable ?q < k"
    unfolding formatted_def Let_def b_def n_def by blast
  have f: "take 52 (disks s ?dk (start_lba ?q + 1)) = sb_bytes b" "disks s ?dk (inode_bitmap_lba b) = (replicate 512 0)[0 := 1]"
    using fm unfolding formatted_def Let_def b_def by blast+
  have sbv: "bytes_sb (disks s ?dk (start_lba ?q + 1)) = b"
    using bytes_sb_bytes [of b "drop 52 (disks s ?dk (start_lba ?q + 1))"] f(1) by (metis append_take_drop_id)
  have sbb: "unat (start_lba ?q + 1) = unat (start_lba ?q) + 1" using S by (subst unat_add_u32) simp_all
  define t where "t = s\<lparr>cur_part := p\<rparr>"
  have "heap t = heap s" by (simp add: t_def heap_def in_kernel_def)
  then have t: "heap t = x1 # x2 # x3 # x4 # h" "disks t = disks s" "parts t = parts s" using h(1) by (simp_all add: t_def)
  have rd1: "disk_read ?dk (start_lba ?q + 1) 1 u = Inr (disks s ?dk (start_lba ?q + 1))" if "disks u = disks s" for u :: "'a fsys_scheme"
    using that sbb z S by (simp add: word_le_nat_alt)
  have rd2: "disk_read ?dk (block_bitmap_lba b) (block_bitmap_sects b) u = Inr (take (512 * n) m)" if "disks u = disks s" for u :: "'a fsys_scheme"
  proof -
    have "disk_read ?dk (block_bitmap_lba b) (block_bitmap_sects b) u =
        Inr (concat (map (\<lambda>i. disks s ?dk (block_bitmap_lba b + of_nat i)) [0..<n]))"
      using that z top unfolding n_def by (subst disk_read_region) simp_all
    also have "map (\<lambda>i. disks s ?dk (block_bitmap_lba b + of_nat i)) [0..<n] = map (\<lambda>i. take 512 (drop (512 * i) m)) [0..<n]"
      using m(2) by simp
    also have "concat \<dots> = take (512 * n) m" by (rule concat_sectors [OF m(1)])
    finally show ?thesis .
  qed
  have rd3: "disk_read ?dk (inode_bitmap_lba b) (inode_bitmap_sects b) u = Inr ((replicate 512 0)[0 := 1])" if "disks u = disks s" for u :: "'a fsys_scheme"
    using that z top f(2) by (simp add: word_le_nat_alt)
  have nz: "block_bitmap_sects b * 512 \<noteq> 0" "inode_bitmap_sects b * 512 \<noteq> 0" "(512 :: u32) \<noteq> 0"
  proof -
    have "unat (block_bitmap_sects b * 512) = n * 512" using z(13) unfolding n_def by (subst unat_mult_u32) simp_all
    then show "block_bitmap_sects b * 512 \<noteq> 0" using z(12) unfolding n_def by auto
  qed (simp_all add: z(5))
  have "mount_partition p name s = Inr (True, upd_part p (\<lambda>q. mounted_part q (take (512 * n) m) ((replicate 512 0)[0 := 1])) (set_heap h t))"
    using t h(2-5) nm nz sbv z(5)
    by (simp add: mount_partition_def t_def [symmetric] Let_def rd1 rd2 rd3 [unfolded z(5)] malloc_or_panic_Cons set_heap_upd_part upd_part_upd_part)
      (simp add: mounted_part_def b_def [symmetric] upd_part_def t Let_def)
  then show ?thesis unfolding nn t_def b_def [symmetric] using m by blast
qed

text \<open>The mounted partition, from what the disk holds.\<close>

lemma mounted_ok:
  assumes big: "big_enough q" and m: "512 * ((usable q + 4095) div 4096) \<le> length m"
    "\<forall>k < 4096 * ((usable q + 4095) div 4096). bit (m ! (k div 8)) (k mod 8) \<longleftrightarrow> k = 0 \<or> usable q < k"
  defines "q' \<equiv> mounted_part q (take (512 * ((usable q + 4095) div 4096)) m) ((replicate 512 0)[0 := 1])"
  shows "layout_ok q'" and "n_bits (block_bitmap q') = 4096 * ((usable q + 4095) div 4096)"
    and "\<forall>k < n_bits (block_bitmap q'). is_set (block_bitmap q') k \<longleftrightarrow> k = 0 \<or> usable q < k"
    and "\<forall>k < 4096. is_set (inode_bitmap q') k \<longleftrightarrow> k = 0"
proof -
  define n where "n = (usable q + 4095) div 4096"
  note z = format_sizes_nat [OF big]
  have n40: "n \<le> 40" "unat (block_bitmap_sects (snd (format_sizes q))) = n" using z(2,13) by (simp_all add: n_def)
  have S: "unat (start_lba q) + unat (sec_cnt q) \<le> 163840" using big by (simp add: big_enough_def)
  have q': "sb q' = snd (format_sizes q)" "block_bitmap q' = bitmap_of (block_bitmap_sects (snd (format_sizes q))) (take (512 * n) m)"
    "inode_bitmap q' = bitmap_of 1 ((replicate 512 0)[0 := 1])" "start_lba q' = start_lba q" "sec_cnt q' = sec_cnt q"
    by (simp_all add: q'_def mounted_part_def Let_def n_def)
  have bl: "unat (block_bitmap_sects (snd (format_sizes q)) * 512) = 512 * n" using n40 by (subst unat_mult_u32) simp_all
  show nb: "n_bits (block_bitmap q') = 4096 * ((usable q + 4095) div 4096)"
    using bl by (simp add: q'(2) n_bits_def bitmap_of_def n_def [symmetric])
  have "n_bits (inode_bitmap q') = 4096" by (simp add: q'(3) n_bits_def bitmap_of_def)
  then show "layout_ok q'"
    using nb z S n40 unfolding layout_ok_def q'(1,4,5) n_def [symmetric] by (simp add: word_le_nat_alt)
  show "\<forall>k < n_bits (block_bitmap q'). is_set (block_bitmap q') k \<longleftrightarrow> k = 0 \<or> usable q < k"
  proof (intro allI impI)
    fix k assume "k < n_bits (block_bitmap q')"
    then have k: "k < 4096 * n" unfolding nb n_def by simp
    then have "k div 8 < 512 * n" "k < 4294967296" using n40 by linarith+
    moreover have "length (take (512 * n) m) = 512 * n" using m(1) by (simp add: n_def)
    ultimately have "is_set (block_bitmap q') k \<longleftrightarrow> bit (m ! (k div 8)) (k mod 8)"
      unfolding q'(2) using is_set_bitmap_of [of k "take (512 * n) m"] by simp
    then show "is_set (block_bitmap q') k \<longleftrightarrow> k = 0 \<or> usable q < k" using m(2) k by (simp add: n_def)
  qed
  show "\<forall>k < 4096. is_set (inode_bitmap q') k \<longleftrightarrow> k = 0"
  proof (intro allI impI)
    fix k :: nat assume k: "k < 4096"
    then have "k div 8 < 512" by linarith
    then have "is_set (inode_bitmap q') k \<longleftrightarrow> bit ((replicate 512 (0 :: u8))[0 := 1] ! (k div 8)) (k mod 8)"
      unfolding q'(3) using k by (subst is_set_bitmap_of) simp_all
    also have "\<dots> \<longleftrightarrow> k div 8 = 0 \<and> k mod 8 = 0"
      using \<open>k div 8 < 512\<close> by (cases "k div 8 = 0") (auto simp: bit_1_iff)
    also have "\<dots> \<longleftrightarrow> k = 0" using mult_div_mod_eq [of 8 k] by auto
    finally show "is_set (inode_bitmap q') k \<longleftrightarrow> k = 0" .
  qed
qed

lemma mounted_on_disk:
  assumes big: "big_enough q" and m: "512 * ((usable q + 4095) div 4096) \<le> length m"
    and d: "\<forall>i < (usable q + 4095) div 4096. disks s (my_disk q) (block_bitmap_lba (snd (format_sizes q)) + of_nat i) = take 512 (drop (512 * i) m)"
    "disks s (my_disk q) (inode_bitmap_lba (snd (format_sizes q))) = (replicate 512 0)[0 := 1]"
    and p: "parts s p = mounted_part q (take (512 * ((usable q + 4095) div 4096)) m) ((replicate 512 0)[0 := 1])"
  shows "on_disk p s"
  unfolding on_disk_def
proof (intro allI impI)
  fix t k assume k: "k < unat (sects_of t (parts s p))"
  define n where "n = (usable q + 4095) div 4096"
  note z = format_sizes_nat [OF big]
  have n: "n \<le> 40" "unat (block_bitmap_sects (snd (format_sizes q))) = n" using z(2,13) by (simp_all add: n_def)
  have mq: "my_disk (parts s p) = my_disk q" by (simp add: p mounted_part_def Let_def)
  show "disks s (my_disk (parts s p)) (lba_of t (parts s p) + of_nat k) = bitmap_bytes (bm_of t (parts s p)) (of_nat (512 * k))"
  proof (cases "t = INODE_BITMAP")
    case True
    then have "k = 0" using k z(5) by (simp add: sects_of_def p mounted_part_def Let_def)
    moreover have "bitmap_bytes (bitmap_of 1 ((replicate 512 0)[0 := 1])) (of_nat (512 * 0)) = (replicate 512 0)[0 := 1]"
      by (subst bitmap_bytes_of) simp_all
    ultimately show ?thesis using True d(2) by (simp add: mq lba_of_def bm_of_def) (simp add: p mounted_part_def Let_def)
  next
    case False
    then have kn: "k < n" using k n(2) by (simp add: sects_of_def p mounted_part_def Let_def)
    have len: "length (take (512 * n) m) = 512 * n" using m by (simp add: n_def)
    have "512 * k + 512 \<le> 512 * n" using kn by simp
    then have "bitmap_bytes (bitmap_of (block_bitmap_sects (snd (format_sizes q))) (take (512 * n) m)) (of_nat (512 * k))
        = take 512 (drop (512 * k) (take (512 * n) m))"
      using len n(1) by (intro bitmap_bytes_of) simp_all
    also have "\<dots> = take 512 (drop (512 * k) m)" using \<open>512 * k + 512 \<le> 512 * n\<close> by (simp add: drop_take take_take min_def)
    finally show ?thesis
      using d(1) kn False by (simp add: mq lba_of_def bm_of_def) (simp add: p mounted_part_def Let_def n_def)
  qed
qed

lemma disk_inode_0:
  assumes "disk_ok s" "take 76 (disks s (my_disk (parts s p)) (inode_table_lba (sb (parts s p)))) = inode_bytes i" "length (i_sectors i) = 13"
  shows "disk_inode s p 0 = i"
proof -
  let ?b = "disks s (my_disk (parts s p)) (inode_table_lba (sb (parts s p)))"
  have "slot s p 0 = take 76 ?b"
    by (rule nth_equalityI) (use assms(1) in \<open>simp_all add: slot_def table_byte_def sizeof_inode_def disk_ok_def\<close>)
  then show ?thesis using assms(2,3) bytes_inode_bytes [of i "[]"] by (simp add: disk_inode_def)
qed

text \<open>C6: \<open>partition_format\<close> followed by \<open>mount_partition\<close> gives a consistent file system: the regions of the super
  block read back follow one another inside the partition, the bitmaps in memory are those on the disk, only
  inode 0 is taken, and inode 0 is the root directory with its two entries. Of the blocks, number 0 is taken;
  the blocks above \<open>usable\<close>, the number that fits, are too, but the block with exactly that number, behind the
  end, is free.\<close>

theorem format_then_mount:
  assumes "big_enough (parts s p)" and "disk_ok s" and "460 \<le> length (junk s)" and "cstr_of (part_name (parts s p)) = Inr name"
    and "4 \<le> length (heap s)" and "0 \<notin> set (heap s)" and "distinct (heap s)"
    and "in_kernel s \<longrightarrow> (\<forall>x \<in> set (heap s). K_HEAP_START \<le> x)" and "b = snd (format_sizes (parts s p))"
  shows "\<exists>s1 s2. partition_format p s = Inr s1 \<and> mount_partition p name s1 = Inr (True, s2) \<and> cur_part s2 = p \<and>
    sb (parts s2 p) = b \<and> layout_ok (parts s2 p) \<and> on_disk p s2 \<and> disk_ok s2 \<and> open_inodes (parts s2 p) = [] \<and>
    (\<forall>k < n_bits (block_bitmap (parts s2 p)). is_set (block_bitmap (parts s2 p)) k \<longleftrightarrow> k = 0 \<or> usable (parts s p) < k) \<and>
    unat (data_start_lba b) + usable (parts s p) \<le> unat (start_lba (parts s p)) + unat (sec_cnt (parts s p)) \<and>
    (\<forall>k < 4096. is_set (inode_bitmap (parts s2 p)) k \<longleftrightarrow> k = 0) \<and>
    disk_inode s2 p 0 = \<lparr>i_no = 0, i_size = 48, i_open_cnts = 0, write_deny = 0, i_sectors = data_start_lba b # replicate 12 0\<rparr> \<and>
    disks s2 (my_disk (parts s2 p)) (data_start_lba b) = dot_entries 0 0 512"
proof -
  let ?q = "parts s p"
  obtain x h where h: "heap s = x # h" "3 \<le> length h" using assms(5) by (cases "heap s") auto
  have hx: "x \<noteq> 0" "x \<notin> set h" "in_kernel s \<longrightarrow> K_HEAP_START \<le> x" using assms(6-8) h(1) by auto
  from partition_format_ok [OF assms(1,3) h(1) hx] obtain d where d:
    "partition_format p s = Inr (set_heap (h @ [x]) (s\<lparr>disks := (disks s)(my_disk ?q := d)\<rparr>))"
    "formatted ?q d" "\<forall>l. length (d l) = 512" using assms(2) by blast
  define s1 where "s1 = set_heap (h @ [x]) (s\<lparr>disks := (disks s)(my_disk ?q := d)\<rparr>)"
  have s1: "parts s1 = parts s" "disks s1 = (disks s)(my_disk ?q := d)" "heap s1 = h @ [x]" by (simp_all add: s1_def)
  have "4 \<le> length (h @ [x])" using h(2) by simp
  then obtain x1 x2 x3 x4 h' where hs: "heap s1 = x1 # x2 # x3 # x4 # h'"
    unfolding s1(3) by (metis Suc_le_length_iff numeral_eq_Suc pred_numeral_simps(2) semiring_norm(26) pred_numeral_simps(3) semiring_norm(27) semiring_norm(28))
  have "0 \<notin> set (h @ [x])" using assms(6) h(1) by auto
  then have nz: "x1 \<noteq> 0" "x2 \<noteq> 0" "x3 \<noteq> 0" "x4 \<noteq> 0" unfolding s1(3) [symmetric] hs by auto
  have fm: "formatted (parts s1 p) (disks s1 (my_disk (parts s1 p)))" using d(2) s1 by simp
  have big: "big_enough (parts s1 p)" and nm: "cstr_of (part_name (parts s1 p)) = Inr name" using assms(1,4) s1(1) by simp_all
  from mount_partition_ok [OF big fm nm hs nz] obtain m where m:
    "mount_partition p name s1 = Inr (True, upd_part p (\<lambda>q. mounted_part q (take (512 * ((usable ?q + 4095) div 4096)) m) ((replicate 512 0)[0 := 1]))
      (set_heap h' (s1\<lparr>cur_part := p\<rparr>)))"
    "512 * ((usable ?q + 4095) div 4096) \<le> length m"
    "\<forall>i < (usable ?q + 4095) div 4096. disks s1 (my_disk ?q) (block_bitmap_lba (snd (format_sizes ?q)) + of_nat i) = take 512 (drop (512 * i) m)"
    "\<forall>k < 4096 * ((usable ?q + 4095) div 4096). bit (m ! (k div 8)) (k mod 8) \<longleftrightarrow> k = 0 \<or> usable ?q < k"
    unfolding s1(1) by blast
  define s2 where "s2 = upd_part p (\<lambda>q. mounted_part q (take (512 * ((usable ?q + 4095) div 4096)) m) ((replicate 512 0)[0 := 1]))
      (set_heap h' (s1\<lparr>cur_part := p\<rparr>))"
  have p2: "parts s2 p = mounted_part ?q (take (512 * ((usable ?q + 4095) div 4096)) m) ((replicate 512 0)[0 := 1])"
    and c2: "cur_part s2 = p" and d2: "disks s2 = disks s1" by (simp_all add: s2_def s1(1))
  have mq: "my_disk (parts s2 p) = my_disk ?q" "sb (parts s2 p) = b" "open_inodes (parts s2 p) = []"
    unfolding p2 by (simp_all add: mounted_part_def Let_def assms(9))
  have ib: "d (inode_bitmap_lba b) = (replicate 512 0)[0 := 1]"
    and it: "take 76 (d (inode_table_lba b)) =
      inode_bytes \<lparr>i_no = 0, i_size = 48, i_open_cnts = 0, write_deny = 0, i_sectors = data_start_lba b # replicate 12 0\<rparr>"
    and root: "d (data_start_lba b) = dot_entries 0 0 512"
    using d(2) unfolding formatted_def Let_def assms(9) by blast+
  have on: "on_disk p s2"
    by (rule mounted_on_disk [OF assms(1) m(2) _ _ p2]) (use m(3) ib d2 s1(2) assms(9) in simp_all)
  have dk: "disk_ok s2" using d(3) assms(2) by (simp add: disk_ok_def d2 s1(2))
  have i0: "disk_inode s2 p 0 = \<lparr>i_no = 0, i_size = 48, i_open_cnts = 0, write_deny = 0, i_sectors = data_start_lba b # replicate 12 0\<rparr>"
    by (rule disk_inode_0 [OF dk]) (use it d2 s1(2) mq in simp_all)
  note mo = mounted_ok [OF assms(1) m(2,4), folded p2]
  have "mount_partition p name s1 = Inr (True, s2)" using m(1) by (simp only: s2_def)
  then show ?thesis
    using d(1) mo on dk i0 root c2 mq d2 s1(2) format_sizes_nat(10) [OF assms(1)] unfolding s1_def [symmetric] assms(9) by auto
qed

theorem format_then_mount_witness:
  "\<exists>s1 s2. partition_format (1, 0) demo_fs = Inr s1 \<and> mount_partition (1, 0) [115, 100, 98, 49] s1 = Inr (True, s2) \<and>
    layout_ok (parts s2 (1, 0)) \<and> on_disk (1, 0) s2 \<and> \<not> is_set (block_bitmap (parts s2 (1, 0))) 4095"
proof -
  have u: "usable demo_part = 4095" by (simp add: usable_def demo_part_def)
  have h: "heap demo_fs = [0xc0200400, 0xc0200800, 0xc0200c00, 0xc0201000]" using demo_kernel by (simp add: heap_def)
  have j: "460 \<le> length (junk demo_fs)" by (simp add: demo_fs_def)
  have c: "cstr_of (part_name (parts demo_fs (1, 0))) = Inr [115, 100, 98, 49]" by (simp add: demo_part_def cstr_of_def)
  have hp: "4 \<le> length (heap demo_fs)" "0 \<notin> set (heap demo_fs)" "distinct (heap demo_fs)"
    "in_kernel demo_fs \<longrightarrow> (\<forall>x \<in> set (heap demo_fs). K_HEAP_START \<le> x)"
    unfolding h by (simp_all add: K_HEAP_START_def word_le_nat_alt)
  have big: "big_enough (parts demo_fs (1, 0))" by (simp add: big_enough_def demo_part_def)
  have "\<exists>s1 s2. partition_format (1, 0) demo_fs = Inr s1 \<and> mount_partition (1, 0) [115, 100, 98, 49] s1 = Inr (True, s2) \<and> cur_part s2 = (1, 0) \<and>
    sb (parts s2 (1, 0)) = snd (format_sizes (parts demo_fs (1, 0))) \<and> layout_ok (parts s2 (1, 0)) \<and> on_disk (1, 0) s2 \<and> disk_ok s2 \<and>
    open_inodes (parts s2 (1, 0)) = [] \<and>
    (\<forall>k < n_bits (block_bitmap (parts s2 (1, 0))). is_set (block_bitmap (parts s2 (1, 0))) k \<longleftrightarrow> k = 0 \<or> usable (parts demo_fs (1, 0)) < k) \<and>
    unat (data_start_lba (snd (format_sizes (parts demo_fs (1, 0))))) + usable (parts demo_fs (1, 0))
      \<le> unat (start_lba (parts demo_fs (1, 0))) + unat (sec_cnt (parts demo_fs (1, 0))) \<and>
    (\<forall>k < 4096. is_set (inode_bitmap (parts s2 (1, 0))) k \<longleftrightarrow> k = 0) \<and>
    disk_inode s2 (1, 0) 0 = \<lparr>i_no = 0, i_size = 48, i_open_cnts = 0, write_deny = 0,
      i_sectors = data_start_lba (snd (format_sizes (parts demo_fs (1, 0)))) # replicate 12 0\<rparr> \<and>
    disks s2 (my_disk (parts s2 (1, 0))) (data_start_lba (snd (format_sizes (parts demo_fs (1, 0))))) = dot_entries 0 0 512"
    by (rule format_then_mount [OF big demo_disk_ok j c hp refl])
  then obtain s1 s2 where *: "partition_format (1, 0) demo_fs = Inr s1" "mount_partition (1, 0) [115, 100, 98, 49] s1 = Inr (True, s2)"
    "sb (parts s2 (1, 0)) = snd (format_sizes (parts demo_fs (1, 0)))" "layout_ok (parts s2 (1, 0))" "on_disk (1, 0) s2"
    "\<forall>k < n_bits (block_bitmap (parts s2 (1, 0))). is_set (block_bitmap (parts s2 (1, 0))) k \<longleftrightarrow> k = 0 \<or> usable (parts demo_fs (1, 0)) < k"
    by blast
  have "n_bits (block_bitmap (parts s2 (1, 0))) = 4096 * unat (block_bitmap_sects (snd (format_sizes (parts demo_fs (1, 0)))))"
    using *(3,4) unfolding layout_ok_def by simp
  then have "4095 < n_bits (block_bitmap (parts s2 (1, 0)))" using format_sizes_nat(12) [OF big] by simp
  then show ?thesis using * u by auto
qed

end
