(* ===== verification/Types.thy ===== *)
theory Types
  imports Calls
begin

text \<open>
  The types of the C structures that the model writes as lists: a sector has 512 bytes, \<open>i_sectors\<close> 13 elements,
  \<open>file_table\<close> 32, \<open>fd_table\<close> 8, \<open>dir_buf\<close> 512 bytes, and an element of \<open>fd_table\<close> is -1 or an index of \<open>file_table\<close>.
  \<open>fs_typed\<close> says so of a state, \<open>geometry\<close> is what no call may change: which partition is mounted, where
  it lies on its disk, its super block and the sizes of its bitmaps. \<open>returns m Q\<close> is the weakest precondition of
  \<open>Q\<close> for a function that may stop; one rule per operation carries the two through all calls of fs/fs.c.
\<close>

section \<open>Typed states\<close>

definition fd_ok :: "u32 \<Rightarrow> bool" where
  "fd_ok e \<longleftrightarrow> e = - 1 \<or> unat e < MAX_FILE_OPEN"

definition fs_typed :: "'a fsys_scheme \<Rightarrow> bool" where
  "fs_typed s \<longleftrightarrow> disk_ok s \<and> (\<forall>a. length (i_sectors (inodes s a)) = 13) \<and> length (file_table s) = MAX_FILE_OPEN \<and>
     (\<forall>t. length (fd_table (tasks s t)) = MAX_FILES_OPEN_PER_PROC \<and> list_all fd_ok (fd_table (tasks s t))) \<and>
     (\<forall>d. length (dir_buf (dirs s d)) = SECTOR_SIZE)"

definition part_shape :: "partition \<Rightarrow> partition" where
  "part_shape q = q\<lparr>block_bitmap := (block_bitmap q)\<lparr>bits := (\<lambda>_. 0)\<rparr>,
     inode_bitmap := (inode_bitmap q)\<lparr>bits := (\<lambda>_. 0)\<rparr>, open_inodes := []\<rparr>"

definition geometry :: "'a fsys_scheme \<Rightarrow> part_id \<times> u32 \<times> part_id list \<times> u32 \<times> (part_id \<Rightarrow> partition)" where
  "geometry s = (cur_part s, running_thread s, partition_list s, root_dir s, \<lambda>p. part_shape (parts s p))"

definition returns :: "'b res \<Rightarrow> ('b \<Rightarrow> bool) \<Rightarrow> bool" where
  "returns m Q \<longleftrightarrow> (\<forall>x. m = Inr x \<longrightarrow> Q x)"

lemma returns_simps [simp]:
  "returns (Inr x) Q \<longleftrightarrow> Q x" "returns (Inl e) Q \<longleftrightarrow> True"
  "returns (bnd m f) Q \<longleftrightarrow> returns m (\<lambda>x. returns (f x) Q)"
  "returns (ASSERT b) R \<longleftrightarrow> (b \<longrightarrow> R ())" "returns (defined b) R \<longleftrightarrow> (b \<longrightarrow> R ())"
  "returns (if c then h else h') Q \<longleftrightarrow> (c \<longrightarrow> returns h Q) \<and> (\<not> c \<longrightarrow> returns h' Q)"
  "returns (case z of None \<Rightarrow> h | Some y \<Rightarrow> g y) Q \<longleftrightarrow> (z = None \<longrightarrow> returns h Q) \<and> (\<forall>y. z = Some y \<longrightarrow> returns (g y) Q)"
  by (auto simp: returns_def res_simps split: option.splits)

lemma returns_pure: "(\<And>x. m = Inr x \<Longrightarrow> Q x) \<Longrightarrow> returns m Q"
  by (simp add: returns_def)

lemma returns_mono: "returns m P \<Longrightarrow> (\<And>x. P x \<Longrightarrow> Q x) \<Longrightarrow> returns m Q"
  by (simp add: returns_def)

named_theorems ok_rules \<open>what an operation keeps of a typed state\<close>

section \<open>Updates\<close>

lemma typed_fields:
  assumes "fs_typed s"
  shows "length (disks s dk l) = 512" "length (i_sectors (inodes s a)) = 13" "length (file_table s) = 32"
    "length (fd_table (tasks s t)) = 8" "list_all fd_ok (fd_table (tasks s t))" "length (dir_buf (dirs s d)) = 512"
  using assms by (simp_all add: fs_typed_def disk_ok_def MAX_FILE_OPEN_def MAX_FILES_OPEN_PER_PROC_def SECTOR_SIZE_def)

lemma typed_upd_inode [simp]:
  "fs_typed s \<Longrightarrow> length (i_sectors (f (inodes s a))) = 13 \<Longrightarrow> fs_typed (upd_inode a f s)"
  "geometry (upd_inode a f s) = geometry s"
  by (simp_all add: fs_typed_def disk_ok_def upd_inode_def geometry_def)

lemma typed_upd_dir [simp]:
  "fs_typed s \<Longrightarrow> length (dir_buf (f (dirs s d))) = 512 \<Longrightarrow> fs_typed (upd_dir d f s)"
  "geometry (upd_dir d f s) = geometry s"
  by (simp_all add: fs_typed_def disk_ok_def upd_dir_def geometry_def SECTOR_SIZE_def)

lemma typed_upd_file [simp]: "fs_typed s \<Longrightarrow> fs_typed (upd_file k f s)" "geometry (upd_file k f s) = geometry s"
  by (simp_all add: fs_typed_def disk_ok_def upd_file_def geometry_def)

lemma typed_upd_part [simp]:
  "fs_typed (upd_part p f s) = fs_typed s"
  "part_shape (f (parts s p)) = part_shape (parts s p) \<Longrightarrow> geometry (upd_part p f s) = geometry s"
  by (auto simp: fs_typed_def disk_ok_def upd_part_def geometry_def)

lemma typed_upd_task [simp]:
  "fs_typed s \<Longrightarrow> length (fd_table (f (tasks s t))) = 8 \<Longrightarrow> list_all fd_ok (fd_table (f (tasks s t))) \<Longrightarrow>
   fs_typed (upd_task t f s)"
  "geometry (upd_task t f s) = geometry s"
  by (simp_all add: fs_typed_def disk_ok_def upd_task_def geometry_def MAX_FILES_OPEN_PER_PROC_def)

lemma ok_disk_write [ok_rules]:
  assumes "fs_typed s" and "\<And>s'. fs_typed s' \<Longrightarrow> geometry s' = geometry s \<Longrightarrow> Q s'"
  shows "returns (disk_write dk l buf n s) Q"
proof -
  have "fs_typed (s\<lparr>disks := (disks s)(dk := put_sectors l (unat n) buf (disks s dk))\<rparr>)" if "512 * unat n \<le> length buf"
    using assms(1) that by (auto simp: fs_typed_def disk_ok_def put_sectors_def)
  then show ?thesis using assms(2) by (simp add: disk_write_def geometry_def)
qed

lemma typed_set_sector [simp]:
  "fs_typed s \<Longrightarrow> fs_typed (set_sector a k l s)" "geometry (set_sector a k l s) = geometry s"
  by (simp_all add: set_sector_def typed_fields)

lemma typed_set_heap [simp]: "fs_typed (set_heap h s) = fs_typed s" "geometry (set_heap h s) = geometry s"
  by (simp_all add: fs_typed_def disk_ok_def geometry_def)

lemma typed_fs_malloc [simp]:
  "fs_typed (snd (fs_malloc s)) = fs_typed s" "geometry (snd (fs_malloc s)) = geometry s"
  by (simp_all add: fs_malloc_def split: list.split)

lemma typed_flags [simp]:
  "fs_typed (snd (intr_disable s)) = fs_typed s" "geometry (snd (intr_disable s)) = geometry s"
  "fs_typed (snd (intr_set_status s st)) = fs_typed s" "geometry (snd (intr_set_status s st)) = geometry s"
  by (simp_all add: intr_set_status_def intr_disable_def intr_enable_def sti_def cli_def fs_typed_def disk_ok_def geometry_def)

lemma bitmap_set_shape: "bitmap_set b i v = Inr b' \<Longrightarrow> b'\<lparr>bits := f\<rparr> = b\<lparr>bits := f\<rparr>"
  unfolding bitmap_set_def Let_def bnd_eq_Inr sum.inject by (elim exE conjE, erule subst, cases b, simp only: bitmap.update_convs)

lemma part_shape_upd [simp]:
  "bitmap_set (block_bitmap q) i v = Inr b \<Longrightarrow> part_shape (q\<lparr>block_bitmap := b\<rparr>) = part_shape q"
  "bitmap_set (inode_bitmap q) i v = Inr b \<Longrightarrow> part_shape (q\<lparr>inode_bitmap := b\<rparr>) = part_shape q"
  "part_shape (q\<lparr>open_inodes := os\<rparr>) = part_shape q"
  by (simp_all add: part_shape_def bitmap_set_shape [where f = "\<lambda>_. 0"])

lemma typed_console [simp]:
  "fs_typed (s\<lparr>console_out := bs\<rparr>) = fs_typed s" "geometry (s\<lparr>console_out := bs\<rparr>) = geometry s"
  by (simp_all add: fs_typed_def disk_ok_def geometry_def)

lemmas typed_lengths [simp] = typed_fields

text \<open>Steps that do not change the state.\<close>

lemmas pure_steps = returns_pure [where m = "bitmap_scan b n" for b n] returns_pure [where m = "bitmap_set b i v" for b i v]
  returns_pure [where m = "find_entry a b c d e f" for a b c d e f]
  returns_pure [where m = "search_blocks a b c d e f g s" for a b c d e f g s]
  returns_pure [where m = "free_entry a b c" for a b c] returns_pure [where m = "scan_sector a b c d e f g" for a b c d e f g]
  returns_pure [where m = "of_opt a b" for a b] returns_pure [where m = "create_dir_entry a b c d" for a b c d]
  returns_pure [where m = "read_entries a b c d e f" for a b c d e f] returns_pure [where m = "inode_locate a b s" for a b s]
  returns_pure [where m = "read_table a b s" for a b s] returns_pure [where m = "read_blocks a b c s" for a b c s]
  returns_pure [where m = "path_depth_cnt a b" for a b] returns_pure [where m = "path_parse a b" for a b]
  returns_pure [where m = "cstr_of a" for a] returns_pure [where m = "next_name a" for a]
  returns_pure [where m = "fd_local2global a s" for a s] returns_pure [where m = "name_in_blocks a b c d s" for a b c d s]
  returns_pure [where m = "reverse_path a b c" for a b c]

declare pure_steps [ok_rules]

text \<open>The rules have the form: a step from a typed state establishes \<open>Q\<close> if \<open>Q\<close> holds of every result with a typed
  state of the same geometry.\<close>

lemma ok_disk_read [ok_rules]:
  assumes "fs_typed s" and "\<And>buf. length buf = 512 * unat n \<Longrightarrow> Q buf"
  shows "returns (disk_read dk l n s) Q"
proof -
  have "length (concat (map (\<lambda>i. disks s dk (l + of_nat i)) [0..<m])) = 512 * m" for m
    using assms(1) by (induction m) simp_all
  then show ?thesis using assms(2) by (simp add: disk_read_def)
qed

lemma ok_fs_free [ok_rules]:
  assumes "fs_typed s" and "\<And>s'. fs_typed s' \<Longrightarrow> geometry s' = geometry s \<Longrightarrow> Q s'"
  shows "returns (fs_free p s) Q"
  using assms by (auto simp: fs_free_def)

lemmas step_simps = Let_def case_prod_beta with_kernel_pgdir_def bytes_inode_def inode_init_def

section \<open>Operations\<close>

subsection \<open>The bitmaps and the inodes\<close>

lemma ok_inode_bitmap_alloc [ok_rules]:
  assumes "fs_typed s" and "\<And>r s'. fs_typed s' \<Longrightarrow> geometry s' = geometry s \<Longrightarrow> Q (r, s')"
  shows "returns (inode_bitmap_alloc p s) Q"
  using assms unfolding inode_bitmap_alloc_def by (auto simp: step_simps intro!: ok_rules assms(2))

lemma ok_block_bitmap_alloc [ok_rules]:
  assumes "fs_typed s" and "\<And>r s'. fs_typed s' \<Longrightarrow> geometry s' = geometry s \<Longrightarrow> Q (r, s')"
  shows "returns (block_bitmap_alloc p s) Q"
  using assms unfolding block_bitmap_alloc_def by (auto simp: step_simps intro!: ok_rules assms(2))

lemma ok_bitmap_sync [ok_rules]:
  assumes "fs_typed s" and "\<And>s'. fs_typed s' \<Longrightarrow> geometry s' = geometry s \<Longrightarrow> Q s'"
  shows "returns (bitmap_sync p i t s) Q"
  using assms unfolding bitmap_sync_def by (auto simp: step_simps intro!: ok_rules assms(2))

lemma ok_clear_block [ok_rules]:
  assumes "fs_typed s" and "\<And>s'. fs_typed s' \<Longrightarrow> geometry s' = geometry s \<Longrightarrow> Q s'"
  shows "returns (clear_block p i s) Q"
  using assms unfolding clear_block_def by (auto simp: step_simps intro!: ok_rules assms(2))

lemma ok_rewrite_inode [ok_rules]:
  assumes "fs_typed s" and "\<And>s'. fs_typed s' \<Longrightarrow> geometry s' = geometry s \<Longrightarrow> Q s'"
  shows "returns (rewrite_inode p pos bs n s) Q"
  using assms unfolding rewrite_inode_def by (auto simp: step_simps intro!: ok_rules assms(2))

lemma ok_inode_sync [ok_rules]:
  assumes "fs_typed s" and "\<And>s'. fs_typed s' \<Longrightarrow> geometry s' = geometry s \<Longrightarrow> Q s'"
  shows "returns (inode_sync p i n s) Q"
  using assms unfolding inode_sync_def by (auto simp: step_simps intro!: ok_rules assms(2))

lemma ok_inode_open [ok_rules]:
  assumes "fs_typed s" and "\<And>r s'. fs_typed s' \<Longrightarrow> geometry s' = geometry s \<Longrightarrow> Q (r, s')"
  shows "returns (inode_open p no s) Q"
  using assms unfolding inode_open_def by (auto simp: step_simps intro!: ok_rules assms(2))

lemma ok_inode_close [ok_rules]:
  assumes "fs_typed s" and "\<And>s'. fs_typed s' \<Longrightarrow> geometry s' = geometry s \<Longrightarrow> Q s'"
  shows "returns (inode_close a s) Q"
  using assms unfolding inode_close_def by (auto simp: step_simps intro!: ok_rules assms(2))

lemma ok_inode_delete [ok_rules]:
  assumes "fs_typed s" and "\<And>s'. fs_typed s' \<Longrightarrow> geometry s' = geometry s \<Longrightarrow> Q s'"
  shows "returns (inode_delete p no n s) Q"
  using assms unfolding inode_delete_def by (auto simp: step_simps intro!: ok_rules assms(2))

lemma ok_release_block [ok_rules]:
  assumes "fs_typed s" and "\<And>s'. fs_typed s' \<Longrightarrow> geometry s' = geometry s \<Longrightarrow> Q s'"
  shows "returns (release_block p l s) Q"
  using assms unfolding release_block_def by (auto simp: step_simps intro!: ok_rules assms(2))

lemma ok_release_blocks [ok_rules]:
  "fs_typed s \<Longrightarrow> (\<And>s'. fs_typed s' \<Longrightarrow> geometry s' = geometry s \<Longrightarrow> Q s') \<Longrightarrow> returns (release_blocks p bs s) Q"
proof (induction bs arbitrary: s Q)
  case (Cons x xs)
  show ?case using Cons.prems by (auto simp: step_simps intro!: ok_rules Cons)
qed auto

lemma ok_inode_release [ok_rules]:
  assumes "fs_typed s" and "\<And>s'. fs_typed s' \<Longrightarrow> geometry s' = geometry s \<Longrightarrow> Q s'"
  shows "returns (inode_release p no s) Q"
  using assms unfolding inode_release_def by (auto simp: step_simps intro!: ok_rules assms(2))

subsection \<open>Directories\<close>

lemma ok_open_root_dir [ok_rules]:
  assumes "fs_typed s" and "\<And>s'. fs_typed s' \<Longrightarrow> geometry s' = geometry s \<Longrightarrow> Q s'"
  shows "returns (open_root_dir p s) Q"
  using assms unfolding open_root_dir_def by (auto simp: step_simps intro!: ok_rules assms(2))

lemma ok_dir_open [ok_rules]:
  assumes "fs_typed s" and "\<And>r s'. fs_typed s' \<Longrightarrow> geometry s' = geometry s \<Longrightarrow> Q (r, s')"
  shows "returns (dir_open p no s) Q"
  using assms unfolding dir_open_def by (auto simp: step_simps intro!: ok_rules assms(2))

lemma ok_search_dir_entry [ok_rules]:
  assumes "fs_typed s" and "\<And>r s'. fs_typed s' \<Longrightarrow> geometry s' = geometry s \<Longrightarrow> Q (r, s')"
  shows "returns (search_dir_entry p d nm e s) Q"
  using assms unfolding search_dir_entry_def by (auto simp: step_simps intro!: ok_rules assms(2))

lemma ok_dir_close [ok_rules]:
  assumes "fs_typed s" and "\<And>s'. fs_typed s' \<Longrightarrow> geometry s' = geometry s \<Longrightarrow> Q s'"
  shows "returns (dir_close d s) Q"
  using assms unfolding dir_close_def by (auto simp: step_simps intro!: ok_rules assms(2))

lemma ok_new_dir_block [ok_rules]:
  assumes "fs_typed s" and "\<And>r s'. fs_typed s' \<Longrightarrow> geometry s' = geometry s \<Longrightarrow> Q (r, s')"
  shows "returns (new_dir_block a i bs s) Q"
  using assms unfolding new_dir_block_def by (auto simp: step_simps intro!: ok_rules assms(2))

lemma ok_sync_dir_loop [ok_rules]:
  "fs_typed s \<Longrightarrow> (\<And>r s'. fs_typed s' \<Longrightarrow> geometry s' = geometry s \<Longrightarrow> Q (r, s')) \<Longrightarrow> returns (sync_dir_loop a e dsz i n bs s) Q"
proof (induction n arbitrary: i bs s Q)
  case (Suc n)
  show ?case using Suc.prems by (auto simp: step_simps intro!: ok_rules Suc)
qed auto

lemma ok_sync_dir_entry [ok_rules]:
  assumes "fs_typed s" and "\<And>r s'. fs_typed s' \<Longrightarrow> geometry s' = geometry s \<Longrightarrow> Q (r, s')"
  shows "returns (sync_dir_entry d e s) Q"
  using assms unfolding sync_dir_entry_def by (auto simp: step_simps intro!: ok_rules assms(2))

lemma ok_drop_dir_block [ok_rules]:
  assumes "fs_typed s" and "\<And>s'. fs_typed s' \<Longrightarrow> geometry s' = geometry s \<Longrightarrow> Q s'"
  shows "returns (drop_dir_block p a i bs s) Q"
  using assms unfolding drop_dir_block_def by (auto simp: step_simps intro!: ok_rules assms(2))

lemma ok_delete_dir_loop [ok_rules]:
  "fs_typed s \<Longrightarrow> (\<And>r s'. fs_typed s' \<Longrightarrow> geometry s' = geometry s \<Longrightarrow> Q (r, s')) \<Longrightarrow> returns (delete_dir_loop p a no dsz i n bs s) Q"
proof (induction n arbitrary: i s Q)
  case (Suc n)
  show ?case using Suc.prems by (auto simp: step_simps intro!: ok_rules Suc)
qed auto

lemma ok_delete_dir_entry [ok_rules]:
  assumes "fs_typed s" and "\<And>r s'. fs_typed s' \<Longrightarrow> geometry s' = geometry s \<Longrightarrow> Q (r, s')"
  shows "returns (delete_dir_entry p d no s) Q"
  using assms unfolding delete_dir_entry_def by (auto simp: step_simps intro!: ok_rules assms(2))

lemma ok_dir_read_loop [ok_rules]:
  "fs_typed s \<Longrightarrow> (\<And>r s'. fs_typed s' \<Longrightarrow> geometry s' = geometry s \<Longrightarrow> Q (r, s')) \<Longrightarrow> returns (dir_read_loop d dsz bs c s) Q"
proof (induction bs arbitrary: c s Q)
  case (Cons x xs)
  show ?case using Cons.prems by (auto simp: step_simps intro!: ok_rules Cons)
qed auto

lemma ok_dir_read [ok_rules]:
  assumes "fs_typed s" and "\<And>r s'. fs_typed s' \<Longrightarrow> geometry s' = geometry s \<Longrightarrow> Q (r, s')"
  shows "returns (dir_read d s) Q"
  using assms unfolding dir_read_def by (auto simp: step_simps intro!: ok_rules assms(2))

lemma ok_dir_remove [ok_rules]:
  assumes "fs_typed s" and "\<And>r s'. fs_typed s' \<Longrightarrow> geometry s' = geometry s \<Longrightarrow> Q (r, s')"
  shows "returns (dir_remove d e s) Q"
  using assms unfolding dir_remove_def by (auto simp: step_simps intro!: ok_rules assms(2))

subsection \<open>Files\<close>

lemma list_all_update [simp]: "list_all P xs \<Longrightarrow> P x \<Longrightarrow> list_all P (xs[i := x])"
  using set_update_subset_insert [of xs i x] by (auto simp: list_all_iff)

lemma fd_ok_unused [simp]: "fd_ok (- 1)"
  by (simp add: fd_ok_def)

lemma get_free_slot_fd_ok [simp]: "fd_ok (get_free_slot_in_global s)"
proof (cases "find (\<lambda>i. fd_inode (file_table s ! i) = 0) [3..<MAX_FILE_OPEN]")
  case (Some i)
  then have "i < MAX_FILE_OPEN" by (auto simp: find_Some_iff)
  then show ?thesis using Some by (simp add: get_free_slot_in_global_def fd_ok_def MAX_FILE_OPEN_def)
qed (simp add: get_free_slot_in_global_def fd_ok_def)

lemma typed_pcb_fd_install [simp]:
  "fs_typed s \<Longrightarrow> fd_ok i \<Longrightarrow> fs_typed (snd (pcb_fd_install i s))" "geometry (snd (pcb_fd_install i s)) = geometry s"
  by (auto simp: pcb_fd_install_def Let_def list_all_update split: option.split)

lemma ok_rollback_create [ok_rules]:
  assumes "fs_typed s" and "\<And>r s'. fs_typed s' \<Longrightarrow> geometry s' = geometry s \<Longrightarrow> Q (r, s')"
  shows "returns (rollback_create n fd a no b s) Q"
  using assms unfolding rollback_create_def by (auto simp: step_simps intro!: ok_rules assms(2))

lemma ok_file_create [ok_rules]:
  assumes "fs_typed s" and "\<And>r s'. fs_typed s' \<Longrightarrow> geometry s' = geometry s \<Longrightarrow> Q (r, s')"
  shows "returns (file_create d nm fl s) Q"
  using assms unfolding file_create_def by (auto simp: step_simps intro!: ok_rules assms(2) assms(2) [where r = "fst x" and s' = "snd x" for x, unfolded prod.collapse])

lemma ok_file_open [ok_rules]:
  assumes "fs_typed s" and "\<And>r s'. fs_typed s' \<Longrightarrow> geometry s' = geometry s \<Longrightarrow> Q (r, s')"
  shows "returns (file_open no fl s) Q"
  using assms unfolding file_open_def by (auto simp: step_simps intro!: ok_rules assms(2) assms(2) [where r = "fst x" and s' = "snd x" for x, unfolded prod.collapse])

lemma ok_file_close [ok_rules]:
  assumes "fs_typed s" and "\<And>r s'. fs_typed s' \<Longrightarrow> geometry s' = geometry s \<Longrightarrow> Q (r, s')"
  shows "returns (file_close f s) Q"
  using assms unfolding file_close_def by (auto simp: step_simps intro!: ok_rules assms(2))

lemma ok_record_direct [ok_rules]:
  assumes "fs_typed s" and "\<And>r s'. fs_typed s' \<Longrightarrow> geometry s' = geometry s \<Longrightarrow> Q (r, s')"
  shows "returns (record_direct a i l bs s) Q"
  using assms unfolding record_direct_def by (auto simp: step_simps intro!: ok_rules assms(2))

lemma ok_record_block [ok_rules]:
  assumes "fs_typed s" and "\<And>r s'. fs_typed s' \<Longrightarrow> geometry s' = geometry s \<Longrightarrow> Q (r, s')"
  shows "returns (record_block sit a i l bs s) Q"
  using assms unfolding record_block_def by (cases sit) (auto intro!: ok_rules assms(2))

lemma ok_grow_loop [ok_rules]:
  "fs_typed s \<Longrightarrow> (\<And>r s'. fs_typed s' \<Longrightarrow> geometry s' = geometry s \<Longrightarrow> Q (r, s')) \<Longrightarrow> returns (grow_loop sit a i n bs s) Q"
proof (induction n arbitrary: i bs s Q)
  case (Suc n)
  show ?case using Suc.prems by (auto simp: step_simps intro!: ok_rules Suc)
qed auto

lemma ok_first_block [ok_rules]:
  assumes "fs_typed s" and "\<And>r s'. fs_typed s' \<Longrightarrow> geometry s' = geometry s \<Longrightarrow> Q (r, s')"
  shows "returns (first_block a s) Q"
  using assms unfolding first_block_def by (auto simp: step_simps intro!: ok_rules assms(2))

lemma ok_write_table [ok_rules]:
  assumes "fs_typed s" and "\<And>s'. fs_typed s' \<Longrightarrow> geometry s' = geometry s \<Longrightarrow> Q s'"
  shows "returns (write_table l bs s) Q"
  using assms unfolding write_table_def by (auto simp: step_simps intro!: ok_rules assms(2))

lemma ok_collect_blocks [ok_rules]:
  assumes "fs_typed s" and "\<And>r s'. fs_typed s' \<Longrightarrow> geometry s' = geometry s \<Longrightarrow> Q (r, s')"
  shows "returns (collect_blocks a m n s) Q"
  using assms unfolding collect_blocks_def by (auto simp: step_simps intro!: ok_rules assms(2))

lemma ok_write_loop [ok_rules]:
  "fs_typed s \<Longrightarrow> (\<And>s'. fs_typed s' \<Longrightarrow> geometry s' = geometry s \<Longrightarrow> Q s') \<Longrightarrow> returns (write_loop a bs w src s) Q"
proof (induction a bs w src s arbitrary: Q rule: write_loop.induct)
  case 1
  show ?case using 1(2,3) by (subst write_loop.simps) (auto simp: step_simps intro!: ok_rules 1)
qed

lemma ok_file_write [ok_rules]:
  assumes "fs_typed s" and "\<And>r s'. fs_typed s' \<Longrightarrow> geometry s' = geometry s \<Longrightarrow> Q (r, s')"
  shows "returns (file_write f buf n s) Q"
  using assms unfolding file_write_def by (auto simp: step_simps intro!: ok_rules assms(2))

lemma ok_read_loop [ok_rules]:
  "fs_typed s \<Longrightarrow> (\<And>r s'. fs_typed s' \<Longrightarrow> geometry s' = geometry s \<Longrightarrow> Q (r, s')) \<Longrightarrow> returns (read_loop f b bs n s) Q"
proof (induction f b bs n s arbitrary: Q rule: read_loop.induct)
  case 1
  show ?case using 1(2,3) by (subst read_loop.simps) (auto simp: step_simps intro!: ok_rules 1)
qed

lemma ok_file_read [ok_rules]:
  assumes "fs_typed s" and "\<And>r q s'. fs_typed s' \<Longrightarrow> geometry s' = geometry s \<Longrightarrow> Q (r, q, s')"
  shows "returns (file_read f n s) Q"
  using assms unfolding file_read_def by (auto simp: step_simps intro!: ok_rules assms(2))

subsection \<open>Paths and calls\<close>

lemma ok_found_dir [ok_rules]:
  assumes "fs_typed s" and "\<And>r q s'. fs_typed s' \<Longrightarrow> geometry s' = geometry s \<Longrightarrow> Q (r, q, s')"
  shows "returns (found_dir no e r s) Q"
  using assms unfolding found_dir_def by (auto simp: step_simps intro!: ok_rules assms(2))

lemma ok_search_loop [ok_rules]:
  "fs_typed s \<Longrightarrow> (\<And>r q s'. fs_typed s' \<Longrightarrow> geometry s' = geometry s \<Longrightarrow> Q (r, q, s')) \<Longrightarrow>
   returns (search_loop sub nm d no e r s) Q"
proof (induction "name_rank sub nm" arbitrary: sub nm d no e r s Q rule: less_induct)
  case less
  show ?case
    using less.prems by (subst search_loop.simps)
      (auto simp: step_simps intro!: ok_rules less.hyps next_name_rank [where name = nm, of _ "(a, b)" for a b, simplified])
qed

lemma ok_search_file [ok_rules]:
  assumes "fs_typed s" and "\<And>r q s'. fs_typed s' \<Longrightarrow> geometry s' = geometry s \<Longrightarrow> Q (r, q, s')"
  shows "returns (search_file nm r s) Q"
  using assms unfolding search_file_def by (auto simp: step_simps intro!: ok_rules assms(2))

lemma ok_sys_open [ok_rules]:
  assumes "fs_typed s" and "\<And>r s'. fs_typed s' \<Longrightarrow> geometry s' = geometry s \<Longrightarrow> Q (r, s')"
  shows "returns (sys_open nm fl s) Q"
  using assms unfolding sys_open_def by (auto simp: step_simps intro!: ok_rules assms(2))

lemma ok_sys_close [ok_rules]:
  assumes "fs_typed s" and "\<And>r s'. fs_typed s' \<Longrightarrow> geometry s' = geometry s \<Longrightarrow> Q (r, s')"
  shows "returns (sys_close fd s) Q"
  using assms unfolding sys_close_def by (auto simp: step_simps intro!: ok_rules assms(2))

lemma ok_sys_write [ok_rules]:
  assumes "fs_typed s" and "\<And>r s'. fs_typed s' \<Longrightarrow> geometry s' = geometry s \<Longrightarrow> Q (r, s')"
  shows "returns (sys_write fd buf n s) Q"
  using assms unfolding sys_write_def by (auto simp: step_simps intro!: ok_rules assms(2))

lemma ok_sys_read [ok_rules]:
  assumes "fs_typed s" and "\<And>r q s'. fs_typed s' \<Longrightarrow> geometry s' = geometry s \<Longrightarrow> Q (r, q, s')"
  shows "returns (sys_read fd n s) Q"
  using assms unfolding sys_read_def by (auto simp: step_simps intro!: ok_rules assms(2))

lemma ok_sys_lseek [ok_rules]:
  assumes "fs_typed s" and "\<And>r s'. fs_typed s' \<Longrightarrow> geometry s' = geometry s \<Longrightarrow> Q (r, s')"
  shows "returns (sys_lseek fd off w s) Q"
  using assms unfolding sys_lseek_def by (auto simp: step_simps intro!: ok_rules assms(2))

lemma ok_sys_unlink [ok_rules]:
  assumes "fs_typed s" and "\<And>r s'. fs_typed s' \<Longrightarrow> geometry s' = geometry s \<Longrightarrow> Q (r, s')"
  shows "returns (sys_unlink nm s) Q"
  using assms unfolding sys_unlink_def by (auto simp: step_simps intro!: ok_rules assms(2))

lemma ok_rollback_mkdir [ok_rules]:
  assumes "fs_typed s" and "\<And>r s'. fs_typed s' \<Longrightarrow> geometry s' = geometry s \<Longrightarrow> Q (r, s')"
  shows "returns (rollback_mkdir n d no b s) Q"
  using assms unfolding rollback_mkdir_def by (auto simp: step_simps intro!: ok_rules assms(2))

lemma ok_sys_mkdir [ok_rules]:
  assumes "fs_typed s" and "\<And>r s'. fs_typed s' \<Longrightarrow> geometry s' = geometry s \<Longrightarrow> Q (r, s')"
  shows "returns (sys_mkdir nm s) Q"
  using assms unfolding sys_mkdir_def by (auto simp: step_simps intro!: ok_rules assms(2))

lemma ok_sys_opendir [ok_rules]:
  assumes "fs_typed s" and "\<And>r s'. fs_typed s' \<Longrightarrow> geometry s' = geometry s \<Longrightarrow> Q (r, s')"
  shows "returns (sys_opendir nm s) Q"
  using assms unfolding sys_opendir_def by (auto simp: step_simps intro!: ok_rules assms(2))

lemma ok_sys_closedir [ok_rules]:
  assumes "fs_typed s" and "\<And>r s'. fs_typed s' \<Longrightarrow> geometry s' = geometry s \<Longrightarrow> Q (r, s')"
  shows "returns (sys_closedir d s) Q"
  using assms unfolding sys_closedir_def by (auto simp: step_simps intro!: ok_rules assms(2))

lemma ok_sys_readdir [ok_rules]:
  assumes "fs_typed s" and "\<And>r s'. fs_typed s' \<Longrightarrow> geometry s' = geometry s \<Longrightarrow> Q (r, s')"
  shows "returns (sys_readdir d s) Q"
  using assms unfolding sys_readdir_def by (auto simp: step_simps intro!: ok_rules assms(2))

lemma ok_sys_rmdir [ok_rules]:
  assumes "fs_typed s" and "\<And>r s'. fs_typed s' \<Longrightarrow> geometry s' = geometry s \<Longrightarrow> Q (r, s')"
  shows "returns (sys_rmdir nm s) Q"
  using assms unfolding sys_rmdir_def by (auto simp: step_simps intro!: ok_rules assms(2))

lemma ok_get_parent_dir_inode_nr [ok_rules]:
  assumes "fs_typed s" and "\<And>r s'. fs_typed s' \<Longrightarrow> geometry s' = geometry s \<Longrightarrow> Q (r, s')"
  shows "returns (get_parent_dir_inode_nr no s) Q"
  using assms unfolding get_parent_dir_inode_nr_def by (auto simp: step_simps intro!: ok_rules assms(2))

lemma ok_get_child_dir_name [ok_rules]:
  assumes "fs_typed s" and "\<And>r s'. fs_typed s' \<Longrightarrow> geometry s' = geometry s \<Longrightarrow> Q (r, s')"
  shows "returns (get_child_dir_name m n pth s) Q"
  using assms unfolding get_child_dir_name_def by (auto simp: step_simps intro!: ok_rules assms(2))

lemma cwd_loop_returns:
  assumes "cwd_loop c path s = Some m"
  shows "fs_typed s \<longrightarrow> returns m (\<lambda>x. fs_typed (snd x) \<and> geometry (snd x) = geometry s)"
proof (rule cwd_loop.raw_induct [OF _ assms])
  fix rec :: "u32 \<Rightarrow> bytes \<Rightarrow> 'a fsys_scheme \<Rightarrow> (bytes option \<times> 'a fsys_scheme) res option" and c path s m
  assume IH: "\<And>c path s m. rec c path s = Some m \<Longrightarrow> fs_typed s \<longrightarrow> returns m (\<lambda>x. fs_typed (snd x) \<and> geometry (snd x) = geometry s)"
    and body: "(if c = 0 then Some (Inr (Some path, s))
      else case bnd (get_parent_dir_inode_nr c s) (\<lambda>(parent, s). bnd (get_child_dir_name parent c path s) (\<lambda>(r, s). Inr (parent, r, s))) of
          Inl e \<Rightarrow> Some (Inl e)
        | Inr x \<Rightarrow> (case fst (snd x) of None \<Rightarrow> Some (Inr (None, snd (snd x))) | Some path \<Rightarrow> rec (fst x) path (snd (snd x)))) = Some m"
  let ?m = "bnd (get_parent_dir_inode_nr c s) (\<lambda>(parent, s). bnd (get_child_dir_name parent c path s) (\<lambda>(r, s). Inr (parent, r, s)))"
  show "fs_typed s \<longrightarrow> returns m (\<lambda>x. fs_typed (snd x) \<and> geometry (snd x) = geometry s)"
  proof (cases ?m)
    case (Inr x)
    have "returns ?m (\<lambda>x. fs_typed (snd (snd x)) \<and> geometry (snd (snd x)) = geometry s)" if "fs_typed s"
      using that by (auto simp: case_prod_beta intro!: ok_rules)
    then have x: "fs_typed (snd (snd x))" "geometry (snd (snd x)) = geometry s" if "fs_typed s"
      using that Inr by (simp_all add: returns_def)
    show ?thesis
    proof (cases "c = 0 \<or> fst (snd x) = None")
      case True
      then show ?thesis using body Inr x by (auto split: if_splits)
    next
      case False
      then obtain q where "rec (fst x) q (snd (snd x)) = Some m" using body Inr by auto
      from IH [OF this] show ?thesis using x by (metis (mono_tags, lifting) returns_mono)
    qed
  qed (use body in \<open>auto split: if_splits\<close>)
qed

lemma cwd_loop_typed:
  "cwd_loop c path s = Some m \<Longrightarrow> fs_typed s \<Longrightarrow>
   (\<And>r s'. fs_typed s' \<Longrightarrow> geometry s' = geometry s \<Longrightarrow> Q (r, s')) \<Longrightarrow> returns m Q"
  using cwd_loop_returns [of c path s m] by (auto simp: returns_def)

lemma ok_sys_getcwd [ok_rules]:
  assumes "fs_typed s" and "\<And>r s'. fs_typed s' \<Longrightarrow> geometry s' = geometry s \<Longrightarrow> Q (r, s')"
  shows "returns (sys_getcwd n s) Q"
  using assms unfolding sys_getcwd_def by (auto simp: step_simps intro!: ok_rules assms(2) elim!: cwd_loop_typed)

lemma ok_sys_chdir [ok_rules]:
  assumes "fs_typed s" and "\<And>r s'. fs_typed s' \<Longrightarrow> geometry s' = geometry s \<Longrightarrow> Q (r, s')"
  shows "returns (sys_chdir pth s) Q"
  using assms unfolding sys_chdir_def by (auto simp: step_simps intro!: ok_rules assms(2))

lemma ok_sys_stat [ok_rules]:
  assumes "fs_typed s" and "\<And>r q s'. fs_typed s' \<Longrightarrow> geometry s' = geometry s \<Longrightarrow> Q (r, q, s')"
  shows "returns (sys_stat pth b s) Q"
  using assms unfolding sys_stat_def by (auto simp: step_simps intro!: ok_rules assms(2))

section \<open>Any sequence of calls\<close>

datatype fcall = Open bytes u8 | Close u32 | Write u32 bytes u32 | Read u32 u32 | Lseek u32 u32 u8 | Unlink bytes
  | Mkdir bytes | Opendir bytes | Closedir u32 | Readdir u32 | Rewinddir u32 | Rmdir bytes | Getcwd u32 | Chdir bytes
  | Stat bytes stat

fun exec :: "fcall \<Rightarrow> 'a fsys_scheme \<Rightarrow> 'a fsys_scheme res" where
  "exec (Open pathname flags) s = bnd (sys_open pathname flags s) (\<lambda>(r, s). Inr s)"
| "exec (Close fd) s = bnd (sys_close fd s) (\<lambda>(r, s). Inr s)"
| "exec (Write fd buf count) s = bnd (sys_write fd buf count s) (\<lambda>(r, s). Inr s)"
| "exec (Read fd count) s = bnd (sys_read fd count s) (\<lambda>(r, out, s). Inr s)"
| "exec (Lseek fd offset whence) s = bnd (sys_lseek fd offset whence s) (\<lambda>(r, s). Inr s)"
| "exec (Unlink pathname) s = bnd (sys_unlink pathname s) (\<lambda>(r, s). Inr s)"
| "exec (Mkdir pathname) s = bnd (sys_mkdir pathname s) (\<lambda>(r, s). Inr s)"
| "exec (Opendir name) s = bnd (sys_opendir name s) (\<lambda>(r, s). Inr s)"
| "exec (Closedir d) s = bnd (sys_closedir d s) (\<lambda>(r, s). Inr s)"
| "exec (Readdir d) s = bnd (sys_readdir d s) (\<lambda>(r, s). Inr s)"
| "exec (Rewinddir d) s = Inr (sys_rewinddir d s)"
| "exec (Rmdir pathname) s = bnd (sys_rmdir pathname s) (\<lambda>(r, s). Inr s)"
| "exec (Getcwd sz) s = bnd (sys_getcwd sz s) (\<lambda>(r, s). Inr s)"
| "exec (Chdir path) s = bnd (sys_chdir path s) (\<lambda>(r, s). Inr s)"
| "exec (Stat path buf) s = bnd (sys_stat path buf s) (\<lambda>(r, buf, s). Inr s)"

fun run :: "fcall list \<Rightarrow> 'a fsys_scheme \<Rightarrow> 'a fsys_scheme res" where
  "run [] s = Inr s"
| "run (c # cs) s = bnd (exec c s) (run cs)"

lemma exec_typed:
  "fs_typed s \<Longrightarrow> returns (exec c s) (\<lambda>s'. fs_typed s' \<and> geometry s' = geometry s)"
  by (cases c) (auto simp: case_prod_beta sys_rewinddir_def intro!: ok_rules)

lemma run_typed:
  "fs_typed s \<Longrightarrow> returns (run cs s) (\<lambda>s'. fs_typed s' \<and> geometry s' = geometry s)"
proof (induction cs arbitrary: s)
  case (Cons c cs)
  show ?case using exec_typed [OF Cons.prems, of c] Cons.IH by (auto simp: returns_def res_simps)
qed simp

lemma fd_local2global_typed:
  assumes "fs_typed s" and "unat fd < MAX_FILES_OPEN_PER_PROC"
  shows "if fd_table (tasks s (running_thread s)) ! unat fd = - 1 then fd_local2global fd s = Inl Panic
    else \<exists>g < MAX_FILE_OPEN. fd_local2global fd s = Inr g"
proof -
  let ?e = "fd_table (tasks s (running_thread s)) ! unat fd"
  have "fd_ok ?e"
    using assms(2) typed_fields(5) [OF assms(1), of "running_thread s"] typed_fields(4) [OF assms(1), of "running_thread s"]
    by (simp add: list_all_length MAX_FILES_OPEN_PER_PROC_def)
  then consider "?e = - 1" | "unat ?e < 32" by (auto simp: fd_ok_def MAX_FILE_OPEN_def)
  then show ?thesis
  proof cases
    case 2
    then have "sint ?e = int (unat ?e)" by (intro sint_small) simp
    moreover have "?e \<noteq> - 1"
    proof
      assume "?e = - 1"
      with 2 have "unat (- 1 :: u32) < 32" by simp
      then show False by (simp add: unsigned_minus_1_eq_mask mask_eq_exp_minus_1)
    qed
    moreover have "int (unat ?e) < 32" using 2 by linarith
    ultimately show ?thesis using 2 assms(2) by (simp add: fd_local2global_def Let_def MAX_FILE_OPEN_def)
  qed (use assms(2) in \<open>simp add: fd_local2global_def Let_def\<close>)
qed

text \<open>C7: in a state of the types of the C declarations every call of the file system that returns, and so every sequence
  of calls, ends in such a state: sectors, arrays and tables keep their lengths, the mounted partition its
  place, super block and bitmap sizes, and every descriptor of every thread is unused or denotes an entry of the
  table of open files. A descriptor below 8 is then either unused, and using it is the failed assertion of
  \<open>fd_local2global\<close>, or it is translated to an index of the table.\<close>

theorem calls_keep_types:
  assumes "fs_typed s" and "run calls s = Inr s'"
  shows "fs_typed s' \<and> geometry s' = geometry s \<and>
    (\<forall>fd. unat fd < MAX_FILES_OPEN_PER_PROC \<longrightarrow>
      (if fd_table (tasks s' (running_thread s')) ! unat fd = - 1 then fd_local2global fd s' = Inl Panic
       else \<exists>g < MAX_FILE_OPEN. fd_local2global fd s' = Inr g))"
  using run_typed [OF assms(1), of calls] assms(2) fd_local2global_typed [of s'] by (auto simp: returns_def)

lemma demo_typed: "fs_typed demo_fs"
proof -
  have "length (demo_disk l) = 512" for l
    by (simp add: demo_disk_def demo_dots_def demo_root_def bitmap_bytes_def)
  then show ?thesis
    by (auto simp: fs_typed_def disk_ok_def demo_fs_def demo_root_def demo_task_def MAX_FILE_OPEN_def MAX_FILES_OPEN_PER_PROC_def
        SECTOR_SIZE_def fd_ok_def)
qed

theorem calls_keep_types_witness:
  "\<exists>s'. run [Opendir [47], Write 1 [104, 105] 2, Close 1, Rewinddir 0xc0006000] demo_fs = Inr s' \<and> fs_typed s' \<and>
    fd_local2global 1 s' = Inr 1"
proof -
  let ?cs = "[Opendir [47], Write 1 [104, 105] 2, Close 1, Rewinddir 0xc0006000]"
  have "\<exists>s'. run ?cs demo_fs = Inr s' \<and> tasks s' = tasks demo_fs"
    by (simp add: sys_opendir_def sys_write_def sys_close_def sys_rewinddir_def MAX_PATH_LEN_def cstr_of_def patch_def upd_dir_def)
  then obtain s' where s': "run ?cs demo_fs = Inr s'" "tasks s' = tasks demo_fs" by blast
  have t: "fd_table (tasks s' t) ! 1 = 1" for t by (simp add: s'(2) demo_fs_def demo_task_def)
  from calls_keep_types [OF demo_typed s'(1)] have "fs_typed s'" by blast
  moreover have "fd_local2global 1 s' = Inr 1"
    using t by (simp add: fd_local2global_def MAX_FILES_OPEN_PER_PROC_def MAX_FILE_OPEN_def)
  ultimately show ?thesis using s'(1) by blast
qed

end
