(* ===== verification/Ide.thy ===== *)
theory Ide
  imports Disk
begin

text \<open>
  The disk driver (device/ide.c). The controller is hardware: its ports are the parameter \<open>io\<close> of the
  definitions, its state is the type \<open>'d\<close>, and what the driver relies on is the hypothesis
  \<open>ata_device\<close>, the protocol of the ATA standard on the registers, seen through \<open>view\<close>. The driver is
  followed from the thread that calls it: while it waits, for an interrupt or asleep, the controller
  goes on. Disk \<open>2 c + d\<close> is device \<open>d\<close> of channel \<open>c\<close>.
\<close>

section \<open>Ports and state\<close>

record 'd ata =
  io_outb :: "u16 \<Rightarrow> u8 \<Rightarrow> 'd \<Rightarrow> 'd"
  io_inb :: "u16 \<Rightarrow> 'd \<Rightarrow> u8 \<times> 'd"
  io_outsw :: "u16 \<Rightarrow> bytes \<Rightarrow> 'd \<Rightarrow> 'd"
  io_insw :: "u16 \<Rightarrow> nat \<Rightarrow> 'd \<Rightarrow> bytes \<times> 'd"
  io_pause :: "'d \<Rightarrow> 'd"
  io_intr :: "nat \<Rightarrow> 'd \<Rightarrow> 'd option"

text \<open>\<open>io_outsw\<close> and \<open>io_insw\<close> move two bytes for each word, \<open>io_pause\<close> is 10 milliseconds, \<open>io_intr c\<close> the time
  until channel \<open>c\<close> raises its interrupt, None when it never does. \<open>chan_lock\<close> and \<open>disk_done\<close> are the addresses
  of the lock and the semaphore; the partitions of a disk are in \<open>parts\<close> of the file system's state.\<close>

record ide_channel =
  port_base :: u16
  irq_no :: u8
  chan_lock :: u32
  expecting_intr :: bool
  disk_done :: u32

record 'd ides = fsys +
  device :: 'd
  channels :: "nat \<Rightarrow> ide_channel"
  channel_cnt :: u8
  ext_lba_base :: u32
  p_no :: u8
  l_no :: u8
  hd_handlers :: "u8 list"

definition upd_chan :: "nat \<Rightarrow> (ide_channel \<Rightarrow> ide_channel) \<Rightarrow> 'd ides \<Rightarrow> 'd ides" where
  "upd_chan c f s = s\<lparr>channels := (channels s)(c := f (channels s c))\<rparr>"

definition upd_dev :: "('d \<Rightarrow> 'd) \<Rightarrow> 'd ides \<Rightarrow> 'd ides" where
  "upd_dev f s = s\<lparr>device := f (device s)\<rparr>"

definition my_channel :: "nat \<Rightarrow> nat" where
  "my_channel dk = dk div 2"

definition dev_no :: "nat \<Rightarrow> nat" where
  "dev_no dk = dk mod 2"

section \<open>The code\<close>

definition reg_data :: "ide_channel \<Rightarrow> u16" where "reg_data ch = port_base ch + 0"
definition reg_sect_cnt :: "ide_channel \<Rightarrow> u16" where "reg_sect_cnt ch = port_base ch + 2"
definition reg_lba_l :: "ide_channel \<Rightarrow> u16" where "reg_lba_l ch = port_base ch + 3"
definition reg_lba_m :: "ide_channel \<Rightarrow> u16" where "reg_lba_m ch = port_base ch + 4"
definition reg_lba_h :: "ide_channel \<Rightarrow> u16" where "reg_lba_h ch = port_base ch + 5"
definition reg_dev :: "ide_channel \<Rightarrow> u16" where "reg_dev ch = port_base ch + 6"
definition reg_status :: "ide_channel \<Rightarrow> u16" where "reg_status ch = port_base ch + 7"
definition reg_cmd :: "ide_channel \<Rightarrow> u16" where "reg_cmd ch = reg_status ch"

definition BIT_STAT_BSY :: u8 where "BIT_STAT_BSY = 0x80"
definition BIT_STAT_DRQ :: u8 where "BIT_STAT_DRQ = 0x8"
definition BIT_DEV_MBS :: u8 where "BIT_DEV_MBS = 0xa0"
definition BIT_DEV_LBA :: u8 where "BIT_DEV_LBA = 0x40"
definition BIT_DEV_DEV :: u8 where "BIT_DEV_DEV = 0x10"
definition CMD_IDENTIFY :: u8 where "CMD_IDENTIFY = 0xec"
definition CMD_READ_SECTOR :: u8 where "CMD_READ_SECTOR = 0x20"
definition CMD_WRITE_SECTOR :: u8 where "CMD_WRITE_SECTOR = 0x30"

abbreviation chan :: "'d ides \<Rightarrow> nat \<Rightarrow> ide_channel" where
  "chan s dk \<equiv> channels s (my_channel dk)"

definition select_disk :: "'d ata \<Rightarrow> nat \<Rightarrow> 'd ides \<Rightarrow> 'd ides" where
  "select_disk io dk s =
     (let reg_device = BIT_DEV_MBS OR BIT_DEV_LBA;
          reg_device = (if dev_no dk = 1 then reg_device OR BIT_DEV_DEV else reg_device)
      in upd_dev (io_outb io (reg_dev (chan s dk)) reg_device) s)"

definition select_sector :: "'d ata \<Rightarrow> nat \<Rightarrow> u32 \<Rightarrow> u8 \<Rightarrow> 'd ides \<Rightarrow> 'd ides res" where
  "select_sector io dk lba n s =
     bnd (ASSERT (lba \<le> max_lba)) (\<lambda>_.
     let ch = chan s dk;
         s = upd_dev (io_outb io (reg_sect_cnt ch) n) s;
         s = upd_dev (io_outb io (reg_lba_l ch) (ucast lba)) s;
         s = upd_dev (io_outb io (reg_lba_m ch) (ucast (drop_bit 8 lba))) s;
         s = upd_dev (io_outb io (reg_lba_h ch) (ucast (drop_bit 16 lba))) s
     in Inr (upd_dev (io_outb io (reg_dev ch)
          (BIT_DEV_MBS OR BIT_DEV_LBA OR (if dev_no dk = 1 then BIT_DEV_DEV else 0) OR ucast (drop_bit 24 lba))) s))"

definition cmd_out :: "'d ata \<Rightarrow> nat \<Rightarrow> u8 \<Rightarrow> 'd ides \<Rightarrow> 'd ides" where
  "cmd_out io c cmd s =
     (let s = upd_chan c (\<lambda>ch. ch\<lparr>expecting_intr := True\<rparr>) s in upd_dev (io_outb io (reg_cmd (channels s c)) cmd) s)"

definition size_in_byte :: "u8 \<Rightarrow> nat" where
  "size_in_byte cnt = (if cnt = 0 then 256 * 512 else unat cnt * 512)"

definition read_from_sector :: "'d ata \<Rightarrow> nat \<Rightarrow> u8 \<Rightarrow> 'd ides \<Rightarrow> bytes \<times> 'd ides" where
  "read_from_sector io dk cnt s =
     (let (bs, d) = io_insw io (reg_data (chan s dk)) (size_in_byte cnt div 2) (device s) in (bs, s\<lparr>device := d\<rparr>))"

definition write2sector :: "'d ata \<Rightarrow> nat \<Rightarrow> bytes \<Rightarrow> u8 \<Rightarrow> 'd ides \<Rightarrow> 'd ides res" where
  "write2sector io dk buf cnt s =
     bnd (defined (size_in_byte cnt \<le> length buf)) (\<lambda>_.
     Inr (upd_dev (io_outsw io (reg_data (chan s dk)) (take (size_in_byte cnt) buf)) s))"

lemma time_limit_decreases: "t \<noteq> 1 \<Longrightarrow> unat (t - 2 :: u16) < unat (t - 1)"
proof -
  assume "t \<noteq> 1"
  then have nz: "t - 1 \<noteq> 0" by simp
  have "unat (t - 1 - 1) = unat (t - 1) - 1" by (rule unat_minus_one [OF nz])
  moreover have "0 < unat (t - 1)" using nz unat_gt_0 [of "t - 1"] by blast
  moreover have "t - 1 - 1 = t - 2" by simp
  ultimately show ?thesis by simp
qed

text \<open>\<open>time_limit -= 10 >= 0\<close> is \<open>time_limit -= (10 >= 0)\<close>: it counts down by one.\<close>

function busy_loop :: "'d ata \<Rightarrow> nat \<Rightarrow> u16 \<Rightarrow> 'd ides \<Rightarrow> bool \<times> 'd ides" where
  "busy_loop io dk time_limit s =
     (let time_limit = time_limit - 1 in
      if time_limit = 0 then (False, s)
      else
        let (st, d) = io_inb io (reg_status (chan s dk)) (device s); s = s\<lparr>device := d\<rparr> in
        if st AND BIT_STAT_BSY = 0 then
          let (st, d) = io_inb io (reg_status (chan s dk)) (device s) in (st AND BIT_STAT_DRQ \<noteq> 0, s\<lparr>device := d\<rparr>)
        else busy_loop io dk time_limit (upd_dev (io_pause io) s))"
  by pat_completeness auto
termination
  by (relation "measure (\<lambda>(io, dk, t, s). unat (t - 1))") (auto intro: time_limit_decreases)

declare busy_loop.simps [simp del]

definition busy_wait :: "'d ata \<Rightarrow> nat \<Rightarrow> 'd ides \<Rightarrow> bool \<times> 'd ides" where
  "busy_wait io dk = busy_loop io dk (30 * 1000)"

text \<open>The interrupt handler, and \<open>sema_down(&channel->disk_done)\<close> for a thread that has to wait: the controller
  runs until its next interrupt.\<close>

definition intr_hd_handler :: "'d ata \<Rightarrow> u8 \<Rightarrow> 'd ides \<Rightarrow> 'd ides res" where
  "intr_hd_handler io irq s =
     bnd (ASSERT (irq = 0x2e \<or> irq = 0x2f)) (\<lambda>_.
     let c = unat (irq - 0x2e); ch = channels s c in
     bnd (ASSERT (irq_no ch = irq)) (\<lambda>_.
     if expecting_intr ch then
       bnd (sema_up (disk_done ch) (upd_chan c (\<lambda>ch. ch\<lparr>expecting_intr := False\<rparr>) s)) (\<lambda>s.
       Inr (upd_dev (\<lambda>d. snd (io_inb io (reg_status ch) d)) s))
     else Inr s))"

partial_function (option) wait_done :: "'d ata \<Rightarrow> nat \<Rightarrow> 'd ides \<Rightarrow> 'd ides res option" where
  "wait_done io c s =
     (if svalue (semas s (disk_done (channels s c))) \<noteq> 0 then Some (sema_down (disk_done (channels s c)) s)
      else
        case io_intr io c (device s) of None \<Rightarrow> None
        | Some d \<Rightarrow>
            (case intr_hd_handler io (irq_no (channels s c)) (s\<lparr>device := d\<rparr>) of
               Inl e \<Rightarrow> Some (Inl e) | Inr s \<Rightarrow> wait_done io c s))"

definition sema_down_done :: "'d ata \<Rightarrow> nat \<Rightarrow> 'd ides \<Rightarrow> 'd ides res" where
  "sema_down_done io c s = (case wait_done io c s of None \<Rightarrow> Inl Diverge | Some r \<Rightarrow> r)"

text \<open>\<open>secs_done\<close> does not wrap: \<open>select_sector\<close> panics long before.\<close>

function read_chunks :: "'d ata \<Rightarrow> nat \<Rightarrow> u32 \<Rightarrow> nat \<Rightarrow> nat \<Rightarrow> 'd ides \<Rightarrow> (bytes \<times> 'd ides) res" where
  "read_chunks io dk lba cnt secs_done s =
     (if secs_done < cnt then
        let secs_op = (if secs_done + 256 \<le> cnt then 256 else cnt - secs_done) in
        bnd (select_sector io dk (lba + of_nat secs_done) (of_nat secs_op) s) (\<lambda>s.
        bnd (sema_down_done io (my_channel dk) (cmd_out io (my_channel dk) CMD_READ_SECTOR s)) (\<lambda>s.
        let (ok, s) = busy_wait io dk s in
        bnd (ASSERT ok) (\<lambda>_.
        let (bs, s) = read_from_sector io dk (of_nat secs_op) s in
        bnd (read_chunks io dk lba cnt (secs_done + secs_op) s) (\<lambda>(rest, s). Inr (bs @ rest, s)))))
      else Inr ([], s))"
  by pat_completeness auto
termination
  by (relation "measure (\<lambda>(io, dk, lba, cnt, secs_done, s). cnt - secs_done)") (auto split: if_splits)

declare read_chunks.simps [simp del]

definition ide_read :: "'d ata \<Rightarrow> nat \<Rightarrow> u32 \<Rightarrow> u32 \<Rightarrow> 'd ides \<Rightarrow> (bytes \<times> 'd ides) res" where
  "ide_read io dk lba cnt s =
     bnd (ASSERT (lba \<le> max_lba)) (\<lambda>_.
     bnd (ASSERT (cnt > 0)) (\<lambda>_.
     bnd (lock_acquire_now (chan_lock (chan s dk)) s) (\<lambda>s.
     bnd (read_chunks io dk lba (unat cnt) 0 (select_disk io dk s)) (\<lambda>(buf, s).
     bnd (lock_release_now (chan_lock (chan s dk)) s) (\<lambda>s.
     Inr (buf, s))))))"

function write_chunks :: "'d ata \<Rightarrow> nat \<Rightarrow> u32 \<Rightarrow> bytes \<Rightarrow> nat \<Rightarrow> nat \<Rightarrow> 'd ides \<Rightarrow> 'd ides res" where
  "write_chunks io dk lba buf cnt secs_done s =
     (if secs_done < cnt then
        let secs_op = (if secs_done + 256 \<le> cnt then 256 else cnt - secs_done) in
        bnd (select_sector io dk (lba + of_nat secs_done) (of_nat secs_op) s) (\<lambda>s.
        let (ok, s) = busy_wait io dk (cmd_out io (my_channel dk) CMD_WRITE_SECTOR s) in
        bnd (ASSERT ok) (\<lambda>_.
        bnd (write2sector io dk (drop (secs_done * 512) buf) (of_nat secs_op) s) (\<lambda>s.
        bnd (sema_down_done io (my_channel dk) s) (\<lambda>s.
        write_chunks io dk lba buf cnt (secs_done + secs_op) s))))
      else Inr s)"
  by pat_completeness auto
termination
  by (relation "measure (\<lambda>(io, dk, lba, buf, cnt, secs_done, s). cnt - secs_done)") (auto split: if_splits)

declare write_chunks.simps [simp del]

definition ide_write :: "'d ata \<Rightarrow> nat \<Rightarrow> u32 \<Rightarrow> bytes \<Rightarrow> u32 \<Rightarrow> 'd ides \<Rightarrow> 'd ides res" where
  "ide_write io dk lba buf cnt s =
     bnd (ASSERT (lba \<le> max_lba)) (\<lambda>_.
     bnd (ASSERT (cnt > 0)) (\<lambda>_.
     bnd (lock_acquire_now (chan_lock (chan s dk)) s) (\<lambda>s.
     bnd (write_chunks io dk lba buf (unat cnt) 0 (select_disk io dk s)) (\<lambda>s.
     lock_release_now (chan_lock (chan s dk)) s))))"

section \<open>Identifying the disks, scanning the partitions\<close>

text \<open>The string that \<open>swap_pairs_bytes\<close> leaves in a buffer; \<open>idx\<close> has 8 bits.\<close>

function swap_loop :: "bytes \<Rightarrow> u8 \<Rightarrow> u32 \<Rightarrow> bytes \<Rightarrow> bytes res" where
  "swap_loop dst idx len buf =
     (if ucast idx < len then
        if 2 \<le> length dst \<and> Suc (unat idx) < length buf then
          swap_loop (drop 2 dst) (idx + 2) len (buf[Suc (unat idx) := dst ! 0, unat idx := dst ! 1])
        else Inl Fault
      else bnd (defined (unat idx < length buf)) (\<lambda>_. Inr (buf[unat idx := 0])))"
  by pat_completeness auto
termination
  by (relation "measure (\<lambda>(dst, idx, len, buf). length dst)") auto

declare swap_loop.simps [simp del]

definition swap_pairs_bytes :: "bytes \<Rightarrow> bytes \<Rightarrow> u32 \<Rightarrow> bytes res" where
  "swap_pairs_bytes dst buf len = swap_loop dst 0 len buf"

text \<open>The result is what is printed: serial number, model and number of sectors; \<open>g\<close> is what the stack holds.\<close>

definition identify_disk :: "'d ata \<Rightarrow> nat \<Rightarrow> bytes \<Rightarrow> 'd ides \<Rightarrow> ((bytes \<times> bytes \<times> u32) \<times> 'd ides) res" where
  "identify_disk io dk g s =
     bnd (sema_down_done io (my_channel dk) (cmd_out io (my_channel dk) CMD_IDENTIFY (select_disk io dk s))) (\<lambda>s.
     let (ok, s) = busy_wait io dk s in
     bnd (ASSERT ok) (\<lambda>_.
     let (id_info, s) = read_from_sector io dk 1 s in
     bnd (swap_pairs_bytes (drop 20 id_info) (take 64 g) 20) (\<lambda>buf.
     bnd (cstr_of buf) (\<lambda>sn.
     bnd (swap_pairs_bytes (drop 54 id_info) (replicate 64 0) 40) (\<lambda>buf.
     bnd (cstr_of buf) (\<lambda>md.
     Inr ((sn, md, rd32 id_info 120), s)))))))"

record partition_table_entry =
  fs_type :: u8
  pte_start_lba :: u32
  pte_sec_cnt :: u32

text \<open>The four entries of a boot sector, at offset 446, 16 bytes each.\<close>

definition partition_table :: "bytes \<Rightarrow> partition_table_entry list" where
  "partition_table bs =
     map (\<lambda>k. let e = drop (446 + 16 * k) bs in \<lparr>fs_type = e ! 4, pte_start_lba = rd32 e 8, pte_sec_cnt = rd32 e 12\<rparr>) [0..<4]"

text \<open>\<open>sprintf(name, "%s%d", hd->name, n)\<close> for the name \<open>"sda"\<close>, \<open>"sdb"\<close> and so on, and \<open>n\<close> below 100, into the zeroed name.\<close>

definition disk_name :: "nat \<Rightarrow> bytes" where
  "disk_name dk = [115, 100, 97 + of_nat dk]"

definition part_suffix :: "nat \<Rightarrow> bytes" where
  "part_suffix n = (if n < 10 then [48 + of_nat n] else [48 + of_nat (n div 10), 48 + of_nat (n mod 10)])"

definition set_partition :: "part_id \<Rightarrow> u32 \<Rightarrow> u32 \<Rightarrow> nat \<Rightarrow> 'd ides \<Rightarrow> 'd ides" where
  "set_partition p start sec n s =
     (let name = disk_name (fst p) @ part_suffix n;
          s = upd_part p (\<lambda>q. q\<lparr>start_lba := start, sec_cnt := sec, my_disk := fst p, part_name := patch (part_name q) 0 name\<rparr>) s
      in s\<lparr>partition_list := partition_list s @ [p]\<rparr>)"

text \<open>\<open>partition_scan\<close> calls itself for each nested extended partition, \<open>n\<close> deep; the entry number 7 of the logical
  partitions ends the function without freeing the sector. The first result says whether the loop ended.\<close>

fun partition_scan :: "'d ata \<Rightarrow> nat \<Rightarrow> nat \<Rightarrow> u32 \<Rightarrow> 'd ides \<Rightarrow> 'd ides res"
  and scan_entries :: "'d ata \<Rightarrow> nat \<Rightarrow> nat \<Rightarrow> u32 \<Rightarrow> partition_table_entry list \<Rightarrow> 'd ides \<Rightarrow> (bool \<times> 'd ides) res" where
  "partition_scan io 0 dk ext_lba s = Inl Diverge"
| "partition_scan io (Suc n) dk ext_lba s =
     (let (bs, s) = fs_malloc s in
      bnd (ide_read io dk ext_lba 1 s) (\<lambda>(buf, s).
      bnd (defined (bs \<noteq> 0)) (\<lambda>_.
      bnd (scan_entries io n dk ext_lba (partition_table buf) s) (\<lambda>(ended, s).
      if ended then fs_free bs s else Inr s))))"
| "scan_entries io n dk ext_lba [] s = Inr (True, s)"
| "scan_entries io n dk ext_lba (p # ps) s =
     (if fs_type p = 0x5 then
        bnd (if ext_lba_base s \<noteq> 0 then partition_scan io n dk (pte_start_lba p + ext_lba_base s) s
             else partition_scan io n dk (pte_start_lba p) (s\<lparr>ext_lba_base := pte_start_lba p\<rparr>)) (\<lambda>s.
        scan_entries io n dk ext_lba ps s)
      else if fs_type p \<noteq> 0 then
        if ext_lba = 0 then
          bnd (defined (p_no s < 4)) (\<lambda>_.
          let s = set_partition (dk, unat (p_no s)) (ext_lba + pte_start_lba p) (pte_sec_cnt p) (unat (p_no s) + 1) s;
              s = s\<lparr>p_no := p_no s + 1\<rparr> in
          bnd (ASSERT (p_no s < 4)) (\<lambda>_. scan_entries io n dk ext_lba ps s))
        else
          bnd (defined (l_no s < 8)) (\<lambda>_.
          let s = set_partition (dk, 4 + unat (l_no s)) (ext_lba + pte_start_lba p) (pte_sec_cnt p) (unat (l_no s) + 5) s;
              s = s\<lparr>l_no := l_no s + 1\<rparr> in
          if l_no s \<ge> 8 then Inr (False, s) else scan_entries io n dk ext_lba ps s)
      else scan_entries io n dk ext_lba ps s)"

text \<open>What \<open>partition_info\<close> prints of a partition; it always goes on.\<close>

definition partition_info :: "part_id \<Rightarrow> 'd ides \<Rightarrow> (bytes \<times> u32 \<times> u32) \<times> bool" where
  "partition_info p s = ((part_name (parts s p), start_lba (parts s p), sec_cnt (parts s p)), False)"

text \<open>The two devices of a channel and the channels, from \<open>dev_no\<close> and \<open>channel_no\<close> on; \<open>n\<close> bounds the nesting of
  extended partitions.\<close>

fun init_devices :: "'d ata \<Rightarrow> nat \<Rightarrow> bytes \<Rightarrow> nat \<Rightarrow> nat \<Rightarrow> nat \<Rightarrow> 'd ides \<Rightarrow> 'd ides res" where
  "init_devices io n g c dev 0 s = Inr s"
| "init_devices io n g c dev (Suc k) s =
     (let dk = 2 * c + dev in
      bnd (identify_disk io dk g s) (\<lambda>(_, s).
      bnd (if dev \<noteq> 0 then partition_scan io n dk 0 s else Inr s) (\<lambda>s.
      init_devices io n g c (Suc dev) k (s\<lparr>p_no := 0, l_no := 0\<rparr>))))"

fun init_channels :: "'d ata \<Rightarrow> nat \<Rightarrow> bytes \<Rightarrow> nat \<Rightarrow> nat \<Rightarrow> 'd ides \<Rightarrow> 'd ides res" where
  "init_channels io n g c 0 s = Inr s"
| "init_channels io n g c (Suc k) s =
     (let s = (if c = 0 then upd_chan c (\<lambda>ch. ch\<lparr>port_base := 0x1f0, irq_no := 0x20 + 14\<rparr>) s
               else if c = 1 then upd_chan c (\<lambda>ch. ch\<lparr>port_base := 0x170, irq_no := 0x20 + 15\<rparr>) s else s);
          s = upd_chan c (\<lambda>ch. ch\<lparr>expecting_intr := False\<rparr>) s;
          s = lock_init (chan_lock (channels s c)) s;
          s = sema_init (disk_done (channels s c)) 0 s;
          s = s\<lparr>hd_handlers := hd_handlers s @ [irq_no (channels s c)]\<rparr> in
      bnd (defined (c < 2)) (\<lambda>_.
      bnd (init_devices io n g c 0 2 s) (init_channels io n g (Suc c) k)))"

text \<open>\<open>hd_cnt\<close> is the byte the BIOS left at address 0x475.\<close>

definition ide_init :: "'d ata \<Rightarrow> nat \<Rightarrow> bytes \<Rightarrow> u8 \<Rightarrow> 'd ides \<Rightarrow> 'd ides res" where
  "ide_init io n g hd_cnt s =
     bnd (ASSERT (hd_cnt > 0)) (\<lambda>_.
     let s = s\<lparr>partition_list := [], channel_cnt := ucast (DIV_ROUND_UP (ucast hd_cnt) 2)\<rparr> in
     init_channels io n g 0 (unat (channel_cnt s)) s)"

end
