(* ===== verification/Ata.thy ===== *)
theory Ata
  imports Ide Locks Blocks
begin

text \<open>
  The driver keeps the promise of \<open>Disk\<close>: on a controller that follows the ATA protocol \<open>ide_read\<close> and
  \<open>ide_write\<close> do what \<open>disk_read\<close> and \<open>disk_write\<close> say. \<open>ata_device\<close> states the protocol, on what a view shows
  of the state of the controller: for each channel the registers, the command in progress and for how many
  pauses the channel is still busy, and for each disk its sectors and the answer to IDENTIFY.
\<close>

section \<open>The protocol\<close>

datatype phase = Idle | Reading nat u32 nat | Data_in nat u32 nat | Data_out nat u32 nat | Written

fun transfer :: "phase \<Rightarrow> bool" where
  "transfer (Data_in _ _ _) = True" | "transfer (Data_out _ _ _) = True" | "transfer _ = False"

record chan_view =
  r_cnt :: u8
  r_l :: u8
  r_m :: u8
  r_h :: u8
  r_dev :: u8
  ph :: phase
  busy :: nat

record dev_view =
  cv :: "nat \<Rightarrow> chan_view"
  sects :: "nat \<Rightarrow> u32 \<Rightarrow> bytes"

definition upd_cv :: "nat \<Rightarrow> (chan_view \<Rightarrow> chan_view) \<Rightarrow> dev_view \<Rightarrow> dev_view" where
  "upd_cv c f v = v\<lparr>cv := (cv v)(c := f (cv v c))\<rparr>"

definition base :: "nat \<Rightarrow> u16" where
  "base c = (if c = 0 then 0x1f0 else 0x170)"

text \<open>The disk, first sector and number of sectors that the registers of channel \<open>c\<close> name.\<close>

definition r_disk :: "nat \<Rightarrow> chan_view \<Rightarrow> nat" where
  "r_disk c w = 2 * c + (if bit (r_dev w) 4 then 1 else 0)"

definition r_lba :: "chan_view \<Rightarrow> u32" where
  "r_lba w = word_of_bytes (r_l w) (r_m w) (r_h w) (r_dev w AND 0x0f)"

definition r_n :: "chan_view \<Rightarrow> nat" where
  "r_n w = (if r_cnt w = 0 then 256 else unat (r_cnt w))"

definition sector_run :: "dev_view \<Rightarrow> nat \<Rightarrow> u32 \<Rightarrow> nat \<Rightarrow> bytes" where
  "sector_run v dk lba n = concat (map (\<lambda>i. sects v dk (lba + of_nat i)) [0..<n])"

definition ata_device :: "'d ata \<Rightarrow> ('d \<Rightarrow> dev_view) \<Rightarrow> bool" where
  "ata_device io view \<longleftrightarrow> (\<forall>c < 2. \<forall>d. let b = base c; v = view d; w = cv v c in
     (\<forall>x. view (io_outb io (b + 2) x d) = upd_cv c (\<lambda>w. w\<lparr>r_cnt := x\<rparr>) v) \<and>
     (\<forall>x. view (io_outb io (b + 3) x d) = upd_cv c (\<lambda>w. w\<lparr>r_l := x\<rparr>) v) \<and>
     (\<forall>x. view (io_outb io (b + 4) x d) = upd_cv c (\<lambda>w. w\<lparr>r_m := x\<rparr>) v) \<and>
     (\<forall>x. view (io_outb io (b + 5) x d) = upd_cv c (\<lambda>w. w\<lparr>r_h := x\<rparr>) v) \<and>
     (\<forall>x. view (io_outb io (b + 6) x d) = upd_cv c (\<lambda>w. w\<lparr>r_dev := x\<rparr>) v) \<and>
     (ph w = Idle \<longrightarrow> (\<exists>k < 29999. view (io_outb io (b + 7) CMD_READ_SECTOR d) =
        upd_cv c (\<lambda>w. w\<lparr>ph := Reading (r_disk c w) (r_lba w) (r_n w), busy := k\<rparr>) v)) \<and>
     (ph w = Idle \<longrightarrow> (\<exists>k < 29999. view (io_outb io (b + 7) CMD_WRITE_SECTOR d) =
        upd_cv c (\<lambda>w. w\<lparr>ph := Data_out (r_disk c w) (r_lba w) (r_n w), busy := k\<rparr>) v)) \<and>
     (\<forall>dk lba n. ph w = Reading dk lba n \<longrightarrow> (\<exists>d'. io_intr io c d = Some d' \<and>
        view d' = upd_cv c (\<lambda>w. w\<lparr>ph := Data_in dk lba n, busy := 0\<rparr>) v)) \<and>
     (ph w = Written \<longrightarrow> (\<exists>d'. io_intr io c d = Some d' \<and> view d' = upd_cv c (\<lambda>w. w\<lparr>ph := Idle, busy := 0\<rparr>) v)) \<and>
     (view (snd (io_inb io (b + 7) d)) = v \<and> (bit (fst (io_inb io (b + 7) d)) 7 \<longleftrightarrow> 0 < busy w) \<and>
        (busy w = 0 \<and> transfer (ph w) \<longrightarrow> bit (fst (io_inb io (b + 7) d)) 3)) \<and>
     view (io_pause io d) = v\<lparr>cv := (\<lambda>c. (cv v c)\<lparr>busy := busy (cv v c) - 1\<rparr>)\<rparr> \<and>
     (\<forall>dk lba n. ph w = Data_in dk lba n \<and> busy w = 0 \<longrightarrow>
        fst (io_insw io b (256 * n) d) = sector_run v dk lba n \<and>
        view (snd (io_insw io b (256 * n) d)) = upd_cv c (\<lambda>w. w\<lparr>ph := Idle\<rparr>) v) \<and>
     (\<forall>dk lba n bs. ph w = Data_out dk lba n \<and> busy w = 0 \<and> length bs = 512 * n \<longrightarrow>
        view (io_outsw io b bs d) = (upd_cv c (\<lambda>w. w\<lparr>ph := Written\<rparr>) v)\<lparr>sects := (sects v)(dk := put_sectors lba n bs (sects v dk))\<rparr>))"

section \<open>The driver on such a controller\<close>

text \<open>Channel \<open>c\<close> is set up and idle, its lock and semaphore are free.\<close>

definition chan_ready :: "('d \<Rightarrow> dev_view) \<Rightarrow> nat \<Rightarrow> 'd ides \<Rightarrow> bool" where
  "chan_ready view c s \<longleftrightarrow> (let ch = channels s c in
     c < 2 \<and> port_base ch = base c \<and> irq_no ch = 0x2e + of_nat c \<and> ph (cv (view (device s)) c) = Idle \<and>
     semas s (disk_done ch) = \<lparr>svalue = 0, waiters = []\<rparr>)"

definition lock_ready :: "nat \<Rightarrow> 'd ides \<Rightarrow> bool" where
  "lock_ready c s \<longleftrightarrow> (let l = chan_lock (channels s c) in
     locks s l = \<lparr>holder = 0, holder_repeat_nr = 0\<rparr> \<and> semas s (sema_of l) = \<lparr>svalue = 1, waiters = []\<rparr> \<and>
     sema_of l \<noteq> disk_done (channels s c) \<and> running_thread s \<noteq> 0)"

text \<open>The state after the driver: the controller is elsewhere, no interrupt is expected.\<close>

definition moved :: "nat \<Rightarrow> 'd \<Rightarrow> 'd ides \<Rightarrow> 'd ides" where
  "moved c d s = upd_chan c (\<lambda>ch. ch\<lparr>expecting_intr := False\<rparr>) (s\<lparr>device := d\<rparr>)"

lemma up_then_down:
  fixes s :: "'a kern_scheme"
  assumes "semas s a = \<lparr>svalue = 0, waiters = []\<rparr>"
  shows "sema_down a (upd_sema a (\<lambda>x. x\<lparr>svalue := svalue x + 1\<rparr>) s) = Inr s"
proof -
  have "svalue (semas (upd_sema a (\<lambda>x. x\<lparr>svalue := svalue x + 1\<rparr>) s) a) = 1" using assms by (simp add: upd_sema_def)
  note d = sema_down_free [OF this]
  have "(semas s)(a := semas s a) = semas s" by simp
  then show ?thesis unfolding d using assms by (simp add: upd_sema_def)
qed

lemma upd_chan_fields [simp]:
  "channels (upd_chan c f s) c' = (if c' = c then f (channels s c) else channels s c')" "device (upd_chan c f s) = device s"
  "semas (upd_chan c f s) = semas s" "locks (upd_chan c f s) = locks s" "running_thread (upd_chan c f s) = running_thread s"
  "disks (upd_chan c f s) = disks s"
  by (simp_all add: upd_chan_def)

lemma upd_dev_fields [simp]:
  "channels (upd_dev f s) = channels s" "device (upd_dev f s) = f (device s)"
  "semas (upd_dev f s) = semas s" "locks (upd_dev f s) = locks s" "running_thread (upd_dev f s) = running_thread s"
  "disks (upd_dev f s) = disks s"
  by (simp_all add: upd_dev_def)

lemma upd_sema_fields [simp]:
  "channels (upd_sema a f s) = channels s" "device (upd_sema a f s) = device s" "disks (upd_sema a f s) = disks s"
  by (simp_all add: upd_sema_def)

lemma moved_fields [simp]:
  "device (moved c d s) = d" "semas (moved c d s) = semas s" "locks (moved c d s) = locks s"
  "running_thread (moved c d s) = running_thread s" "disks (moved c d s) = disks s"
  "channels (moved c d s) c' = (if c' = c then (channels s c)\<lparr>expecting_intr := False\<rparr> else channels s c')"
  by (simp_all add: moved_def upd_chan_def)

lemma moved_moved [simp]: "moved c d (moved c d' s) = moved c d s"
  by (simp add: moved_def upd_chan_def)

text \<open>A thread that waits after a command: the interrupt comes, the handler wakes it.\<close>

lemma sema_down_done_intr:
  assumes c: "c < 2" "irq_no (channels s c) = 0x2e + of_nat c" "semas s (disk_done (channels s c)) = \<lparr>svalue = 0, waiters = []\<rparr>"
    and e: "expecting_intr (channels s c)" and i: "io_intr io c (device s) = Some d"
  shows "sema_down_done io c s = Inr (moved c (snd (io_inb io (reg_status (channels s c)) d)) s)"
proof -
  let ?a = "disk_done (channels s c)"
  have irq: "unat (irq_no (channels s c) - 0x2e) = c" "irq_no (channels s c) = 0x2e \<or> irq_no (channels s c) = 0x2f"
    using c(1,2) by (auto simp: less_2_cases_iff)
  define s1 where "s1 = upd_chan c (\<lambda>ch. ch\<lparr>expecting_intr := False\<rparr>) (s\<lparr>device := d\<rparr>)"
  have s1: "semas s1 ?a = \<lparr>svalue = 0, waiters = []\<rparr>" using c(3) by (simp add: s1_def)
  have h: "intr_hd_handler io (irq_no (channels s c)) (s\<lparr>device := d\<rparr>) =
      Inr (upd_dev (\<lambda>d. snd (io_inb io (reg_status (channels s c)) d)) (upd_sema ?a (\<lambda>x. x\<lparr>svalue := svalue x + 1\<rparr>) s1))"
    using irq e sema_up_idle [OF s1] by (simp add: intr_hd_handler_def Let_def s1_def [symmetric])
  define s2 where "s2 = upd_dev (\<lambda>d. snd (io_inb io (reg_status (channels s c)) d)) s1"
  have s2: "semas s2 ?a = \<lparr>svalue = 0, waiters = []\<rparr>" using s1 by (simp add: s2_def)
  have com: "upd_dev f (upd_sema ?a g u) = upd_sema ?a g (upd_dev f u)" for f g and u :: "'a ides"
    by (simp add: upd_dev_def upd_sema_def)
  have "wait_done io c (upd_sema ?a (\<lambda>x. x\<lparr>svalue := svalue x + 1\<rparr>) s2) = Some (Inr s2)"
    using s2 up_then_down [OF s2] by (subst wait_done.simps) (simp add: s2_def s1_def upd_sema_def)
  then have "wait_done io c s = Some (Inr s2)"
    using c(3) i h by (subst wait_done.simps) (simp add: com s2_def)
  then show ?thesis by (simp add: sema_down_done_def s2_def s1_def moved_def upd_dev_def upd_chan_def)
qed

section \<open>Waiting until the controller is not busy\<close>

definition strip :: "dev_view \<Rightarrow> dev_view" where
  "strip v = v\<lparr>cv := (\<lambda>c. (cv v c)\<lparr>busy := 0\<rparr>)\<rparr>"

lemma strip_ph: "strip v = strip v' \<Longrightarrow> ph (cv v c) = ph (cv v' c)"
proof -
  assume "strip v = strip v'"
  then have "cv (strip v) c = cv (strip v') c" by simp
  then show ?thesis unfolding strip_def by (cases "cv v c", cases "cv v' c") simp
qed

lemma strip_sects: "strip v = strip v' \<Longrightarrow> sects v = sects v'"
proof -
  assume "strip v = strip v'"
  then have "sects (strip v) = sects (strip v')" by simp
  then show ?thesis unfolding strip_def by simp
qed

lemma bit7: "(x :: u8) AND BIT_STAT_BSY = 0 \<longleftrightarrow> \<not> bit x 7" and bit3: "(x :: u8) AND BIT_STAT_DRQ = 0 \<longleftrightarrow> \<not> bit x 3"
proof -
  have m: "(x AND 2 ^ n = 0) \<longleftrightarrow> \<not> bit x n" if "n < 8" for n
  proof -
    have "bit (x AND 2 ^ n) i \<longleftrightarrow> bit x n \<and> i = n" for i
      using that by (auto simp: bit_and_iff bit_exp_iff)
    then show ?thesis by (metis bit_eqI bit_0_eq bot_apply bot_bool_def)
  qed
  show "x AND BIT_STAT_BSY = 0 \<longleftrightarrow> \<not> bit x 7" using m [of 7] by (simp add: BIT_STAT_BSY_def)
  show "x AND BIT_STAT_DRQ = 0 \<longleftrightarrow> \<not> bit x 3" using m [of 3] by (simp add: BIT_STAT_DRQ_def)
qed

lemma ata_status:
  assumes "ata_device io view" "c < 2"
  shows "view (snd (io_inb io (base c + 7) d)) = view d" and "bit (fst (io_inb io (base c + 7) d)) 7 \<longleftrightarrow> 0 < busy (cv (view d) c)"
    and "busy (cv (view d) c) = 0 \<Longrightarrow> transfer (ph (cv (view d) c)) \<Longrightarrow> bit (fst (io_inb io (base c + 7) d)) 3"
    and "view (io_pause io d) = (view d)\<lparr>cv := (\<lambda>c. (cv (view d) c)\<lparr>busy := busy (cv (view d) c) - 1\<rparr>)\<rparr>"
  using assms unfolding ata_device_def Let_def by blast+

lemma busy_loop_ready:
  assumes ata: "ata_device io view" and c: "my_channel dk < 2" "port_base (channels s (my_channel dk)) = base (my_channel dk)"
    and k: "busy (cv (view (device s)) (my_channel dk)) + 1 < unat t" and ph: "transfer (ph (cv (view (device s)) (my_channel dk)))"
  shows "\<exists>d. busy_loop io dk t s = (True, s\<lparr>device := d\<rparr>) \<and> strip (view d) = strip (view (device s)) \<and> busy (cv (view d) (my_channel dk)) = 0"
  using c(2) k ph
proof (induction "busy (cv (view (device s)) (my_channel dk))" arbitrary: s t)
  let ?c = "my_channel dk"
  note st = ata_status [OF ata c(1)]
  have t: "t - 1 \<noteq> 0" "unat (t - 1) = unat t - 1" if "1 < unat t" for t :: u16
  proof -
    have "t \<noteq> 0" using that by auto
    then show u: "unat (t - 1) = unat t - 1" by (rule unat_minus_one)
    show "t - 1 \<noteq> 0"
    proof
      assume "t - 1 = 0"
      then have "unat (t - 1) = 0" by simp
      then show False using u that by simp
    qed
  qed
  {
    case 0
    let ?d1 = "snd (io_inb io (base ?c + 7) (device s))"
    have p: "reg_status (chan s dk) = base ?c + 7" using 0 by (simp add: reg_status_def)
    have "busy_loop io dk t s = (True, s\<lparr>device := snd (io_inb io (base ?c + 7) ?d1)\<rparr>)"
      using 0 t [of t] st(2,3) [of "device s"] st(1) [of "device s"] st(3) [of ?d1] p
      by (subst busy_loop.simps) (simp add: Let_def case_prod_beta bit7 bit3 reg_status_def)
    moreover have "view (snd (io_inb io (base ?c + 7) ?d1)) = view (device s)" using st(1) by simp
    ultimately show ?case using 0 by (intro exI [of _ "snd (io_inb io (base ?c + 7) ?d1)"]) simp
  next
    case (Suc k)
    let ?d1 = "snd (io_inb io (base ?c + 7) (device s))"
    let ?s1 = "s\<lparr>device := io_pause io ?d1\<rparr>"
    have p: "reg_status (chan s dk) = base ?c + 7" using Suc by (simp add: reg_status_def)
    have v: "view (device ?s1) = (view (device s))\<lparr>cv := (\<lambda>c. (cv (view (device s)) c)\<lparr>busy := busy (cv (view (device s)) c) - 1\<rparr>)\<rparr>"
      using st(1,4) by simp
    have b: "0 < busy (cv (view (device s)) ?c)" using Suc(2) by simp
    have "busy_loop io dk t s = busy_loop io dk (t - 1) ?s1"
      using Suc.prems t [of t] st(2) [of "device s"] p b
      by (subst busy_loop.simps) (simp add: Let_def case_prod_beta bit7 upd_dev_def)
    moreover have "k = busy (cv (view (device ?s1)) ?c)" "port_base (channels ?s1 ?c) = base ?c"
      "busy (cv (view (device ?s1)) ?c) + 1 < unat (t - 1)"
      "transfer (ph (cv (view (device ?s1)) ?c))"
      using Suc(2-5) v t(2) [of t] by auto
    note ih = Suc(1) [OF this]
    moreover have "strip (view (device ?s1)) = strip (view (device s))" unfolding v by (simp add: strip_def)
    ultimately show ?case by auto
  }
qed

section \<open>One command\<close>

text \<open>What the controller is like after a command for channel \<open>c\<close>, when \<open>S\<close> is what the disks hold.\<close>

definition at_rest :: "nat \<Rightarrow> (nat \<Rightarrow> u32 \<Rightarrow> bytes) \<Rightarrow> dev_view \<Rightarrow> bool" where
  "at_rest c S v \<longleftrightarrow> ph (cv v c) = Idle \<and> sects v = S"

lemma ata_regs:
  assumes "ata_device io view" "c < 2"
  shows "view (io_outb io (base c + 2) x d) = upd_cv c (\<lambda>w. w\<lparr>r_cnt := x\<rparr>) (view d)"
    and "view (io_outb io (base c + 3) x d) = upd_cv c (\<lambda>w. w\<lparr>r_l := x\<rparr>) (view d)"
    and "view (io_outb io (base c + 4) x d) = upd_cv c (\<lambda>w. w\<lparr>r_m := x\<rparr>) (view d)"
    and "view (io_outb io (base c + 5) x d) = upd_cv c (\<lambda>w. w\<lparr>r_h := x\<rparr>) (view d)"
    and "view (io_outb io (base c + 6) x d) = upd_cv c (\<lambda>w. w\<lparr>r_dev := x\<rparr>) (view d)"
  using assms unfolding ata_device_def Let_def by blast+

lemma ata_cmds:
  assumes "ata_device io view" "c < 2" "ph (cv (view d) c) = Idle"
  shows "\<exists>k < 29999. view (io_outb io (base c + 7) CMD_READ_SECTOR d) =
        upd_cv c (\<lambda>w. w\<lparr>ph := Reading (r_disk c w) (r_lba w) (r_n w), busy := k\<rparr>) (view d)"
    and "\<exists>k < 29999. view (io_outb io (base c + 7) CMD_WRITE_SECTOR d) =
        upd_cv c (\<lambda>w. w\<lparr>ph := Data_out (r_disk c w) (r_lba w) (r_n w), busy := k\<rparr>) (view d)"
  using assms unfolding ata_device_def Let_def by blast+

lemma ata_transfers:
  assumes "ata_device io view" "c < 2"
  shows "ph (cv (view d) c) = Reading dk lba n \<Longrightarrow> \<exists>d'. io_intr io c d = Some d' \<and>
        view d' = upd_cv c (\<lambda>w. w\<lparr>ph := Data_in dk lba n, busy := 0\<rparr>) (view d)"
    and "ph (cv (view d) c) = Written \<Longrightarrow> \<exists>d'. io_intr io c d = Some d' \<and> view d' = upd_cv c (\<lambda>w. w\<lparr>ph := Idle, busy := 0\<rparr>) (view d)"
    and "ph (cv (view d) c) = Data_in dk lba n \<Longrightarrow> busy (cv (view d) c) = 0 \<Longrightarrow>
        fst (io_insw io (base c) (256 * n) d) = sector_run (view d) dk lba n \<and>
        view (snd (io_insw io (base c) (256 * n) d)) = upd_cv c (\<lambda>w. w\<lparr>ph := Idle\<rparr>) (view d)"
    and "ph (cv (view d) c) = Data_out dk lba n \<Longrightarrow> busy (cv (view d) c) = 0 \<Longrightarrow> length bs = 512 * n \<Longrightarrow>
        view (io_outsw io (base c) bs d) =
          (upd_cv c (\<lambda>w. w\<lparr>ph := Written\<rparr>) (view d))\<lparr>sects := (sects (view d))(dk := put_sectors lba n bs (sects (view d) dk))\<rparr>"
  using assms unfolding ata_device_def Let_def by blast+

text \<open>The registers after \<open>select_sector\<close> name the disk, the sector and the number of sectors.\<close>

definition named :: "nat \<Rightarrow> u32 \<Rightarrow> nat \<Rightarrow> dev_view \<Rightarrow> bool" where
  "named dk lba n v \<longleftrightarrow> (let c = my_channel dk; w = cv v c in r_disk c w = dk \<and> r_lba w = lba \<and> r_n w = n)"

lemma max_lba_unat: "unat max_lba = 163839"
  by (simp add: max_lba_def)

lemma dev_reg:
  fixes dk :: nat
  assumes "lba \<le> max_lba"
  defines "x \<equiv> BIT_DEV_MBS OR BIT_DEV_LBA OR (if dev_no dk = 1 then BIT_DEV_DEV else 0) OR ucast (drop_bit 24 lba) :: u8"
  shows "2 * my_channel dk + (if bit x 4 then 1 else 0) = dk" and "x AND 0x0f = ucast (drop_bit 24 lba)" and "drop_bit 24 lba = 0"
proof -
  have "unat lba < 2 ^ 24" using assms(1) by (simp add: word_le_nat_alt max_lba_unat)
  then have "unat (drop_bit 24 lba) = 0" by (simp add: drop_bit_eq_div unat_div)
  then show z: "drop_bit 24 lba = 0" by (simp add: unsigned_eq_0_iff)
  have x: "x = (if dev_no dk = 1 then 0xf0 else 0xe0)"
    unfolding x_def z by (simp add: BIT_DEV_MBS_def BIT_DEV_LBA_def BIT_DEV_DEV_def)
  have "bit x 4 \<longleftrightarrow> dev_no dk = 1" unfolding x by simp
  moreover have "dk = 2 * my_channel dk + dev_no dk" by (simp add: my_channel_def dev_no_def)
  moreover have "dev_no dk < 2" by (simp add: dev_no_def)
  ultimately show "2 * my_channel dk + (if bit x 4 then 1 else 0) = dk" by (auto simp: less_2_cases_iff)
  show "x AND 0x0f = ucast (drop_bit 24 lba)" unfolding x z by simp
qed

lemma select_sector_named:
  assumes ata: "ata_device io view" and c: "my_channel dk < 2" "port_base (chan s dk) = base (my_channel dk)"
    and l: "lba \<le> max_lba" and n: "1 \<le> n" "n \<le> 256" and idle: "at_rest (my_channel dk) S (view (device s))"
  shows "\<exists>d. select_sector io dk lba (of_nat n) s = Inr (s\<lparr>device := d\<rparr>) \<and> named dk lba n (view d) \<and> at_rest (my_channel dk) S (view d)"
proof -
  let ?c = "my_channel dk"
  let ?x = "BIT_DEV_MBS OR BIT_DEV_LBA OR (if dev_no dk = 1 then BIT_DEV_DEV else 0) OR ucast (drop_bit 24 lba) :: u8"
  note r = ata_regs [OF ata c(1)]
  note x = dev_reg(1,2) [OF l, of dk]
  have rn: "(if (of_nat n :: u8) = 0 then 256 else unat (of_nat n :: u8)) = n"
  proof (cases "n = 256")
    case False
    then have "n < 256" using n by simp
    then have "unat (of_nat n :: u8) = n" by (simp add: unat_of_nat)
    then show ?thesis using n(1) by auto
  qed simp
  define d where "d = io_outb io (base ?c + 6) ?x (io_outb io (base ?c + 5) (ucast (drop_bit 16 lba))
    (io_outb io (base ?c + 4) (ucast (drop_bit 8 lba)) (io_outb io (base ?c + 3) (ucast lba) (io_outb io (base ?c + 2) (of_nat n) (device s)))))"
  have sel: "select_sector io dk lba (of_nat n) s = Inr (s\<lparr>device := d\<rparr>)"
    using l c(2) by (simp add: select_sector_def Let_def reg_sect_cnt_def reg_lba_l_def reg_lba_m_def reg_lba_h_def reg_dev_def upd_dev_def d_def)
  have v: "cv (view d) ?c = (cv (view (device s)) ?c)\<lparr>r_cnt := of_nat n, r_l := ucast lba, r_m := ucast (drop_bit 8 lba),
      r_h := ucast (drop_bit 16 lba), r_dev := ?x\<rparr>" "sects (view d) = sects (view (device s))"
    unfolding d_def r by (simp_all add: upd_cv_def)
  have "word_of_bytes (ucast lba) (ucast (drop_bit 8 lba)) (ucast (drop_bit 16 lba)) (?x AND 0x0f) = lba"
    unfolding x(2) by (rule word_of_bytes_le32)
  then have "r_lba (cv (view d) ?c) = lba" unfolding v(1) r_lba_def by simp
  moreover have "r_n (cv (view d) ?c) = n"
  proof -
    have "r_cnt (cv (view d) ?c) = of_nat n" unfolding v(1) by simp
    then show ?thesis unfolding r_n_def by (simp only: rn)
  qed
  moreover have "r_disk ?c (cv (view d) ?c) = dk" unfolding v(1) r_disk_def using x(1) by simp
  ultimately have "named dk lba n (view d)" by (simp add: named_def Let_def)
  moreover have "at_rest ?c S (view d)" using idle v by (simp add: at_rest_def)
  ultimately show ?thesis using sel by blast
qed

text \<open>Reading up to 256 sectors.\<close>

lemma read_command:
  assumes ata: "ata_device io view" and r: "chan_ready view (my_channel dk) s" and S: "sects (view (device s)) = S"
    and l: "lba \<le> max_lba" and n: "1 \<le> n" "n \<le> 256"
  shows "\<exists>s1 s2 d3 d4. select_sector io dk lba (of_nat n) s = Inr s1 \<and>
    sema_down_done io (my_channel dk) (cmd_out io (my_channel dk) CMD_READ_SECTOR s1) = Inr s2 \<and>
    busy_wait io dk s2 = (True, s2\<lparr>device := d3\<rparr>) \<and>
    read_from_sector io dk (of_nat n) (s2\<lparr>device := d3\<rparr>) = (concat (map (\<lambda>i. S dk (lba + of_nat i)) [0..<n]), moved (my_channel dk) d4 s) \<and>
    at_rest (my_channel dk) S (view d4)"
proof -
  let ?c = "my_channel dk"
  have c: "?c < 2" "port_base (chan s dk) = base ?c" "irq_no (channels s ?c) = 0x2e + of_nat ?c"
    "semas s (disk_done (channels s ?c)) = \<lparr>svalue = 0, waiters = []\<rparr>" and idle: "at_rest ?c S (view (device s))"
    using r S by (simp_all add: chan_ready_def Let_def at_rest_def)
  note st = ata_status [OF ata c(1)]
  from select_sector_named [OF ata c(1,2) l n idle] obtain d1 where d1: "select_sector io dk lba (of_nat n) s = Inr (s\<lparr>device := d1\<rparr>)"
    "named dk lba n (view d1)" "at_rest ?c S (view d1)" by blast
  define s1 where "s1 = s\<lparr>device := d1\<rparr>"
  have "ph (cv (view d1) ?c) = Idle" using d1(3) by (simp add: at_rest_def)
  from ata_cmds(1) [OF ata c(1) this] obtain k where k: "k < 29999" "view (io_outb io (base ?c + 7) CMD_READ_SECTOR d1) =
      upd_cv ?c (\<lambda>w. w\<lparr>ph := Reading (r_disk ?c w) (r_lba w) (r_n w), busy := k\<rparr>) (view d1)" by blast
  define e where "e = io_outb io (base ?c + 7) CMD_READ_SECTOR d1"
  have e: "ph (cv (view e) ?c) = Reading dk lba n" "sects (view e) = S"
    using k(2) d1(2,3) by (simp_all add: e_def upd_cv_def named_def Let_def at_rest_def)
  define s2 where "s2 = cmd_out io ?c CMD_READ_SECTOR s1"
  have s2: "device s2 = e" "irq_no (channels s2 ?c) = 0x2e + of_nat ?c" "expecting_intr (channels s2 ?c)" "port_base (channels s2 ?c) = base ?c"
    "semas s2 (disk_done (channels s2 ?c)) = \<lparr>svalue = 0, waiters = []\<rparr>"
    using c by (simp_all add: s2_def s1_def cmd_out_def Let_def upd_chan_def upd_dev_def e_def reg_cmd_def reg_status_def)
  obtain d2 where d2: "io_intr io ?c (device s2) = Some d2" "view d2 = upd_cv ?c (\<lambda>w. w\<lparr>ph := Data_in dk lba n, busy := 0\<rparr>) (view e)"
    using ata_transfers(1) [OF ata c(1) e(1)] s2(1) by blast
  have mv: "moved ?c d s2 = moved ?c d s" for d
    by (simp add: s2_def s1_def cmd_out_def Let_def moved_def upd_chan_def upd_dev_def)
  define e2 where "e2 = snd (io_inb io (base ?c + 7) d2)"
  have w: "sema_down_done io ?c s2 = Inr (moved ?c e2 s)"
    using sema_down_done_intr [OF c(1) s2(2,5,3) d2(1)] s2(4) mv by (simp add: e2_def reg_status_def)
  have v2: "ph (cv (view e2) ?c) = Data_in dk lba n" "busy (cv (view e2) ?c) = 0" "sects (view e2) = S"
    using st(1) d2(2) e(2) by (simp_all add: e2_def upd_cv_def)
  obtain d3 where d3: "busy_wait io dk (moved ?c e2 s) = (True, (moved ?c e2 s)\<lparr>device := d3\<rparr>)" "strip (view d3) = strip (view e2)"
    "busy (cv (view d3) ?c) = 0"
    using busy_loop_ready [OF ata c(1), of "moved ?c e2 s" "30 * 1000"] c(2) v2(1,2) unfolding busy_wait_def by auto
  have v3: "ph (cv (view d3) ?c) = Data_in dk lba n" "sects (view d3) = S"
    using v2 strip_ph [OF d3(2), of ?c] strip_sects [OF d3(2)] by simp_all
  define d4 where "d4 = snd (io_insw io (base ?c) (256 * n) d3)"
  have sz: "size_in_byte (of_nat n) div 2 = 256 * n"
  proof (cases "n = 256")
    case False
    then have "n < 256" using n by simp
    then have u: "unat (of_nat n :: u8) = n" by (simp add: unat_of_nat)
    then have "(of_nat n :: u8) \<noteq> 0" using n(1) by auto
    then show ?thesis using u by (simp add: size_in_byte_def)
  qed (simp add: size_in_byte_def)
  note tr = ata_transfers(3) [OF ata c(1) v3(1) d3(3)]
  have "read_from_sector io dk (of_nat n) ((moved ?c e2 s)\<lparr>device := d3\<rparr>) =
      (sector_run (view d3) dk lba n, (moved ?c e2 s)\<lparr>device := d4\<rparr>)"
    using tr c(2) sz by (simp add: read_from_sector_def Let_def case_prod_beta reg_data_def d4_def)
  moreover have "sector_run (view d3) dk lba n = concat (map (\<lambda>i. S dk (lba + of_nat i)) [0..<n])"
    using v3(2) by (simp add: sector_run_def)
  moreover have "(moved ?c e2 s)\<lparr>device := d4\<rparr> = moved ?c d4 s" by (simp add: moved_def upd_chan_def)
  moreover have "at_rest ?c S (view d4)" using tr v3(2) by (simp add: at_rest_def d4_def upd_cv_def)
  ultimately show ?thesis using d1(1) w d3(1) s1_def s2_def by metis
qed

lemma chan_ready_moved: "chan_ready view c s \<Longrightarrow> at_rest c S (view d) \<Longrightarrow> chan_ready view c (moved c d s)"
  by (simp add: chan_ready_def Let_def at_rest_def)

lemma chan_ready_device: "chan_ready view c s \<Longrightarrow> at_rest c S (view d) \<Longrightarrow> chan_ready view c (s\<lparr>device := d\<rparr>)"
  by (simp add: chan_ready_def Let_def at_rest_def)

definition chunks_ok :: "u32 \<Rightarrow> nat \<Rightarrow> nat \<Rightarrow> bool" where
  "chunks_ok lba p cnt \<longleftrightarrow> (\<forall>i. p \<le> 256 * i \<and> 256 * i < cnt \<longrightarrow> lba + of_nat (256 * i) \<le> max_lba)"

lemma chunks_ok_0: "chunks_ok lba 0 (unat n) = lbas_ok lba n"
proof -
  have "256 * i < unat n \<longleftrightarrow> i < (unat n + 255) div 256" for i by linarith
  then show ?thesis by (auto simp: chunks_ok_def lbas_ok_def list_all_iff)
qed

lemma chunks_ok_step:
  assumes "256 dvd p" "p < cnt"
  shows "chunks_ok lba p cnt \<longleftrightarrow> lba + of_nat p \<le> max_lba \<and> chunks_ok lba (p + 256) cnt"
proof -
  obtain j where j: "p = 256 * j" using assms(1) by blast
  have "p \<le> 256 * i \<longleftrightarrow> i = j \<or> p + 256 \<le> 256 * i" for i unfolding j by auto
  then show ?thesis using assms(2) by (auto simp: chunks_ok_def j)
qed

lemma chunks_ok_end: "256 dvd p \<Longrightarrow> cnt \<le> p \<Longrightarrow> chunks_ok lba p cnt"
  by (auto simp: chunks_ok_def)

lemma concat_upt_split:
  "p \<le> q \<Longrightarrow> q \<le> r \<Longrightarrow> concat (map f [p..<q]) @ concat (map f [q..<r]) = concat (map f [p..<r])"
proof -
  assume "p \<le> q" "q \<le> r"
  then have "[p..<r] = [p..<q] @ [q..<r]" by (metis le_Suc_ex upt_add_eq_append)
  then show ?thesis by simp
qed

lemma concat_upt_shift: "concat (map (\<lambda>i. f (lba + of_nat p + of_nat i)) [0..<n]) = concat (map (\<lambda>i. f (lba + of_nat i :: u32)) [p..<p + n])"
proof -
  have "map (\<lambda>i. f (lba + of_nat p + of_nat i)) [0..<n] = map (\<lambda>i. f (lba + of_nat i)) [p..<p + n]"
    by (rule nth_equalityI) (simp_all add: add.assoc)
  then show ?thesis by simp
qed

lemma read_chunks_run:
  assumes ata: "ata_device io view" and c: "c = my_channel dk"
  shows "chan_ready view c s \<Longrightarrow> sects (view (device s)) = S \<Longrightarrow> 256 dvd p \<Longrightarrow>
    if chunks_ok lba p cnt
    then \<exists>d. read_chunks io dk lba cnt p s = Inr (concat (map (\<lambda>i. S dk (lba + of_nat i)) [p..<cnt]), if p < cnt then moved c d s else s) \<and>
      at_rest c S (view d)
    else read_chunks io dk lba cnt p s = Inl Panic"
proof (induction "cnt - p" arbitrary: p s rule: less_induct)
  case less
  show ?case
  proof (cases "p < cnt")
    case False
    then have "chunks_ok lba p cnt" using less.prems(3) by (intro chunks_ok_end) simp_all
    moreover have "at_rest c S (view (device s))" using less.prems(1,2) by (simp add: chan_ready_def Let_def at_rest_def)
    ultimately show ?thesis using False by (subst (1 2) read_chunks.simps) auto
  next
    case True
    define n where "n = (if p + 256 \<le> cnt then 256 else cnt - p)"
    have n: "1 \<le> n" "n \<le> 256" "p + n \<le> cnt" using True by (auto simp: n_def)
    show ?thesis
    proof (cases "lba + of_nat p \<le> max_lba")
      case False
      then have "select_sector io dk (lba + of_nat p) x s = Inl Panic" for x by (simp add: select_sector_def ASSERT_def)
      then have "read_chunks io dk lba cnt p s = Inl Panic" using True by (subst read_chunks.simps) (simp add: Let_def)
      then show ?thesis using chunks_ok_step [OF less.prems(3) True] False by simp
    next
      case l: True
      note r = less.prems(1) [unfolded c]
      from read_command [OF ata r less.prems(2) l n(1,2)] obtain s1 s2 d3 d4 where
        x: "select_sector io dk (lba + of_nat p) (of_nat n) s = Inr s1"
          "sema_down_done io (my_channel dk) (cmd_out io (my_channel dk) CMD_READ_SECTOR s1) = Inr s2"
          "busy_wait io dk s2 = (True, s2\<lparr>device := d3\<rparr>)"
          "read_from_sector io dk (of_nat n) (s2\<lparr>device := d3\<rparr>) =
             (concat (map (\<lambda>i. S dk (lba + of_nat p + of_nat i)) [0..<n]), moved (my_channel dk) d4 s)"
          "at_rest (my_channel dk) S (view d4)" by blast
      have step: "read_chunks io dk lba cnt p s =
          bnd (read_chunks io dk lba cnt (p + n) (moved c d4 s)) (\<lambda>(rest, s).
          Inr (concat (map (\<lambda>i. S dk (lba + of_nat i)) [p..<p + n]) @ rest, s))"
        using True x unfolding concat_upt_shift c by (subst read_chunks.simps) (simp add: n_def [symmetric] Let_def)
      have r4: "chan_ready view c (moved c d4 s)" by (rule chan_ready_moved [OF less.prems(1)]) (use x(5) c in simp)
      have S4: "sects (view (device (moved c d4 s))) = S" using x(5) by (simp add: at_rest_def)
      have spl: "concat (map (\<lambda>i. S dk (lba + of_nat i)) [p..<p + n]) @ concat (map (\<lambda>i. S dk (lba + of_nat i)) [p + n..<cnt]) =
          concat (map (\<lambda>i. S dk (lba + of_nat i)) [p..<cnt])"
        by (rule concat_upt_split) (use n in simp_all)
      show ?thesis
      proof (cases "p + 256 \<le> cnt")
        case big: True
        then have nn: "n = 256" by (simp add: n_def)
        have dvd: "256 dvd p + 256" using less.prems(3) by simp
        have "cnt - (p + 256) < cnt - p" using True by simp
        note ih = less.hyps [OF this r4 S4 dvd]
        show ?thesis
        proof (cases "chunks_ok lba (p + 256) cnt")
          case ok: True
          with ih obtain d where d: "read_chunks io dk lba cnt (p + 256) (moved c d4 s) =
              Inr (concat (map (\<lambda>i. S dk (lba + of_nat i)) [p + 256..<cnt]), if p + 256 < cnt then moved c d (moved c d4 s) else moved c d4 s)"
            "at_rest c S (view d)" by auto
          have "read_chunks io dk lba cnt p s = Inr (concat (map (\<lambda>i. S dk (lba + of_nat i)) [p..<cnt]), if p + 256 < cnt then moved c d s else moved c d4 s)"
            unfolding step nn d(1) using spl nn by simp
          then show ?thesis using ok l True chunks_ok_step [OF less.prems(3) True] d(2) x(5) c by (auto split: if_splits)
        next
          case False
          then show ?thesis using ih chunks_ok_step [OF less.prems(3) True] unfolding step nn by simp
        qed
      next
        case small: False
        then have pn: "p + n = cnt" using True by (simp add: n_def)
        have "chunks_ok lba (p + 256) cnt" using small less.prems(3) by (intro chunks_ok_end) simp_all
        moreover have "read_chunks io dk lba cnt cnt (moved c d4 s) = Inr ([], moved c d4 s)" by (simp add: read_chunks.simps)
        then have "read_chunks io dk lba cnt p s = Inr (concat (map (\<lambda>i. S dk (lba + of_nat i)) [p..<cnt]), moved c d4 s)"
          unfolding step pn using spl pn by simp
        ultimately show ?thesis using l True chunks_ok_step [OF less.prems(3) True] x(5) c by auto
      qed
    qed
  qed
qed

section \<open>Writing\<close>

lemma write_command:
  assumes ata: "ata_device io view" and r: "chan_ready view (my_channel dk) s" and S: "sects (view (device s)) = S"
    and l: "lba \<le> max_lba" and n: "1 \<le> n" "n \<le> 256" and bs: "512 * n \<le> length bs"
  shows "\<exists>s1 d2 s3 d4. select_sector io dk lba (of_nat n) s = Inr s1 \<and>
    busy_wait io dk (cmd_out io (my_channel dk) CMD_WRITE_SECTOR s1) = (True, (cmd_out io (my_channel dk) CMD_WRITE_SECTOR s1)\<lparr>device := d2\<rparr>) \<and>
    write2sector io dk bs (of_nat n) ((cmd_out io (my_channel dk) CMD_WRITE_SECTOR s1)\<lparr>device := d2\<rparr>) = Inr s3 \<and>
    sema_down_done io (my_channel dk) s3 = Inr (moved (my_channel dk) d4 s) \<and>
    at_rest (my_channel dk) (S(dk := put_sectors lba n (take (512 * n) bs) (S dk))) (view d4)"
proof -
  let ?c = "my_channel dk"
  have c: "?c < 2" "port_base (chan s dk) = base ?c" "irq_no (channels s ?c) = 0x2e + of_nat ?c"
    "semas s (disk_done (channels s ?c)) = \<lparr>svalue = 0, waiters = []\<rparr>" and idle: "at_rest ?c S (view (device s))"
    using r S by (simp_all add: chan_ready_def Let_def at_rest_def)
  note st = ata_status [OF ata c(1)]
  from select_sector_named [OF ata c(1,2) l n idle] obtain d1 where d1: "select_sector io dk lba (of_nat n) s = Inr (s\<lparr>device := d1\<rparr>)"
    "named dk lba n (view d1)" "at_rest ?c S (view d1)" by blast
  define s1 where "s1 = s\<lparr>device := d1\<rparr>"
  have "ph (cv (view d1) ?c) = Idle" using d1(3) by (simp add: at_rest_def)
  from ata_cmds(2) [OF ata c(1) this] obtain k where k: "k < 29999" "view (io_outb io (base ?c + 7) CMD_WRITE_SECTOR d1) =
      upd_cv ?c (\<lambda>w. w\<lparr>ph := Data_out (r_disk ?c w) (r_lba w) (r_n w), busy := k\<rparr>) (view d1)" by blast
  define e where "e = io_outb io (base ?c + 7) CMD_WRITE_SECTOR d1"
  have e: "ph (cv (view e) ?c) = Data_out dk lba n" "sects (view e) = S" "busy (cv (view e) ?c) = k"
    using k(2) d1(2,3) by (simp_all add: e_def upd_cv_def named_def Let_def at_rest_def)
  define s2 where "s2 = cmd_out io ?c CMD_WRITE_SECTOR s1"
  have s2: "device s2 = e" "irq_no (channels s2 ?c) = 0x2e + of_nat ?c" "expecting_intr (channels s2 ?c)" "port_base (channels s2 ?c) = base ?c"
    "semas s2 (disk_done (channels s2 ?c)) = \<lparr>svalue = 0, waiters = []\<rparr>"
    using c by (simp_all add: s2_def s1_def cmd_out_def Let_def upd_chan_def upd_dev_def e_def reg_cmd_def reg_status_def)
  have mv: "moved ?c d (s2\<lparr>device := d'\<rparr>) = moved ?c d s" for d d'
    by (simp add: s2_def s1_def cmd_out_def Let_def moved_def upd_chan_def upd_dev_def)
  obtain d2 where d2: "busy_wait io dk s2 = (True, s2\<lparr>device := d2\<rparr>)" "strip (view d2) = strip (view e)" "busy (cv (view d2) ?c) = 0"
    using busy_loop_ready [OF ata c(1), of s2 "30 * 1000"] s2(1,4) e(1,3) k(1) unfolding busy_wait_def by auto
  have v2: "ph (cv (view d2) ?c) = Data_out dk lba n" "sects (view d2) = S"
    using e strip_ph [OF d2(2), of ?c] strip_sects [OF d2(2)] by simp_all
  have sz: "size_in_byte (of_nat n) = 512 * n"
  proof (cases "n = 256")
    case False
    then have "n < 256" using n by simp
    then have u: "unat (of_nat n :: u8) = n" by (simp add: unat_of_nat)
    then have "(of_nat n :: u8) \<noteq> 0" using n(1) by auto
    then show ?thesis using u by (simp add: size_in_byte_def)
  qed (simp add: size_in_byte_def)
  define d3 where "d3 = io_outsw io (base ?c) (take (512 * n) bs) d2"
  have w: "write2sector io dk bs (of_nat n) (s2\<lparr>device := d2\<rparr>) = Inr (s2\<lparr>device := d3\<rparr>)"
    using sz bs s2(4) by (simp add: write2sector_def upd_dev_def reg_data_def d3_def)
  have "length (take (512 * n) bs) = 512 * n" using bs by simp
  note tr = ata_transfers(4) [OF ata c(1) v2(1) d2(3) this]
  have v3: "ph (cv (view d3) ?c) = Written" "sects (view d3) = S(dk := put_sectors lba n (take (512 * n) bs) (S dk))"
    using tr v2(2) by (simp_all add: d3_def upd_cv_def)
  obtain e3 where e3: "io_intr io ?c d3 = Some e3" "view e3 = upd_cv ?c (\<lambda>w. w\<lparr>ph := Idle, busy := 0\<rparr>) (view d3)"
    using ata_transfers(2) [OF ata c(1) v3(1)] by blast
  define d4 where "d4 = snd (io_inb io (base ?c + 7) e3)"
  have "sema_down_done io ?c (s2\<lparr>device := d3\<rparr>) = Inr (moved ?c d4 s)"
    using sema_down_done_intr [OF c(1), of "s2\<lparr>device := d3\<rparr>" io e3] s2 e3(1) mv by (simp add: d4_def reg_status_def)
  moreover have "at_rest ?c (S(dk := put_sectors lba n (take (512 * n) bs) (S dk))) (view d4)"
    using st(1) e3(2) v3(2) by (simp add: at_rest_def d4_def upd_cv_def)
  ultimately show ?thesis using d1(1) d2(1) w s1_def s2_def by metis
qed

lemma put_sectors_0: "put_sectors lba 0 buf d = d"
  by (simp add: put_sectors_def)

lemma put_sectors_add:
  assumes "p + n < 4294967296"
  shows "put_sectors (lba + of_nat p) n (take (512 * n) (drop (512 * p) buf)) (put_sectors lba p buf d) = put_sectors lba (p + n) buf d"
proof (rule ext)
  fix l
  define x where "x = unat (l - lba)"
  have lx: "l = lba + of_nat x" by (simp add: x_def)
  have x32: "x < 4294967296" unfolding x_def by (rule order_less_le_trans [OF unsigned_less]) simp
  have diff: "l - (lba + of_nat p) = of_nat x - of_nat p" by (simp add: lx)
  have u: "unat (l - (lba + of_nat p)) = (if p \<le> x then x - p else x + 4294967296 - p)"
  proof -
    have ux: "unat (of_nat x :: u32) = x" "unat (of_nat p :: u32) = p" using x32 assms by simp_all
    show ?thesis unfolding diff unat_sub_if_size ux by (simp add: word_size)
  qed
  show "put_sectors (lba + of_nat p) n (take (512 * n) (drop (512 * p) buf)) (put_sectors lba p buf d) l = put_sectors lba (p + n) buf d l"
  proof (cases "p \<le> x")
    case True
    have "take 512 (drop (512 * (x - p)) (take (512 * n) (drop (512 * p) buf))) = take 512 (drop (512 * x) buf)" if "x - p < n"
    proof -
      have "512 * (x - p) + 512 \<le> 512 * n" using that by simp
      moreover have "512 * (x - p) + 512 * p = 512 * x" using True by (simp add: algebra_simps)
      ultimately show ?thesis by (simp add: drop_take min_def)
    qed
    then show ?thesis using True u by (auto simp: put_sectors_def x_def [symmetric])
  next
    case False
    then have "\<not> x + 4294967296 - p < n" using assms by simp
    then show ?thesis using False u by (auto simp: put_sectors_def x_def [symmetric])
  qed
qed

lemma write_chunks_run:
  assumes ata: "ata_device io view" and c: "c = my_channel dk" and len: "512 * cnt \<le> length buf" and cnt: "cnt < 4294967296"
  shows "chan_ready view c s \<Longrightarrow> sects (view (device s)) = S(dk := put_sectors lba p buf (S dk)) \<Longrightarrow> 256 dvd p \<Longrightarrow> p \<le> cnt \<Longrightarrow>
    if chunks_ok lba p cnt
    then \<exists>d. write_chunks io dk lba buf cnt p s = Inr (if p < cnt then moved c d s else s) \<and>
      at_rest c (S(dk := put_sectors lba cnt buf (S dk))) (view d)
    else write_chunks io dk lba buf cnt p s = Inl Panic"
proof (induction "cnt - p" arbitrary: p s rule: less_induct)
  case less
  show ?case
  proof (cases "p < cnt")
    case False
    then have p: "p = cnt" using less.prems(4) by simp
    then have "chunks_ok lba p cnt" using less.prems(3) by (intro chunks_ok_end) simp_all
    moreover have "at_rest c (S(dk := put_sectors lba cnt buf (S dk))) (view (device s))"
      using less.prems(1,2) p by (simp add: chan_ready_def Let_def at_rest_def)
    ultimately show ?thesis using False by (subst (1 2) write_chunks.simps) auto
  next
    case True
    define n where "n = (if p + 256 \<le> cnt then 256 else cnt - p)"
    have n: "1 \<le> n" "n \<le> 256" "p + n \<le> cnt" using True by (auto simp: n_def)
    show ?thesis
    proof (cases "lba + of_nat p \<le> max_lba")
      case False
      then have "select_sector io dk (lba + of_nat p) x s = Inl Panic" for x by (simp add: select_sector_def ASSERT_def)
      then have "write_chunks io dk lba buf cnt p s = Inl Panic" using True by (subst write_chunks.simps) (simp add: Let_def)
      then show ?thesis using chunks_ok_step [OF less.prems(3) True] False by simp
    next
      case l: True
      note r = less.prems(1) [unfolded c]
      have bl: "512 * n \<le> length (drop (p * 512) buf)" using len n(3) by simp
      from write_command [OF ata r less.prems(2) l n(1,2) bl] obtain s1 d2 s3 d4 where
        x: "select_sector io dk (lba + of_nat p) (of_nat n) s = Inr s1"
          "busy_wait io dk (cmd_out io (my_channel dk) CMD_WRITE_SECTOR s1) = (True, (cmd_out io (my_channel dk) CMD_WRITE_SECTOR s1)\<lparr>device := d2\<rparr>)"
          "write2sector io dk (drop (p * 512) buf) (of_nat n) ((cmd_out io (my_channel dk) CMD_WRITE_SECTOR s1)\<lparr>device := d2\<rparr>) = Inr s3"
          "sema_down_done io (my_channel dk) s3 = Inr (moved (my_channel dk) d4 s)"
          "at_rest (my_channel dk) ((S(dk := put_sectors lba p buf (S dk)))(dk := put_sectors (lba + of_nat p) n (take (512 * n) (drop (p * 512) buf))
             ((S(dk := put_sectors lba p buf (S dk))) dk))) (view d4)" by blast
      have pa: "put_sectors (lba + of_nat p) n (take (512 * n) (drop (512 * p) buf)) (put_sectors lba p buf (S dk)) = put_sectors lba (p + n) buf (S dk)"
        by (rule put_sectors_add) (use n(3) cnt in simp)
      have rest: "at_rest c (S(dk := put_sectors lba (p + n) buf (S dk))) (view d4)"
        using x(5) pa by (simp add: c mult.commute)
      have step: "write_chunks io dk lba buf cnt p s = write_chunks io dk lba buf cnt (p + n) (moved c d4 s)"
        using True x(1-4) unfolding c by (subst write_chunks.simps) (simp add: n_def [symmetric] Let_def)
      have r4: "chan_ready view c (moved c d4 s)" by (rule chan_ready_moved [OF less.prems(1) rest])
      have S4: "sects (view (device (moved c d4 s))) = S(dk := put_sectors lba (p + n) buf (S dk))" using rest by (simp add: at_rest_def)
      show ?thesis
      proof (cases "p + 256 \<le> cnt")
        case big: True
        then have nn: "n = 256" by (simp add: n_def)
        have dvd: "256 dvd p + 256" using less.prems(3) by simp
        have "cnt - (p + 256) < cnt - p" using True by simp
        note ih = less.hyps [OF this r4 S4 [unfolded nn] dvd big]
        show ?thesis
        proof (cases "chunks_ok lba (p + 256) cnt")
          case ok: True
          with ih obtain d where d: "write_chunks io dk lba buf cnt (p + 256) (moved c d4 s) =
              Inr (if p + 256 < cnt then moved c d (moved c d4 s) else moved c d4 s)"
            "at_rest c (S(dk := put_sectors lba cnt buf (S dk))) (view d)" by auto
          show ?thesis
          proof (cases "p + 256 < cnt")
            case True
            then show ?thesis using d ok l \<open>p < cnt\<close> chunks_ok_step [OF less.prems(3) \<open>p < cnt\<close>] unfolding step nn by auto
          next
            case False
            then have "cnt = p + 256" using big by simp
            then show ?thesis using d rest nn ok l \<open>p < cnt\<close> chunks_ok_step [OF less.prems(3) \<open>p < cnt\<close>] unfolding step nn by auto
          qed
        next
          case False
          then show ?thesis using ih chunks_ok_step [OF less.prems(3) True] unfolding step nn by simp
        qed
      next
        case small: False
        then have pn: "p + n = cnt" using True by (simp add: n_def)
        have "chunks_ok lba (p + 256) cnt" using small less.prems(3) by (intro chunks_ok_end) simp_all
        moreover have "write_chunks io dk lba buf cnt cnt (moved c d4 s) = Inr (moved c d4 s)" by (simp add: write_chunks.simps)
        ultimately show ?thesis using l True chunks_ok_step [OF less.prems(3) True] rest unfolding step pn by auto
      qed
    qed
  qed
qed

section \<open>The lock around a transfer\<close>

lemma moved_locked: "moved c d (locked l s) = locked l (moved c d s)"
  by (simp add: moved_def locked_def upd_chan_def)

lemma select_disk_locked:
  assumes ata: "ata_device io view" and r: "chan_ready view c s" and k: "lock_ready c s" and c: "c = my_channel dk"
    and S: "sects (view (device s)) = S"
  shows "\<exists>d. select_disk io dk (locked (chan_lock (channels s c)) s) = locked (chan_lock (channels s c)) (s\<lparr>device := d\<rparr>) \<and>
    chan_ready view c (locked (chan_lock (channels s c)) (s\<lparr>device := d\<rparr>)) \<and> sects (view d) = S"
proof -
  let ?l = "chan_lock (channels s c)"
  define d where "d = io_outb io (base c + 6) (if dev_no dk = 1 then (BIT_DEV_MBS OR BIT_DEV_LBA) OR BIT_DEV_DEV else BIT_DEV_MBS OR BIT_DEV_LBA) (device s)"
  have c2: "c < 2" "port_base (channels s c) = base c" using r by (simp_all add: chan_ready_def Let_def)
  have v: "view d = upd_cv c (\<lambda>w. w\<lparr>r_dev := (if dev_no dk = 1 then (BIT_DEV_MBS OR BIT_DEV_LBA) OR BIT_DEV_DEV else BIT_DEV_MBS OR BIT_DEV_LBA)\<rparr>) (view (device s))"
    unfolding d_def by (rule ata_regs(5) [OF ata c2(1)])
  have "select_disk io dk (locked ?l s) = locked ?l (s\<lparr>device := d\<rparr>)"
    using c2 by (simp add: select_disk_def Let_def upd_dev_def locked_def reg_dev_def c [symmetric] d_def)
  moreover have "chan_ready view c (locked ?l (s\<lparr>device := d\<rparr>))"
    using r k v by (simp add: chan_ready_def lock_ready_def Let_def locked_def upd_cv_def)
  moreover have "sects (view d) = S" using v S by (simp add: upd_cv_def)
  ultimately show ?thesis by blast
qed

section \<open>A whole transfer\<close>

lemma ide_read_ata:
  assumes "ata_device io view" and "chan_ready view (my_channel dk) s" and "lock_ready (my_channel dk) s"
    and "sects (view (device s)) = disks s"
  shows "case disk_read dk lba n s of Inl e \<Rightarrow> ide_read io dk lba n s = Inl e
    | Inr b \<Rightarrow> \<exists>d. ide_read io dk lba n s = Inr (b, moved (my_channel dk) d s) \<and> sects (view d) = disks s \<and>
        chan_ready view (my_channel dk) (moved (my_channel dk) d s)"
proof (cases "lba \<le> max_lba \<and> n > 0")
  case False
  then show ?thesis by (auto simp: disk_read_def ide_read_def ASSERT_def)
next
  case True
  let ?c = "my_channel dk" and ?l = "chan_lock (channels s (my_channel dk))"
  have lk: "locks s ?l = \<lparr>holder = 0, holder_repeat_nr = 0\<rparr>" "semas s (sema_of ?l) = \<lparr>svalue = 1, waiters = []\<rparr>" "running_thread s \<noteq> 0"
    using assms(3) by (simp_all add: lock_ready_def Let_def)
  note acq = lock_acquire_locked [OF lk]
  from select_disk_locked [OF assms(1-3) refl assms(4)] obtain d0 where d0:
    "select_disk io dk (locked ?l s) = locked ?l (s\<lparr>device := d0\<rparr>)" "chan_ready view ?c (locked ?l (s\<lparr>device := d0\<rparr>))"
    "sects (view d0) = disks s" by blast
  define t where "t = locked ?l (s\<lparr>device := d0\<rparr>)"
  have t: "chan_ready view ?c t" "sects (view (device t)) = disks s" using d0(2,3) by (simp_all add: t_def locked_def)
  have p: "0 < unat n" using True by (simp add: word_less_nat_alt)
  note run = read_chunks_run [OF assms(1) refl t, of 0 lba "unat n"]
  show ?thesis
  proof (cases "lbas_ok lba n")
    case False
    then have "read_chunks io dk lba (unat n) 0 t = Inl Panic" using run by (simp add: chunks_ok_0)
    then have "ide_read io dk lba n s = Inl Panic" using True acq d0(1) by (simp add: ide_read_def t_def)
    then show ?thesis using True False by (simp add: disk_read_def)
  next
    case ok: True
    then obtain d where d: "read_chunks io dk lba (unat n) 0 t = Inr (concat (map (\<lambda>i. disks s dk (lba + of_nat i)) [0..<unat n]), moved ?c d t)"
      "at_rest ?c (disks s) (view d)" using run p by (auto simp: chunks_ok_0)
    have mt: "moved ?c d t = locked ?l (moved ?c d s)" by (simp add: t_def moved_locked [symmetric]) (simp add: moved_def locked_def upd_chan_def)
    have cl: "chan_lock (channels (moved ?c d t) ?c) = ?l" by (simp add: t_def locked_def)
    have rel: "lock_release_now ?l (moved ?c d t) = Inr (moved ?c d s)"
      unfolding mt by (rule lock_release_locked) (use lk in simp_all)
    have "ide_read io dk lba n s = Inr (concat (map (\<lambda>i. disks s dk (lba + of_nat i)) [0..<unat n]), moved ?c d s)"
      using True acq d0(1) d(1) rel cl by (simp add: ide_read_def t_def [symmetric])
    moreover have "chan_ready view ?c (moved ?c d s)" by (rule chan_ready_moved [OF assms(2) d(2)])
    ultimately show ?thesis using True ok d(2) by (auto simp: disk_read_def at_rest_def intro!: exI [of _ d])
  qed
qed

lemma ide_write_ata:
  assumes "ata_device io view" and "chan_ready view (my_channel dk) s" and "lock_ready (my_channel dk) s"
    and "sects (view (device s)) = disks s" and "512 * unat n \<le> length buf"
  shows "case disk_write dk lba buf n s of Inl e \<Rightarrow> ide_write io dk lba buf n s = Inl e
    | Inr s' \<Rightarrow> \<exists>d. ide_write io dk lba buf n s = Inr (moved (my_channel dk) d s) \<and> sects (view d) = disks s' \<and>
        chan_ready view (my_channel dk) (moved (my_channel dk) d s)"
proof (cases "lba \<le> max_lba \<and> n > 0")
  case False
  then show ?thesis by (auto simp: disk_write_def ide_write_def ASSERT_def)
next
  case True
  let ?c = "my_channel dk" and ?l = "chan_lock (channels s (my_channel dk))"
  have lk: "locks s ?l = \<lparr>holder = 0, holder_repeat_nr = 0\<rparr>" "semas s (sema_of ?l) = \<lparr>svalue = 1, waiters = []\<rparr>" "running_thread s \<noteq> 0"
    using assms(3) by (simp_all add: lock_ready_def Let_def)
  note acq = lock_acquire_locked [OF lk]
  from select_disk_locked [OF assms(1-3) refl assms(4)] obtain d0 where d0:
    "select_disk io dk (locked ?l s) = locked ?l (s\<lparr>device := d0\<rparr>)" "chan_ready view ?c (locked ?l (s\<lparr>device := d0\<rparr>))"
    "sects (view d0) = disks s" by blast
  define t where "t = locked ?l (s\<lparr>device := d0\<rparr>)"
  have t: "chan_ready view ?c t" "sects (view (device t)) = (disks s)(dk := put_sectors lba 0 buf (disks s dk))"
    using d0(2,3) by (simp_all add: t_def locked_def put_sectors_0)
  have p: "0 < unat n" using True by (simp add: word_less_nat_alt)
  have n32: "unat n < 4294967296" by (rule order_less_le_trans [OF unsigned_less]) simp
  note run = write_chunks_run [OF assms(1) refl assms(5) n32 t]
  show ?thesis
  proof (cases "lbas_ok lba n")
    case False
    then have "write_chunks io dk lba buf (unat n) 0 t = Inl Panic" using run by (simp add: chunks_ok_0)
    then have "ide_write io dk lba buf n s = Inl Panic" using True acq d0(1) by (simp add: ide_write_def t_def)
    then show ?thesis using True False by (simp add: disk_write_def)
  next
    case ok: True
    then obtain d where d: "write_chunks io dk lba buf (unat n) 0 t = Inr (moved ?c d t)"
      "at_rest ?c ((disks s)(dk := put_sectors lba (unat n) buf (disks s dk))) (view d)" using run p by (auto simp: chunks_ok_0)
    have mt: "moved ?c d t = locked ?l (moved ?c d s)" by (simp add: t_def moved_locked [symmetric]) (simp add: moved_def locked_def upd_chan_def)
    have cl: "chan_lock (channels (moved ?c d t) ?c) = ?l" by (simp add: t_def locked_def)
    have rel: "lock_release_now ?l (moved ?c d t) = Inr (moved ?c d s)"
      unfolding mt by (rule lock_release_locked) (use lk in simp_all)
    have "ide_write io dk lba buf n s = Inr (moved ?c d s)"
      using True acq d0(1) d(1) rel cl by (simp add: ide_write_def t_def [symmetric])
    moreover have "chan_ready view ?c (moved ?c d s)" by (rule chan_ready_moved [OF assms(2) d(2)])
    ultimately show ?thesis using True ok d(2) assms(5) by (auto simp: disk_write_def at_rest_def intro!: exI [of _ d])
  qed
qed

section \<open>Properties\<close>



section \<open>A controller that follows the protocol\<close>

definition demo_chan :: "u16 \<Rightarrow> nat" where
  "demo_chan port = (if 0x170 \<le> port \<and> port \<le> 0x177 then 1 else 0)"

definition demo_reg :: "u16 \<Rightarrow> u8 \<Rightarrow> nat \<Rightarrow> chan_view \<Rightarrow> chan_view" where
  "demo_reg r x c w =
     (if r = 2 then w\<lparr>r_cnt := x\<rparr> else if r = 3 then w\<lparr>r_l := x\<rparr> else if r = 4 then w\<lparr>r_m := x\<rparr>
      else if r = 5 then w\<lparr>r_h := x\<rparr> else if r = 6 then w\<lparr>r_dev := x\<rparr>
      else if x = CMD_READ_SECTOR then w\<lparr>ph := Reading (r_disk c w) (r_lba w) (r_n w), busy := 3\<rparr>
      else if x = CMD_WRITE_SECTOR then w\<lparr>ph := Data_out (r_disk c w) (r_lba w) (r_n w), busy := 3\<rparr> else w)"

definition demo_intr :: "nat \<Rightarrow> dev_view \<Rightarrow> dev_view option" where
  "demo_intr c v = (case ph (cv v c) of
       Reading dk lba n \<Rightarrow> Some (upd_cv c (\<lambda>w. w\<lparr>ph := Data_in dk lba n, busy := 0\<rparr>) v)
     | Written \<Rightarrow> Some (upd_cv c (\<lambda>w. w\<lparr>ph := Idle, busy := 0\<rparr>) v) | _ \<Rightarrow> None)"

definition demo_insw :: "u16 \<Rightarrow> nat \<Rightarrow> dev_view \<Rightarrow> bytes \<times> dev_view" where
  "demo_insw port k v = (case ph (cv v (demo_chan port)) of
       Data_in dk lba n \<Rightarrow> (sector_run v dk lba n, upd_cv (demo_chan port) (\<lambda>w. w\<lparr>ph := Idle\<rparr>) v)
     | _ \<Rightarrow> (replicate (2 * k) 0, v))"

definition demo_outsw :: "u16 \<Rightarrow> bytes \<Rightarrow> dev_view \<Rightarrow> dev_view" where
  "demo_outsw port bs v = (case ph (cv v (demo_chan port)) of
       Data_out dk lba n \<Rightarrow> (upd_cv (demo_chan port) (\<lambda>w. w\<lparr>ph := Written\<rparr>) v)\<lparr>sects := (sects v)(dk := put_sectors lba n bs (sects v dk))\<rparr>
     | _ \<Rightarrow> v)"

definition demo_ata :: "dev_view ata" where
  "demo_ata =
     \<lparr>io_outb = (\<lambda>port x. upd_cv (demo_chan port) (demo_reg (port - base (demo_chan port)) x (demo_chan port))),
      io_inb = (\<lambda>port v. (if 0 < busy (cv v (demo_chan port)) then 0x80 else 0x48, v)),
      io_outsw = demo_outsw, io_insw = demo_insw,
      io_pause = (\<lambda>v. v\<lparr>cv := (\<lambda>c. (cv v c)\<lparr>busy := busy (cv v c) - 1\<rparr>)\<rparr>), io_intr = demo_intr\<rparr>"

lemma demo_chan_base: "c < 2 \<Longrightarrow> k \<le> 7 \<Longrightarrow> demo_chan (base c + k) = c"
  by (cases "c = 0") (auto simp: demo_chan_def base_def word_le_nat_alt unat_word_ariths)

lemma demo_ata_device: "ata_device demo_ata (\<lambda>v. v)"
proof -
  have b: "demo_chan (base c) = c" if "c < 2" for c using demo_chan_base [OF that, of 0] by simp
  show ?thesis
    unfolding ata_device_def Let_def
    apply (intro allI impI)
    subgoal for c d
      by (intro conjI allI impI)
        (auto simp: demo_ata_def demo_chan_base b demo_reg_def demo_intr_def demo_insw_def demo_outsw_def upd_cv_def
          CMD_READ_SECTOR_def CMD_WRITE_SECTOR_def intro!: exI [of _ 3])
    done
qed

definition demo_ides :: "dev_view ides" where
  "demo_ides = fsys.extend (demo_fs\<lparr>semas := (\<lambda>a. \<lparr>svalue = if a = 0xc0030100 then 0 else 1, waiters = []\<rparr>)\<rparr>)
     \<lparr>device = \<lparr>cv = (\<lambda>_. \<lparr>r_cnt = 0, r_l = 0, r_m = 0, r_h = 0, r_dev = 0, ph = Idle, busy = 0\<rparr>), sects = disks demo_fs\<rparr>,
      channels = (\<lambda>c. \<lparr>port_base = base c, irq_no = 0x2e + of_nat c, chan_lock = 0xc0030000, expecting_intr = False, disk_done = 0xc0030100\<rparr>),
      channel_cnt = 1, ext_lba_base = 0, p_no = 0, l_no = 0, hd_handlers = [0x2e]\<rparr>"

lemma demo_ides_ready:
  "chan_ready (\<lambda>v. v) (my_channel 1) demo_ides" "lock_ready (my_channel 1) demo_ides" "sects (device demo_ides) = disks demo_ides"
  "disks demo_ides = disks demo_fs"
  by (simp_all add: chan_ready_def lock_ready_def demo_ides_def fsys.extend_def demo_fs_def my_channel_def sema_of_def)



end
