(* ===== verification/Process.thy ===== *)
theory Process
  imports Pools
begin

text \<open>
  User processes (userprog/process.c) and the parts of fork (userprog/fork.c) that stand on their own. \<open>istacks\<close>
  holds the structures \<open>intr_stack\<close> on the kernel stacks. An address in the code (\<open>start_process\<close>,
  \<open>kernel_thread\<close>, \<open>intr_exit\<close>) is a parameter.
\<close>

section \<open>State\<close>

record intr_stack =
  vec_no :: u32
  is_edi :: u32
  is_esi :: u32
  is_ebp :: u32
  esp_dummy :: u32
  is_ebx :: u32
  is_edx :: u32
  is_ecx :: u32
  is_eax :: u32
  is_gs :: u32
  is_fs :: u32
  is_es :: u32
  is_ds :: u32
  err_code :: u32
  is_eip :: u32
  is_cs :: u32
  is_eflags :: u32
  is_esp :: u32
  is_ss :: u32

record psys = msys +
  istacks :: "u32 \<Rightarrow> intr_stack"

definition default_prio :: u32 where "default_prio = 31"
definition USER_STACK3_VADDR :: u32 where "USER_STACK3_VADDR = 0xc0000000 - 0x1000"
definition USER_VADDR_START :: u32 where "USER_VADDR_START = 0x8048000"

definition SELECTOR_U_CODE :: u32 where "SELECTOR_U_CODE = push_bit 3 5 + push_bit 2 0 + 3"
definition SELECTOR_U_DATA :: u32 where "SELECTOR_U_DATA = push_bit 3 6 + push_bit 2 0 + 3"
definition EFLAGS_MBS :: u32 where "EFLAGS_MBS = push_bit 1 1"
definition EFLAGS_IF_1 :: u32 where "EFLAGS_IF_1 = push_bit 9 1"
definition EFLAGS_IOPL_0 :: u32 where "EFLAGS_IOPL_0 = push_bit 12 0"

section \<open>process.c\<close>

text \<open>\<open>memcpy\<close> of \<open>4 n\<close> bytes between word-aligned addresses.\<close>

fun vcopy :: "u32 \<Rightarrow> u32 \<Rightarrow> nat \<Rightarrow> 'a msys_scheme \<Rightarrow> 'a msys_scheme res" where
  "vcopy dst src 0 s = Inr s"
| "vcopy dst src (Suc n) s = bnd (vload s src) (\<lambda>w. bnd (vstore dst w s) (vcopy (dst + 4) (src + 4) n))"

text \<open>\<open>start_process\<close> up to \<open>intr_exit\<close>: the registers that are popped there, and the state.\<close>

definition start_process :: "u32 \<Rightarrow> 'a psys_scheme \<Rightarrow> (intr_stack \<times> 'a psys_scheme) res" where
  "start_process filename s =
     (let cur = running_thread s;
          s = upd_task cur (\<lambda>p. p\<lparr>self_kstack := self_kstack p + 4 * 32\<rparr>) s;
          a = self_kstack (tasks s cur);
          proc_stack = (istacks s a)\<lparr>is_edi := 0, is_esi := 0, is_ebp := 0, esp_dummy := 0,
            is_ebx := 0, is_edx := 0, is_ecx := 0, is_eax := 0, is_gs := 0,
            is_ds := SELECTOR_U_DATA, is_es := SELECTOR_U_DATA, is_fs := SELECTOR_U_DATA,
            is_eip := filename, is_cs := SELECTOR_U_CODE, is_eflags := EFLAGS_IOPL_0 OR EFLAGS_MBS OR EFLAGS_IF_1\<rparr> in
      bnd (get_a_page PF_USER USER_STACK3_VADDR (s\<lparr>istacks := (istacks s)(a := proc_stack)\<rparr>)) (\<lambda>(page, s).
      let proc_stack = (istacks s a)\<lparr>is_esp := page + PG_SIZE, is_ss := SELECTOR_U_DATA\<rparr>
      in Inr (proc_stack, s\<lparr>istacks := (istacks s)(a := proc_stack)\<rparr>)))"

text \<open>\<open>page_dir_activate\<close> on the tables in memory (\<open>Sched\<close> has it on \<open>page_map\<close>).\<close>

definition activate_dir :: "u32 \<Rightarrow> 'a msys_scheme \<Rightarrow> 'a msys_scheme res" where
  "activate_dir t s =
     (if pgdir (tasks s t) \<noteq> 0 then bnd (addr_v2p s (pgdir (tasks s t))) (\<lambda>p. Inr (s\<lparr>cr3 := p\<rparr>))
      else Inr (s\<lparr>cr3 := 0x100000\<rparr>))"

text \<open>What \<open>console_put_str\<close> prints when there is no page is not part of the state.\<close>

definition create_page_dir :: "'a msys_scheme \<Rightarrow> (u32 \<times> 'a msys_scheme) res" where
  "create_page_dir s =
     bnd (get_kernel_pages 1 s) (\<lambda>(page_dir_vaddr, s).
     if page_dir_vaddr = 0 then Inr (0, s)
     else
       bnd (vcopy (page_dir_vaddr + 0x300 * 4) (0xfffff000 + 0x300 * 4) 256 s) (\<lambda>s.
       bnd (addr_v2p s page_dir_vaddr) (\<lambda>new_page_dir_phy_addr.
       bnd (vstore (page_dir_vaddr + 1023 * 4) (new_page_dir_phy_addr OR PG_US_U OR PG_RW_W OR PG_P_1) s) (\<lambda>s.
       Inr (page_dir_vaddr, s)))))"

text \<open>\<open>get_kernel_pages\<close> gives zeroed pages; \<open>bitmap_init\<close> asserts that the address is not NULL.\<close>

definition vaddr_bitmap_len :: u32 where
  "vaddr_bitmap_len = (0xc0000000 - USER_VADDR_START) div PG_SIZE div 8"

definition vaddr_bitmap_pages :: u32 where
  "vaddr_bitmap_pages = DIV_ROUND_UP vaddr_bitmap_len PG_SIZE"

definition create_user_vaddr_bitmap :: "u32 \<Rightarrow> 'a msys_scheme \<Rightarrow> 'a msys_scheme res" where
  "create_user_vaddr_bitmap user_prog s =
     bnd (get_kernel_pages vaddr_bitmap_pages s) (\<lambda>(p, s).
     let b = \<lparr>btmp_bytes_len = vaddr_bitmap_len, bits = (\<lambda>_. 0)\<rparr> in
     bnd (ASSERT (p \<noteq> 0)) (\<lambda>_.
     Inr (s\<lparr>userprog_vaddr := (userprog_vaddr s)(user_prog := \<lparr>vaddr_bitmap = bitmap_init b, vaddr_start = USER_VADDR_START\<rparr>)\<rparr>)))"

definition process_execute :: "u32 \<Rightarrow> u32 \<Rightarrow> u32 \<Rightarrow> u8 list \<Rightarrow> 'a msys_scheme \<Rightarrow> 'a msys_scheme res" where
  "process_execute kernel_thread start filename name s =
     bnd (get_kernel_pages 1 s) (\<lambda>(thread, s).
     bnd (init_thread thread name default_prio s) (\<lambda>s.
     bnd (create_user_vaddr_bitmap thread s) (\<lambda>s.
     let s = thread_create kernel_thread thread start filename s in
     bnd (create_page_dir s) (\<lambda>(dir, s).
     let s = upd_task thread (\<lambda>p. p\<lparr>pgdir := dir\<rparr>) s;
         s = block_desc_init (u_block_desc thread) s;
         (old_status, s) = intr_disable s in
     bnd (enqueue_thread thread s) (\<lambda>s.
     Inr (snd (intr_set_status s old_status)))))))"

section \<open>fork.c\<close>

text \<open>The structures of the page of a control block that are copied with it: the block itself with its virtual
  pages and its seven descriptors, and the registers at the top of the kernel stack. The rest of the stack is not used by
  the child, which starts at \<open>intr_exit\<close>.\<close>

definition top_stack :: "u32 \<Rightarrow> u32" where
  "top_stack t = t + PG_SIZE - 76"

fun copy_descs :: "u32 \<Rightarrow> u32 \<Rightarrow> nat \<Rightarrow> 'a msys_scheme \<Rightarrow> 'a msys_scheme" where
  "copy_descs d d' 0 s = s"
| "copy_descs d d' (Suc n) s = copy_descs (d + sizeof_desc) (d' + sizeof_desc) n (upd_desc d (\<lambda>_. descs s d') s)"

definition copy_page :: "u32 \<Rightarrow> u32 \<Rightarrow> 'a psys_scheme \<Rightarrow> 'a psys_scheme" where
  "copy_page child parent s =
     (let s = upd_task child (\<lambda>_. tasks s parent) s;
          s = s\<lparr>userprog_vaddr := (userprog_vaddr s)(child := userprog_vaddr s parent)\<rparr>;
          s = copy_descs (u_block_desc child) (u_block_desc parent) DESC_CNT s
      in s\<lparr>istacks := (istacks s)(top_stack child := istacks s (top_stack parent))\<rparr>)"

text \<open>\<open>strcat\<close> for a name of less than 11 bytes and the suffix \<open>"_fork"\<close>.\<close>

definition name_of :: "u8 list \<Rightarrow> u8 list" where
  "name_of n = takeWhile (\<lambda>c. c \<noteq> 0) n"

definition copy_pcb_vaddrbitmap_stack0 :: "u32 \<Rightarrow> u32 \<Rightarrow> 'a psys_scheme \<Rightarrow> 'a psys_scheme res" where
  "copy_pcb_vaddrbitmap_stack0 child parent s =
     bnd (ASSERT (child \<noteq> 0 \<and> parent \<noteq> 0)) (\<lambda>_.
     bnd (fork_pid (copy_page child parent s)) (\<lambda>(p, s).
     let s = upd_task child (\<lambda>t. t\<lparr>pid := p\<rparr>) s;
         s = upd_task child (\<lambda>t. t\<lparr>elapsed_ticks := 0, status := TASK_READY\<rparr>) s;
         s = upd_task child (\<lambda>t. t\<lparr>ticks := priority t\<rparr>) s;
         s = upd_task child (\<lambda>t. t\<lparr>parent_pid := pid (tasks s parent)\<rparr>) s;
         s = block_desc_init (u_block_desc child) s in
     bnd (get_kernel_pages vaddr_bitmap_pages s) (\<lambda>(vaddr_btmp, s).
     bnd (ASSERT (vaddr_btmp \<noteq> 0)) (\<lambda>_.
     let n = name_of (task_name (tasks s child)) in
     bnd (ASSERT (length n < 11)) (\<lambda>_.
     Inr (upd_task child (\<lambda>t. t\<lparr>task_name := patch (task_name t) (length n) [95, 102, 111, 114, 107, 0]\<rparr>) s))))))"

text \<open>One page of the parent, through the buffer in the kernel; then the pages whose bits are set, from byte
  \<open>idx_byte\<close> and bit \<open>idx_bit\<close> on, \<open>n\<close> bits being left.\<close>

definition copy_user_page :: "u32 \<Rightarrow> u32 \<Rightarrow> u32 \<Rightarrow> u32 \<Rightarrow> 'a msys_scheme \<Rightarrow> 'a msys_scheme res" where
  "copy_user_page child parent buf_page prog_vaddr s =
     bnd (ASSERT (buf_page \<noteq> 0 \<and> prog_vaddr \<noteq> 0)) (\<lambda>_.
     bnd (vcopy buf_page prog_vaddr 1024 s) (\<lambda>s.
     bnd (activate_dir child s) (\<lambda>s.
     bnd (get_a_page_without_opvaddrbitmap PF_USER prog_vaddr s) (\<lambda>(_, s).
     bnd (vcopy prog_vaddr buf_page 1024 s) (activate_dir parent)))))"

fun copy_pages :: "u32 \<Rightarrow> u32 \<Rightarrow> u32 \<Rightarrow> nat \<Rightarrow> nat \<Rightarrow> 'a msys_scheme \<Rightarrow> 'a msys_scheme res" where
  "copy_pages child parent buf_page i 0 s = Inr s"
| "copy_pages child parent buf_page i (Suc n) s =
     (let v = userprog_vaddr s parent in
      bnd (if bits (vaddr_bitmap v) (of_nat (i div 8)) AND ucast (BITMAP_MASK * 2 ^ (i mod 8)) \<noteq> 0
           then copy_user_page child parent buf_page (of_nat i * PG_SIZE + vaddr_start v) s else Inr s)
        (copy_pages child parent buf_page (Suc i) n))"

definition copy_body_stack3 :: "u32 \<Rightarrow> u32 \<Rightarrow> u32 \<Rightarrow> 'a msys_scheme \<Rightarrow> 'a msys_scheme res" where
  "copy_body_stack3 child parent buf_page s =
     copy_pages child parent buf_page 0 (8 * unat (btmp_bytes_len (vaddr_bitmap (userprog_vaddr s parent)))) s"

definition build_child_stack :: "u32 \<Rightarrow> u32 \<Rightarrow> 'a psys_scheme \<Rightarrow> 'a psys_scheme" where
  "build_child_stack intr_exit child s =
     (let a = top_stack child;
          s = s\<lparr>istacks := (istacks s)(a := (istacks s a)\<lparr>is_eax := 0\<rparr>)\<rparr>;
          ebp_ptr = a - 4 * 5;
          old = tstacks s ebp_ptr;
          s = s\<lparr>tstacks := (tstacks s)(ebp_ptr := old\<lparr>ts_eip := intr_exit, ts_ebp := 0, ts_ebx := 0, ts_edi := 0, ts_esi := 0\<rparr>)\<rparr>;
          s = upd_task child (\<lambda>t. t\<lparr>self_kstack := ebp_ptr\<rparr>) s
      in s\<lparr>kstk := (kstk s)(child := [Iret])\<rparr>)"

section \<open>Frames that are not tables\<close>

text \<open>Writing into such a frame changes no translation.\<close>

lemma outside_frame:
  assumes "tables_ok s" "fresh_frame s f" "\<And>x. x \<notin> frame f \<Longrightarrow> m x = pmem s x"
  shows "pde_of (s\<lparr>pmem := m\<rparr>) = pde_of s" "present (s\<lparr>pmem := m\<rparr>) = present s" "table_of (s\<lparr>pmem := m\<rparr>) = table_of s"
    "walk (s\<lparr>pmem := m\<rparr>) = walk s" "tables_ok (s\<lparr>pmem := m\<rparr>)" "fresh_frame (s\<lparr>pmem := m\<rparr>) = fresh_frame s"
    "aliases (s\<lparr>pmem := m\<rparr>) = aliases s"
proof -
  let ?s = "s\<lparr>pmem := m\<rparr>"
  have al: "aligned (cr3 s)" "aligned f" "f \<noteq> cr3 s"
    using assms(1,2) by (simp_all add: tables_ok_def self_mapped_def fresh_frame_def)
  have d: "m (cr3 s + i * 4) = pmem s (cr3 s + i * 4)" if "unat i < 1024" for i
    using assms(3) frame_entry [OF al(2,1) that] al(3) by simp
  show 1: "pde_of ?s = pde_of s" using d [OF idx_less(1)] by (simp add: pde_of_def fun_eq_iff)
  then show 2: "present ?s = present s" "table_of ?s = table_of s" by (simp_all add: present_def table_of_def fun_eq_iff)
  have t: "m (table_of s a + PTE_IDX a * 4) = pmem s (table_of s a + PTE_IDX a * 4)" if "present s a" for a
    using assms(2,3) frame_entry [OF al(2) aligned_table idx_less(2), of s a a] that by (simp add: fresh_frame_def)
  then have "pte_of ?s a = pte_of s a" if "present s a" for a using that by (simp add: pte_of_def 2)
  then show "walk ?s = walk s" by (auto simp: walk_eq 2 fun_eq_iff)
  have "unat (1023 :: u32) < 1024" by simp
  from d [OF this] show "tables_ok ?s" using assms(1) by (simp add: tables_ok_def self_mapped_def 2)
  show "fresh_frame ?s = fresh_frame s" "aliases ?s = aliases s" by (rule fresh_write; simp add: 2)+
qed

lemma frame_word: "i < 1024 \<Longrightarrow> f + of_nat i * 4 \<in> frame f"
  unfolding frame_def by blast

text \<open>\<open>vcopy\<close> between two pages, the destination not a table: the words arrive.\<close>

lemma vcopy_loop:
  assumes "tables_ok s" "fresh_frame s f" "aligned d" "aligned e" "walk s d = Inr f" "walk s e = Inr g" "aligned g" "g \<noteq> f"
    and "k + n \<le> 1024"
  shows "vcopy (d + of_nat k * 4) (e + of_nat k * 4) n s = Inr (s\<lparr>pmem := (\<lambda>x. if \<exists>i. k \<le> i \<and> i < k + n \<and> x = f + of_nat i * 4
    then pmem s (x - f + g) else pmem s x)\<rparr>)"
  using assms
proof (induction n arbitrary: k s)
  case 0
  have "(\<exists>i. k \<le> i \<and> i < k + 0 \<and> P i) = False" for P by auto
  then show ?case by (simp only: vcopy.simps if_False) simp
next
  case (Suc n)
  let ?i = "of_nat k :: u32"
  let ?s1 = "s\<lparr>pmem := (pmem s)(f + ?i * 4 := pmem s (g + ?i * 4))\<rparr>"
  have k: "k < 1024" using Suc.prems by simp
  then have i: "unat (?i * 4) < 4096" by (simp add: unat_idx4)
  have af: "aligned f" using Suc.prems(2) by (simp add: fresh_frame_def)
  have out: "((pmem s)(f + ?i * 4 := pmem s (g + ?i * 4))) x = pmem s x" if "x \<notin> frame f" for x
    using that frame_word [OF k, of f] by auto
  note o = outside_frame [OF Suc.prems(1,2) out]
  have step: "vcopy (d + ?i * 4) (e + ?i * 4) (Suc n) s = vcopy (d + ?i * 4 + 4) (e + ?i * 4 + 4) n ?s1"
    using walk_offset [OF Suc.prems(3) i Suc.prems(5)] walk_offset [OF Suc.prems(4) i Suc.prems(6)]
    by (simp add: vload_def vstore_def)
  have e: "x + ?i * 4 + 4 = x + of_nat (Suc k) * 4" for x :: u32 by (simp add: algebra_simps)
  have ih: "vcopy (d + of_nat (Suc k) * 4) (e + of_nat (Suc k) * 4) n ?s1 = Inr (?s1\<lparr>pmem := (\<lambda>x. if \<exists>i. Suc k \<le> i \<and> i < Suc k + n \<and>
      x = f + of_nat i * 4 then pmem ?s1 (x - f + g) else pmem ?s1 x)\<rparr>)"
    by (rule Suc.IH) (simp_all only: o Suc.prems simp_thms, use Suc.prems(9) in simp_all)
  have src: "pmem ?s1 (x - f + g) = pmem s (x - f + g)" if x: "x = f + of_nat j * 4" "j < 1024" for x j
  proof -
    have "unat (of_nat j :: u32) < 1024" using x(2) by simp
    then have "g + of_nat j * 4 \<noteq> f + ?i * 4"
      using entry_inject [OF Suc.prems(7) af, of "of_nat j" ?i] Suc.prems(8) k by simp
    then show ?thesis using x(1) by (simp add: add.commute)
  qed
  have fe: "(\<lambda>x. if \<exists>i. Suc k \<le> i \<and> i < Suc k + n \<and> x = f + of_nat i * 4 then pmem ?s1 (x - f + g) else pmem ?s1 x) =
      (\<lambda>x. if \<exists>i. k \<le> i \<and> i < k + Suc n \<and> x = f + of_nat i * 4 then pmem s (x - f + g) else pmem s x)"
  proof (rule ext)
    fix x
    show "(if \<exists>i. Suc k \<le> i \<and> i < Suc k + n \<and> x = f + of_nat i * 4 then pmem ?s1 (x - f + g) else pmem ?s1 x) =
      (if \<exists>i. k \<le> i \<and> i < k + Suc n \<and> x = f + of_nat i * 4 then pmem s (x - f + g) else pmem s x)"
    proof (cases "\<exists>i. Suc k \<le> i \<and> i < Suc k + n \<and> x = f + of_nat i * 4")
      case True
      then obtain j where j: "Suc k \<le> j" "j < Suc k + n" "x = f + of_nat j * 4" by blast
      then have "\<exists>i. k \<le> i \<and> i < k + Suc n \<and> x = f + of_nat i * 4" by (intro exI [of _ j]) simp
      then show ?thesis using True src [OF j(3)] j(2) Suc.prems(9) by simp
    next
      case False
      note ex = ex_range_Suc [of k n "\<lambda>i. x = f + of_nat i * 4"]
      show ?thesis
      proof (cases "x = f + ?i * 4")
        case T: True
        then have w: "pmem ?s1 x = pmem s (x - f + g)" by (simp add: add.commute)
        have "\<exists>i. k \<le> i \<and> i < k + Suc n \<and> x = f + of_nat i * 4" using T by (intro exI [of _ k]) simp
        then show ?thesis using False by (simp only: if_True if_False w)
      next
        case F: False
        then have w: "pmem ?s1 x = pmem s x" by simp
        have "\<not> (\<exists>i. k \<le> i \<and> i < k + Suc n \<and> x = f + of_nat i * 4)" unfolding ex using False F by blast
        then show ?thesis using False by (simp only: if_False w)
      qed
    qed
  qed
  show ?case unfolding step e ih fe by simp
qed

section \<open>A page for the kernel\<close>

text \<open>The lock of the kernel's pool is free.\<close>

definition lock_free :: "u32 \<Rightarrow> 'a kern_scheme \<Rightarrow> bool" where
  "lock_free l s \<longleftrightarrow> locks s l = \<lparr>holder = 0, holder_repeat_nr = 0\<rparr> \<and> semas s (sema_of l) = \<lparr>svalue = 1, waiters = []\<rparr> \<and>
     running_thread s \<noteq> 0"

text \<open>What \<open>get_kernel_pages\<close> changes besides the memory.\<close>

definition kmem_upd :: "'a msys_scheme \<Rightarrow> 'a msys_scheme \<Rightarrow> bool" where
  "kmem_upd s s' \<longleftrightarrow> (\<exists>m k u v. s' = s\<lparr>pmem := m, kernel_pool := k, user_pool := u, kernel_vaddr := v\<rparr>) \<and>
     pool_lock (kernel_pool s') = pool_lock (kernel_pool s)"

lemma malloc_kernel_page:
  assumes "mem_ok s" "vpool_ok PF_KERNEL s"
  shows "malloc_page PF_KERNEL 1 s \<in> {Inl Panic, Inr (0, s)} \<or>
    (\<exists>v f s'. malloc_page PF_KERNEL 1 s = Inr (v, s') \<and> v \<noteq> 0 \<and> aligned v \<and> PDE_IDX v \<noteq> 1023 \<and> walk s v = Inl Fault \<and>
      mem_ok s' \<and> vpool_ok PF_KERNEL s' \<and> walk s' v = Inr f \<and> fresh_frame s' f \<and> f \<in> free_frames PF_KERNEL s - free_frames PF_KERNEL s' \<and>
      aliases s' = aliases s \<and> cr3 s' = cr3 s \<and> (\<forall>u. PDE_IDX u \<noteq> 1023 \<and> \<not> aliases s u v \<longrightarrow> walk s' u = walk s u) \<and>
      (\<forall>pf. free_frames pf s' \<subseteq> free_frames pf s) \<and> kmem_upd s s')"
proof -
  let ?v = "kernel_vaddr s"
  let ?b = "vaddr_bitmap ?v"
  have tv: "the_vaddr PF_KERNEL s = ?v" by (simp add: the_vaddr_def)
  have vp: "small ?b" "aligned (vaddr_start ?v)"
    "\<And>i. i < n_bits ?b \<Longrightarrow> PDE_IDX (vpage ?v i) \<noteq> 1023 \<and> vpage ?v i \<noteq> 0 \<and> (\<not> is_set ?b i \<longrightarrow> walk s (vpage ?v i) = Inl Fault)"
    using assms(2) by (simp_all add: vpool_ok_def Let_def tv)
  have one: "unat (1 :: u32) = 1" by simp
  have mp: "malloc_page PF_KERNEL 1 s = bnd (vaddr_get PF_KERNEL 1 s) (\<lambda>(start, s).
      if start = 0 then Inr (0, s)
      else bnd (map_pages PF_KERNEL start 1 s) (\<lambda>(ok, s). if ok then Inr (start, s) else Inr (0, s)))"
    unfolding malloc_page_def one by simp
  have le: "1 \<le> unat (1 :: u32)" by simp
  from vaddr_get_ok [OF assms(2) le] show ?thesis unfolding tv
  proof (elim disjE exE conjE)
    assume "vaddr_get PF_KERNEL 1 s \<in> {Inl Panic, Inr (0, s)}"
    then show ?thesis unfolding mp by auto
  next
    fix st b
    assume g: "st + unat (1 :: u32) \<le> n_bits ?b" "\<forall>k < unat (1 :: u32). \<not> is_set ?b (st + k)"
      "vaddr_get PF_KERNEL 1 s = Inr (vpage ?v st, set_vmap PF_KERNEL b s)" "n_bits b = n_bits ?b"
      "\<forall>k < 2147483648. is_set b k \<longleftrightarrow> is_set ?b k \<or> st \<le> k \<and> k < st + unat (1 :: u32)"
    let ?s1 = "set_vmap PF_KERNEL b s" and ?p = "vpage ?v st"
    have p: "PDE_IDX ?p \<noteq> 1023" "?p \<noteq> 0" "walk s ?p = Inl Fault" "aligned ?p"
      using vp(3) [of st] g(1,2) aligned_add_page [OF vp(2)] by (simp_all add: vpage_def)
    have same: "walk ?s1 = walk s" "aliases ?s1 = aliases s" "fresh_frame ?s1 = fresh_frame s" by (rule translation_same; simp)+
    have ff: "free_frames pf' ?s1 = free_frames pf' s" for pf' by (rule free_frames_the_pool) simp
    have m1: "mem_ok ?s1" using mem_ok_same [of ?s1 s] assms(1) by simp
    have ok: "pools_ok ?s1" using m1 by (simp add: mem_ok_def)
    have step: "malloc_page PF_KERNEL 1 s = bnd (palloc_from PF_KERNEL ?s1) (\<lambda>(page_phyaddr, s).
        if page_phyaddr = 0 then Inr (0, s) else bnd (page_table_add ?p page_phyaddr s) (\<lambda>s. Inr (?p, s)))"
      using p(2) unfolding mp g(3) by (auto simp: One_nat_def bnd_def split: sum.splits prod.splits)
    show ?thesis
    proof (cases "palloc_from PF_KERNEL ?s1")
      case (Inl e)
      then have "e = Panic" using palloc_from_panics [OF ok] by blast
      then show ?thesis using Inl by (simp add: step)
    next
      case (Inr x)
      then obtain f s2 where f: "palloc_from PF_KERNEL ?s1 = Inr (f, s2)" by (cases x) auto
      note pst = palloc_from_step [OF ok f] and m2 = palloc_from_mem_ok [OF m1 f]
      note same2 = translation_same [OF palloc_from_fields(1,2) [OF f]]
      have w2: "walk s2 ?p = Inl Fault" using p(3) same same2 by simp
      from page_table_add_mem [OF m2(1) p(1) w2 pst(5)] show ?thesis
      proof (elim disjE exE conjE)
        assume "page_table_add ?p f s2 = Inl Panic"
        then show ?thesis using f pst(6) by (simp add: step)
      next
        fix s'
        assume h: "page_table_add ?p f s2 = Inr s'" "mem_ok s'" "\<forall>pf. free_frames pf s' \<subseteq> free_frames pf s2" "aliases s' = aliases s2"
          "\<forall>u. PDE_IDX u \<noteq> 1023 \<longrightarrow> walk s' u = (if aliases s2 u ?p then Inr (f + (u AND 0xfff)) else walk s2 u)"
        have r: "malloc_page PF_KERNEL 1 s = Inr (?p, s')" using f pst(6) h(1) by (simp add: step)
        have fr: "fresh_frame s2 f" using m1 pst(2) same2 by (simp add: mem_ok_def)
        have nf: "f \<notin> free_frames PF_KERNEL s2" using pst(3) by simp
        have fresh: "fresh_frame s' f" by (rule page_table_add_fresh [OF m2(1) p(1) w2 h(1) fr nf])
        have wf: "walk s' ?p = Inr f" using h(5) p(1) aligned_offset_0 [OF p(4)] by simp
        have al: "aliases s' = aliases s" using h(4) same same2 by simp
        have oth: "\<forall>u. PDE_IDX u \<noteq> 1023 \<and> \<not> aliases s u ?p \<longrightarrow> walk s' u = walk s u" using h(5) same same2 by simp
        have mem: "only_memory ?s1 s'" by (rule only_memory_trans [OF only_memory_palloc [OF f] only_memory_add [OF h(1)]])
        have v': "the_vaddr PF_KERNEL s' = ?v\<lparr>vaddr_bitmap := b\<rparr>" using only_memory_vaddr [OF mem, of PF_KERNEL] tv by simp
        have nb: "n_bits ?b < 2147483648" using vp(1) by (simp add: small_def)
        have set: "is_set b k \<longleftrightarrow> is_set ?b k \<or> st \<le> k \<and> k < st + 1" if "k \<le> n_bits ?b" for k
          using that nb g(5) by simp
        have vpo: "vpool_ok PF_KERNEL s'"
          by (rule vpool_ok_taken [OF assms(2), of st 1 b s', unfolded tv]) (use g(1,4) set v' al oth in simp_all)
        have c: "cr3 s' = cr3 s" using mem by (auto simp: only_memory_def set_vmap_def)
        have ku: "kmem_upd s s'"
        proof -
          from mem obtain m k u where "s' = ?s1\<lparr>pmem := m, kernel_pool := k, user_pool := u\<rparr>" "pool_lock k = pool_lock (kernel_pool ?s1)"
            unfolding only_memory_def by blast
          then have "s' = s\<lparr>pmem := m, kernel_pool := k, user_pool := u, kernel_vaddr := ?v\<lparr>vaddr_bitmap := b\<rparr>\<rparr>"
            "pool_lock (kernel_pool s') = pool_lock (kernel_pool s)" by (simp_all add: set_vmap_def)
          then show ?thesis unfolding kmem_upd_def by blast
        qed
        have "f \<in> free_frames PF_KERNEL s - free_frames PF_KERNEL s'" using pst(2) nf h(3) ff by auto
        moreover have "\<forall>pf. free_frames pf s' \<subseteq> free_frames pf s" using h(3) m2(2) ff by blast
        ultimately show ?thesis using r p h(2) vpo wf fresh al c oth ku by blast
      qed
    qed
  qed
qed

text \<open>Room for one more page: a virtual page, a frame, and a frame for a table.\<close>

definition room :: "'a msys_scheme \<Rightarrow> bool" where
  "room s \<longleftrightarrow> (\<exists>i < n_bits (vaddr_bitmap (kernel_vaddr s)). \<not> is_set (vaddr_bitmap (kernel_vaddr s)) i) \<and>
     (\<exists>f g. f \<in> free_frames PF_KERNEL s \<and> g \<in> free_frames PF_KERNEL s \<and> f \<noteq> g)"

lemma vaddr_get_room:
  assumes "vpool_ok PF_KERNEL s" "room s"
  shows "\<exists>v b. vaddr_get PF_KERNEL 1 s = Inr (v, set_vmap PF_KERNEL b s) \<and> v \<noteq> 0 \<and> PDE_IDX v \<noteq> 1023 \<and> walk s v = Inl Fault"
proof -
  let ?v = "kernel_vaddr s"
  let ?b = "vaddr_bitmap ?v"
  have tv: "the_vaddr PF_KERNEL s = ?v" by (simp add: the_vaddr_def)
  have sm: "small ?b" and vp: "\<And>i. i < n_bits ?b \<Longrightarrow> PDE_IDX (vpage ?v i) \<noteq> 1023 \<and> vpage ?v i \<noteq> 0 \<and>
      (\<not> is_set ?b i \<longrightarrow> walk s (vpage ?v i) = Inl Fault)"
    using assms(1) by (simp_all add: vpool_ok_def Let_def tv)
  have "\<exists>i. i < n_bits ?b \<and> \<not> is_set ?b i" using assms(2) by (auto simp: room_def)
  then obtain i where i: "i < n_bits ?b" "\<not> is_set ?b i" "\<forall>k < i. \<not> (k < n_bits ?b \<and> \<not> is_set ?b k)"
    using exists_least_iff [of "\<lambda>i. i < n_bits ?b \<and> \<not> is_set ?b i"] by blast
  then have "\<forall>k < i. is_set ?b k" by auto
  then have sc: "bitmap_scan ?b 1 = Inr (of_nat i)" using bitmap_scan_one [OF sm] i by blast
  have lim: "i + 1 < 2147483648" using i(1) sm by (simp add: small_def)
  then have n1: "(of_nat i :: u32) \<noteq> - 1"
  proof -
    have "unat (of_nat i :: u32) < 4294967295" using lim by simp
    moreover have "unat (- 1 :: u32) = 4294967295" by (simp add: unsigned_minus_1_eq_mask mask_eq_exp_minus_1)
    ultimately show ?thesis by (metis less_irrefl)
  qed
  from set_bits_spec [OF lim, of ?b] obtain b where b: "set_bits (of_nat i) 1 1 ?b = Inr b" by blast
  have u1: "unat (1 :: u32) = 1" by simp
  have "vaddr_get PF_KERNEL 1 s = Inr (vpage ?v i, set_vmap PF_KERNEL b s)"
    unfolding vaddr_get_def Let_def tv sc bnd_Inr u1 b using n1 by (simp add: vpage_def)
  then show ?thesis using vp [OF i(1)] i(2) by blast
qed

lemma malloc_kernel_page_room:
  assumes "mem_ok s" "vpool_ok PF_KERNEL s" "room s"
  shows "malloc_page PF_KERNEL 1 s \<notin> {Inl Panic, Inr (0, s)}"
proof -
  from vaddr_get_room [OF assms(2,3)] obtain v b where v: "vaddr_get PF_KERNEL 1 s = Inr (v, set_vmap PF_KERNEL b s)" "v \<noteq> 0"
    "PDE_IDX v \<noteq> 1023" "walk s v = Inl Fault" by blast
  let ?s1 = "set_vmap PF_KERNEL b s"
  have same: "walk ?s1 = walk s" by (rule translation_same; simp)
  have ff: "free_frames pf' ?s1 = free_frames pf' s" for pf' by (rule free_frames_the_pool) simp
  have m1: "mem_ok ?s1" using mem_ok_same [of ?s1 s] assms(1) by simp
  have ok: "pools_ok ?s1" using m1 by (simp add: mem_ok_def)
  have ne: "free_frames PF_KERNEL ?s1 \<noteq> {}" using assms(3) ff by (auto simp: room_def)
  have "\<exists>f s2. palloc_from PF_KERNEL ?s1 = Inr (f, s2)"
  proof (cases "palloc_from PF_KERNEL ?s1")
    case (Inl e)
    then show ?thesis using palloc_from_panics [OF ok, of PF_KERNEL e] ne by simp
  qed auto
  then obtain f s2 where f: "palloc_from PF_KERNEL ?s1 = Inr (f, s2)" by blast
  note pst = palloc_from_step [OF ok f] and m2 = palloc_from_mem_ok [OF m1 f]
  note same2 = translation_same [OF palloc_from_fields(1,2) [OF f]]
  have "\<exists>s'. page_table_add v f s2 = Inr s'"
  proof -
    have ok2: "pools_ok s2" "tables_ok s2" using m2(1) by (simp_all add: mem_ok_def)
    have ne2: "free_frames PF_KERNEL s2 \<noteq> {}" using assms(3) ff pst(3) by (auto simp: room_def)
    have "\<exists>g s3. palloc_from PF_KERNEL s2 = Inr (g, s3) \<and> fresh_frame s2 g"
    proof (cases "palloc_from PF_KERNEL s2")
      case (Inl e)
      then show ?thesis using palloc_from_panics [OF ok2(1), of PF_KERNEL e] ne2 by simp
    next
      case (Inr x)
      then obtain g s3 where g: "palloc_from PF_KERNEL s2 = Inr (g, s3)" by (cases x) auto
      then show ?thesis using palloc_from_step(2) [OF ok2(1) g] m2(1) by (auto simp: mem_ok_def)
    qed
    then show ?thesis using page_table_add_ok [OF ok2(2) v(3) _ pst(5)] v(4) same same2 by auto
  qed
  then obtain s' where s': "page_table_add v f s2 = Inr s'" by blast
  have u1: "unat (1 :: u32) = 1" by simp
  have mp: "map_pages PF_KERNEL v 1 ?s1 = Inr (True, s')"
    using f s' pst(6) by (simp add: One_nat_def)
  have "malloc_page PF_KERNEL 1 s = Inr (v, s')" unfolding malloc_page_def u1 v(1) using v(2) mp by simp
  then show ?thesis using v(2) by simp
qed

lemma vpool_ok_same:
  assumes "pmem s' = pmem s" "cr3 s' = cr3 s" "the_vaddr pf s' = the_vaddr pf s"
  shows "vpool_ok pf s' = vpool_ok pf s"
  using translation_same [OF assms(1,2)] assms(3) by (simp add: vpool_ok_def Let_def)

lemma get_kernel_page:
  fixes s :: "'a msys_scheme"
  assumes "mem_ok s" "vpool_ok PF_KERNEL s" "lock_free (pool_lock (kernel_pool s)) s"
  shows "get_kernel_pages 1 s \<in> {Inl Panic, Inr (0, s)} \<and> \<not> room s \<or>
    (\<exists>v f s'. get_kernel_pages 1 s = Inr (v, s') \<and> v \<noteq> 0 \<and> aligned v \<and> PDE_IDX v \<noteq> 1023 \<and> walk s v = Inl Fault \<and>
      mem_ok s' \<and> vpool_ok PF_KERNEL s' \<and> walk s' v = Inr f \<and> fresh_frame s' f \<and> f \<in> free_frames PF_KERNEL s - free_frames PF_KERNEL s' \<and>
      aliases s' = aliases s \<and> cr3 s' = cr3 s \<and> (\<forall>u. PDE_IDX u \<noteq> 1023 \<and> \<not> aliases s u v \<longrightarrow> walk s' u = walk s u) \<and>
      (\<forall>x \<in> frame f. pmem s' x = 0) \<and> kmem_upd s s')"
proof -
  let ?l = "pool_lock (kernel_pool s)"
  have lk: "locks s ?l = \<lparr>holder = 0, holder_repeat_nr = 0\<rparr>" "semas s (sema_of ?l) = \<lparr>svalue = 1, waiters = []\<rparr>" "running_thread s \<noteq> 0"
    using assms(3) by (simp_all add: lock_free_def)
  define t where "t = locked ?l s"
  have t: "pmem t = pmem s" "cr3 t = cr3 s" "kernel_pool t = kernel_pool s" "user_pool t = user_pool s"
    "the_vaddr PF_KERNEL t = the_vaddr PF_KERNEL s"
    by (simp_all add: t_def locked_def the_vaddr_def)
  have tf: "free_frames pf t = free_frames pf s" for pf by (rule free_frames_the_pool) (simp add: the_pool_def t)
  note tt = translation_same [OF t(1,2)]
  have m: "mem_ok t" "vpool_ok PF_KERNEL t" using assms mem_ok_same [OF t(1-4)] vpool_ok_same [OF t(1,2,5)] by simp_all
  note acq = lock_acquire_locked [OF lk]
  have n: "unat (1 * PG_SIZE) div 4 = 1024" by (simp add: PG_SIZE_def)
  have g: "get_kernel_pages 1 s = bnd (malloc_page PF_KERNEL 1 t) (\<lambda>(vaddr, s).
      bnd (if vaddr \<noteq> 0 then vzero vaddr 1024 s else Inr s) (\<lambda>s.
      bnd (lock_release_now (pool_lock (kernel_pool s)) s) (\<lambda>s. Inr (vaddr, s))))"
    unfolding get_kernel_pages_def n by (simp add: acq t_def)
  from malloc_kernel_page [OF m] show ?thesis
  proof (elim disjE exE conjE)
    assume "malloc_page PF_KERNEL 1 t \<in> {Inl Panic, Inr (0, t)}"
    moreover have "room s = room t" unfolding room_def tf by (simp add: t_def locked_def)
    ultimately show ?thesis using malloc_kernel_page_room [OF m] lock_release_locked [OF lk(1,2)] t(3) unfolding g
      by (auto simp: t_def)
  next
    fix v f t1
    assume h: "malloc_page PF_KERNEL 1 t = Inr (v, t1)" "v \<noteq> 0" "aligned v" "PDE_IDX v \<noteq> 1023" "walk t v = Inl Fault" "mem_ok t1"
      "vpool_ok PF_KERNEL t1" "walk t1 v = Inr f" "fresh_frame t1 f" "f \<in> free_frames PF_KERNEL t - free_frames PF_KERNEL t1"
      "aliases t1 = aliases t" "cr3 t1 = cr3 t" "\<forall>u. PDE_IDX u \<noteq> 1023 \<and> \<not> aliases t u v \<longrightarrow> walk t1 u = walk t u" "kmem_upd t t1"
    have tk: "tables_ok t1" using h(6) by (simp add: mem_ok_def)
    then have al: "aligned f" "aligned (cr3 t1)" "f \<noteq> cr3 t1" using h(9) by (simp_all add: fresh_frame_def tables_ok_def self_mapped_def)
    have pv: "present t1 v" using h(8) by (simp add: walk_eq split: if_splits)
    then have nt: "table_of t1 v \<noteq> f" using h(9) by (auto simp: fresh_frame_def)
    have vz: "vzero v 1024 t1 = Inr (t1\<lparr>pmem := (\<lambda>x. if x \<in> frame f then 0 else pmem t1 x)\<rparr>)"
      using frame_entry [OF al(1,2) idx_less(1) [of v]] frame_entry [OF al(1) aligned_table [of t1 v] idx_less(2) [of v]] al nt
      by (intro vzero_page [OF h(3,8) al(1)]) simp_all
    define m1 where "m1 = (\<lambda>x. if x \<in> frame f then 0 else pmem t1 x)"
    have out: "m1 x = pmem t1 x" if "x \<notin> frame f" for x using that by (simp add: m1_def)
    note o = outside_frame [OF tk h(9) out]
    obtain m' k' u' v' where t1: "t1 = t\<lparr>pmem := m', kernel_pool := k', user_pool := u', kernel_vaddr := v'\<rparr>" "pool_lock k' = ?l"
      using h(14) t(3) by (auto simp: kmem_upd_def)
    define s' where "s' = s\<lparr>pmem := m1, kernel_pool := k', user_pool := u', kernel_vaddr := v'\<rparr>"
    have lock: "t1\<lparr>pmem := m1\<rparr> = locked ?l s'" by (simp add: t1(1) s'_def t_def locked_def)
    have "lock_release_now ?l (locked ?l s') = Inr s'"
      by (rule lock_release_locked) (use lk in \<open>simp_all add: s'_def\<close>)
    moreover have "pool_lock (kernel_pool (locked ?l s')) = ?l" by (simp add: locked_def s'_def t1(2))
    ultimately have r: "get_kernel_pages 1 s = Inr (v, s')"
      unfolding g h(1) using h(2) vz lock by (simp add: m1_def)
    have e: "pmem s' = pmem (t1\<lparr>pmem := m1\<rparr>)" "cr3 s' = cr3 (t1\<lparr>pmem := m1\<rparr>)" "kernel_pool s' = kernel_pool (t1\<lparr>pmem := m1\<rparr>)"
      "user_pool s' = user_pool (t1\<lparr>pmem := m1\<rparr>)" "the_vaddr PF_KERNEL s' = the_vaddr PF_KERNEL (t1\<lparr>pmem := m1\<rparr>)"
      by (simp_all add: s'_def t1(1) t_def locked_def the_vaddr_def)
    note ss = translation_same [OF e(1,2)]
    have fr: "free_frames pf s' = free_frames pf t1" for pf by (rule free_frames_the_pool) (simp add: the_pool_def e)
    have "free_frames PF_KERNEL (t1\<lparr>pmem := m1\<rparr>) = free_frames PF_KERNEL t1" by (rule free_frames_the_pool) (simp add: the_pool_def)
    then have mk: "mem_ok (t1\<lparr>pmem := m1\<rparr>)" using h(6) o by (simp add: mem_ok_def pools_ok_def)
    have "vpool_ok PF_KERNEL (t1\<lparr>pmem := m1\<rparr>)" using h(7) o(4,7) by (simp add: vpool_ok_def Let_def the_vaddr_def)
    then have v: "vpool_ok PF_KERNEL s'" using vpool_ok_same [OF e(1,2,5)] by simp
    have "mem_ok s'" using mk mem_ok_same [OF e(1-4)] by simp
    moreover have "walk s' = walk t1" "aliases s' = aliases t1" "fresh_frame s' = fresh_frame t1" using ss o by simp_all
    moreover have "cr3 s' = cr3 s" "\<forall>x \<in> frame f. pmem s' x = 0" by (simp_all add: s'_def m1_def)
    moreover have "kmem_upd s s'" unfolding kmem_upd_def s'_def using t1(2) by auto
    ultimately show ?thesis
      using r h(2-13) v tt tf fr by (intro disjI2 exI [of _ v] exI [of _ f] exI [of _ s']) simp
  qed
qed

section \<open>The page directory of a process\<close>

text \<open>The entries of the new directory: the upper quarter copied from the current one, the last entry for itself.\<close>

lemma copied_entries:
  fixes D :: u32
  assumes al: "aligned f" and zero: "\<forall>x \<in> frame f. M x = 0" and i: "unat i < 1024"
  defines "cp \<equiv> (\<lambda>x. if \<exists>i. 768 \<le> i \<and> i < 768 + 256 \<and> x = f + of_nat i * 4 then M (x - f + D) else M x)"
  shows "(cp(f + 1023 * 4 := e)) (f + i * 4) = (if i = 1023 then e else if 768 \<le> unat i then M (D + i * 4) else 0)"
proof -
  have eq: "f + i * 4 = f + j * 4 \<longleftrightarrow> i = j" if "unat j < 1024" for j using entry_inject [OF al(1,1) i that] by simp
  have "(\<exists>j. 768 \<le> j \<and> j < 768 + 256 \<and> f + i * 4 = f + of_nat j * 4) \<longleftrightarrow> 768 \<le> unat i"
  proof
    assume "\<exists>j. 768 \<le> j \<and> j < 768 + 256 \<and> f + i * 4 = f + of_nat j * 4"
    then obtain j where j: "768 \<le> j" "j < 1024" "f + i * 4 = f + of_nat j * 4" by auto
    then have "i = of_nat j" using eq [of "of_nat j"] by simp
    then show "768 \<le> unat i" using j by simp
  next
    assume "768 \<le> unat i"
    then show "\<exists>j. 768 \<le> j \<and> j < 768 + 256 \<and> f + i * 4 = f + of_nat j * 4" using i by (intro exI [of _ "unat i"]) simp
  qed
  then have "cp (f + i * 4) = (if 768 \<le> unat i then M (D + i * 4) else 0)"
    using zero frame_word [OF i, of f] by (simp add: cp_def add.commute)
  then show ?thesis using eq [of 1023] by simp
qed

text \<open>What such a directory translates, once it is in \<open>cr3\<close>.\<close>

lemma new_directory:
  assumes fr: "fresh_frame s1 f" and same: "pde_of s' = pde_of s1"
    and dir: "\<And>i. unat i < 1024 \<Longrightarrow> pmem s' (f + i * 4) =
      (if i = 1023 then f OR PG_US_U OR PG_RW_W OR PG_P_1 else if 768 \<le> unat i then pmem s1 (cr3 s1 + i * 4) else 0)"
  shows "tables_ok (s'\<lparr>cr3 := f\<rparr>)"
    and "0xc0000000 \<le> u \<Longrightarrow> PDE_IDX u \<noteq> 1023 \<Longrightarrow> walk (s'\<lparr>cr3 := f\<rparr>) u = walk s' u"
    and "u < 0xc0000000 \<Longrightarrow> walk (s'\<lparr>cr3 := f\<rparr>) u = Inl Fault"
proof -
  let ?d = "s'\<lparr>cr3 := f\<rparr>"
  define e where "e = f OR PG_US_U OR PG_RW_W OR PG_P_1"
  have al: "aligned f" using fr by (simp add: fresh_frame_def)
  have pm: "pde_of s1 u = pmem s1 (cr3 s1 + PDE_IDX u * 4)" for u by (simp add: pde_of_def)
  have pd: "pde_of ?d u = (if PDE_IDX u = 1023 then e else if 768 \<le> unat (PDE_IDX u) then pde_of s' u else 0)" for u
    using dir [OF idx_less(1), of u] same pm [of u] by (simp add: pde_of_def e_def)
  have fl: "e AND 1 \<noteq> 0" "e AND 0xfffff000 = f" using flags_page [OF al] by (simp_all add: e_def)
  have "pmem s' (f + 1023 * 4) = e" using dir [of 1023] by (simp add: e_def)
  then have "self_mapped ?d" using fl al by (simp add: self_mapped_def)
  moreover have "table_of ?d a \<noteq> f" if a: "present ?d a" "PDE_IDX a \<noteq> 1023" for a
  proof -
    have "pde_of ?d a = pde_of s' a" using pd [of a] a by (auto simp: present_def split: if_splits)
    then show ?thesis using a(1) fr same by (simp add: present_def table_of_def fresh_frame_def)
  qed
  ultimately show "tables_ok ?d" by (simp add: tables_ok_def)
  show "walk ?d u = walk s' u" if u: "0xc0000000 \<le> u" "PDE_IDX u \<noteq> 1023"
  proof -
    have "3221225472 \<le> unat u" using u(1) by (simp add: word_le_nat_alt)
    then have "768 \<le> unat (PDE_IDX u)" unfolding unat_PDE_IDX by linarith
    then show ?thesis using pd [of u] u(2) by (simp add: walk_eq present_def pte_of_def table_of_def)
  qed
  show "walk ?d u = Inl Fault" if "u < 0xc0000000"
  proof -
    have "unat u < 3221225472" using that by (simp add: word_less_nat_alt)
    then have "unat (PDE_IDX u) < 768" unfolding unat_PDE_IDX by (simp add: less_mult_imp_div_less)
    then show ?thesis using pd [of u] by (auto simp: walk_eq present_def)
  qed
qed

text \<open>C25: the directory that \<open>create_page_dir\<close> makes, when there is room for a page, has the kernel's half of the address space in common with
  the current directory and maps no user page: once it is in \<open>cr3\<close> every address of the kernel is translated
  as before, user addresses fault, and the last entry points to the directory itself, so that the
  functions on page tables work in the new address space. Nothing but the new page is mapped in the current directory.\<close>

theorem create_page_dir_shares_kernel:
  assumes "mem_ok s" "vpool_ok PF_KERNEL s" "lock_free (pool_lock (kernel_pool s)) s" "room s"
  shows "\<exists>v f s'. create_page_dir s = Inr (v, s') \<and> addr_v2p s' v = Inr f \<and> mem_ok s' \<and> vpool_ok PF_KERNEL s' \<and>
      tables_ok (s'\<lparr>cr3 := f\<rparr>) \<and>
      (\<forall>u. 0xc0000000 \<le> u \<and> PDE_IDX u \<noteq> 1023 \<longrightarrow> walk (s'\<lparr>cr3 := f\<rparr>) u = walk s' u) \<and>
      (\<forall>u < 0xc0000000. walk (s'\<lparr>cr3 := f\<rparr>) u = Inl Fault) \<and>
      (\<forall>u. PDE_IDX u \<noteq> 1023 \<and> \<not> aliases s u v \<longrightarrow> walk s' u = walk s u)"
proof -
  from get_kernel_page [OF assms(1-3)] show ?thesis
  proof (elim disjE exE conjE)
    assume "\<not> room s"
    then show ?thesis using assms(4) by simp
  next
    fix v f s1
    assume h: "get_kernel_pages 1 s = Inr (v, s1)" "v \<noteq> 0" "aligned v" "PDE_IDX v \<noteq> 1023" "mem_ok s1" "vpool_ok PF_KERNEL s1"
      "walk s1 v = Inr f" "fresh_frame s1 f" "cr3 s1 = cr3 s" "\<forall>u. PDE_IDX u \<noteq> 1023 \<and> \<not> aliases s u v \<longrightarrow> walk s1 u = walk s u"
      "\<forall>x \<in> frame f. pmem s1 x = 0"
    have tk: "tables_ok s1" "self_mapped s1" using h(5) by (simp_all add: mem_ok_def tables_ok_def)
    then have al: "aligned f" "aligned (cr3 s1)" "f \<noteq> cr3 s1" using h(8) by (simp_all add: fresh_frame_def self_mapped_def)
    have "PDE_IDX 0 = 0" by (simp add: PDE_IDX_def)
    then have src: "aligned 0xfffff000" "walk s1 0xfffff000 = Inr (cr3 s1)"
      using walk_pde_ptr [OF tk(2), of 0] by (simp_all add: aligned_def pde_ptr_def)
    define cp where "cp = (\<lambda>x. if \<exists>i. 768 \<le> i \<and> i < 768 + 256 \<and> x = f + of_nat i * 4 then pmem s1 (x - f + cr3 s1) else pmem s1 x)"
    have "vcopy (v + of_nat 768 * 4) (0xfffff000 + of_nat 768 * 4) 256 s1 = Inr (s1\<lparr>pmem := cp\<rparr>)"
      unfolding cp_def by (rule vcopy_loop [OF tk(1) h(8,3) src(1) h(7) src(2) al(2)]) (use al in auto)
    then have vc: "vcopy (v + 0x300 * 4) (0xfffff000 + 0x300 * 4) 256 s1 = Inr (s1\<lparr>pmem := cp\<rparr>)" by simp
    define e where "e = f OR PG_US_U OR PG_RW_W OR PG_P_1"
    define m where "m = cp(f + 1023 * 4 := e)"
    define s' where "s' = s1\<lparr>pmem := m\<rparr>"
    have out: "cp x = pmem s1 x" "m x = pmem s1 x" if "x \<notin> frame f" for x
      using that frame_word [of _ f] frame_word [of 1023 f] by (auto simp: cp_def m_def)
    note o = outside_frame [OF tk(1) h(8) out(1)] and o' = outside_frame [OF tk(1) h(8) out(2), folded s'_def]
    have w3: "walk (s1\<lparr>pmem := cp\<rparr>) v = Inr f" using h(7) o by simp
    have "self_mapped (s1\<lparr>pmem := cp\<rparr>)" using o(5) by (simp add: tables_ok_def)
    note v2p = addr_v2p_walk [OF this w3]
    have st: "vstore (v + 1023 * 4) e (s1\<lparr>pmem := cp\<rparr>) = Inr s'"
      using walk_offset [OF h(3) _ w3, of "1023 * 4"] by (simp add: vstore_def s'_def m_def)
    have r: "create_page_dir s = Inr (v, s')"
      using h(1,2) vc v2p st by (simp add: create_page_dir_def e_def)
    have sm: "self_mapped s'" "walk s' v = Inr f" using o'(4,5) h(7) by (simp_all add: tables_ok_def)
    have dir: "pmem s' (f + i * 4) = (if i = 1023 then f OR PG_US_U OR PG_RW_W OR PG_P_1 else if 768 \<le> unat i then pmem s1 (cr3 s1 + i * 4) else 0)"
      if "unat i < 1024" for i
    proof -
      have "pmem s' = m" by (simp add: s'_def)
      then show ?thesis unfolding m_def cp_def e_def by (simp only: copied_entries [OF al(1) h(11) that])
    qed
    note nd = new_directory [OF h(8) o'(1) dir]
    have "mem_ok s'"
    proof -
      have "free_frames PF_KERNEL s' = free_frames PF_KERNEL s1" by (rule free_frames_the_pool) (simp add: the_pool_def s'_def)
      then show ?thesis using h(5) o' by (simp add: mem_ok_def pools_ok_def s'_def)
    qed
    moreover have "vpool_ok PF_KERNEL s'" using h(6) o'(4,7) by (simp add: vpool_ok_def Let_def the_vaddr_def s'_def)
    ultimately show ?thesis
      using r addr_v2p_walk [OF sm] nd h(10) o'(4) by (intro exI [of _ v] exI [of _ f] exI [of _ s']) simp
  qed
qed

section \<open>Entering user mode\<close>

lemma page_table_add_room:
  assumes "mem_ok s" "PDE_IDX v \<noteq> 1023" "walk s v = Inl Fault" "aligned p" "present s v \<or> free_frames PF_KERNEL s \<noteq> {}"
  shows "\<exists>s'. page_table_add v p s = Inr s' \<and> mem_ok s' \<and> (\<forall>pf. free_frames pf s' \<subseteq> free_frames pf s) \<and> aliases s' = aliases s \<and>
    (\<forall>u. PDE_IDX u \<noteq> 1023 \<longrightarrow> walk s' u = (if aliases s u v then Inr (p + (u AND 0xfff)) else walk s u))"
proof -
  have ok: "pools_ok s" "tables_ok s" using assms(1) by (simp_all add: mem_ok_def)
  have "\<exists>g s3. palloc_from PF_KERNEL s = Inr (g, s3) \<and> fresh_frame s g" if "\<not> present s v"
  proof (cases "palloc_from PF_KERNEL s")
    case (Inl e)
    then show ?thesis using palloc_from_panics [OF ok(1), of PF_KERNEL e] assms(5) that by simp
  next
    case (Inr x)
    then obtain g s3 where g: "palloc_from PF_KERNEL s = Inr (g, s3)" by (cases x) auto
    then show ?thesis using palloc_from_step(2) [OF ok(1) g] assms(1) by (auto simp: mem_ok_def)
  qed
  from page_table_add_ok [OF ok(2) assms(2-4) this] page_table_add_mem [OF assms(1-4)] show ?thesis by auto
qed

lemma get_a_page_user:
  fixes s :: "'a msys_scheme"
  defines "v0 \<equiv> userprog_vaddr s (running_thread s)"
  assumes ok: "mem_ok s" and lf: "lock_free (pool_lock (user_pool s)) s" and pd: "pgdir (tasks s (running_thread s)) \<noteq> 0"
    and idx: "sint ((v - vaddr_start v0) div PG_SIZE) > 0" and v: "PDE_IDX v \<noteq> 1023" "walk s v = Inl Fault" "aligned v"
    and room: "free_frames PF_USER s \<noteq> {}" "present s v \<or> free_frames PF_KERNEL s \<noteq> {}"
  shows "\<exists>f s' b m k u. get_a_page PF_USER v s = Inr (v, s') \<and> f \<in> free_frames PF_USER s - free_frames PF_USER s' \<and> mem_ok s' \<and>
    (\<forall>u. PDE_IDX u \<noteq> 1023 \<longrightarrow> walk s' u = (if aliases s u v then Inr (f + (u AND 0xfff)) else walk s u)) \<and>
    bitmap_set (vaddr_bitmap v0) ((v - vaddr_start v0) div PG_SIZE) 1 = Inr b \<and>
    s' = s\<lparr>pmem := m, kernel_pool := k, user_pool := u,
           userprog_vaddr := (userprog_vaddr s)(running_thread s := v0\<lparr>vaddr_bitmap := b\<rparr>)\<rparr>"
proof -
  let ?l = "pool_lock (user_pool s)" and ?i = "(v - vaddr_start v0) div PG_SIZE"
  have lk: "locks s ?l = \<lparr>holder = 0, holder_repeat_nr = 0\<rparr>" "semas s (sema_of ?l) = \<lparr>svalue = 1, waiters = []\<rparr>" "running_thread s \<noteq> 0"
    using lf by (simp_all add: lock_free_def)
  note acq = lock_acquire_locked [OF lk]
  obtain b where b: "bitmap_set (vaddr_bitmap v0) ?i 1 = Inr b" using bitmap_set_ok by blast
  define t where "t = set_vmap PF_USER b (locked ?l s)"
  have t: "pmem t = pmem s" "cr3 t = cr3 s" "kernel_pool t = kernel_pool s" "user_pool t = user_pool s"
    by (simp_all add: t_def locked_def set_vmap_def)
  note tt = translation_same [OF t(1,2)]
  have tf: "free_frames pf t = free_frames pf s" for pf by (rule free_frames_the_pool) (simp add: the_pool_def t)
  have tm: "mem_ok t" using ok mem_ok_same [OF t] by simp
  have tp: "pools_ok t" using tm by (simp add: mem_ok_def)
  have "\<exists>f t1. palloc_from PF_USER t = Inr (f, t1)"
  proof (cases "palloc_from PF_USER t")
    case (Inl e)
    then show ?thesis using palloc_from_panics [OF tp, of PF_USER e] room(1) tf by simp
  qed auto
  then obtain f t1 where f: "palloc_from PF_USER t = Inr (f, t1)" by blast
  note st = palloc_from_step [OF tp f] and m1 = palloc_from_mem_ok [OF tm f]
  note same = translation_same [OF palloc_from_fields(1,2) [OF f]]
  have kf: "free_frames PF_KERNEL t1 = free_frames PF_KERNEL s" using free_frames_the_pool [OF st(4), of PF_KERNEL] tf by simp
  have p1: "walk t1 v = Inl Fault" "present t1 v \<or> free_frames PF_KERNEL t1 \<noteq> {}"
    using v(2) room(2) same tt kf by simp_all
  from page_table_add_room [OF m1(1) v(1) p1(1) st(5) p1(2)] obtain t2 where t2: "page_table_add v f t1 = Inr t2" "mem_ok t2"
    "\<forall>pf. free_frames pf t2 \<subseteq> free_frames pf t1"
    "\<forall>u. PDE_IDX u \<noteq> 1023 \<longrightarrow> walk t2 u = (if aliases t1 u v then Inr (f + (u AND 0xfff)) else walk t1 u)" by blast
  from only_memory_trans [OF only_memory_palloc [OF f] only_memory_add [OF t2(1)]]
  obtain m k u where u: "t2 = t\<lparr>pmem := m, kernel_pool := k, user_pool := u\<rparr>" "pool_lock u = pool_lock (user_pool t)"
    unfolding only_memory_def by blast
  define s' where "s' = s\<lparr>pmem := m, kernel_pool := k, user_pool := u,
      userprog_vaddr := (userprog_vaddr s)(running_thread s := v0\<lparr>vaddr_bitmap := b\<rparr>)\<rparr>"
  have lock: "t2 = locked ?l s'" by (simp add: u(1) t_def s'_def locked_def set_vmap_def v0_def)
  have rel: "lock_release_now ?l (locked ?l s') = Inr s'"
    by (rule lock_release_locked) (use lk in \<open>simp_all add: s'_def\<close>)
  have pl: "pool_lock (the_pool PF_USER t2) = ?l" using u t(4) by (simp add: the_pool_def)
  have tv: "the_vaddr PF_USER (locked ?l s) = v0" by (simp add: the_vaddr_def locked_def v0_def)
  have lcur: "running_thread (locked ?l s) = running_thread s" "tasks (locked ?l s) = tasks s" by (simp_all add: locked_def)
  have up: "the_pool PF_USER s = user_pool s" by (simp add: the_pool_def)
  have "get_a_page PF_USER v s = Inr (v, s')"
    unfolding get_a_page_def up acq bnd_Inr Let_def tv lcur using idx pd st(6) rel pl
    by (simp add: b t_def [symmetric] f t2(1)) (simp add: lock)
  moreover have "f \<in> free_frames PF_USER s - free_frames PF_USER s'"
  proof -
    have "free_frames PF_USER s' = free_frames PF_USER t2" by (rule free_frames_the_pool) (simp add: the_pool_def lock locked_def)
    then show ?thesis using st(2,3) t2(3) tf by auto
  qed
  moreover have e: "pmem s' = pmem t2" "cr3 s' = cr3 t2" "kernel_pool s' = kernel_pool t2" "user_pool s' = user_pool t2"
    by (simp_all add: lock locked_def)
  moreover have "mem_ok s'" using t2(2) mem_ok_same [OF e] by simp
  moreover have "walk s' u = (if aliases s u v then Inr (f + (u AND 0xfff)) else walk s u)" if "PDE_IDX u \<noteq> 1023" for u
    using t2(4) that same tt translation_same(5) [OF e(1,2)] by simp
  ultimately show ?thesis using b s'_def by blast
qed

text \<open>The frame that \<open>start_process\<close> prepares, and the state in which it asks for the page of the stack.\<close>

definition user_frame :: "u32 \<Rightarrow> intr_stack \<Rightarrow> intr_stack" where
  "user_frame filename p = p\<lparr>is_edi := 0, is_esi := 0, is_ebp := 0, esp_dummy := 0,
            is_ebx := 0, is_edx := 0, is_ecx := 0, is_eax := 0, is_gs := 0,
            is_ds := SELECTOR_U_DATA, is_es := SELECTOR_U_DATA, is_fs := SELECTOR_U_DATA,
            is_eip := filename, is_cs := SELECTOR_U_CODE, is_eflags := EFLAGS_IOPL_0 OR EFLAGS_MBS OR EFLAGS_IF_1\<rparr>"

definition framed :: "u32 \<Rightarrow> 'a psys_scheme \<Rightarrow> 'a psys_scheme" where
  "framed filename s = (let cur = running_thread s; s0 = upd_task cur (\<lambda>p. p\<lparr>self_kstack := self_kstack p + 4 * 32\<rparr>) s;
     a = self_kstack (tasks s0 cur) in s0\<lparr>istacks := (istacks s)(a := user_frame filename (istacks s a))\<rparr>)"

lemma framed_fields:
  "pmem (framed filename s) = pmem s" "cr3 (framed filename s) = cr3 s" "kernel_pool (framed filename s) = kernel_pool s"
  "user_pool (framed filename s) = user_pool s" "running_thread (framed filename s) = running_thread s"
  "userprog_vaddr (framed filename s) = userprog_vaddr s" "locks (framed filename s) = locks s" "semas (framed filename s) = semas s"
  "pgdir (tasks (framed filename s) (running_thread s)) = pgdir (tasks s (running_thread s))"
  "istacks (framed filename s) (self_kstack (tasks s (running_thread s)) + 4 * 32) =
     user_frame filename (istacks s (self_kstack (tasks s (running_thread s)) + 4 * 32))"
  by (simp_all add: framed_def upd_task_def Let_def)

lemma start_process_eq:
  assumes "get_a_page PF_USER USER_STACK3_VADDR (framed filename s) = Inr (USER_STACK3_VADDR, s2)" and "istacks s2 = istacks (framed filename s)"
  defines "a \<equiv> self_kstack (tasks s (running_thread s)) + 4 * 32"
  defines "c \<equiv> (user_frame filename (istacks s a))\<lparr>is_esp := USER_STACK3_VADDR + PG_SIZE, is_ss := SELECTOR_U_DATA\<rparr>"
  shows "start_process filename s = Inr (c, s2\<lparr>istacks := (istacks s2)(a := c)\<rparr>)"
proof -
  let ?s0 = "upd_task (running_thread s) (\<lambda>p. p\<lparr>self_kstack := self_kstack p + 4 * 32\<rparr>) s"
  have s0: "istacks ?s0 = istacks s" "self_kstack (tasks ?s0 (running_thread s)) = a" by (simp_all add: upd_task_def a_def)
  have fr: "framed filename s = ?s0\<lparr>istacks := (istacks s)(a := user_frame filename (istacks s a))\<rparr>" using s0 by (simp add: framed_def Let_def)
  have "istacks s2 a = user_frame filename (istacks s a)" using assms(2) fr by simp
  then show ?thesis
    using assms(1) unfolding start_process_def Let_def s0 user_frame_def [of filename "istacks s a", symmetric] fr [symmetric]
    by (simp add: c_def)
qed

text \<open>C26: a process enters user mode with a context of privilege level 3: its code and stack selectors ask for ring 3, interrupts are on,
  the I/O privilege level is 0, and its stack pointer is the end of the user space, below which the page has just been
  mapped to a frame of the user pool that was free. Its bit in the process' map of virtual pages is set, and all other addresses are translated as before.\<close>

theorem start_process_user_mode:
  assumes "mem_ok s" "lock_free (pool_lock (user_pool s)) s" "pgdir (tasks s (running_thread s)) \<noteq> 0"
    and "vaddr_start (userprog_vaddr s (running_thread s)) = USER_VADDR_START"
    and "walk s USER_STACK3_VADDR = Inl Fault"
    and "free_frames PF_USER s \<noteq> {}" "present s USER_STACK3_VADDR \<or> free_frames PF_KERNEL s \<noteq> {}"
  shows "\<exists>c s' f. start_process filename s = Inr (c, s') \<and> is_eip c = filename \<and> is_cs c AND 3 = 3 \<and> is_ss c AND 3 = 3 \<and>
    bit (is_eflags c) 9 \<and> is_eflags c AND 0x3000 = 0 \<and> is_esp c = 0xc0000000 \<and> mem_ok s' \<and>
    walk s' (is_esp c - 4) = Inr (f + 0xffc) \<and> f \<in> free_frames PF_USER s - free_frames PF_USER s' \<and>
    is_set (vaddr_bitmap (userprog_vaddr s' (running_thread s))) (unat ((USER_STACK3_VADDR - USER_VADDR_START) div PG_SIZE)) \<and>
    (\<forall>u. PDE_IDX u \<noteq> 1023 \<and> \<not> aliases s u USER_STACK3_VADDR \<longrightarrow> walk s' u = walk s u)"
proof -
  let ?cur = "running_thread s" and ?s1 = "framed filename s"
  define a where "a = self_kstack (tasks s ?cur) + 4 * 32"
  define p0 where "p0 = user_frame filename (istacks s a)"
  note f1 = framed_fields [of filename s]
  note same = translation_same [OF f1(1,2)]
  have ff: "free_frames pf ?s1 = free_frames pf s" for pf by (rule free_frames_the_pool) (simp add: the_pool_def f1)
  have v: "PDE_IDX USER_STACK3_VADDR \<noteq> 1023" "aligned USER_STACK3_VADDR"
    by (simp_all add: PDE_IDX_def USER_STACK3_VADDR_def aligned_def)
  have idx: "sint ((USER_STACK3_VADDR - vaddr_start (userprog_vaddr ?s1 (running_thread ?s1))) div PG_SIZE) > 0"
    unfolding f1(5,6) assms(4) by (simp add: USER_STACK3_VADDR_def USER_VADDR_START_def PG_SIZE_def)
  have m1: "mem_ok ?s1" using assms(1) mem_ok_same [OF f1(1-4)] by simp
  have l1: "lock_free (pool_lock (user_pool ?s1)) ?s1" using assms(2) by (simp add: lock_free_def f1)
  have d1: "pgdir (tasks ?s1 (running_thread ?s1)) \<noteq> 0" using assms(3) by (simp add: f1)
  have w1: "walk ?s1 USER_STACK3_VADDR = Inl Fault" "free_frames PF_USER ?s1 \<noteq> {}" "present ?s1 USER_STACK3_VADDR \<or> free_frames PF_KERNEL ?s1 \<noteq> {}"
    using assms(5-7) same ff by simp_all
  from get_a_page_user [OF m1 l1 d1 idx v(1) w1(1) v(2) w1(2,3)] obtain f s2 b m k u where
    g: "get_a_page PF_USER USER_STACK3_VADDR ?s1 = Inr (USER_STACK3_VADDR, s2)" "f \<in> free_frames PF_USER ?s1 - free_frames PF_USER s2" "mem_ok s2"
      "\<forall>u. PDE_IDX u \<noteq> 1023 \<longrightarrow> walk s2 u = (if aliases ?s1 u USER_STACK3_VADDR then Inr (f + (u AND 0xfff)) else walk ?s1 u)"
      "bitmap_set (vaddr_bitmap (userprog_vaddr ?s1 (running_thread ?s1)))
         ((USER_STACK3_VADDR - vaddr_start (userprog_vaddr ?s1 (running_thread ?s1))) div PG_SIZE) 1 = Inr b"
      "s2 = ?s1\<lparr>pmem := m, kernel_pool := k, user_pool := u,
         userprog_vaddr := (userprog_vaddr ?s1)(running_thread ?s1 := (userprog_vaddr ?s1 (running_thread ?s1))\<lparr>vaddr_bitmap := b\<rparr>)\<rparr>" by blast
  define c where "c = p0\<lparr>is_esp := USER_STACK3_VADDR + PG_SIZE, is_ss := SELECTOR_U_DATA\<rparr>"
  define s' where "s' = s2\<lparr>istacks := (istacks s2)(a := c)\<rparr>"
  have "istacks s2 = istacks ?s1" by (simp add: g(6))
  from start_process_eq [OF g(1) this] have run: "start_process filename s = Inr (c, s')"
    by (simp add: s'_def c_def p0_def a_def)
  have e: "pmem s' = pmem s2" "cr3 s' = cr3 s2" "kernel_pool s' = kernel_pool s2" "user_pool s' = user_pool s2"
    "userprog_vaddr s' = userprog_vaddr s2"
    by (simp_all add: s'_def)
  note same' = translation_same [OF e(1,2)]
  have esp: "is_esp c = 0xc0000000" by (simp add: c_def USER_STACK3_VADDR_def PG_SIZE_def)
  have "PDE_IDX (0xc0000000 - 4) \<noteq> 1023" "aliases ?s1 (0xc0000000 - 4) USER_STACK3_VADDR" "(0xc0000000 - 4 :: u32) AND 0xfff = 0xffc"
    by (simp_all add: aliases_def PDE_IDX_def PTE_IDX_def USER_STACK3_VADDR_def)
  then have "walk s' (is_esp c - 4) = Inr (f + 0xffc)" using g(4) same' esp by simp
  moreover have "free_frames PF_USER s' = free_frames PF_USER s2" by (rule free_frames_the_pool) (simp add: the_pool_def e)
  moreover have "is_set (vaddr_bitmap (userprog_vaddr s' ?cur)) (unat ((USER_STACK3_VADDR - USER_VADDR_START) div PG_SIZE))"
  proof -
    have "unat ((USER_STACK3_VADDR - USER_VADDR_START) div PG_SIZE) < 4294967296" by (rule unat_less_2p32)
    from is_set_bitmap_set [OF g(5) this] show ?thesis using assms(4) by (simp add: e g(6) f1(5,6))
  qed
  moreover have "mem_ok s'" using g(3) mem_ok_same [OF e(1-4)] by simp
  moreover have "is_eip c = filename" "is_cs c AND 3 = 3" "is_ss c AND 3 = 3" "bit (is_eflags c) 9" "is_eflags c AND 0x3000 = 0"
    by (simp_all add: c_def p0_def user_frame_def SELECTOR_U_CODE_def SELECTOR_U_DATA_def EFLAGS_IOPL_0_def EFLAGS_MBS_def EFLAGS_IF_1_def)
  ultimately show ?thesis using run esp g(2,4) ff same same' by (intro exI [of _ c] exI [of _ s'] exI [of _ f]) simp
qed

section \<open>The child of a fork\<close>

lemma kmem_upd_only: "kmem_upd s t \<Longrightarrow> only_memory t u \<Longrightarrow> kmem_upd s u"
proof -
  assume "kmem_upd s t" "only_memory t u"
  then obtain m k w v m' k' w' where t: "t = s\<lparr>pmem := m, kernel_pool := k, user_pool := w, kernel_vaddr := v\<rparr>"
    "pool_lock (kernel_pool t) = pool_lock (kernel_pool s)" "u = t\<lparr>pmem := m', kernel_pool := k', user_pool := w'\<rparr>"
    "pool_lock k' = pool_lock (kernel_pool t)"
    unfolding kmem_upd_def only_memory_def by blast
  then have "u = s\<lparr>pmem := m', kernel_pool := k', user_pool := w', kernel_vaddr := v\<rparr>" "pool_lock (kernel_pool u) = pool_lock (kernel_pool s)"
    by simp_all
  then show ?thesis unfolding kmem_upd_def by blast
qed

lemma vaddr_get_kmem: "vaddr_get PF_KERNEL n s = Inr (v, s') \<Longrightarrow> kmem_upd s s'"
proof -
  have refl: "kmem_upd s s"
    unfolding kmem_upd_def by (intro conjI exI [of _ "pmem s"] exI [of _ "kernel_pool s"] exI [of _ "user_pool s"] exI [of _ "kernel_vaddr s"]) simp_all
  have upd: "kmem_upd s (set_vmap PF_KERNEL b s)" for b
    unfolding kmem_upd_def
    by (intro conjI exI [of _ "pmem s"] exI [of _ "kernel_pool s"] exI [of _ "user_pool s"] exI [of _ "(kernel_vaddr s)\<lparr>vaddr_bitmap := b\<rparr>"])
      (simp_all add: set_vmap_def)
  assume "vaddr_get PF_KERNEL n s = Inr (v, s')"
  then show ?thesis using refl upd by (auto simp: vaddr_get_def Let_def res_simps split: if_splits)
qed

lemma malloc_page_kmem: "malloc_page PF_KERNEL n s = Inr (v, s') \<Longrightarrow> kmem_upd s s'"
  by (auto simp: malloc_page_def res_simps split: if_splits intro: vaddr_get_kmem kmem_upd_only [OF vaddr_get_kmem only_memory_map_pages])

lemma vzero_fault: "vzero v n s = Inl e \<Longrightarrow> e = Fault"
proof (induction n arbitrary: v s)
  case (Suc n)
  then show ?case by (auto simp: bnd_eq_Inl vstore_def walk_eq split: if_splits)
qed simp

lemma get_kernel_pages_cases:
  assumes "mem_ok s" "vpool_ok PF_KERNEL s" "lock_free (pool_lock (kernel_pool s)) s" "1 \<le> unat n"
  shows "get_kernel_pages n s = Inl Panic \<or> get_kernel_pages n s = Inl Fault \<or> (\<exists>v s'. get_kernel_pages n s = Inr (v, s') \<and> kmem_upd s s')"
proof -
  let ?l = "pool_lock (kernel_pool s)"
  have lk: "locks s ?l = \<lparr>holder = 0, holder_repeat_nr = 0\<rparr>" "semas s (sema_of ?l) = \<lparr>svalue = 1, waiters = []\<rparr>" "running_thread s \<noteq> 0"
    using assms(3) by (simp_all add: lock_free_def)
  define t where "t = locked ?l s"
  have t: "pmem t = pmem s" "cr3 t = cr3 s" "kernel_pool t = kernel_pool s" "user_pool t = user_pool s"
    "the_vaddr PF_KERNEL t = the_vaddr PF_KERNEL s"
    by (simp_all add: t_def locked_def the_vaddr_def)
  have m: "mem_ok t" "vpool_ok PF_KERNEL t" using assms mem_ok_same [OF t(1-4)] vpool_ok_same [OF t(1,2,5)] by simp_all
  have rel: "lock_release_now (pool_lock (kernel_pool t')) t' = Inr s' \<and> kmem_upd s s'"
    if "kmem_upd t t'" "s' = t'\<lparr>locks := locks s, semas := semas s\<rparr>" for t' s'
  proof -
    from that(1) obtain m k u v where t': "t' = t\<lparr>pmem := m, kernel_pool := k, user_pool := u, kernel_vaddr := v\<rparr>" "pool_lock k = ?l"
      using t(3) by (auto simp: kmem_upd_def)
    have s': "s' = s\<lparr>pmem := m, kernel_pool := k, user_pool := u, kernel_vaddr := v\<rparr>"
      by (simp add: that(2) t'(1) t_def locked_def)
    have "t' = locked ?l s'" by (simp add: t'(1) s' t_def locked_def)
    moreover have "lock_release_now ?l (locked ?l s') = Inr s'" by (rule lock_release_locked) (use lk in \<open>simp_all add: s'\<close>)
    moreover have "kmem_upd s s'" unfolding kmem_upd_def s' using t'(2) by auto
    ultimately show ?thesis using t'(2) by (simp add: locked_def s')
  qed
  have g: "get_kernel_pages n s = bnd (malloc_page PF_KERNEL n t) (\<lambda>(vaddr, s).
      bnd (if vaddr \<noteq> 0 then vzero vaddr (unat (n * PG_SIZE) div 4) s else Inr s) (\<lambda>s.
      bnd (lock_release_now (pool_lock (kernel_pool s)) s) (\<lambda>s. Inr (vaddr, s))))"
    unfolding get_kernel_pages_def by (simp add: lock_acquire_locked [OF lk] t_def)
  show ?thesis
  proof (cases "malloc_page PF_KERNEL n t")
    case (Inl e)
    then show ?thesis using malloc_page_ok [OF m assms(4)] unfolding g by auto
  next
    case (Inr x)
    obtain v t1 where x: "x = (v, t1)" by (cases x)
    have k1: "kmem_upd t t1" by (rule malloc_page_kmem [OF Inr [unfolded x]])
    show ?thesis
    proof (cases "v = 0")
      case True
      then show ?thesis using rel [OF k1 refl] unfolding g Inr x by simp
    next
      case False
      show ?thesis
      proof (cases "vzero v (unat (n * PG_SIZE) div 4) t1")
        case (Inl e)
        then show ?thesis using vzero_fault [OF Inl] False unfolding g Inr x by simp
      next
        case (Inr t2)
        have "kmem_upd t t2" using k1 only_memory_vzero [OF Inr] by (rule kmem_upd_only)
        then show ?thesis using rel [OF _ refl, of t2] False Inr \<open>malloc_page PF_KERNEL n t = Inr x\<close> unfolding g x by simp
      qed
    qed
  qed
qed

lemma desc_init_loop_descs: "\<exists>d'. desc_init_loop d n sz s = s\<lparr>descs := d'\<rparr>"
proof (induction n arbitrary: d sz s)
  case 0
  then show ?case by (intro exI [of _ "descs s"]) simp
next
  case (Suc n)
  obtain x where "desc_init_loop d (Suc n) sz s = desc_init_loop (d + sizeof_desc) n (sz * 2) (s\<lparr>descs := x\<rparr>)"
    by (simp add: Let_def upd_desc_def)
  then show ?case using Suc.IH [of "d + sizeof_desc" "sz * 2" "s\<lparr>descs := x\<rparr>"] by auto
qed

lemma copy_descs_descs: "\<exists>d''. copy_descs d d' n s = s\<lparr>descs := d''\<rparr>"
proof (induction n arbitrary: d d' s)
  case 0
  then show ?case by (intro exI [of _ "descs s"]) simp
next
  case (Suc n)
  obtain x where "copy_descs d d' (Suc n) s = copy_descs (d + sizeof_desc) (d' + sizeof_desc) n (s\<lparr>descs := x\<rparr>)"
    by (simp add: upd_desc_def)
  then show ?case using Suc.IH [of "d + sizeof_desc" "d' + sizeof_desc" "s\<lparr>descs := x\<rparr>"] by auto
qed

lemma fork_pid_free:
  fixes s :: "'a kern_scheme"
  assumes "lock_free (pid_lock s) s"
  shows "fork_pid s = Inr (next_pid s + 1, s\<lparr>next_pid := next_pid s + 1\<rparr>)"
proof -
  let ?l = "pid_lock s" and ?t = "s\<lparr>next_pid := next_pid s + 1\<rparr>"
  have lk: "locks s ?l = \<lparr>holder = 0, holder_repeat_nr = 0\<rparr>" "semas s (sema_of ?l) = \<lparr>svalue = 1, waiters = []\<rparr>" "running_thread s \<noteq> 0"
    using assms by (simp_all add: lock_free_def)
  have e: "(locked ?l s)\<lparr>next_pid := next_pid s + 1\<rparr> = locked ?l ?t" by (simp add: locked_def)
  have "lock_release_now ?l (locked ?l ?t) = Inr ?t" by (rule lock_release_locked) (use lk in simp_all)
  moreover have "next_pid (locked ?l s) = next_pid s" "pid_lock (locked ?l s) = ?l" by (simp_all add: locked_def)
  ultimately show ?thesis by (simp add: fork_pid_def allocate_pid_def lock_acquire_locked [OF lk] e)
qed

lemma name_of_fork:
  assumes "length (name_of n) < 11" "length n = 16"
  shows "name_of (patch n (length (name_of n)) [95, 102, 111, 114, 107, 0]) = name_of n @ [95, 102, 111, 114, 107]"
proof -
  let ?k = "length (name_of n)"
  have t: "take ?k n = name_of n" unfolding name_of_def by (rule takeWhile_eq_take [symmetric])
  have nz: "\<forall>c \<in> set (name_of n). c \<noteq> 0" by (auto simp: name_of_def dest: set_takeWhileD)
  show ?thesis unfolding patch_def t using nz by (simp add: name_of_def [of "_ @ _"] takeWhile_append2)
qed

text \<open>What a child process starts with (\<open>copy_pcb_vaddrbitmap_stack0\<close>, then \<open>build_child_stack\<close>), if the kernel does not stop
  for lack of memory or a long name: it comes back through \<open>intr_exit\<close> with
  the registers of its parent but for \<open>eax\<close>, the result of \<open>fork\<close>, which is 0; it has a new pid, the pid of its parent, a full
  time slice, the parent's open files and directory, and the name of the parent with \<open>"_fork"\<close>. The parent keeps its control block.\<close>

theorem fork_child_context:
  assumes "mem_ok s" "vpool_ok PF_KERNEL s" "lock_free (pool_lock (kernel_pool s)) s" "lock_free (pid_lock s) s"
    and "child \<noteq> parent" "child \<noteq> 0" "parent \<noteq> 0" "length (task_name (tasks s parent)) = 16"
  shows "case copy_pcb_vaddrbitmap_stack0 child parent s of
      Inl e \<Rightarrow> e = Panic \<or> e = Fault
    | Inr s1 \<Rightarrow>
        let s2 = build_child_stack intr_exit child s1; c = tasks s2 child; p = tasks s parent in
        istacks s2 (top_stack child) = (istacks s (top_stack parent))\<lparr>is_eax := 0\<rparr> \<and>
        self_kstack c + 20 = top_stack child \<and> ts_eip (tstacks s2 (self_kstack c)) = intr_exit \<and>
        pid c = next_pid s + 1 \<and> parent_pid c = pid p \<and> status c = TASK_READY \<and> ticks c = priority p \<and> elapsed_ticks c = 0 \<and>
        fd_table c = fd_table p \<and> cwd_inode_nr c = cwd_inode_nr p \<and> stack_magic c = stack_magic p \<and>
        name_of (task_name c) = name_of (task_name p) @ [95, 102, 111, 114, 107] \<and> tasks s2 parent = p"
proof -
  let ?p = "tasks s parent"
  obtain d where d: "copy_page child parent s = s\<lparr>tasks := (tasks s)(child := ?p), userprog_vaddr := (userprog_vaddr s)(child := userprog_vaddr s parent),
      descs := d, istacks := (istacks s)(top_stack child := istacks s (top_stack parent))\<rparr>"
    using copy_descs_descs [of "u_block_desc child" "u_block_desc parent" DESC_CNT
        "(upd_task child (\<lambda>_. ?p) s)\<lparr>userprog_vaddr := (userprog_vaddr s)(child := userprog_vaddr s parent)\<rparr>"]
    by (auto simp: copy_page_def Let_def upd_task_def)
  define t where "t = copy_page child parent s"
  have "lock_free (pid_lock t) t" using assms(4) by (simp add: t_def d lock_free_def)
  from fork_pid_free [OF this] have fp: "fork_pid t = Inr (next_pid s + 1, t\<lparr>next_pid := next_pid s + 1\<rparr>)" by (simp add: t_def d)
  define c where "c = ?p\<lparr>pid := next_pid s + 1, elapsed_ticks := 0, status := TASK_READY, ticks := priority ?p, parent_pid := pid ?p\<rparr>"
  define u where "u = t\<lparr>next_pid := next_pid s + 1, tasks := (tasks s)(child := c)\<rparr>"
  obtain d' where d': "block_desc_init (u_block_desc child) u = u\<lparr>descs := d'\<rparr>"
    using desc_init_loop_descs unfolding block_desc_init_def by blast
  define w where "w = u\<lparr>descs := d'\<rparr>"
  have w: "pmem w = pmem s" "cr3 w = cr3 s" "kernel_pool w = kernel_pool s" "user_pool w = user_pool s"
    "the_vaddr PF_KERNEL w = the_vaddr PF_KERNEL s" "tasks w = (tasks s)(child := c)"
    "istacks w = (istacks s)(top_stack child := istacks s (top_stack parent))" "running_thread w = running_thread s"
    "locks w = locks s" "semas w = semas s"
    by (simp_all add: w_def u_def t_def d the_vaddr_def)
  have m: "mem_ok w" "vpool_ok PF_KERNEL w" "lock_free (pool_lock (kernel_pool w)) w"
    using assms(1-3) mem_ok_same [OF w(1-4)] vpool_ok_same [OF w(1,2,5)] by (simp_all add: lock_free_def w)
  have n: "1 \<le> unat vaddr_bitmap_pages"
    by (simp add: vaddr_bitmap_pages_def vaddr_bitmap_len_def USER_VADDR_START_def PG_SIZE_def DIV_ROUND_UP_def)
  have run: "copy_pcb_vaddrbitmap_stack0 child parent s = bnd (get_kernel_pages vaddr_bitmap_pages w) (\<lambda>(vaddr_btmp, s).
     bnd (ASSERT (vaddr_btmp \<noteq> 0)) (\<lambda>_.
     let n = name_of (task_name (tasks s child)) in
     bnd (ASSERT (length n < 11)) (\<lambda>_.
     Inr (upd_task child (\<lambda>t. t\<lparr>task_name := patch (task_name t) (length n) [95, 102, 111, 114, 107, 0]\<rparr>) s))))"
  proof -
    have "tasks t = (tasks s)(child := ?p)" by (simp add: t_def d)
    then show ?thesis
      using assms(5-7) fp d' unfolding copy_pcb_vaddrbitmap_stack0_def t_def [symmetric] w_def u_def c_def
      by (simp add: upd_task_def Let_def)
  qed
  from get_kernel_pages_cases [OF m n] show ?thesis
  proof (elim disjE exE conjE)
    fix v x
    assume g: "get_kernel_pages vaddr_bitmap_pages w = Inr (v, x)" "kmem_upd w x"
    then have x: "tasks x = (tasks s)(child := c)" "istacks x = (istacks s)(top_stack child := istacks s (top_stack parent))"
      using w(6,7) by (auto simp: kmem_upd_def)
    have nm: "task_name c = task_name ?p" by (simp add: c_def)
    show ?thesis
    proof (cases "v \<noteq> 0 \<and> length (name_of (task_name ?p)) < 11")
      case False
      then show ?thesis unfolding run g(1) by (auto simp: x nm ASSERT_def)
    next
      case True
      then show ?thesis
        unfolding run g(1) using name_of_fork [of "task_name ?p"] assms(5,8)
        by (simp add: x nm upd_task_def build_child_stack_def Let_def c_def)
    qed
  qed (simp_all add: run)
qed

section \<open>Concrete instances\<close>

lemma demo_frames: "frame_addr (the_pool pf demo_mem) i \<in> free_frames pf demo_mem" if "i < 8192"
  using that free_map_facts unfolding free_frames_def by (auto simp: the_pool_def demo_mem_def)

lemma demo_heap_frames: "free_frames pf demo_heap = free_frames pf demo_mem"
  by (rule free_frames_the_pool) (simp add: demo_heap_def the_pool_def)

lemma demo_boot_room: "room demo_heap"
proof -
  have "\<not> is_set demo_vmap 0" by (simp add: is_set_def demo_vmap_def)
  moreover have "n_bits demo_vmap = 8" by (simp add: n_bits_def demo_vmap_def)
  moreover have "frame_addr (the_pool PF_KERNEL demo_mem) 0 \<noteq> frame_addr (the_pool PF_KERNEL demo_mem) 1"
    by (simp add: frame_addr_def PG_SIZE_def)
  ultimately show ?thesis
    using demo_frames [of 0 PF_KERNEL] demo_frames [of 1 PF_KERNEL] unfolding room_def demo_heap_frames
    by (auto simp: demo_heap_def intro: exI [of _ 0])
qed

lemma demo_lock_free: "lock_free l demo_heap"
  by (simp add: lock_free_def demo_heap_def demo_mem_def)

theorem create_page_dir_shares_kernel_witness:
  "\<exists>v f s'. create_page_dir demo_heap = Inr (v, s') \<and> addr_v2p s' v = Inr f \<and> walk (s'\<lparr>cr3 := f\<rparr>) 0x8048000 = Inl Fault \<and>
     walk (s'\<lparr>cr3 := f\<rparr>) 0xc0100000 = walk s' 0xc0100000"
proof -
  from create_page_dir_shares_kernel [OF demo_mem_ok demo_vpool_ok demo_lock_free demo_boot_room] obtain v f s' where
    "create_page_dir demo_heap = Inr (v, s')" "addr_v2p s' v = Inr f"
    "\<forall>u. 0xc0000000 \<le> u \<and> PDE_IDX u \<noteq> 1023 \<longrightarrow> walk (s'\<lparr>cr3 := f\<rparr>) u = walk s' u"
    "\<forall>u < 0xc0000000. walk (s'\<lparr>cr3 := f\<rparr>) u = Inl Fault" by blast
  moreover have "(0xc0000000 :: u32) \<le> 0xc0100000" "(0x8048000 :: u32) < 0xc0000000" "PDE_IDX 0xc0100000 \<noteq> 1023"
    by (simp_all add: PDE_IDX_def)
  ultimately show ?thesis by blast
qed

definition demo_proc :: psys where
  "demo_proc = msys.extend (demo_heap\<lparr>tasks := (\<lambda>_. zero_task\<lparr>pgdir := 0xc0101000\<rparr>)\<rparr>)
     \<lparr>istacks = (\<lambda>_. \<lparr>vec_no = 0, is_edi = 0, is_esi = 0, is_ebp = 0, esp_dummy = 0, is_ebx = 0, is_edx = 0, is_ecx = 0, is_eax = 0,
        is_gs = 0, is_fs = 0, is_es = 0, is_ds = 0, err_code = 0, is_eip = 0, is_cs = 0, is_eflags = 0, is_esp = 0, is_ss = 0\<rparr>)\<rparr>"

lemma demo_proc_same: "pmem demo_proc = pmem demo_heap" "cr3 demo_proc = cr3 demo_heap" "kernel_pool demo_proc = kernel_pool demo_heap"
  "user_pool demo_proc = user_pool demo_heap"
  by (simp_all add: demo_proc_def msys.extend_def)

theorem start_process_user_mode_witness:
  "\<exists>c s'. start_process 0x8048000 demo_proc = Inr (c, s') \<and> is_eip c = 0x8048000 \<and> is_cs c AND 3 = 3 \<and> is_esp c = 0xc0000000 \<and>
     (\<exists>f. walk s' (is_esp c - 4) = Inr f)"
proof -
  have m: "mem_ok demo_proc" using demo_mem_ok mem_ok_same [OF demo_proc_same] by simp
  have l: "lock_free (pool_lock (user_pool demo_proc)) demo_proc"
    by (simp add: lock_free_def demo_proc_def msys.extend_def demo_heap_def demo_mem_def)
  have t: "pgdir (tasks demo_proc (running_thread demo_proc)) \<noteq> 0"
    "vaddr_start (userprog_vaddr demo_proc (running_thread demo_proc)) = USER_VADDR_START"
    by (simp_all add: demo_proc_def msys.extend_def demo_heap_def demo_mem_def USER_VADDR_START_def)
  have same: "walk demo_proc = walk demo_mem" using translation_same(5) [OF demo_proc_same(1,2)] demo_heap_same by simp
  have i: "PDE_IDX USER_STACK3_VADDR = 767" by (simp add: PDE_IDX_def USER_STACK3_VADDR_def)
  have "\<not> present demo_mem USER_STACK3_VADDR" using demo_tables(2) i by simp
  then have w: "walk demo_proc USER_STACK3_VADDR = Inl Fault" unfolding same by (simp add: walk_eq)
  have "free_frames pf demo_proc = free_frames pf demo_heap" for pf
    by (rule free_frames_the_pool) (simp add: the_pool_def demo_proc_same)
  then have "free_frames pf demo_proc \<noteq> {}" for pf using demo_frames [of 0 pf] demo_heap_frames by auto
  then have f: "free_frames PF_USER demo_proc \<noteq> {}" "present demo_proc USER_STACK3_VADDR \<or> free_frames PF_KERNEL demo_proc \<noteq> {}" by blast+
  show ?thesis using start_process_user_mode [OF m l t w f, of "0x8048000"] by blast
qed

end
