(* ===== verification/Syscall.thy ===== *)
theory Syscall
  imports Stdio Locks Fs
begin

text \<open>
  The console (device/console.c), \<open>printk\<close> (lib/kernel/stdio-kernel.c) and the system calls: the table
  (userprog/syscall-init.c), the entry at vector 0x80 (kernel/kernel.S) and the stubs of user programs
  (lib/user/syscall.c), up to \<open>printf\<close> of lib/stdio.c, which ends in the stub \<open>write\<close> (here \<open>write_stub\<close>). \<open>umem\<close> is the memory
  a program sees as bytes, \<open>console_lock\<close> the address of the variable of that name. \<open>sys_malloc\<close> and \<open>sys_free\<close> are
  their contract from \<open>Disk\<close>.
\<close>

section \<open>The console\<close>

record usys = fsys +
  console_lock :: u32
  umem :: mem

definition console_init :: "'a usys_scheme \<Rightarrow> 'a usys_scheme" where
  "console_init s = lock_init (console_lock s) s"

definition console_acquire :: "'a usys_scheme \<Rightarrow> 'a usys_scheme res" where
  "console_acquire s = lock_acquire_now (console_lock s) s"

definition console_release :: "'a usys_scheme \<Rightarrow> 'a usys_scheme res" where
  "console_release s = lock_release_now (console_lock s) s"

text \<open>\<open>put_str\<close> of print.S prints up to the NUL, \<open>put_char\<close> one character, \<open>put_int\<close> hexadecimal digits.\<close>

definition put_bytes :: "bytes \<Rightarrow> 'a usys_scheme \<Rightarrow> 'a usys_scheme" where
  "put_bytes bs s = s\<lparr>console_out := console_out s @ bs\<rparr>"

definition console_put_str :: "u32 \<Rightarrow> 'a usys_scheme \<Rightarrow> 'a usys_scheme res" where
  "console_put_str str s =
     bnd (console_acquire s) (\<lambda>s.
     bnd (of_opt Diverge (strlen_loop (umem s) str)) (\<lambda>p.
     console_release (put_bytes (map (\<lambda>i. umem s (str + of_nat i)) [0..<unat (p - str - 1)]) s)))"

definition console_put_char :: "u8 \<Rightarrow> 'a usys_scheme \<Rightarrow> 'a usys_scheme res" where
  "console_put_char char_asci s = bnd (console_acquire s) (\<lambda>s. console_release (put_bytes [char_asci] s))"

definition console_put_int :: "u32 \<Rightarrow> 'a usys_scheme \<Rightarrow> 'a usys_scheme res" where
  "console_put_int num s = bnd (console_acquire s) (\<lambda>s. console_release (put_bytes (number 16 (unat num)) s))"

text \<open>\<open>printk\<close>: \<open>frame\<close> is the address of its parameter \<open>format\<close>, \<open>buf\<close> of its array of 1024 bytes.\<close>

definition printk :: "u32 \<Rightarrow> u32 \<Rightarrow> 'a usys_scheme \<Rightarrow> 'a usys_scheme res" where
  "printk buf frame s =
     (let format = load32 (umem s) frame; m = memset_loop 1024 (umem s) buf 0 in
      bnd (vsprintf m buf format frame) (\<lambda>(m, _). console_put_str buf (s\<lparr>umem := m\<rparr>)))"

section \<open>System calls\<close>

text \<open>The registers that carry the number, the arguments and the result. A pointer to a function that takes them is
  None when it is NULL.\<close>

record regs =
  eax :: u32
  ebx :: u32
  ecx :: u32
  edx :: u32

type_synonym 's syscall = "u32 \<Rightarrow> u32 \<Rightarrow> u32 \<Rightarrow> 's \<Rightarrow> (u32 \<times> 's) res"

definition syscall_nr :: nat where "syscall_nr = 32"
definition SYS_GETPID :: u32 where "SYS_GETPID = 0"
definition SYS_WRITE :: u32 where "SYS_WRITE = 1"
definition SYS_MALLOC :: u32 where "SYS_MALLOC = 2"
definition SYS_FREE :: u32 where "SYS_FREE = 3"

definition sys_getpid :: "'a kern_scheme \<Rightarrow> u32" where
  "sys_getpid s = scast (pid (tasks s (running_thread s)))"

text \<open>\<open>buf\<close> is an address; \<open>sys_free\<close> leaves some value in \<open>eax\<close>.\<close>

definition write_at :: "u32 \<Rightarrow> u32 \<Rightarrow> u32 \<Rightarrow> 'a usys_scheme \<Rightarrow> (u32 \<times> 'a usys_scheme) res" where
  "write_at fd buf count s = sys_write fd (map (\<lambda>i. umem s (buf + of_nat i)) [0..<unat count]) count s"

definition syscall_init :: "u32 \<Rightarrow> ('a usys_scheme) syscall option list \<Rightarrow> ('a usys_scheme) syscall option list" where
  "syscall_init g syscall_table =
     (let t = syscall_table[unat SYS_GETPID := Some (\<lambda>_ _ _ s. Inr (sys_getpid s, s))];
          t = t[unat SYS_WRITE := Some write_at];
          t = t[unat SYS_MALLOC := Some (\<lambda>_ _ _ s. Inr (fs_malloc s))];
          t = t[unat SYS_FREE := Some (\<lambda>ptr _ _ s. bnd (fs_free ptr s) (\<lambda>s. Inr (g, s)))]
      in t)"

text \<open>\<open>int $0x80\<close> with \<open>syscall_handler\<close>: the gate turns interrupts off, the handler calls the function with the
  three registers as its arguments and puts the result where \<open>eax\<close> is restored from; \<open>iretd\<close> restores the flags.\<close>

definition syscall_handler :: "('a cpu_scheme) syscall option list \<Rightarrow> regs \<Rightarrow> 'a cpu_scheme \<Rightarrow> (regs \<times> 'a cpu_scheme) res" where
  "syscall_handler tbl r s =
     bnd (defined (unat (eax r) < length tbl)) (\<lambda>_.
     case tbl ! unat (eax r) of None \<Rightarrow> Inl Fault
     | Some f \<Rightarrow>
         bnd (f (ebx r) (ecx r) (edx r) (cli s)) (\<lambda>(v, s').
         Inr (r\<lparr>eax := v\<rparr>, s'\<lparr>eflags := eflags s\<rparr>)))"

definition syscall0 :: "('a cpu_scheme) syscall option list \<Rightarrow> u32 \<Rightarrow> regs \<Rightarrow> 'a cpu_scheme \<Rightarrow> (u32 \<times> 'a cpu_scheme) res" where
  "syscall0 tbl n r s = bnd (syscall_handler tbl (r\<lparr>eax := n\<rparr>) s) (\<lambda>(r, s). Inr (eax r, s))"

definition syscall1 :: "('a cpu_scheme) syscall option list \<Rightarrow> u32 \<Rightarrow> u32 \<Rightarrow> regs \<Rightarrow> 'a cpu_scheme \<Rightarrow> (u32 \<times> 'a cpu_scheme) res" where
  "syscall1 tbl n arg1 r s = bnd (syscall_handler tbl (r\<lparr>eax := n, ebx := arg1\<rparr>) s) (\<lambda>(r, s). Inr (eax r, s))"

definition syscall3 :: "('a cpu_scheme) syscall option list \<Rightarrow> u32 \<Rightarrow> u32 \<Rightarrow> u32 \<Rightarrow> u32 \<Rightarrow> regs \<Rightarrow> 'a cpu_scheme \<Rightarrow> (u32 \<times> 'a cpu_scheme) res" where
  "syscall3 tbl n arg1 arg2 arg3 r s =
     bnd (syscall_handler tbl (r\<lparr>eax := n, ebx := arg1, ecx := arg2, edx := arg3\<rparr>) s) (\<lambda>(r, s). Inr (eax r, s))"

definition getpid :: "('a cpu_scheme) syscall option list \<Rightarrow> regs \<Rightarrow> 'a cpu_scheme \<Rightarrow> (u32 \<times> 'a cpu_scheme) res" where
  "getpid tbl = syscall0 tbl SYS_GETPID"

definition write_stub :: "('a cpu_scheme) syscall option list \<Rightarrow> u32 \<Rightarrow> u32 \<Rightarrow> u32 \<Rightarrow> regs \<Rightarrow> 'a cpu_scheme \<Rightarrow> (u32 \<times> 'a cpu_scheme) res" where
  "write_stub tbl fd buf count = syscall3 tbl SYS_WRITE fd buf count"

definition malloc :: "('a cpu_scheme) syscall option list \<Rightarrow> u32 \<Rightarrow> regs \<Rightarrow> 'a cpu_scheme \<Rightarrow> (u32 \<times> 'a cpu_scheme) res" where
  "malloc tbl sz = syscall1 tbl SYS_MALLOC sz"

definition free :: "('a cpu_scheme) syscall option list \<Rightarrow> u32 \<Rightarrow> regs \<Rightarrow> 'a cpu_scheme \<Rightarrow> 'a cpu_scheme res" where
  "free tbl ptr r s = bnd (syscall1 tbl SYS_FREE ptr r s) (\<lambda>(_, s). Inr s)"

text \<open>\<open>printf\<close> to its end.\<close>

definition printf_call :: "('a usys_scheme) syscall option list \<Rightarrow> u32 \<Rightarrow> u32 \<Rightarrow> regs \<Rightarrow> 'a usys_scheme \<Rightarrow> (u32 \<times> 'a usys_scheme) res" where
  "printf_call tbl buf frame r s =
     bnd (printf (umem s) buf frame) (\<lambda>(m, n). write_stub tbl 1 buf n r (s\<lparr>umem := m\<rparr>))"

section \<open>The lock of the console is transparent\<close>

definition console_free :: "'a usys_scheme \<Rightarrow> bool" where
  "console_free s \<longleftrightarrow> locks s (console_lock s) = \<lparr>holder = 0, holder_repeat_nr = 0\<rparr> \<and>
     semas s (sema_of (console_lock s)) = \<lparr>svalue = 1, waiters = []\<rparr> \<and> running_thread s \<noteq> 0"

lemma console_init_free: "running_thread s \<noteq> 0 \<Longrightarrow> console_free (console_init s)"
  by (simp add: console_free_def console_init_def lock_init_def sema_init_def)

lemma console_acquire_free: "console_free s \<Longrightarrow> console_acquire s = Inr (locked (console_lock s) s)"
  unfolding console_acquire_def console_free_def by (intro lock_acquire_locked) simp_all

lemma console_release_put:
  assumes "console_free s"
  shows "console_release (put_bytes bs (locked (console_lock s) s)) = Inr (put_bytes bs s)"
proof -
  have "put_bytes bs (locked (console_lock s) s) = locked (console_lock s) (put_bytes bs s)"
    by (simp add: put_bytes_def locked_def)
  moreover have "lock_release_now (console_lock s) (locked (console_lock s) (put_bytes bs s)) = Inr (put_bytes bs s)"
    using assms by (intro lock_release_locked) (simp_all add: console_free_def put_bytes_def)
  moreover have "console_lock (locked (console_lock s) (put_bytes bs s)) = console_lock s"
    by (simp add: put_bytes_def locked_def)
  ultimately show ?thesis by (simp only: console_release_def)
qed

lemma map_bytes_at: "bytes_at m p xs \<Longrightarrow> map (\<lambda>i. m (p + of_nat i)) [0..<length xs] = xs"
  by (rule nth_equalityI) (simp_all add: bytes_at_def)

text \<open>A string, a character, a number: exactly the text is printed and the lock is free again.\<close>

lemma console_put_str_prints:
  assumes "console_free s" and "cstr_at (umem s) str cs" and "length cs < 4294967296"
  shows "console_put_str str s = Inr (put_bytes cs s)"
proof -
  have m: "umem (locked (console_lock s) s) = umem s" by (simp add: locked_def)
  have "map (\<lambda>i. umem s (str + of_nat i)) [0..<length cs] = cs"
    using assms(2) by (intro map_bytes_at) (simp add: cstr_at_bytes)
  then show ?thesis
    using assms by (simp add: console_put_str_def console_acquire_free m strlen_loop_cstr console_release_put)
qed

lemma console_put_char_prints: "console_free s \<Longrightarrow> console_put_char c s = Inr (put_bytes [c] s)"
  by (simp add: console_put_char_def console_acquire_free console_release_put)

lemma console_put_int_prints: "console_free s \<Longrightarrow> console_put_int num s = Inr (put_bytes (number 16 (unat num)) s)"
  by (simp add: console_put_int_def console_acquire_free console_release_put)

section \<open>Formatted output\<close>

lemma formats_vsprintf:
  assumes "formats m f (m f) str ap out" and "m (str + of_nat (length out)) = 0" and "0 \<notin> set out" and "str \<noteq> 0"
  shows "\<exists>m'. vsprintf m str f ap = Inr (m', of_nat (length out)) \<and> cstr_at m' str out \<and>
    (\<forall>x. x \<notin> area str (Suc (length out)) \<longrightarrow> m' x = m x)"
proof -
  obtain m' where m': "vsprintf_loop m f (m f) str ap = Some (Inr (m', str + of_nat (length out)))" "wrote m m' str out"
    using assms(1) by (auto simp: formats_def)
  then have c: "cstr_at m' str out" using assms(2,3) by (auto simp: cstr_at_bytes wrote_def)
  with m' assms(4) strlen_cstr [OF c] show ?thesis by (auto simp: vsprintf_def wrote_def)
qed

text \<open>The rendered text in a buffer of 1024 bytes that was zeroed.\<close>

lemma renders_buffer:
  assumes "renders m (area buf 1024) fmt frame out" and "cstr_at m f fmt" and "area f (Suc (length fmt)) \<inter> area buf 1024 = {}"
    and "0 \<notin> area buf 1024" and "length out < 1024" and "0 \<notin> set out"
  shows "\<exists>m'. vsprintf (memset_loop 1024 m buf 0) buf f frame = Inr (m', of_nat (length out)) \<and> cstr_at m' buf out \<and>
    (\<forall>x. x \<notin> area buf 1024 \<longrightarrow> m' x = m x)"
proof -
  let ?m = "memset_loop 1024 m buf 0"
  have ms: "?m x = (if x \<in> area buf 1024 then 0 else m x)" for x by (simp add: memset_loop_spec)
  have sub: "area buf (Suc (length out)) \<subseteq> area buf 1024" using assms(5) by (intro area_mono) simp
  have "formats ?m f (?m f) buf frame out"
    by (rule renders_formats [OF assms(1,4) _ assms(2,3) sub]) (use assms(5) ms in simp_all)
  moreover have "?m (buf + of_nat (length out)) = 0" using assms(5) by (simp add: ms in_area)
  moreover have "buf \<noteq> 0" using assms(4) in_area [of 0 1024 buf] by auto
  ultimately obtain m' where "vsprintf ?m buf f frame = Inr (m', of_nat (length out))" "cstr_at m' buf out"
      "\<forall>x. x \<notin> area buf (Suc (length out)) \<longrightarrow> m' x = ?m x"
    using formats_vsprintf [OF _ _ assms(6)] by blast
  then show ?thesis using sub ms by auto
qed

section \<open>Properties\<close>

lemma sys_write_stdout:
  assumes "length out < 1024" and "0 \<notin> set out"
  shows "sys_write 1 out (of_nat (length out)) s = Inr (of_nat (length out), s\<lparr>console_out := console_out s @ out\<rparr>)"
proof -
  have "takeWhile (\<lambda>c. c \<noteq> 0) (out @ replicate (1024 - length out) 0) = out"
    using assms(2) by (subst takeWhile_append2) (auto intro: gr0I)
  moreover have "0 \<in> set (out @ replicate (1024 - length out) 0)" using assms(1) by simp
  ultimately have "cstr_of (patch (replicate 1024 0) 0 out) = Inr out"
    by (simp add: cstr_of_def patch_def)
  then show ?thesis using assms(1) by (simp add: sys_write_def)
qed

text \<open>The entry of the table for each number after \<open>syscall_init\<close>, and the flags around a call.\<close>

lemma syscall_init_table:
  assumes "length tbl = syscall_nr"
  shows "length (syscall_init g tbl) = 32" and "syscall_init g tbl ! 0 = Some (\<lambda>_ _ _ s. Inr (sys_getpid s, s))"
    and "syscall_init g tbl ! 1 = Some write_at" and "syscall_init g tbl ! 2 = Some (\<lambda>_ _ _ s. Inr (fs_malloc s))"
    and "syscall_init g tbl ! 3 = Some (\<lambda>ptr _ _ s. bnd (fs_free ptr s) (\<lambda>s. Inr (g, s)))"
    and "4 \<le> k \<Longrightarrow> syscall_init g tbl ! k = tbl ! k"
  using assms by (simp_all add: syscall_init_def syscall_nr_def SYS_GETPID_def SYS_WRITE_def SYS_MALLOC_def SYS_FREE_def Let_def)

lemma cli_fields [simp]:
  "umem (cli s) = umem s" "console_out (cli s) = console_out s" "tasks (cli s) = tasks s" "running_thread (cli s) = running_thread s"
  "(cli s)\<lparr>console_out := x, eflags := eflags s\<rparr> = s\<lparr>console_out := x\<rparr>" "(cli s)\<lparr>eflags := eflags s\<rparr> = s"
  by (simp_all add: cli_def)

lemma write_stub_stdout:
  assumes "length tbl = syscall_nr" and "bytes_at (umem s) buf out" and "length out < 1024" and "0 \<notin> set out"
  shows "write_stub (syscall_init g tbl) 1 buf (of_nat (length out)) r s =
    Inr (of_nat (length out), s\<lparr>console_out := console_out s @ out\<rparr>)"
proof -
  have "unat (of_nat (length out) :: u32) = length out" using assms(3) by simp
  then have "write_at 1 buf (of_nat (length out)) (cli s) =
      Inr (of_nat (length out), (cli s)\<lparr>console_out := console_out s @ out\<rparr>)"
    using assms(3,4) map_bytes_at [OF assms(2)] by (simp add: write_at_def sys_write_stdout)
  moreover have "(cli s)\<lparr>console_out := console_out s @ out, eflags := eflags s\<rparr> = s\<lparr>console_out := console_out s @ out\<rparr>"
    by (simp add: cli_def)
  ultimately show ?thesis
    using syscall_init_table [OF assms(1), where g = g]
    by (simp add: write_stub_def syscall3_def syscall_handler_def SYS_WRITE_def)
qed

text \<open>C28: \<open>printf\<close> of a user program, through its stub, the interrupt, the table of system calls and \<open>sys_write\<close>: for a
  format that renders to a text of at most 1023 characters, it prints exactly that text and returns its length, and
  besides the array on its stack nothing has changed, the interrupt flag included. \<open>printk\<close> in the kernel
  prints the same text, under the lock of the console, which is free again.\<close>

theorem printf_prints:
  fixes s :: "'a usys_scheme"
  assumes "renders (umem s) (area buf 1024) fmt frame out" and "cstr_at (umem s) (load32 (umem s) frame) fmt"
    and "area (load32 (umem s) frame) (Suc (length fmt)) \<inter> area buf 1024 = {}" and "0 \<notin> area buf 1024"
    and "length out < 1024" and "0 \<notin> set out" and "length tbl = syscall_nr" and "console_free s"
  shows "\<exists>m'. printf_call (syscall_init g tbl) buf frame r s = Inr (of_nat (length out), put_bytes out (s\<lparr>umem := m'\<rparr>)) \<and>
    printk buf frame s = Inr (put_bytes out (s\<lparr>umem := m'\<rparr>)) \<and> (\<forall>x. x \<notin> area buf 1024 \<longrightarrow> m' x = umem s x)"
proof -
  obtain m' where m': "vsprintf (memset_loop 1024 (umem s) buf 0) buf (load32 (umem s) frame) frame = Inr (m', of_nat (length out))"
      "cstr_at m' buf out" "\<forall>x. x \<notin> area buf 1024 \<longrightarrow> m' x = umem s x"
    using renders_buffer [OF assms(1-6)] by blast
  let ?s = "s\<lparr>umem := m'\<rparr>"
  have "buf \<noteq> 0" using assms(4) in_area [of 0 1024 buf] by auto
  then have "printf (umem s) buf frame = Inr (m', of_nat (length out))"
    using m'(1) strlen_cstr [OF m'(2)] by (simp add: printf_def)
  moreover have "write_stub (syscall_init g tbl) 1 buf (of_nat (length out)) r ?s = Inr (of_nat (length out), put_bytes out ?s)"
    using assms(5-7) m'(2) by (subst write_stub_stdout) (simp_all add: cstr_at_bytes put_bytes_def)
  ultimately have "printf_call (syscall_init g tbl) buf frame r s = Inr (of_nat (length out), put_bytes out ?s)"
    by (simp add: printf_call_def)
  moreover have "console_free ?s" using assms(8) by (simp add: console_free_def)
  then have "console_put_str buf ?s = Inr (put_bytes out ?s)"
    using m'(2) assms(5) by (intro console_put_str_prints) simp_all
  then have "printk buf frame s = Inr (put_bytes out ?s)" using m'(1) by (simp add: printk_def Let_def)
  ultimately show ?thesis using m'(3) by blast
qed

lemma fs_malloc_cli: "fs_malloc (cli s) = (fst (fs_malloc s), cli (snd (fs_malloc s)))"
  by (simp add: fs_malloc_def heap_def set_heap_def in_kernel_def cli_def split: list.split)

lemma fs_free_cli: "fs_free p (cli s) = bnd (fs_free p s) (\<lambda>s. Inr (cli s))"
proof -
  have "heap (cli s) = heap s" "in_kernel (cli s) = in_kernel s" "\<And>h. set_heap h (cli s) = cli (set_heap h s)"
    by (simp_all add: heap_def set_heap_def in_kernel_def cli_def)
  then show ?thesis by (simp add: fs_free_def bnd_assoc)
qed

lemma set_heap_flags: "eflags (set_heap h s) = eflags s" "(cli s)\<lparr>eflags := eflags s\<rparr> = s"
  by (simp_all add: set_heap_def cli_def)

lemma fs_malloc_flags: "eflags (snd (fs_malloc s)) = eflags s"
  by (simp add: fs_malloc_def set_heap_flags split: list.split)

lemma fs_free_flags: "fs_free p s = Inr s' \<Longrightarrow> eflags s' = eflags s"
  by (auto simp: fs_free_def res_simps set_heap_flags)

text \<open>C27: after \<open>syscall_init\<close> every stub of lib/user/syscall.c reaches its function with its arguments in their places and
  returns its result, with the flags of the caller: \<open>malloc\<close> the first free block of the heap, which \<open>free\<close> gives
  back. A number without an entry calls NULL or reads behind the table.\<close>

theorem stubs_reach_functions:
  fixes s :: "'a usys_scheme"
  assumes "length tbl = syscall_nr" and "\<forall>k \<in> {4..<32}. tbl ! k = None"
  shows "getpid (syscall_init g tbl) r s = Inr (scast (pid (tasks s (running_thread s))), s) \<and>
    malloc (syscall_init g tbl) sz r s = Inr (fs_malloc s) \<and> free (syscall_init g tbl) ptr r s = fs_free ptr s \<and>
    write_stub (syscall_init g tbl) fd buf count r s =
      bnd (write_at fd buf count (cli s)) (\<lambda>(n, s'). Inr (n, s'\<lparr>eflags := eflags s\<rparr>)) \<and>
    (\<forall>n. 4 \<le> unat n \<longrightarrow> syscall0 (syscall_init g tbl) n r s = Inl Fault)"
proof (intro conjI allI impI)
  note t = syscall_init_table [OF assms(1), where g = g]
  show "getpid (syscall_init g tbl) r s = Inr (scast (pid (tasks s (running_thread s))), s)"
    by (simp add: getpid_def syscall0_def syscall_handler_def SYS_GETPID_def t sys_getpid_def)
  show "malloc (syscall_init g tbl) sz r s = Inr (fs_malloc s)"
    using set_heap_flags(2) [of "snd (fs_malloc s)"] fs_malloc_flags [of s]
    by (simp add: malloc_def syscall1_def syscall_handler_def SYS_MALLOC_def t fs_malloc_cli)
  show "free (syscall_init g tbl) ptr r s = fs_free ptr s"
  proof (cases "fs_free ptr s")
    case (Inr s')
    then show ?thesis using set_heap_flags(2) [of s'] fs_free_flags [OF Inr]
      by (simp add: free_def syscall1_def syscall_handler_def SYS_FREE_def t fs_free_cli)
  qed (simp add: free_def syscall1_def syscall_handler_def SYS_FREE_def t fs_free_cli)
  show "write_stub (syscall_init g tbl) fd buf count r s =
      bnd (write_at fd buf count (cli s)) (\<lambda>(n, s'). Inr (n, s'\<lparr>eflags := eflags s\<rparr>))"
    using t(1,3) by (cases "write_at fd buf count (cli s)") (auto simp: write_stub_def syscall3_def syscall_handler_def SYS_WRITE_def)
  show "syscall0 (syscall_init g tbl) n r s = Inl Fault" if "4 \<le> unat n" for n
    using that assms(2) by (cases "unat n < 32") (simp_all add: syscall0_def syscall_handler_def t)
qed

section \<open>A concrete call\<close>

text \<open>\<open>printf\<close> of the format and the arguments of \<open>Stdio\<close>: its parameters from 64 on, its array at 128.\<close>

definition demo_usys :: usys where
  "demo_usys = fsys.extend demo_fs \<lparr>console_lock = 0xc0007000, umem = demo_stdio(64 := 16)\<rparr>"

definition demo_regs :: regs where
  "demo_regs = \<lparr>eax = 0, ebx = 0, ecx = 0, edx = 0\<rparr>"

lemma demo_area: "unat x < 128 \<Longrightarrow> x \<notin> area 128 1024"
proof
  assume "unat x < 128" "x \<in> area 128 1024"
  then obtain i where i: "i < 1024" "x = 128 + of_nat i" by (auto simp: area_def)
  have "unat (128 + of_nat i :: u32) = 128 + i" using i(1) by (subst unat_add_u32) simp_all
  with \<open>unat x < 128\<close> i(2) show False by simp
qed

lemma demo_usys_renders: "renders (umem demo_usys) (area 128 1024) demo_fmt 64 demo_out"
proof -
  let ?W = "area 128 1024" and ?m = "demo_stdio(64 := 16)"
  have l: "load32 ?m 68 = - 42" "load32 ?m 72 = 96"
    by (simp_all add: load32_def demo_stdio_def word_of_bytes_def push_bit_eq_mult)
  have a: "area 68 4 \<inter> ?W = {}" "area 72 4 \<inter> ?W = {}" "area 96 3 \<inter> ?W = {}"
    by (simp_all add: area_numeral area_Suc demo_area)
  have s: "sint (- 42 :: u32) = - 42" by simp
  have "cstr_at ?m 96 [111, 107]" by (simp add: demo_ok)
  then have "renders ?m ?W [37, 115] 68 ([111, 107] @ [])"
    using percent_s [where m = ?m and W = ?W and ap = 68 and xs = "[111, 107]" and cs = "[]" and out = "[]"] a l
    by (simp add: renders.done_ numeral_3_eq_3 [symmetric])
  then have "renders ?m ?W [32, 37, 115] 68 [32, 111, 107]" by (auto intro: plain)
  then have "renders ?m ?W [37, 100, 32, 37, 115] 64
      ((if sint (load32 ?m (64 + 4)) < 0 then [45] else []) @ number 10 (nat \<bar>sint (load32 ?m (64 + 4))\<bar>) @ [32, 111, 107])"
    using a by (intro percent_d) simp_all
  then have "renders ?m ?W [37, 100, 32, 37, 115] 64 [45, 52, 50, 32, 111, 107]"
    by (simp only: l s demo_number arith_simps) (simp add: l s demo_number)
  then show ?thesis by (auto simp: demo_usys_def fsys.defs demo_fmt_def demo_out_def intro!: plain)
qed

theorem printf_prints_witness:
  "\<exists>m'. printf_call (syscall_init 0 (replicate 32 None)) 128 64 demo_regs demo_usys =
    Inr (8, put_bytes demo_out (demo_usys\<lparr>umem := m'\<rparr>))"
proof -
  have m: "umem demo_usys = demo_stdio(64 := 16)" by (simp add: demo_usys_def fsys.defs)
  have f: "load32 (umem demo_usys) 64 = 16" unfolding m
    by (simp add: load32_def demo_stdio_def word_of_bytes_def push_bit_eq_mult)
  have c: "cstr_at (umem demo_usys) 16 demo_fmt" unfolding m by (simp add: demo_stdio_def demo_fmt_def)
  have d: "area 16 8 \<inter> area 128 1024 = {}" by (simp add: area_numeral area_Suc demo_area)
  have free: "console_free demo_usys" by (simp add: console_free_def demo_usys_def fsys.defs demo_fs_def sema_of_def)
  have len: "length demo_out = 8" "length demo_fmt = 7" by (simp_all add: demo_out_def demo_fmt_def)
  show ?thesis
    using printf_prints [OF demo_usys_renders, where tbl = "replicate 32 None" and g = 0 and r = demo_regs] f c d free len
    by (auto simp: demo_area syscall_nr_def demo_out_def)
qed

theorem stubs_reach_functions_witness:
  "getpid (syscall_init 0 (replicate 32 None)) demo_regs demo_usys = Inr (0, demo_usys) \<and>
   syscall0 (syscall_init 0 (replicate 32 None)) 7 demo_regs demo_usys = Inl Fault"
proof -
  have "pid (tasks demo_usys (running_thread demo_usys)) = 0"
    by (simp add: demo_usys_def fsys.defs demo_fs_def demo_task_def zero_task_def)
  then show ?thesis
    using stubs_reach_functions [of "replicate 32 None" 0 demo_regs demo_usys] by (simp add: syscall_nr_def)
qed

end
