(* ===== verification/Scan.thy ===== *)
theory Scan
  imports Ata Content
begin

text \<open>
  What \<open>partition_scan\<close> (device/ide.c) finds on a disk: the partitions of the master boot record and of the chain of
  extended boot records, in their order, on a controller that follows the ATA protocol. \<open>mbr\<close> and
  \<open>ebr_chain\<close> describe such a disk by the partitions it has, as absolute first sector and number of sectors.
\<close>

section \<open>Disks with a partition table\<close>

text \<open>From sector \<open>lba\<close> on, the chain of boot records in the extended partition that begins at \<open>E\<close>: the first entry of
  each is a logical partition, relative to its boot record, the second the next boot record, relative to \<open>E\<close>.\<close>

fun ebr_chain :: "(u32 \<Rightarrow> bytes) \<Rightarrow> u32 \<Rightarrow> u32 \<Rightarrow> (u32 \<times> u32) list \<Rightarrow> bool" where
  "ebr_chain d E lba [] = False"
| "ebr_chain d E lba (p # ps) =
     (let t = partition_table (d lba) in
      lba \<noteq> 0 \<and> lba \<le> max_lba \<and> fs_type (t ! 0) \<noteq> 0 \<and> fs_type (t ! 0) \<noteq> 5 \<and>
      p = (lba + pte_start_lba (t ! 0), pte_sec_cnt (t ! 0)) \<and> fs_type (t ! 2) = 0 \<and> fs_type (t ! 3) = 0 \<and>
      (if ps = [] then fs_type (t ! 1) = 0 else fs_type (t ! 1) = 5 \<and> ebr_chain d E (pte_start_lba (t ! 1) + E) ps))"

text \<open>Up to three primary partitions \<open>ps\<close>, then the extended partition at \<open>E\<close> with the logical partitions \<open>ls\<close>, if there are
  any, then unused entries.\<close>

definition mbr :: "(u32 \<Rightarrow> bytes) \<Rightarrow> (u32 \<times> u32) list \<Rightarrow> u32 \<Rightarrow> (u32 \<times> u32) list \<Rightarrow> bool" where
  "mbr d ps E ls \<longleftrightarrow> (let t = partition_table (d 0); k = length ps in
     k \<le> 3 \<and> (\<forall>i < k. fs_type (t ! i) \<noteq> 0 \<and> fs_type (t ! i) \<noteq> 5 \<and> ps ! i = (pte_start_lba (t ! i), pte_sec_cnt (t ! i))) \<and>
     (\<forall>i \<in> {Suc k..<4}. fs_type (t ! i) = 0) \<and>
     (if ls = [] then fs_type (t ! k) = 0 else fs_type (t ! k) = 5 \<and> pte_start_lba (t ! k) = E \<and> ebr_chain d E E ls))"

section \<open>The driver between two sectors\<close>

definition scan_ready :: "('d \<Rightarrow> dev_view) \<Rightarrow> nat \<Rightarrow> 'd ides \<Rightarrow> bool" where
  "scan_ready view dk s \<longleftrightarrow> chan_ready view (my_channel dk) s \<and> lock_ready (my_channel dk) s \<and>
     sects (view (device s)) = disks s \<and> in_kernel s \<and> distinct (heap s) \<and> (\<forall>b \<in> set (heap s). b \<noteq> 0 \<and> K_HEAP_START \<le> b)"

lemma ides_fields [simp]:
  "channels (set_heap h s) = channels s" "device (set_heap h s) = device s" "semas (set_heap h s) = semas s"
  "locks (set_heap h s) = locks s" "l_no (set_heap h s) = l_no s" "p_no (set_heap h s) = p_no s"
  "ext_lba_base (set_heap h s) = ext_lba_base s"
  by (simp_all add: set_heap_def)

lemma moved_more [simp]:
  "parts (moved c d s) = parts s" "partition_list (moved c d s) = partition_list s" "heap (moved c d s) = heap s"
  "in_kernel (moved c d s) = in_kernel s" "l_no (moved c d s) = l_no s" "p_no (moved c d s) = p_no s"
  "ext_lba_base (moved c d s) = ext_lba_base s"
  by (simp_all add: moved_def upd_chan_def heap_def in_kernel_def)

lemma set_partition_fields [simp]:
  "channels (set_partition p a c n s) = channels s" "device (set_partition p a c n s) = device s"
  "semas (set_partition p a c n s) = semas s" "locks (set_partition p a c n s) = locks s"
  "running_thread (set_partition p a c n s) = running_thread s" "disks (set_partition p a c n s) = disks s"
  "heap (set_partition p a c n s) = heap s" "in_kernel (set_partition p a c n s) = in_kernel s"
  "l_no (set_partition p a c n s) = l_no s" "p_no (set_partition p a c n s) = p_no s"
  "ext_lba_base (set_partition p a c n s) = ext_lba_base s"
  by (simp_all add: set_partition_def Let_def upd_part_def heap_def in_kernel_def)

lemma scan_counters [simp]:
  "heap (s\<lparr>l_no := x\<rparr>) = heap s" "in_kernel (s\<lparr>l_no := x\<rparr>) = in_kernel s" "heap (s\<lparr>p_no := x\<rparr>) = heap s"
  "in_kernel (s\<lparr>p_no := x\<rparr>) = in_kernel s" "heap (s\<lparr>ext_lba_base := y\<rparr>) = heap s" "in_kernel (s\<lparr>ext_lba_base := y\<rparr>) = in_kernel s"
  by (simp_all add: heap_def in_kernel_def)

lemma scan_ready_steps [simp]:
  "scan_ready view dk (set_partition p a c n s) = scan_ready view dk s" "scan_ready view dk (s\<lparr>l_no := x\<rparr>) = scan_ready view dk s"
  "scan_ready view dk (s\<lparr>p_no := x\<rparr>) = scan_ready view dk s" "scan_ready view dk (s\<lparr>ext_lba_base := y\<rparr>) = scan_ready view dk s"
  by (simp_all add: scan_ready_def chan_ready_def lock_ready_def)

lemma scan_ready_heap:
  "scan_ready view dk s \<Longrightarrow> distinct h \<Longrightarrow> \<forall>b \<in> set h. b \<noteq> 0 \<and> K_HEAP_START \<le> b \<Longrightarrow> scan_ready view dk (set_heap h s)"
  by (simp add: scan_ready_def chan_ready_def lock_ready_def)

lemma read_boot_sector:
  assumes "ata_device io view" and "scan_ready view dk s" and "lba \<le> max_lba"
  obtains d where "ide_read io dk lba 1 s = Inr (disks s dk lba, moved (my_channel dk) d s)" "scan_ready view dk (moved (my_channel dk) d s)"
proof -
  note r = assms(2)[unfolded scan_ready_def]
  from ide_read_ata [OF assms(1), of dk s lba 1] r obtain d where
    d: "ide_read io dk lba 1 s = Inr (disks s dk lba, moved (my_channel dk) d s)" "sects (view d) = disks s"
      "chan_ready view (my_channel dk) (moved (my_channel dk) d s)"
    by (auto simp: disk_read_1 [OF assms(3)])
  have "lock_ready (my_channel dk) (moved (my_channel dk) d s)" using r by (simp add: lock_ready_def)
  with d r have "scan_ready view dk (moved (my_channel dk) d s)" by (simp add: scan_ready_def)
  with d(1) show ?thesis by (rule that)
qed

section \<open>Partitions entered\<close>

text \<open>From \<open>s\<close> to \<open>s'\<close> the partitions \<open>ps\<close> of disk \<open>dk\<close> were entered from index \<open>k\<close> on, at the end of the list, and nothing else.\<close>

definition entered :: "nat \<Rightarrow> nat \<Rightarrow> u32 \<times> u32 \<Rightarrow> partition \<Rightarrow> partition" where
  "entered dk k p q = q\<lparr>start_lba := fst p, sec_cnt := snd p, my_disk := dk,
     part_name := patch (part_name q) 0 (disk_name dk @ part_suffix (Suc k))\<rparr>"

definition scanned :: "nat \<Rightarrow> nat \<Rightarrow> (u32 \<times> u32) list \<Rightarrow> 'd ides \<Rightarrow> 'd ides \<Rightarrow> bool" where
  "scanned dk k ps s s' \<longleftrightarrow> partition_list s' = partition_list s @ map (Pair dk) [k..<k + length ps] \<and>
     (\<forall>i < length ps. parts s' (dk, k + i) = entered dk (k + i) (ps ! i) (parts s (dk, k + i))) \<and>
     (\<forall>p. p \<notin> Pair dk ` {k..<k + length ps} \<longrightarrow> parts s' p = parts s p) \<and> disks s' = disks s"

lemma scanned_refl: "partition_list s' = partition_list s \<Longrightarrow> parts s' = parts s \<Longrightarrow> disks s' = disks s \<Longrightarrow> scanned dk k [] s s'"
  by (simp add: scanned_def)

lemma scanned_one:
  "parts s' = parts (set_partition (dk, k) a c (Suc k) s) \<Longrightarrow> partition_list s' = partition_list (set_partition (dk, k) a c (Suc k) s) \<Longrightarrow>
   disks s' = disks s \<Longrightarrow> scanned dk k [(a, c)] s s'"
  by (auto simp: scanned_def set_partition_def Let_def upd_part_def entered_def)

lemma scanned_trans:
  assumes "scanned dk k ps s s1" and "scanned dk (k + length ps) qs s1 s2"
  shows "scanned dk k (ps @ qs) s s2"
proof -
  have "parts s2 (dk, k + i) = entered dk (k + i) ((ps @ qs) ! i) (parts s (dk, k + i))" if i: "i < length ps + length qs" for i
  proof (cases "i < length ps")
    case True
    then have "(dk, k + i) \<notin> Pair dk ` {k + length ps..<k + length ps + length qs}" by auto
    then have "parts s2 (dk, k + i) = parts s1 (dk, k + i)" using assms(2) by (metis scanned_def)
    then show ?thesis using True assms(1) by (simp add: scanned_def nth_append)
  next
    case False
    then obtain j where j: "i = length ps + j" "j < length qs" using i by (metis add_less_cancel_left le_Suc_ex not_less)
    have "(dk, k + i) \<notin> Pair dk ` {k..<k + length ps}" using False by auto
    then have "parts s1 (dk, k + i) = parts s (dk, k + i)" using assms(1) by (metis scanned_def)
    then show ?thesis using j assms(2) by (simp add: scanned_def nth_append add.assoc)
  qed
  moreover have "parts s2 p = parts s p" if "p \<notin> Pair dk ` {k..<k + length (ps @ qs)}" for p
  proof -
    have "p \<notin> Pair dk ` {k..<k + length ps}" "p \<notin> Pair dk ` {k + length ps..<k + length ps + length qs}" using that by auto
    then show ?thesis using assms by (metis scanned_def)
  qed
  moreover have "[k..<k + length (ps @ qs)] = [k..<k + length ps] @ [k + length ps..<k + length ps + length qs]"
    by (metis add.assoc le_add1 length_append upt_add_eq_append)
  ultimately show ?thesis using assms by (simp add: scanned_def)
qed

lemma scanned_start: "scanned dk k ps s0 s' \<Longrightarrow> parts s = parts s0 \<Longrightarrow> partition_list s = partition_list s0 \<Longrightarrow> disks s = disks s0 \<Longrightarrow> scanned dk k ps s s'"
  by (simp add: scanned_def)

lemma scanned_end: "scanned dk k ps s s0 \<Longrightarrow> parts s' = parts s0 \<Longrightarrow> partition_list s' = partition_list s0 \<Longrightarrow> disks s' = disks s0 \<Longrightarrow> scanned dk k ps s s'"
  by (simp add: scanned_def)

lemma partition_table_4: "partition_table b = [partition_table b ! 0, partition_table b ! 1, partition_table b ! 2, partition_table b ! 3]"
  by (rule nth_equalityI) (auto simp: partition_table_def less_Suc_eq numeral_eq_Suc)

lemma scan_unused: "fs_type p = 0 \<Longrightarrow> scan_entries io n dk lba (p # ps) s = scan_entries io n dk lba ps s"
  by simp

section \<open>The chain of extended boot records\<close>

lemma l_no_succ: "unat (x :: u8) < 7 \<Longrightarrow> unat (x + 1) = Suc (unat x) \<and> \<not> x + 1 \<ge> 8 \<and> x < 8"
  by (simp add: word_less_nat_alt word_le_nat_alt unat_word_ariths)

lemma scan_logical:
  assumes "fs_type p \<noteq> 0" and "fs_type p \<noteq> 5" and "lba \<noteq> 0" and "unat (l_no s) < 7"
  shows "scan_entries io n dk lba (p # ps) s = scan_entries io n dk lba ps
    ((set_partition (dk, 4 + unat (l_no s)) (lba + pte_start_lba p) (pte_sec_cnt p) (unat (l_no s) + 5) s)\<lparr>l_no := l_no s + 1\<rparr>)"
  using assms l_no_succ [of "l_no s"] by (simp add: Let_def)

text \<open>A scan takes a sector from the heap and gives it back behind the others.\<close>

lemma scan_frame:
  assumes "scan_ready view dk s" and "heap s = b # h" and "scan_ready view dk s1" and "set (heap s1) = set h"
  shows "fs_free b s1 = Inr (set_heap (heap s1 @ [b]) s1)" and "scan_ready view dk (set_heap (heap s1 @ [b]) s1)"
    and "set (heap (set_heap (heap s1 @ [b]) s1)) = set (heap s)"
proof -
  have b: "b \<noteq> 0" "K_HEAP_START \<le> b" "b \<notin> set h" using assms(1,2) by (auto simp: scan_ready_def)
  with assms(4) show "fs_free b s1 = Inr (set_heap (heap s1 @ [b]) s1)" by (intro fs_free_ok) auto
  have "distinct (heap s1 @ [b])" "\<forall>x \<in> set (heap s1 @ [b]). x \<noteq> 0 \<and> K_HEAP_START \<le> x"
    using assms(3,4) b by (auto simp: scan_ready_def)
  then show "scan_ready view dk (set_heap (heap s1 @ [b]) s1)" by (rule scan_ready_heap [OF assms(3)])
  show "set (heap (set_heap (heap s1 @ [b]) s1)) = set (heap s)" using assms(2,4) by simp
qed

lemma scan_chain:
  assumes "ata_device io view"
  shows "scan_ready view dk s \<Longrightarrow> ebr_chain (disks s dk) E lba ls \<Longrightarrow> ext_lba_base s = E \<Longrightarrow> E \<noteq> 0 \<Longrightarrow>
    unat (l_no s) + length ls < 8 \<Longrightarrow> length ls \<le> length (heap s) \<Longrightarrow> length ls \<le> n \<Longrightarrow>
    \<exists>s'. partition_scan io n dk lba s = Inr s' \<and> scanned dk (4 + unat (l_no s)) ls s s' \<and> scan_ready view dk s' \<and>
      set (heap s') = set (heap s)"
proof (induction ls arbitrary: lba s n)
  case (Cons p ps)
  obtain m where n: "n = Suc m" using Cons.prems(7) by (cases n) auto
  obtain b h where h: "heap s = b # h" using Cons.prems(6) by (cases "heap s") auto
  define s0 where "s0 = set_heap h s"
  have r0: "scan_ready view dk s0"
    unfolding s0_def using Cons.prems(1) h by (intro scan_ready_heap) (auto simp: scan_ready_def)
  have lba: "lba \<noteq> 0" "lba \<le> max_lba" using Cons.prems(2) by (auto simp: Let_def)
  obtain d where d: "ide_read io dk lba 1 s0 = Inr (disks s dk lba, moved (my_channel dk) d s0)" "scan_ready view dk (moved (my_channel dk) d s0)"
    using read_boot_sector [OF assms r0 lba(2)] by (auto simp: s0_def)
  let ?t = "partition_table (disks s dk lba)" and ?k = "unat (l_no s)"
  define s1 where "s1 = (set_partition (dk, 4 + ?k) (fst p) (snd p) (?k + 5) (moved (my_channel dk) d s0))\<lparr>l_no := l_no s + 1\<rparr>"
  have p: "p = (lba + pte_start_lba (?t ! 0), pte_sec_cnt (?t ! 0))" using Cons.prems(2) by (simp add: Let_def)
  have k: "?k < 7" using Cons.prems(5) by simp
  have r1: "scan_ready view dk s1" "heap s1 = h" "disks s1 = disks s" "ext_lba_base s1 = E" "unat (l_no s1) = Suc ?k"
    using d(2) Cons.prems(3) l_no_succ [OF k] by (simp_all add: s1_def s0_def)
  have one: "scanned dk (4 + ?k) [p] s s1"
    by (cases p) (auto intro!: scanned_one simp: s1_def s0_def set_partition_def Let_def upd_part_def add.commute)
  have first: "scan_entries io m dk lba ?t (moved (my_channel dk) d s0) = scan_entries io m dk lba [?t ! 1, ?t ! 2, ?t ! 3] s1"
  proof -
    have "scan_entries io m dk lba (?t ! 0 # [?t ! 1, ?t ! 2, ?t ! 3]) (moved (my_channel dk) d s0) =
        scan_entries io m dk lba [?t ! 1, ?t ! 2, ?t ! 3] s1"
      using Cons.prems(2) k lba(1) p by (subst scan_logical) (simp_all add: Let_def s1_def s0_def)
    then show ?thesis by (subst partition_table_4)
  qed
  have rest: "scan_entries io m dk lba [?t ! 2, ?t ! 3] x = Inr (True, x)" for x
    using Cons.prems(2) by (simp add: Let_def)
  have scan: "partition_scan io n dk lba s = bnd (scan_entries io m dk lba [?t ! 1, ?t ! 2, ?t ! 3] s1) (\<lambda>(ended, s). if ended then fs_free b s else Inr s)"
    using h Cons.prems(1) d(1) first by (simp add: n scan_ready_def s0_def [symmetric])
  show ?case
  proof (cases "ps = []")
    case True
    then have "scan_entries io m dk lba [?t ! 1, ?t ! 2, ?t ! 3] s1 = Inr (True, s1)"
      using Cons.prems(2) rest by (simp add: Let_def)
    moreover note f = scan_frame [OF Cons.prems(1) h r1(1)]
    ultimately have "partition_scan io n dk lba s = Inr (set_heap (heap s1 @ [b]) s1)" using scan r1(2) by simp
    moreover have "scanned dk (4 + ?k) (p # ps) s (set_heap (heap s1 @ [b]) s1)"
      using True by (intro scanned_end [OF one [folded True]]) simp_all
    ultimately show ?thesis using f r1(2) by auto
  next
    case False
    have c: "fs_type (?t ! 1) = 5" "ebr_chain (disks s1 dk) E (pte_start_lba (?t ! 1) + E) ps"
      using Cons.prems(2) False r1(3) by (auto simp: Let_def)
    obtain s2 where s2: "partition_scan io m dk (pte_start_lba (?t ! 1) + E) s1 = Inr s2" "scanned dk (4 + unat (l_no s1)) ps s1 s2"
      "scan_ready view dk s2" "set (heap s2) = set (heap s1)"
      using Cons.IH [OF r1(1) c(2) r1(4) Cons.prems(4), of m] Cons.prems(5-7) r1(2,5) h n by auto
    have "scan_entries io m dk lba [?t ! 1, ?t ! 2, ?t ! 3] s1 = Inr (True, s2)"
      using c(1) Cons.prems(4) s2(1) r1(4) rest by simp
    moreover note f = scan_frame [OF Cons.prems(1) h s2(3)]
    ultimately have "partition_scan io n dk lba s = Inr (set_heap (heap s2 @ [b]) s2)" using scan s2(4) r1(2) by simp
    moreover have "scanned dk (4 + ?k) ([p] @ ps) s s2"
      using s2(2) r1(5) by (intro scanned_trans [OF one]) simp
    then have all: "scanned dk (4 + ?k) (p # ps) s s2" by simp
    have "scanned dk (4 + ?k) (p # ps) s (set_heap (heap s2 @ [b]) s2)" by (rule scanned_end [OF all]) simp_all
    ultimately show ?thesis using f s2(4) r1(2) by auto
  qed
qed simp

section \<open>The master boot record\<close>

lemma p_no_succ: "unat (x :: u8) < 3 \<Longrightarrow> unat (x + 1) = Suc (unat x) \<and> x + 1 < 4 \<and> x < 4"
  by (simp add: word_less_nat_alt unat_word_ariths)

lemma scan_primary:
  assumes "fs_type p \<noteq> 0" and "fs_type p \<noteq> 5" and "unat (p_no s) < 3"
  shows "scan_entries io n dk 0 (p # ps) s = scan_entries io n dk 0 ps
    ((set_partition (dk, unat (p_no s)) (pte_start_lba p) (pte_sec_cnt p) (Suc (unat (p_no s))) s)\<lparr>p_no := p_no s + 1\<rparr>)"
  using assms p_no_succ [of "p_no s"] by (simp add: Let_def)

lemma scan_primaries:
  "\<forall>e \<in> set es. fs_type e \<noteq> 0 \<and> fs_type e \<noteq> 5 \<Longrightarrow> unat (p_no s) + length es \<le> 3 \<Longrightarrow> scan_ready view dk s \<Longrightarrow>
   \<exists>s'. scan_entries io n dk 0 (es @ rest) s = scan_entries io n dk 0 rest s' \<and> scan_ready view dk s' \<and> heap s' = heap s \<and>
     ext_lba_base s' = ext_lba_base s \<and> l_no s' = l_no s \<and>
     scanned dk (unat (p_no s)) (map (\<lambda>e. (pte_start_lba e, pte_sec_cnt e)) es) s s'"
proof (induction es arbitrary: s)
  case Nil
  then show ?case by (auto intro: scanned_refl)
next
  case (Cons e es)
  define s1 where "s1 = (set_partition (dk, unat (p_no s)) (pte_start_lba e) (pte_sec_cnt e) (Suc (unat (p_no s))) s)\<lparr>p_no := p_no s + 1\<rparr>"
  have k: "unat (p_no s) < 3" using Cons.prems(2) by simp
  have u: "unat (p_no s1) = Suc (unat (p_no s))" using p_no_succ [OF k] by (simp add: s1_def)
  have one: "scanned dk (unat (p_no s)) [(pte_start_lba e, pte_sec_cnt e)] s s1"
    by (rule scanned_one) (simp_all add: s1_def)
  obtain s' where s': "scan_entries io n dk 0 (es @ rest) s1 = scan_entries io n dk 0 rest s'" "scan_ready view dk s'" "heap s' = heap s1"
    "ext_lba_base s' = ext_lba_base s1" "l_no s' = l_no s1" "scanned dk (Suc (unat (p_no s))) (map (\<lambda>e. (pte_start_lba e, pte_sec_cnt e)) es) s1 s'"
    using Cons.IH [of s1] Cons.prems u by (auto simp: s1_def)
  have "scan_entries io n dk 0 (e # (es @ rest)) s = scan_entries io n dk 0 (es @ rest) s1"
    unfolding s1_def using Cons.prems(1) k by (intro scan_primary) simp_all
  then have "scan_entries io n dk 0 ((e # es) @ rest) s = scan_entries io n dk 0 rest s'" using s'(1) by simp
  moreover have "scanned dk (unat (p_no s)) ([(pte_start_lba e, pte_sec_cnt e)] @ map (\<lambda>e. (pte_start_lba e, pte_sec_cnt e)) es) s s'"
    using s'(6) by (intro scanned_trans [OF one]) simp
  ultimately show ?case using s'(2-5) by (auto simp: s1_def)
qed

lemma scan_unused_all: "\<forall>e \<in> set es. fs_type e = 0 \<Longrightarrow> scan_entries io n dk lba es s = Inr (True, s)"
  by (induction es) simp_all

text \<open>What is entered for a disk: primary partitions from index 0 on, logical ones from index 4 on.\<close>

definition found :: "nat \<Rightarrow> (u32 \<times> u32) list \<Rightarrow> (u32 \<times> u32) list \<Rightarrow> 'd ides \<Rightarrow> 'd ides \<Rightarrow> bool" where
  "found dk ps ls s s' \<longleftrightarrow> partition_list s' = partition_list s @ map (Pair dk) ([0..<length ps] @ [4..<4 + length ls]) \<and>
     (\<forall>i < length ps. parts s' (dk, i) = entered dk i (ps ! i) (parts s (dk, i))) \<and>
     (\<forall>i < length ls. parts s' (dk, 4 + i) = entered dk (4 + i) (ls ! i) (parts s (dk, 4 + i))) \<and>
     (\<forall>p. p \<notin> Pair dk ` ({0..<length ps} \<union> {4..<4 + length ls}) \<longrightarrow> parts s' p = parts s p)"

lemma found_scanned:
  assumes "scanned dk 0 ps s s1" and "scanned dk 4 ls s1 s2" and "length ps \<le> 3"
  shows "found dk ps ls s s2"
proof -
  have "parts s2 (dk, i) = entered dk i (ps ! i) (parts s (dk, i))" if "i < length ps" for i
  proof -
    have "(dk, i) \<notin> Pair dk ` {4..<4 + length ls}" using that assms(3) by auto
    then have "parts s2 (dk, i) = parts s1 (dk, i)" using assms(2) by (metis scanned_def)
    then show ?thesis using that assms(1) by (simp add: scanned_def)
  qed
  moreover have "parts s2 (dk, 4 + i) = entered dk (4 + i) (ls ! i) (parts s (dk, 4 + i))" if "i < length ls" for i
  proof -
    have "(dk, 4 + i) \<notin> Pair dk ` {0..<0 + length ps}" using assms(3) by auto
    then have "parts s1 (dk, 4 + i) = parts s (dk, 4 + i)" using assms(1) by (metis scanned_def)
    then show ?thesis using that assms(2) by (simp add: scanned_def)
  qed
  moreover have "parts s2 p = parts s p" if "p \<notin> Pair dk ` ({0..<length ps} \<union> {4..<4 + length ls})" for p
  proof -
    have "p \<notin> Pair dk ` {0..<0 + length ps}" "p \<notin> Pair dk ` {4..<4 + length ls}" using that by auto
    then show ?thesis using assms(1,2) by (metis scanned_def)
  qed
  ultimately show ?thesis using assms(1,2) by (simp add: found_def scanned_def)
qed

section \<open>Properties\<close>


section \<open>A concrete disk\<close>

text \<open>One primary partition and an extended one at sector 5000 with two logical partitions.\<close>

definition entry_bytes :: "u8 \<Rightarrow> u32 \<Rightarrow> u32 \<Rightarrow> bytes" where
  "entry_bytes t a c = [0, 0, 0, 0, t, 0, 0, 0] @ le32 a @ le32 c"

definition boot_record :: "bytes \<Rightarrow> bytes \<Rightarrow> bytes" where
  "boot_record e1 e2 = replicate 446 0 @ e1 @ e2 @ replicate 34 0"

lemma boot_record_table:
  "partition_table (boot_record (entry_bytes t1 a1 c1) (entry_bytes t2 a2 c2)) =
     [\<lparr>fs_type = t1, pte_start_lba = a1, pte_sec_cnt = c1\<rparr>, \<lparr>fs_type = t2, pte_start_lba = a2, pte_sec_cnt = c2\<rparr>,
      \<lparr>fs_type = 0, pte_start_lba = 0, pte_sec_cnt = 0\<rparr>, \<lparr>fs_type = 0, pte_start_lba = 0, pte_sec_cnt = 0\<rparr>]"
proof -
  have n: "[0..<4] = [0, 1, 2, 3]" by (simp add: upt_rec)
  have w: "rd32 ([0, 0, 0, 0, t, 0, 0, 0] @ le32 a @ le32 c @ xs) 8 = a" "rd32 ([0, 0, 0, 0, t, 0, 0, 0] @ le32 a @ le32 c @ xs) 12 = c"
    for t a c xs
    using rd32_append2 [of "[0, 0, 0, 0, t, 0, 0, 0]" 8 "le32 a @ le32 c @ xs"]
      rd32_append2 [of "[0, 0, 0, 0, t, 0, 0, 0] @ le32 a" 12 "le32 c @ xs"] by simp_all
  have z: "rd32 (replicate k 0) i = 0" if "i + 4 \<le> k" for k i
    using that by (simp add: rd32_def word_of_bytes_def)
  show ?thesis unfolding partition_table_def n boot_record_def entry_bytes_def
    using w [of t1 a1 c1] w [of t2 a2 c2] by (simp add: Let_def z)
qed

definition demo_parted :: "u32 \<Rightarrow> bytes" where
  "demo_parted = (\<lambda>_. replicate 512 0)(0 := boot_record (entry_bytes 0x83 63 4708) (entry_bytes 5 5000 4000),
     5000 := boot_record (entry_bytes 0x83 63 1000) (entry_bytes 5 2000 1000),
     7000 := boot_record (entry_bytes 0x83 63 900) (entry_bytes 0 0 0))"

definition demo_scan :: "dev_view ides" where
  "demo_scan = demo_ides\<lparr>disks := (disks demo_ides)(1 := demo_parted),
     device := (device demo_ides)\<lparr>sects := (disks demo_ides)(1 := demo_parted)\<rparr>,
     tasks := (\<lambda>_. demo_task\<lparr>pgdir := 0\<rparr>)\<rparr>"

lemma demo_mbr: "mbr demo_parted [(63, 4708)] 5000 [(5063, 1000), (7063, 900)]"
proof -
  have "{Suc (Suc 0)..<4} = {2, 3 :: nat}" by auto
  then show ?thesis by (simp add: mbr_def demo_parted_def boot_record_table Let_def max_lba_def)
qed


end
